(* ===== verification/Prelude.thy ===== *)
theory Prelude
  imports Main "HOL-Library.Word"
begin

text \<open>
  Shared vocabulary of the LimyeDB development: the Go machine types, the outcome of a Go
  call that may return an error or panic, checked slicing, in-place buffer writes, and the
  list lemmas the byte-level components have in common.
  The collections \<open>go_defs\<close> (definitions the component proofs unfold) and
  \<open>codec_simps\<close> (equations about encoders and decoders) are filled by the components.
\<close>

named_theorems go_defs "definitions unfolded by component proofs"
named_theorems codec_simps "equations about encoders and decoders"

section \<open>Machine types\<close>

type_synonym byte = "8 word"
type_synonym u16 = "16 word"
type_synonym u32 = "32 word"
type_synonym u64 = "64 word"

text \<open>
  Signed Go integers whose arithmetic cannot leave their range in the modelled code are
  \<open>int\<close>; the bounds below are those of package \<open>math\<close> on a 64-bit target.
\<close>

definition MaxUint16 :: int where
  "MaxUint16 = 65535"

definition MaxUint32 :: int where
  "MaxUint32 = 4294967295"

definition MaxInt32 :: int where
  "MaxInt32 = 2147483647"

definition MinInt32 :: int where
  "MinInt32 = -2147483648"

definition MaxInt64 :: int where
  "MaxInt64 = 9223372036854775807"

definition MinInt64 :: int where
  "MinInt64 = -9223372036854775808"

definition int64_range :: "int \<Rightarrow> bool" where
  "int64_range v \<longleftrightarrow> MinInt64 \<le> v \<and> v \<le> MaxInt64"

section \<open>Outcomes of Go calls\<close>

text \<open>
  A Go function that returns \<open>(T, error)\<close> and may also panic: a value, an error value, or
  the panic. A function that cannot panic returns a plain sum, with the error on the left.
\<close>

datatype ('e, 'a) outcome = Ok 'a | Err 'e | Panic

fun bind_outcome :: "('e, 'a) outcome \<Rightarrow> ('a \<Rightarrow> ('e, 'b) outcome) \<Rightarrow> ('e, 'b) outcome" where
  "bind_outcome (Ok x) f = f x"
| "bind_outcome (Err e) f = Err e"
| "bind_outcome Panic f = Panic"

fun of_option_panic :: "'a option \<Rightarrow> ('e, 'a) outcome" where
  "of_option_panic None = Panic"
| "of_option_panic (Some x) = Ok x"

section \<open>Slices\<close>

text \<open>
  The Go slice expression \<open>buf[a:b]\<close> on a slice whose capacity is its length: a panic
  (here \<open>None\<close>) when the bounds are out of range or out of order.
\<close>

definition go_slice :: "'a list \<Rightarrow> nat \<Rightarrow> nat \<Rightarrow> 'a list option" where
  "go_slice buf a b = (if a \<le> b \<and> b \<le> length buf then Some (take (b - a) (drop a buf)) else None)"

definition go_index :: "'a list \<Rightarrow> nat \<Rightarrow> 'a option" where
  "go_index buf i = (if i < length buf then Some (buf ! i) else None)"

text \<open>A write of \<open>bs\<close> at offset \<open>off\<close> of a buffer that is long enough (\<open>copy(buf[off:], bs)\<close>).\<close>

definition put_at :: "nat \<Rightarrow> 'a list \<Rightarrow> 'a list \<Rightarrow> 'a list" where
  "put_at off bs buf = take off buf @ bs @ drop (off + length bs) buf"

text \<open>The first \<open>k\<close> results, \<open>if len(xs) > k { xs = xs[:k] }\<close>: a negative bound panics.\<close>

definition top_k :: "int \<Rightarrow> 'a list \<Rightarrow> 'a list option" where
  "top_k k xs = (if int (length xs) > k then (if k < 0 then None else Some (take (nat k) xs)) else Some xs)"

section \<open>Maps as association lists\<close>

text \<open>A Go map in the order a loop visits it, and the assignment and deletion of a key.\<close>

definition map_set :: "'k \<Rightarrow> 'v \<Rightarrow> ('k \<times> 'v) list \<Rightarrow> ('k \<times> 'v) list" where
  "map_set k v m = (if k \<in> fst ` set m then map (\<lambda>(l, w). if l = k then (l, v) else (l, w)) m else m @ [(k, v)])"

definition map_del :: "'k \<Rightarrow> ('k \<times> 'v) list \<Rightarrow> ('k \<times> 'v) list" where
  "map_del k m = filter (\<lambda>(l, w). l \<noteq> k) m"

section \<open>Decimal digits\<close>

fun dec_digits :: "nat \<Rightarrow> nat list" where
  "dec_digits n = (if n < 10 then [n] else dec_digits (n div 10) @ [n mod 10])"

declare dec_digits.simps [simp del]

definition digit_char :: "nat \<Rightarrow> char" where
  "digit_char d = char_of (48 + d)"

definition show_int :: "int \<Rightarrow> string" where
  "show_int n = (if n < 0 then ''-'' else []) @ map digit_char (dec_digits (nat \<bar>n\<bar>))"

section \<open>Lemmas\<close>

lemma bind_outcome_eq_Ok [simp]:
  "bind_outcome x f = Ok y \<longleftrightarrow> (\<exists>z. x = Ok z \<and> f z = Ok y)"
  by (cases x) auto

lemma map_of_map_update:
  "map_of (map (\<lambda>(l, w). if l = k then (l, v) else (l, w)) m) x
    = (if x = k \<and> k \<in> fst ` set m then Some v else map_of m x)"
proof (induction m)
  case (Cons p m)
  obtain l w where "p = (l, w)" by (cases p)
  with Cons.IH show ?case by (cases "x = k"; cases "l = k") simp_all
qed simp

lemma map_of_map_set [simp]: "map_of (map_set k v m) = (map_of m)(k \<mapsto> v)"
proof
  fix x
  show "map_of (map_set k v m) x = ((map_of m)(k \<mapsto> v)) x"
  proof (cases "k \<in> fst ` set m")
    case True
    then show ?thesis by (simp add: map_set_def map_of_map_update)
  next
    case False
    then have "map_of m k = None" by (simp add: map_of_eq_None_iff)
    with False show ?thesis by (cases "map_of m x") (auto simp add: map_set_def map_add_def)
  qed
qed

lemma map_of_map_del [simp]: "map_of (map_del k m) = (map_of m)(k := None)"
  unfolding map_del_def by (induction m) auto

lemma keys_map_update: "map fst (map (\<lambda>(l, w). if l = k then (l, v) else (l, w)) m) = map fst m"
  by (induction m) auto

lemma keys_map_set [simp]: "fst ` set (map_set k v m) = insert k (fst ` set m)"
proof (cases "k \<in> fst ` set m")
  case True
  then have "map_set k v m = map (\<lambda>(l, w). if l = k then (l, v) else (l, w)) m" by (simp add: map_set_def)
  then have "map fst (map_set k v m) = map fst m" by (simp only: keys_map_update)
  then have "fst ` set (map_set k v m) = fst ` set m" by (metis list.set_map)
  with True show ?thesis by blast
next
  case False
  then show ?thesis by (simp add: map_set_def)
qed

lemma keys_map_del [simp]: "fst ` set (map_del k m) = fst ` set m - {k}"
  by (force simp: map_del_def)

lemma distinct_map_set [simp]: "distinct (map fst m) \<Longrightarrow> distinct (map fst (map_set k v m))"
proof (cases "k \<in> fst ` set m")
  case True
  then have "map_set k v m = map (\<lambda>(l, w). if l = k then (l, v) else (l, w)) m" by (simp add: map_set_def)
  then have "map fst (map_set k v m) = map fst m" by (simp only: keys_map_update)
  then show "distinct (map fst m) \<Longrightarrow> distinct (map fst (map_set k v m))" by simp
next
  case False
  then show "distinct (map fst m) \<Longrightarrow> distinct (map fst (map_set k v m))" by (simp add: map_set_def)
qed

lemma distinct_map_del [simp]: "distinct (map fst m) \<Longrightarrow> distinct (map fst (map_del k m))"
  unfolding map_del_def by (induction m) auto

lemma of_option_panic_eq_Ok [simp]: "of_option_panic x = Ok y \<longleftrightarrow> x = Some y"
  by (cases x) auto

lemma of_option_panic_not_Err [simp]: "of_option_panic x \<noteq> Err e"
  by (cases x) auto

lemma set_map_filter: "set (List.map_filter f xs) = {y. \<exists>x \<in> set xs. f x = Some y}"
  by (induction xs) (auto simp: List.map_filter_simps split: option.split)

lemma go_slice_append1 [codec_simps]:
  "b \<le> length xs \<Longrightarrow> go_slice (xs @ ys) a b = go_slice xs a b"
  by (auto simp: go_slice_def)

lemma go_slice_append2 [codec_simps]:
  "length xs \<le> a \<Longrightarrow> go_slice (xs @ ys) a b = (if a \<le> b then go_slice ys (a - length xs) (b - length xs) else None)"
  by (auto simp: go_slice_def le_diff_conv)

lemma go_slice_all: "go_slice xs 0 (length xs) = Some xs"
  by (simp add: go_slice_def)

lemma go_slice_length: "go_slice xs a b = Some ys \<Longrightarrow> length ys = b - a"
  by (auto simp: go_slice_def split: if_splits)

lemma length_put_at [simp]: "off + length bs \<le> length buf \<Longrightarrow> length (put_at off bs buf) = length buf"
  by (simp add: put_at_def)

text \<open>
  Filling a buffer from left to right: a write right behind an already written prefix
  consumes that much of the untouched remainder.
\<close>

lemma put_at_append [codec_simps]:
  "off = length xs \<Longrightarrow> length bs \<le> length ys \<Longrightarrow> put_at off bs (xs @ ys) = (xs @ bs) @ drop (length bs) ys"
  by (simp add: put_at_def)

lemma take_append_prefix: "n \<le> length xs \<Longrightarrow> take n (xs @ ys) = take n xs"
  by simp

lemma strict_prefix_length_take:
  "p = take n xs \<Longrightarrow> n < length xs \<Longrightarrow> length p = n"
  by simp

text \<open>The running maximum of a key over a list (\<open>if f x > m { m = f x }\<close>).\<close>

lemma foldl_max_start: "m \<le> foldl (\<lambda>m x. if f x > m then f x else m) (m :: 'b::linorder) xs"
proof (induction xs arbitrary: m)
  case (Cons x xs)
  have "m \<le> (if f x > m then f x else m)" by (simp add: order_less_imp_le)
  also have "\<dots> \<le> foldl (\<lambda>m x. if f x > m then f x else m) (if f x > m then f x else m) xs"
    by (rule Cons)
  finally show ?case by simp
qed simp

lemma foldl_max_elem:
  "y \<in> set xs \<Longrightarrow> f y \<le> foldl (\<lambda>m x. if f x > m then f x else m) (m :: 'b::linorder) xs"
proof (induction xs arbitrary: m)
  case (Cons x xs)
  have "f x \<le> (if f x > m then f x else m)" by (simp add: not_less)
  also have "\<dots> \<le> foldl (\<lambda>m x. if f x > m then f x else m) (if f x > m then f x else m) xs"
    by (rule foldl_max_start)
  finally show ?case using Cons by auto
qed simp

lemma dec_digits_value: "foldl (\<lambda>v d. 10 * v + d) 0 (dec_digits n) = n"
proof (induction n rule: dec_digits.induct)
  case (1 n)
  show ?case
  proof (cases "n < 10")
    case True
    then show ?thesis by (simp add: dec_digits.simps [of n])
  next
    case False
    with "1.IH" show ?thesis by (simp add: dec_digits.simps [of n])
  qed
qed

lemma dec_digits_bound: "d \<in> set (dec_digits n) \<Longrightarrow> d < 10"
proof (induction n arbitrary: d rule: dec_digits.induct)
  case (1 n)
  then show ?case by (cases "n < 10") (auto simp: dec_digits.simps [of n])
qed

section \<open>The key-value interface\<close>

text \<open>
  Several components keep a map from keys to values behind their own representation (the WAL
  directory, the alias table, the cache). Their clients rely on these laws only.
\<close>

locale kv_store =
  fixes get :: "'s \<Rightarrow> 'k \<Rightarrow> 'v option"
    and put :: "'k \<Rightarrow> 'v \<Rightarrow> 's \<Rightarrow> 's"
    and del :: "'k \<Rightarrow> 's \<Rightarrow> 's"
    and inv :: "'s \<Rightarrow> bool"
  assumes get_put: "inv s \<Longrightarrow> get (put k v s) k' = (if k' = k then Some v else get s k')"
    and get_del: "inv s \<Longrightarrow> get (del k s) k' = (if k' = k then None else get s k')"
    and inv_put: "inv s \<Longrightarrow> inv (put k v s)"
    and inv_del: "inv s \<Longrightarrow> inv (del k s)"
begin

lemma get_put_same: "inv s \<Longrightarrow> get (put k v s) k = Some v"
  by (simp add: get_put)

lemma get_put_other: "inv s \<Longrightarrow> k' \<noteq> k \<Longrightarrow> get (put k v s) k' = get s k'"
  by (simp add: get_put)

lemma fold_del:
  "inv s \<Longrightarrow> inv (fold del ks s) \<and> get (fold del ks s) k = (if k \<in> set ks then None else get s k)"
  by (induction ks arbitrary: s) (auto simp: inv_del get_del)

lemma put_put: "inv s \<Longrightarrow> get (put k v (put k u s)) = get (put k v s)"
  by (rule ext) (simp add: get_put inv_put)

end

end
