(* ===== verification/Bytes.thy ===== *)
theory Bytes
  imports Prelude
begin

text \<open>
  Little-endian integers as package \<open>encoding/binary\<close> writes and reads them
  (\<open>binary.LittleEndian.PutUint16/32/64\<close>, \<open>Uint16/32/64\<close>), sequential readers over a byte
  stream (\<open>binary.Read\<close>, \<open>io.ReadFull\<close>), and the interface every fixed-width codec of the
  program satisfies.
\<close>

section \<open>Little-endian integers\<close>

primrec le_bytes :: "nat \<Rightarrow> nat \<Rightarrow> byte list" where
  "le_bytes 0 x = []"
| "le_bytes (Suc n) x = word_of_nat x # le_bytes n (x div 256)"

primrec le_nat :: "byte list \<Rightarrow> nat" where
  "le_nat [] = 0"
| "le_nat (b # bs) = unat b + 256 * le_nat bs"

definition put_u16 :: "u16 \<Rightarrow> byte list" where
  "put_u16 w = le_bytes 2 (unat w)"

definition put_u32 :: "u32 \<Rightarrow> byte list" where
  "put_u32 w = le_bytes 4 (unat w)"

definition put_u64 :: "u64 \<Rightarrow> byte list" where
  "put_u64 w = le_bytes 8 (unat w)"

definition get_u16 :: "byte list \<Rightarrow> u16" where
  "get_u16 bs = word_of_nat (le_nat (take 2 bs))"

definition get_u32 :: "byte list \<Rightarrow> u32" where
  "get_u32 bs = word_of_nat (le_nat (take 4 bs))"

definition get_u64 :: "byte list \<Rightarrow> u64" where
  "get_u64 bs = word_of_nat (le_nat (take 8 bs))"

section \<open>Sequential reads\<close>

text \<open>
  \<open>io.ReadFull(r, buf)\<close> with \<open>n = len(buf)\<close>: nothing to read succeeds, no byte available is
  \<open>io.EOF\<close>, some but not enough is \<open>io.ErrUnexpectedEOF\<close>.
\<close>

datatype io_error = EOF | UnexpectedEOF

definition read_full :: "nat \<Rightarrow> byte list \<Rightarrow> io_error + (byte list \<times> byte list)" where
  "read_full n s =
     (if n \<le> length s then Inr (take n s, drop n s)
      else if s = [] then Inl EOF
      else Inl UnexpectedEOF)"

definition read_u16 :: "byte list \<Rightarrow> io_error + (u16 \<times> byte list)" where
  "read_u16 s = (case read_full 2 s of Inl e \<Rightarrow> Inl e | Inr (b, s') \<Rightarrow> Inr (get_u16 b, s'))"

definition read_u32 :: "byte list \<Rightarrow> io_error + (u32 \<times> byte list)" where
  "read_u32 s = (case read_full 4 s of Inl e \<Rightarrow> Inl e | Inr (b, s') \<Rightarrow> Inr (get_u32 b, s'))"

definition read_u64 :: "byte list \<Rightarrow> io_error + (u64 \<times> byte list)" where
  "read_u64 s = (case read_full 8 s of Inl e \<Rightarrow> Inl e | Inr (b, s') \<Rightarrow> Inr (get_u64 b, s'))"

text \<open>A loop that reads \<open>n\<close> items one after the other and stops at the first error.\<close>

primrec read_many :: "(byte list \<Rightarrow> io_error + ('a \<times> byte list)) \<Rightarrow> nat \<Rightarrow> byte list
    \<Rightarrow> io_error + ('a list \<times> byte list)" where
  "read_many rd 0 s = Inr ([], s)"
| "read_many rd (Suc n) s =
     (case rd s of Inl e \<Rightarrow> Inl e
      | Inr (x, s') \<Rightarrow> (case read_many rd n s' of Inl e \<Rightarrow> Inl e
                       | Inr (xs, s'') \<Rightarrow> Inr (x # xs, s'')))"

section \<open>The codec interface\<close>

text \<open>
  What a client of a sequential codec relies on: reading what was written gives the value
  back and leaves the rest of the stream, and what was written is not empty.
\<close>

locale seq_codec =
  fixes wr :: "'a \<Rightarrow> byte list"
    and rd :: "byte list \<Rightarrow> io_error + ('a \<times> byte list)"
    and ok :: "'a \<Rightarrow> bool"
  assumes rd_wr: "ok x \<Longrightarrow> rd (wr x @ s) = Inr (x, s)"
begin

lemma read_many_wr:
  "\<forall>x \<in> set xs. ok x \<Longrightarrow> read_many rd (length xs) (concat (map wr xs) @ s) = Inr (xs, s)"
  by (induction xs) (simp_all add: rd_wr)

lemma wr_inj: "ok x \<Longrightarrow> ok y \<Longrightarrow> wr x = wr y \<Longrightarrow> x = y"
  by (metis rd_wr sum.inject(2) prod.inject)

lemma wr_prefix_free: "ok x \<Longrightarrow> ok y \<Longrightarrow> wr x @ s = wr y @ t \<Longrightarrow> x = y \<and> s = t"
  by (metis rd_wr sum.inject(2) prod.inject)

end

section \<open>Lemmas\<close>

lemma length_le_bytes [simp]: "length (le_bytes n x) = n"
  by (induction n arbitrary: x) auto

lemma le_nat_le_bytes: "le_nat (le_bytes n x) = x mod 256 ^ n"
proof (induction n arbitrary: x)
  case 0
  then show ?case by simp
next
  case (Suc n)
  have "x mod (256 * 256 ^ n) = 256 * (x div 256 mod 256 ^ n) + x mod 256"
    by (rule mod_mult2_eq)
  with Suc.IH [of "x div 256"] show ?case
    by (simp add: unat_of_nat take_bit_eq_mod)
qed

lemma le_nat_bound: "le_nat bs < 256 ^ length bs"
proof (induction bs)
  case Nil
  then show ?case by simp
next
  case (Cons b bs)
  have "unat b < 256" using unsigned_less [where 'a = nat, of b] by simp
  with Cons show ?case by simp
qed

lemma le_nat_inj: "length a = length b \<Longrightarrow> le_nat a = le_nat b \<Longrightarrow> a = b"
proof (induction a b rule: list_induct2)
  case Nil
  then show ?case by simp
next
  case (Cons x xs y ys)
  have x: "unat x < 256" and y: "unat y < 256"
    using unsigned_less [where 'a = nat, of x] unsigned_less [where 'a = nat, of y] by simp_all
  have eq: "unat x + 256 * le_nat xs = unat y + 256 * le_nat ys" using Cons.prems by simp
  from arg_cong [OF eq, of "\<lambda>v. v mod 256"] x y have "unat x = unat y" by simp
  moreover from arg_cong [OF eq, of "\<lambda>v. v div 256"] x y have "le_nat xs = le_nat ys" by simp
  ultimately have "unat x = unat y \<and> le_nat xs = le_nat ys" by simp
  with Cons.IH show ?case by (simp add: word_unat_eq_iff)
qed

lemma length_put [simp]:
  "length (put_u16 a) = 2" "length (put_u32 b) = 4" "length (put_u64 c) = 8"
  by (simp_all add: put_u16_def put_u32_def put_u64_def)

lemma put_nonempty [simp]: "put_u16 a \<noteq> []" "put_u32 b \<noteq> []" "put_u64 c \<noteq> []"
  by (metis length_put list.size(3) zero_neq_numeral)+

lemma get_put_u16 [simp]: "get_u16 (put_u16 w @ s) = w"
proof -
  have "unat w < 65536" using unsigned_less [where 'a = nat, of w] by simp
  then show ?thesis by (simp add: get_u16_def put_u16_def le_nat_le_bytes)
qed

lemma get_put_u32 [simp]: "get_u32 (put_u32 w @ s) = w"
proof -
  have "unat w < 4294967296" using unsigned_less [where 'a = nat, of w] by simp
  then show ?thesis by (simp add: get_u32_def put_u32_def le_nat_le_bytes)
qed

lemma get_put_u64 [simp]: "get_u64 (put_u64 w @ s) = w"
proof -
  have "unat w < 18446744073709551616" using unsigned_less [where 'a = nat, of w] by simp
  then show ?thesis by (simp add: get_u64_def put_u64_def le_nat_le_bytes)
qed

lemmas get_put [simp] =
  get_put_u16 [of _ "[]", simplified] get_put_u32 [of _ "[]", simplified] get_put_u64 [of _ "[]", simplified]

lemma read_full_append [codec_simps]:
  "n = length xs \<Longrightarrow> read_full n (xs @ s) = Inr (xs, s)"
  by (simp add: read_full_def)

lemma read_full_short: "length s < n \<Longrightarrow> read_full n s = Inl (if s = [] then EOF else UnexpectedEOF)"
  by (simp add: read_full_def)

lemma read_u16_put [codec_simps]: "read_u16 (put_u16 w @ s) = Inr (w, s)"
  by (simp add: read_u16_def codec_simps)

lemma read_u32_put [codec_simps]: "read_u32 (put_u32 w @ s) = Inr (w, s)"
  by (simp add: read_u32_def codec_simps)

lemma read_u64_put [codec_simps]: "read_u64 (put_u64 w @ s) = Inr (w, s)"
  by (simp add: read_u64_def codec_simps)

lemma get_u32_inj:
  assumes "length a = 4" and "length b = 4" and "get_u32 a = get_u32 b"
  shows "a = b"
proof -
  have "le_nat a < 2 ^ 32" and "le_nat b < 2 ^ 32"
    using assms le_nat_bound [of a] le_nat_bound [of b] by simp_all
  with assms have "le_nat a = le_nat b"
    by (simp add: get_u32_def word_unat_eq_iff unat_of_nat take_bit_nat_eq_self)
  with assms show ?thesis by (simp add: le_nat_inj)
qed

interpretation c16: seq_codec put_u16 read_u16 "\<lambda>_. True"
  by unfold_locales (simp add: read_u16_put)

interpretation c32: seq_codec put_u32 read_u32 "\<lambda>_. True"
  by unfold_locales (simp add: read_u32_put)

interpretation c64: seq_codec put_u64 read_u64 "\<lambda>_. True"
  by unfold_locales (simp add: read_u64_put)

lemma concat_put_u32_length [simp]: "length (concat (map put_u32 xs)) = 4 * length xs"
  by (induction xs) auto

end
