(* ===== verification/Casts.thy ===== *)
theory Casts
  imports Prelude
begin

text \<open>
  Package \<open>internal/safecasts\<close>: every checked integer conversion and its clamping variant, on
  a 64-bit target (\<open>int\<close> is 64 bits wide). A Go \<open>int\<close> or \<open>int64\<close> argument is an \<open>int\<close> (in
  \<open>int64_range\<close> when it comes from the program); a result of a fixed width is a word, read
  with \<open>uint\<close> when its Go type is unsigned and with \<open>sint\<close> when it is signed.
\<close>

datatype cast_error = ErrOverflow

section \<open>The conversions\<close>

definition IntToUint32 :: "int \<Rightarrow> cast_error + u32" where
  "IntToUint32 v = (if v < 0 \<or> v > MaxUint32 then Inl ErrOverflow else Inr (word_of_int v))"

definition IntToUint32Safe :: "int \<Rightarrow> u32" where
  "IntToUint32Safe v = (if v < 0 \<or> v > MaxUint32 then 0 else word_of_int v)"

definition IntToUint16 :: "int \<Rightarrow> cast_error + u16" where
  "IntToUint16 v = (if v < 0 \<or> v > MaxUint16 then Inl ErrOverflow else Inr (word_of_int v))"

definition IntToUint16Safe :: "int \<Rightarrow> u16" where
  "IntToUint16Safe v = (if v < 0 \<or> v > MaxUint16 then 0 else word_of_int v)"

definition IntToInt32 :: "int \<Rightarrow> cast_error + u32" where
  "IntToInt32 v = (if v < MinInt32 \<or> v > MaxInt32 then Inl ErrOverflow else Inr (word_of_int v))"

definition IntToInt32Safe :: "int \<Rightarrow> u32" where
  "IntToInt32Safe v =
     (if v < MinInt32 then word_of_int MinInt32
      else if v > MaxInt32 then word_of_int MaxInt32
      else word_of_int v)"

definition IntToUint64 :: "int \<Rightarrow> cast_error + u64" where
  "IntToUint64 v = (if v < 0 then Inl ErrOverflow else Inr (word_of_int v))"

definition IntToUint64Safe :: "int \<Rightarrow> u64" where
  "IntToUint64Safe v = (if v < 0 then 0 else word_of_int v)"

definition Int64ToUint64 :: "int \<Rightarrow> cast_error + u64" where
  "Int64ToUint64 v = (if v < 0 then Inl ErrOverflow else Inr (word_of_int v))"

definition Int64ToUint64Safe :: "int \<Rightarrow> u64" where
  "Int64ToUint64Safe v = (if v < 0 then 0 else word_of_int v)"

definition Uint64ToInt64 :: "u64 \<Rightarrow> cast_error + u64" where
  "Uint64ToInt64 v = (if uint v > MaxInt64 then Inl ErrOverflow else Inr v)"

definition Uint64ToInt64Safe :: "u64 \<Rightarrow> u64" where
  "Uint64ToInt64Safe v = (if uint v > MaxInt64 then word_of_int MaxInt64 else v)"

definition Uint64ToInt :: "u64 \<Rightarrow> cast_error + u64" where
  "Uint64ToInt v = (if uint v > MaxInt64 then Inl ErrOverflow else Inr v)"

definition Uint64ToIntSafe :: "u64 \<Rightarrow> u64" where
  "Uint64ToIntSafe v = (if uint v > MaxInt64 then word_of_int MaxInt64 else v)"

definition Int64ToInt :: "int \<Rightarrow> cast_error + u64" where
  "Int64ToInt v = (if v < MinInt64 \<or> v > MaxInt64 then Inl ErrOverflow else Inr (word_of_int v))"

definition Int64ToIntSafe :: "int \<Rightarrow> u64" where
  "Int64ToIntSafe v =
     (if v < MinInt64 then word_of_int MinInt64
      else if v > MaxInt64 then word_of_int MaxInt64
      else word_of_int v)"

lemmas bound_defs = MaxUint16_def MaxUint32_def MaxInt32_def MinInt32_def MaxInt64_def MinInt64_def

lemmas cast_defs =
  IntToUint32_def IntToUint32Safe_def IntToUint16_def IntToUint16Safe_def IntToInt32_def
  IntToInt32Safe_def IntToUint64_def IntToUint64Safe_def Int64ToUint64_def Int64ToUint64Safe_def
  Uint64ToInt64_def Uint64ToInt64Safe_def Uint64ToInt_def Uint64ToIntSafe_def
  Int64ToInt_def Int64ToIntSafe_def

section \<open>Values of converted words\<close>

lemma uint_word_of_int_id:
  "0 \<le> v \<Longrightarrow> v < 2 ^ LENGTH('a::len) \<Longrightarrow> uint (word_of_int v :: 'a word) = v"
  by (simp add: unsigned_of_int take_bit_eq_mod)

lemma sint_word_of_int_id:
  "- (2 ^ (LENGTH('a::len) - 1)) \<le> v \<Longrightarrow> v < 2 ^ (LENGTH('a) - 1) \<Longrightarrow> sint (word_of_int v :: 'a word) = v"
  by (simp add: signed_of_int signed_take_bit_int_eq_self)

lemma sint_of_small_u64:
  assumes "uint (w :: u64) \<le> MaxInt64"
  shows "sint w = uint w"
proof -
  have "- (2 ^ 63) \<le> uint w" by (rule order_trans [of _ 0]) simp_all
  moreover from assms have "uint w < 2 ^ 63" by (simp add: MaxInt64_def)
  ultimately show ?thesis by (simp add: sint_uint signed_take_bit_int_eq_self)
qed

section \<open>The contract of a checked conversion\<close>

text \<open>
  A checked conversion \<open>chk\<close> between two representations of integers, read by \<open>vi\<close> and \<open>vo\<close>,
  succeeds exactly on the values of its target range \<open>lo..hi\<close> and keeps the value; \<open>safe\<close> is
  its total variant.
\<close>

locale checked_cast =
  fixes chk :: "'a \<Rightarrow> cast_error + 'b"
    and safe :: "'a \<Rightarrow> 'b"
    and vi :: "'a \<Rightarrow> int"
    and vo :: "'b \<Rightarrow> int"
    and dom_ok :: "'a \<Rightarrow> bool"
    and lo :: int
    and hi :: int
  assumes chk_in: "dom_ok x \<Longrightarrow> lo \<le> vi x \<Longrightarrow> vi x \<le> hi \<Longrightarrow> chk x = Inr (safe x) \<and> vo (safe x) = vi x"
    and chk_out: "dom_ok x \<Longrightarrow> \<not> (lo \<le> vi x \<and> vi x \<le> hi) \<Longrightarrow> chk x = Inl ErrOverflow"
    and safe_range: "dom_ok x \<Longrightarrow> lo \<le> vo (safe x) \<and> vo (safe x) \<le> hi"
begin

lemma chk_exact:
  "dom_ok x \<Longrightarrow> chk x = (if lo \<le> vi x \<and> vi x \<le> hi then Inr (safe x) else Inl ErrOverflow)"
  using chk_in chk_out by auto

lemma chk_value: "dom_ok x \<Longrightarrow> chk x = Inr y \<Longrightarrow> vo y = vi x \<and> lo \<le> vo y \<and> vo y \<le> hi"
  using chk_in [of x] chk_out [of x] by (cases "lo \<le> vi x \<and> vi x \<le> hi") auto

lemma chk_total: "dom_ok x \<Longrightarrow> chk x = Inl ErrOverflow \<longleftrightarrow> vi x < lo \<or> hi < vi x"
  using chk_in [of x] chk_out [of x] by (cases "lo \<le> vi x \<and> vi x \<le> hi") auto

end

lemma uint64_cast_bound: "v \<le> MaxInt64 \<Longrightarrow> 0 \<le> v \<Longrightarrow> uint (word_of_int v :: u64) = v"
  by (rule uint_word_of_int_id) (simp_all add: bound_defs)

interpretation cast_u32: checked_cast IntToUint32 IntToUint32Safe "\<lambda>v. v" uint "\<lambda>_. True" 0 MaxUint32
  by unfold_locales (auto simp: cast_defs bound_defs uint_word_of_int_id)

interpretation cast_u16: checked_cast IntToUint16 IntToUint16Safe "\<lambda>v. v" uint "\<lambda>_. True" 0 MaxUint16
  by unfold_locales (auto simp: cast_defs bound_defs uint_word_of_int_id)

interpretation cast_i32: checked_cast IntToInt32 IntToInt32Safe "\<lambda>v. v" sint "\<lambda>_. True" MinInt32 MaxInt32
  by unfold_locales (auto simp: cast_defs bound_defs sint_word_of_int_id)

interpretation cast_int_u64: checked_cast IntToUint64 IntToUint64Safe "\<lambda>v. v" uint int64_range 0 MaxInt64
  by unfold_locales (auto simp: cast_defs int64_range_def uint64_cast_bound, simp_all add: bound_defs)

interpretation cast_i64_u64: checked_cast Int64ToUint64 Int64ToUint64Safe "\<lambda>v. v" uint int64_range 0 MaxInt64
  by unfold_locales (auto simp: cast_defs int64_range_def uint64_cast_bound, simp_all add: bound_defs)

interpretation cast_u64_i64: checked_cast Uint64ToInt64 Uint64ToInt64Safe uint sint "\<lambda>_. True" 0 MaxInt64
  by unfold_locales (auto simp: cast_defs sint_of_small_u64, simp_all add: bound_defs sint_word_of_int_id)

interpretation cast_u64_int: checked_cast Uint64ToInt Uint64ToIntSafe uint sint "\<lambda>_. True" 0 MaxInt64
  by unfold_locales (auto simp: cast_defs sint_of_small_u64, simp_all add: bound_defs sint_word_of_int_id)

interpretation cast_i64_int: checked_cast Int64ToInt Int64ToIntSafe "\<lambda>v. v" sint "\<lambda>_. True" MinInt64 MaxInt64
  by unfold_locales (auto simp: cast_defs bound_defs sint_word_of_int_id)

section \<open>Properties\<close>

text \<open>Every checked conversion of package safecasts fails exactly outside the range of its
  target type, and otherwise returns the value of its clamping variant, unchanged as an integer.\<close>

theorem checked_casts_exact:
  "IntToUint32 v = (if 0 \<le> v \<and> v \<le> MaxUint32 then Inr (IntToUint32Safe v) else Inl ErrOverflow)
   \<and> IntToUint16 v = (if 0 \<le> v \<and> v \<le> MaxUint16 then Inr (IntToUint16Safe v) else Inl ErrOverflow)
   \<and> IntToInt32 v = (if MinInt32 \<le> v \<and> v \<le> MaxInt32 then Inr (IntToInt32Safe v) else Inl ErrOverflow)
   \<and> Int64ToInt v = (if MinInt64 \<le> v \<and> v \<le> MaxInt64 then Inr (Int64ToIntSafe v) else Inl ErrOverflow)
   \<and> Uint64ToInt64 u = (if uint u \<le> MaxInt64 then Inr (Uint64ToInt64Safe u) else Inl ErrOverflow)
   \<and> Uint64ToInt u = (if uint u \<le> MaxInt64 then Inr (Uint64ToIntSafe u) else Inl ErrOverflow)"
  using cast_u32.chk_exact [of v] cast_u16.chk_exact [of v] cast_i32.chk_exact [of v]
    cast_i64_int.chk_exact [of v] cast_u64_i64.chk_exact [of u] cast_u64_int.chk_exact [of u]
  by simp

text \<open>A conversion of a 64-bit signed value that succeeds keeps the integer value, and the
  clamping conversions always land in the range of their target type.\<close>

theorem casts_keep_value:
  assumes r: "int64_range v"
  shows "(\<forall>a. IntToUint32 v = Inr a \<longrightarrow> uint a = v)
    \<and> (\<forall>a. IntToUint16 v = Inr a \<longrightarrow> uint a = v)
    \<and> (\<forall>a. IntToInt32 v = Inr a \<longrightarrow> sint a = v)
    \<and> (\<forall>a. IntToUint64 v = Inr a \<longrightarrow> uint a = v)
    \<and> (\<forall>a. Int64ToUint64 v = Inr a \<longrightarrow> uint a = v)
    \<and> (\<forall>a. Int64ToInt v = Inr a \<longrightarrow> sint a = v)
    \<and> 0 \<le> sint (Uint64ToInt64Safe u) \<and> 0 \<le> sint (Uint64ToIntSafe u)
    \<and> MinInt32 \<le> sint (IntToInt32Safe v) \<and> sint (IntToInt32Safe v) \<le> MaxInt32"
  using cast_u64_i64.safe_range [of u] cast_u64_int.safe_range [of u] cast_i32.safe_range [of v]
  by (auto dest: cast_u32.chk_value [OF TrueI] cast_u16.chk_value [OF TrueI]
      cast_i32.chk_value [OF TrueI] cast_i64_int.chk_value [OF TrueI]
      cast_int_u64.chk_value [OF r] cast_i64_u64.chk_value [OF r])

theorem casts_keep_value_witness:
  "int64_range 7 \<and> IntToUint32 7 = Inr 7 \<and> uint (7 :: u32) = 7"
proof -
  have r: "int64_range 7" by (simp add: int64_range_def bound_defs)
  have e: "IntToUint32 7 = Inr 7" by (simp add: IntToUint32_def bound_defs)
  from r e casts_keep_value [OF r] show ?thesis by blast
qed

end
