(* ===== verification/Crc32.thy ===== *)
theory Crc32
  imports Prelude
begin

text \<open>
  The IEEE CRC-32 of package \<open>hash/crc32\<close> (\<open>crc32.ChecksumIEEE\<close>), bit by bit over the
  reversed polynomial, and the fact the WAL relies on: the checksum tells apart two inputs
  of the same length that differ in one byte.
\<close>

unbundle bit_operations_syntax

definition crc_poly :: u32 where
  "crc_poly = 0xEDB88320"

definition crc_step :: "u32 \<Rightarrow> u32" where
  "crc_step c = (if bit c 0 then drop_bit 1 c XOR crc_poly else drop_bit 1 c)"

definition crc_byte :: "u32 \<Rightarrow> byte \<Rightarrow> u32" where
  "crc_byte c b = (crc_step ^^ 8) (c XOR ucast b)"

definition ChecksumIEEE :: "byte list \<Rightarrow> u32" where
  "ChecksumIEEE bs = NOT (foldl crc_byte (NOT 0) bs)"

section \<open>Each step is injective\<close>

lemma crc_poly_top: "bit crc_poly 31"
  by (simp add: crc_poly_def)

lemma drop_bit_top: "\<not> bit (drop_bit 1 (c :: u32)) 31"
  by (simp add: bit_drop_bit_eq) (simp add: bit_word.rep_eq)

lemma crc_step_top: "bit (crc_step c) 31 \<longleftrightarrow> bit c 0"
  using crc_poly_top drop_bit_top [of c] by (simp add: crc_step_def bit_xor_iff)

lemma xor_right_cancel: "(a :: u32) XOR c = b XOR c \<Longrightarrow> a = b"
  by (metis xor.assoc xor_self_eq xor.right_neutral)

lemma word_eq_from_low_and_shift:
  fixes c d :: u32
  assumes "bit c 0 = bit d 0" and "drop_bit 1 c = drop_bit 1 d"
  shows "c = d"
proof (rule bit_word_eqI)
  fix n
  show "bit c n \<longleftrightarrow> bit d n"
  proof (cases n)
    case 0
    with assms(1) show ?thesis by simp
  next
    case (Suc m)
    have "bit (drop_bit 1 c) m \<longleftrightarrow> bit (drop_bit 1 d) m" using assms(2) by simp
    with Suc show ?thesis by (simp add: bit_drop_bit_eq)
  qed
qed

lemma crc_step_inj: "inj crc_step"
proof (rule injI)
  fix c d
  assume eq: "crc_step c = crc_step d"
  then have low: "bit c 0 = bit d 0" using crc_step_top [of c] crc_step_top [of d] by simp
  with eq have "drop_bit 1 c = drop_bit 1 d"
    by (cases "bit d 0") (simp_all add: crc_step_def xor_right_cancel)
  with low show "c = d" by (rule word_eq_from_low_and_shift)
qed

lemma crc_step_pow_inj: "inj (crc_step ^^ n)"
  using crc_step_inj by (rule inj_fn)

lemma ucast_byte_inj:
  assumes "(ucast (a :: byte) :: u32) = ucast b"
  shows "a = b"
proof (rule bit_word_eqI)
  fix n
  assume "n < LENGTH(8)"
  moreover have "bit (ucast a :: u32) n = bit (ucast b :: u32) n" using assms by simp
  ultimately show "bit a n = bit b n" by (simp add: bit_ucast_iff)
qed

lemma crc_byte_inj_state: "crc_byte c b = crc_byte d b \<Longrightarrow> c = d"
  unfolding crc_byte_def by (drule injD [OF crc_step_pow_inj]) (rule xor_right_cancel)

lemma crc_byte_inj_data: "crc_byte c a = crc_byte c b \<Longrightarrow> a = b"
  unfolding crc_byte_def
  by (drule injD [OF crc_step_pow_inj]) (metis ucast_byte_inj xor_right_cancel xor.commute)

lemma foldl_crc_inj: "foldl crc_byte c bs = foldl crc_byte d bs \<Longrightarrow> c = d"
  by (induction bs arbitrary: c d) (auto dest: crc_byte_inj_state)

lemma ChecksumIEEE_detects_byte:
  assumes "a \<noteq> b"
  shows "ChecksumIEEE (xs @ a # ys) \<noteq> ChecksumIEEE (xs @ b # ys)"
proof
  assume "ChecksumIEEE (xs @ a # ys) = ChecksumIEEE (xs @ b # ys)"
  then have "foldl crc_byte (crc_byte (foldl crc_byte (NOT 0) xs) a) ys
    = foldl crc_byte (crc_byte (foldl crc_byte (NOT 0) xs) b) ys"
    by (simp add: ChecksumIEEE_def)
  then have "a = b" by (auto dest!: foldl_crc_inj crc_byte_inj_data)
  with assms show False by contradiction
qed

lemma ChecksumIEEE_detects_update:
  assumes "i < length bs" and "b \<noteq> bs ! i"
  shows "ChecksumIEEE (bs[i := b]) \<noteq> ChecksumIEEE bs"
proof -
  have "bs = take i bs @ bs ! i # drop (Suc i) bs" using assms(1) by (rule id_take_nth_drop)
  moreover have "bs[i := b] = take i bs @ b # drop (Suc i) bs"
    using assms(1) by (rule upd_conv_take_nth_drop)
  ultimately show ?thesis using ChecksumIEEE_detects_byte [OF assms(2)] by metis
qed

end
