(* ===== verification/Wal_Codec.thy ===== *)
theory Wal_Codec
  imports Bytes Crc32
begin

text \<open>
  The record format of the write-ahead log, \<open>pkg/storage/wal/wal.go\<close>: \<open>encodeRecord\<close> and
  \<open>decodeRecord\<close> with the width checks they call. The file layout is
  \<open>[length:4][type:1][seqnum:8][timestamp:8][collection_len:2][collection][data_len:4][data][crc:4]\<close>.
  \<open>encodeRecord\<close> fills a zeroed buffer at running offsets, as the code does;
  \<open>encodeRecord_layout\<close> shows that this is the concatenation above.
\<close>

section \<open>Records\<close>

definition RecordTypeInsert :: byte where "RecordTypeInsert = 1"
definition RecordTypeUpdate :: byte where "RecordTypeUpdate = 2"
definition RecordTypeDelete :: byte where "RecordTypeDelete = 3"
definition RecordTypeCheckpoint :: byte where "RecordTypeCheckpoint = 4"
definition RecordTypeBatch :: byte where "RecordTypeBatch = 5"
definition RecordTypeBatchBegin :: byte where "RecordTypeBatchBegin = 6"
definition RecordTypeBatchEnd :: byte where "RecordTypeBatchEnd = 7"

text \<open>The timestamp is an \<open>int64\<close>; the word is its two's complement representation.\<close>

record wal_record =
  SeqNum :: u64
  RType :: byte
  Collection :: "byte list"
  Data :: "byte list"
  Timestamp :: u64

datatype wal_error =
    CollectionNameTooLong
  | DataTooLarge
  | RecordTooLarge
  | CRCMismatch
  | IOError io_error

section \<open>Width checks\<close>

definition safeIntToUint32 :: "int \<Rightarrow> u32 option" where
  "safeIntToUint32 v = (if v < 0 \<or> v > MaxUint32 then None else Some (word_of_int v))"

definition safeIntToUint16 :: "int \<Rightarrow> u16 option" where
  "safeIntToUint16 v = (if v < 0 \<or> v > MaxUint16 then None else Some (word_of_int v))"

definition safeInt64ToUint64 :: "u64 \<Rightarrow> u64" where
  "safeInt64ToUint64 v = (if sint v < 0 then 0 else v)"

definition safeUint64ToInt64 :: "u64 \<Rightarrow> u64" where
  "safeUint64ToInt64 v = (if uint v > MaxInt64 then word_of_int MaxInt64 else v)"

definition safeRecordBufferSize :: "u32 \<Rightarrow> nat option" where
  "safeRecordBufferSize totalLen =
     (if uint totalLen > MaxInt64 - 8 then None else Some (8 + unat totalLen))"

section \<open>Encoding\<close>

definition encodeRecord :: "wal_record \<Rightarrow> wal_error + byte list" where
  "encodeRecord r =
     (let collBytes = Collection r in
      case safeIntToUint16 (int (length collBytes)) of None \<Rightarrow> Inl CollectionNameTooLong
      | Some collLen \<Rightarrow>
     (case safeIntToUint32 (int (length (Data r))) of None \<Rightarrow> Inl DataTooLarge
      | Some dataLen \<Rightarrow>
     (case safeIntToUint32 (int (1 + 8 + 8 + 2 + length collBytes + 4 + length (Data r))) of
        None \<Rightarrow> Inl RecordTooLarge
      | Some totalLen \<Rightarrow>
     (case safeRecordBufferSize totalLen of None \<Rightarrow> Inl RecordTooLarge
      | Some bufSize \<Rightarrow>
      let buf = replicate bufSize 0;
          buf = put_at 0 (put_u32 totalLen) buf;
          offset = 4;
          buf = put_at offset [RType r] buf;
          offset = offset + 1;
          buf = put_at offset (put_u64 (SeqNum r)) buf;
          offset = offset + 8;
          buf = put_at offset (put_u64 (safeInt64ToUint64 (Timestamp r))) buf;
          offset = offset + 8;
          buf = put_at offset (put_u16 collLen) buf;
          offset = offset + 2;
          buf = put_at offset collBytes buf;
          offset = offset + length collBytes;
          buf = put_at offset (put_u32 dataLen) buf;
          offset = offset + 4;
          buf = put_at offset (Data r) buf;
          offset = offset + length (Data r);
          crc = ChecksumIEEE (take (offset - 4) (drop 4 buf));
          buf = put_at offset (put_u32 crc) buf
      in Inr buf))))"

section \<open>Decoding\<close>

text \<open>
  The field reads after the checksum test; every index or slice out of the range of \<open>buf\<close> is
  a panic.
\<close>

definition decodeFields :: "byte list \<Rightarrow> (wal_error, wal_record) outcome" where
  "decodeFields buf =
     bind_outcome (of_option_panic (go_index buf 0)) (\<lambda>typ.
     bind_outcome (of_option_panic (go_slice buf 1 9)) (\<lambda>sq.
     bind_outcome (of_option_panic (go_slice buf 9 17)) (\<lambda>ts.
     bind_outcome (of_option_panic (go_slice buf 17 19)) (\<lambda>cl.
     let collLen = unat (get_u16 cl) in
     bind_outcome (of_option_panic (go_slice buf 19 (19 + collLen))) (\<lambda>coll.
     bind_outcome (of_option_panic (go_slice buf (19 + collLen) (23 + collLen))) (\<lambda>dl.
     let dataLen = unat (get_u32 dl) in
     bind_outcome (of_option_panic (go_slice buf (23 + collLen) (23 + collLen + dataLen))) (\<lambda>data.
     Ok \<lparr>SeqNum = get_u64 sq, RType = typ, Collection = coll, Data = data,
         Timestamp = safeUint64ToInt64 (get_u64 ts)\<rparr>)))))))"

text \<open>
  One record from the stream: \<open>Ok\<close> with the record and the rest of the stream. The buffer
  length \<open>length+4\<close> is computed in \<open>uint32\<close> and wraps.
\<close>

definition decodeRecord :: "byte list \<Rightarrow> (wal_error, wal_record \<times> byte list) outcome" where
  "decodeRecord s =
     (case read_full 4 s of Inl e \<Rightarrow> Err (IOError e)
      | Inr (lenBuf, s1) \<Rightarrow>
       (let len = get_u32 lenBuf in
        case read_full (unat (len + 4)) s1 of Inl e \<Rightarrow> Err (IOError e)
        | Inr (buf, s2) \<Rightarrow>
          bind_outcome (of_option_panic (go_slice buf (unat len) (length buf))) (\<lambda>crcBytes.
          if get_u32 crcBytes \<noteq> ChecksumIEEE (take (unat len) buf) then Err CRCMismatch
          else bind_outcome (decodeFields buf) (\<lambda>r. Ok (r, s2)))))"

section \<open>The reference layout\<close>

definition wal_payload :: "wal_record \<Rightarrow> byte list" where
  "wal_payload r =
     [RType r] @ put_u64 (SeqNum r) @ put_u64 (safeInt64ToUint64 (Timestamp r))
     @ put_u16 (word_of_nat (length (Collection r))) @ Collection r
     @ put_u32 (word_of_nat (length (Data r))) @ Data r"

definition wal_layout :: "wal_record \<Rightarrow> byte list" where
  "wal_layout r = put_u32 (word_of_nat (length (wal_payload r))) @ wal_payload r
     @ put_u32 (ChecksumIEEE (wal_payload r))"

text \<open>The record a reader gets back: a timestamp before 1970 is stored as 0.\<close>

definition stored_record :: "wal_record \<Rightarrow> wal_record" where
  "stored_record r = r\<lparr>Timestamp := safeInt64ToUint64 (Timestamp r)\<rparr>"

text \<open>The records \<open>encodeRecord\<close> accepts, and those whose buffer length does not wrap.\<close>

definition encodable :: "wal_record \<Rightarrow> bool" where
  "encodable r \<longleftrightarrow> length (Collection r) < 2 ^ 16 \<and> length (wal_payload r) < 2 ^ 32"

definition readable :: "wal_record \<Rightarrow> bool" where
  "readable r \<longleftrightarrow> length (Collection r) < 2 ^ 16 \<and> length (wal_payload r) + 4 < 2 ^ 32"

lemmas wal_cast_defs [go_defs] =
  safeIntToUint32_def safeIntToUint16_def safeRecordBufferSize_def
  MaxUint16_def MaxUint32_def MaxInt64_def

section \<open>Encoding lemmas\<close>

lemma length_wal_payload: "length (wal_payload r) = 23 + length (Collection r) + length (Data r)"
  by (simp add: wal_payload_def)

lemma length_wal_layout: "length (wal_layout r) = length (wal_payload r) + 8"
  by (simp add: wal_layout_def)

lemma word_of_int_of_nat: "(word_of_int (int n) :: 'a::len word) = word_of_nat n"
  by simp

lemma unat_of_nat_u32: "n < 2 ^ 32 \<Longrightarrow> unat (word_of_nat n :: u32) = n"
  by (simp add: unat_of_nat take_bit_nat_eq_self)

lemma unat_of_nat_u16: "n < 2 ^ 16 \<Longrightarrow> unat (word_of_nat n :: u16) = n"
  by (simp add: unat_of_nat take_bit_nat_eq_self)

text \<open>The guards of \<open>encodeRecord\<close> accept exactly the encodable records.\<close>

lemma safeRecordBufferSize_Some: "safeRecordBufferSize t = Some (8 + unat t)"
proof -
  have "uint t < 2 ^ 32" using unsigned_less [where 'a = int, of t] by simp
  then show ?thesis by (simp add: go_defs)
qed

lemma safeIntToUint16_nat:
  "safeIntToUint16 (int n) = (if n < 2 ^ 16 then Some (word_of_nat n) else None)"
  by (auto simp: go_defs)

lemma safeIntToUint32_nat:
  "safeIntToUint32 (int n) = (if n < 2 ^ 32 then Some (word_of_nat n) else None)"
  by (auto simp: go_defs)

text \<open>Filling the zeroed buffer field by field leaves the concatenation of the fields.\<close>

lemma put_at_fill:
  "off = length xs \<Longrightarrow> length bs \<le> n \<Longrightarrow>
   put_at off bs (xs @ replicate n 0) = (xs @ bs) @ replicate (n - length bs) 0"
  by (simp add: put_at_def)

lemmas put_at_start = put_at_fill [of 0 "[]", simplified]

lemma encodeRecord_fill:
  assumes "t = 23 + length (Collection r) + length (Data r)"
  shows "put_at (27 + length (Collection r)) (Data r)
     (put_at (23 + length (Collection r)) (put_u32 dl)
     (put_at 23 (Collection r) (put_at 21 (put_u16 cl)
     (put_at 13 (put_u64 ts) (put_at 5 (put_u64 sq) (put_at 4 [ty]
     (put_at 0 (put_u32 tln) (replicate (8 + t) 0))))))))
   = (put_u32 tln @ [ty] @ put_u64 sq @ put_u64 ts @ put_u16 cl @ Collection r @ put_u32 dl @ Data r)
     @ replicate 4 0"
  unfolding assms
  by (simp add: put_at_start put_at_fill del: replicate.simps append_assoc)

lemma encodeRecord_layout:
  assumes "encodable r"
  shows "encodeRecord r = Inr (wal_layout r)"
proof -
  let ?c = "length (Collection r)" and ?d = "length (Data r)"
  let ?t = "23 + ?c + ?d"
  have c: "?c < 2 ^ 16" and t: "?t < 2 ^ 32"
    using assms by (simp_all add: encodable_def length_wal_payload)
  let ?pre = "put_u32 (word_of_nat ?t) @ wal_payload r"
  have fill: "put_at (27 + ?c) (Data r) (put_at (23 + ?c) (put_u32 (word_of_nat ?d))
     (put_at 23 (Collection r) (put_at 21 (put_u16 (word_of_nat ?c))
     (put_at 13 (put_u64 (safeInt64ToUint64 (Timestamp r))) (put_at 5 (put_u64 (SeqNum r))
     (put_at 4 [RType r] (put_at 0 (put_u32 (word_of_nat ?t)) (replicate (8 + ?t) 0))))))))
     = ?pre @ replicate 4 0"
    by (subst encodeRecord_fill) (simp_all add: wal_payload_def)
  have crc: "take (27 + ?c + ?d - 4) (drop 4 (?pre @ replicate 4 0)) = wal_payload r"
    by (simp add: length_wal_payload)
  have last: "put_at (27 + ?c + ?d) (put_u32 k) (?pre @ replicate 4 0) = ?pre @ put_u32 k" for k
    by (subst put_at_append) (simp_all add: length_wal_payload)
  have g1: "safeIntToUint16 (int ?c) = Some (word_of_nat ?c)"
    and g2: "safeIntToUint32 (int ?d) = Some (word_of_nat ?d)"
    and g3: "safeIntToUint32 (int (1 + 8 + 8 + 2 + ?c + 4 + ?d)) = Some (word_of_nat ?t)"
    using c t by (simp_all add: safeIntToUint16_nat safeIntToUint32_nat del: of_nat_add)
  have g4: "safeRecordBufferSize (word_of_nat ?t) = Some (8 + ?t)"
    using t by (simp add: safeRecordBufferSize_Some unat_of_nat_u32 del: of_nat_add)
  show ?thesis
    unfolding encodeRecord_def Let_def g1 g2 g3 g4 option.case wal_layout_def length_wal_payload
    using fill crc last by simp
qed

lemma encodeRecord_Inr_iff: "encodeRecord r = Inr bs \<longleftrightarrow> encodable r \<and> bs = wal_layout r"
proof (cases "encodable r")
  case True
  then show ?thesis by (auto simp: encodeRecord_layout)
next
  case False
  then consider (coll) "\<not> length (Collection r) < 2 ^ 16"
    | (total) "length (Collection r) < 2 ^ 16" "\<not> 23 + length (Collection r) + length (Data r) < 2 ^ 32"
    by (auto simp: encodable_def length_wal_payload)
  then have "\<exists>e. encodeRecord r = Inl e"
  proof cases
    case coll
    then show ?thesis unfolding encodeRecord_def Let_def safeIntToUint16_nat by simp
  next
    case total
    then show ?thesis
      unfolding encodeRecord_def Let_def safeIntToUint16_nat safeIntToUint32_nat
      by (auto split: option.splits)
  qed
  with False show ?thesis by auto
qed

section \<open>Decoding lemmas\<close>

lemma go_slice_mid:
  "a = length xs \<Longrightarrow> b = a + length ys \<Longrightarrow> go_slice (xs @ ys @ zs) a b = Some ys"
  by (simp add: go_slice_def)

lemma nonneg_sint_uint:
  assumes "0 \<le> sint (v :: u64)"
  shows "uint v \<le> MaxInt64"
proof (rule ccontr)
  assume "\<not> uint v \<le> MaxInt64"
  then have "9223372036854775808 \<le> uint v" by (simp add: MaxInt64_def)
  moreover have "uint v < 18446744073709551616" using unsigned_less [where 'a = int, of v] by simp
  ultimately have "uint v div 9223372036854775808 = 1" by arith
  then have "bit (uint v) 63" by (simp add: bit_iff_odd)
  with assms show False by (simp add: sint_uint signed_take_bit_nonnegative_iff)
qed

lemma safe_timestamp: "safeUint64ToInt64 (safeInt64ToUint64 v) = safeInt64ToUint64 v"
  using nonneg_sint_uint [of v] by (auto simp: safeUint64ToInt64_def safeInt64ToUint64_def MaxInt64_def)

lemma decodeFields_payload:
  assumes "encodable r"
  shows "decodeFields (wal_payload r @ z) = Ok (stored_record r)"
proof -
  let ?ty = "[RType r]" and ?sq = "put_u64 (SeqNum r)"
  let ?ts = "put_u64 (safeInt64ToUint64 (Timestamp r))"
  let ?cl = "put_u16 (word_of_nat (length (Collection r)))"
  let ?dl = "put_u32 (word_of_nat (length (Data r)))"
  let ?c = "length (Collection r)" and ?d = "length (Data r)"
  have w: "unat (word_of_nat ?c :: u16) = ?c" "unat (word_of_nat ?d :: u32) = ?d"
    using assms by (simp_all add: encodable_def length_wal_payload unat_of_nat_u16 unat_of_nat_u32)
  have b: "wal_payload r @ z = ?ty @ ?sq @ ?ts @ ?cl @ Collection r @ ?dl @ Data r @ z"
    by (simp add: wal_payload_def)
  have "go_index (wal_payload r @ z) 0 = Some (RType r)"
    by (simp add: b go_index_def)
  moreover have "go_slice (wal_payload r @ z) 1 9 = Some ?sq"
    unfolding b by (rule go_slice_mid) simp_all
  moreover have "go_slice (wal_payload r @ z) 9 17 = Some ?ts"
    using go_slice_mid [of 9 "?ty @ ?sq" 17 ?ts] unfolding b by simp
  moreover have "go_slice (wal_payload r @ z) 17 19 = Some ?cl"
    using go_slice_mid [of 17 "?ty @ ?sq @ ?ts" 19 ?cl] unfolding b by simp
  moreover have "go_slice (wal_payload r @ z) 19 (19 + ?c) = Some (Collection r)"
    using go_slice_mid [of 19 "?ty @ ?sq @ ?ts @ ?cl" "19 + ?c" "Collection r"] unfolding b by simp
  moreover have "go_slice (wal_payload r @ z) (19 + ?c) (23 + ?c) = Some ?dl"
    using go_slice_mid [of "19 + ?c" "?ty @ ?sq @ ?ts @ ?cl @ Collection r" "23 + ?c" ?dl]
    unfolding b by simp
  moreover have "go_slice (wal_payload r @ z) (23 + ?c) (23 + ?c + ?d) = Some (Data r)"
    using go_slice_mid [of "23 + ?c" "?ty @ ?sq @ ?ts @ ?cl @ Collection r @ ?dl" "23 + ?c + ?d" "Data r"]
    unfolding b by simp
  ultimately show ?thesis
    unfolding decodeFields_def Let_def
    by (simp add: w safe_timestamp stored_record_def)
qed

lemma readable_encodable: "readable r \<Longrightarrow> encodable r"
  by (simp add: readable_def encodable_def)

text \<open>What \<open>decodeRecord\<close> does with any well-formed length prefix and enough bytes behind it.\<close>

lemma decodeRecord_frame:
  assumes "length pl + 4 < 2 ^ 32" and "length crc = 4"
  shows "decodeRecord (put_u32 (word_of_nat (length pl)) @ pl @ crc @ z)
    = (if get_u32 crc \<noteq> ChecksumIEEE pl then Err CRCMismatch
       else bind_outcome (decodeFields (pl @ crc)) (\<lambda>r. Ok (r, z)))"
proof -
  let ?n = "length pl"
  have n: "unat (word_of_nat ?n :: u32) = ?n"
    using assms(1) by (simp add: unat_of_nat_u32)
  have "(word_of_nat ?n + 4 :: u32) = word_of_nat (?n + 4)" by simp
  then have n4: "unat (word_of_nat ?n + 4 :: u32) = ?n + 4"
    using assms(1) unat_of_nat_u32 [of "?n + 4"] by metis
  have r1: "read_full 4 (put_u32 (word_of_nat ?n) @ pl @ crc @ z)
      = Inr (put_u32 (word_of_nat ?n), pl @ crc @ z)"
    by (rule read_full_append) simp
  have r2: "read_full (?n + 4) (pl @ crc @ z) = Inr (pl @ crc, z)"
    using read_full_append [of "?n + 4" "pl @ crc" z] assms(2) by simp
  have sl: "go_slice (pl @ crc) ?n (length (pl @ crc)) = Some crc"
    by (simp add: go_slice_def)
  show ?thesis
    unfolding decodeRecord_def r1 sum.case prod.case Let_def get_put n n4 r2 sl
    by simp
qed

lemma decodeRecord_layout:
  assumes "readable r"
  shows "decodeRecord (wal_layout r @ z) = Ok (stored_record r, z)"
proof -
  have "length (wal_payload r) + 4 < 2 ^ 32" using assms by (simp add: readable_def)
  then show ?thesis
    using decodeRecord_frame [of "wal_payload r" "put_u32 (ChecksumIEEE (wal_payload r))" z]
      decodeFields_payload [OF readable_encodable [OF assms]]
    by (simp add: wal_layout_def)
qed

text \<open>A torn record, cut anywhere before its end, is reported as an end of file.\<close>

lemma decodeRecord_torn:
  assumes "readable r" and "n < length (wal_layout r)"
  shows "decodeRecord (take n (wal_layout r))
    = Err (IOError (if n = 0 \<or> n = 4 then EOF else UnexpectedEOF))"
proof (cases "n < 4")
  case True
  have "length (take n (wal_layout r)) < 4" using True by simp
  then have "read_full 4 (take n (wal_layout r)) = Inl (if n = 0 then EOF else UnexpectedEOF)"
    using assms(2) by (subst read_full_short) auto
  with True show ?thesis by (simp add: decodeRecord_def)
next
  case False
  let ?w = "word_of_nat (length (wal_payload r)) :: u32"
  let ?rest = "wal_payload r @ put_u32 (ChecksumIEEE (wal_payload r))"
  have l: "length (wal_payload r) + 4 < 2 ^ 32" using assms(1) by (simp add: readable_def)
  have "(?w + 4 :: u32) = word_of_nat (length (wal_payload r) + 4)" by simp
  then have n4: "unat (?w + 4) = length (wal_payload r) + 4"
    using l unat_of_nat_u32 by metis
  have t: "take n (wal_layout r) = put_u32 ?w @ take (n - 4) ?rest"
    using False by (simp add: wal_layout_def)
  have r1: "read_full 4 (put_u32 ?w @ take (n - 4) ?rest) = Inr (put_u32 ?w, take (n - 4) ?rest)"
    by (rule read_full_append) simp
  have short: "length (take (n - 4) ?rest) < length (wal_payload r) + 4"
    using assms(2) False by (simp add: length_wal_layout)
  have e: "take (n - 4) ?rest = [] \<longleftrightarrow> n = 4" using False by (auto simp: wal_payload_def)
  have r2: "read_full (length (wal_payload r) + 4) (take (n - 4) ?rest)
      = Inl (if n = 4 then EOF else UnexpectedEOF)"
    unfolding read_full_short [OF short] e ..
  show ?thesis
    using False unfolding t decodeRecord_def r1 sum.case prod.case Let_def get_put n4 r2 by simp
qed

text \<open>A record with one byte changed behind the length prefix is refused.\<close>

lemma decodeRecord_corrupt:
  assumes "readable r" and "4 \<le> i" and "i < length (wal_layout r)" and "b \<noteq> wal_layout r ! i"
  shows "decodeRecord ((wal_layout r)[i := b] @ z) = Err CRCMismatch"
proof -
  let ?pl = "wal_payload r" and ?crc = "put_u32 (ChecksumIEEE (wal_payload r))"
  let ?h = "put_u32 (word_of_nat (length ?pl))"
  have l: "length ?pl + 4 < 2 ^ 32" using assms(1) by (simp add: readable_def)
  show ?thesis
  proof (cases "i - 4 < length ?pl")
    case True
    have u: "(wal_layout r)[i := b] = ?h @ ?pl[i - 4 := b] @ ?crc"
      using True assms(2) by (simp add: wal_layout_def list_update_append)
    have "b \<noteq> ?pl ! (i - 4)" using True assms(2,4) by (simp add: wal_layout_def nth_append)
    then have "ChecksumIEEE (?pl[i - 4 := b]) \<noteq> ChecksumIEEE ?pl"
      using True by (intro ChecksumIEEE_detects_update)
    then show ?thesis
      unfolding u using decodeRecord_frame [of "?pl[i - 4 := b]" ?crc z] l by simp
  next
    case False
    let ?j = "i - 4 - length ?pl"
    have j: "?j < 4" using assms(2,3) False by (simp add: length_wal_layout)
    have u: "(wal_layout r)[i := b] = ?h @ ?pl @ ?crc[?j := b]"
      using False assms(2) by (simp add: wal_layout_def list_update_append)
    have "b \<noteq> ?crc ! ?j" using False assms(2,4) by (simp add: wal_layout_def nth_append)
    then have "?crc[?j := b] \<noteq> ?crc" using j by (metis length_put(2) nth_list_update_eq)
    then have "get_u32 (?crc[?j := b]) \<noteq> ChecksumIEEE ?pl"
      using get_u32_inj [of "?crc[?j := b]" ?crc] by auto
    then show ?thesis
      unfolding u using decodeRecord_frame [of ?pl "?crc[?j := b]" z] l by simp
  qed
qed

text \<open>The last four accepted record sizes: the reader's buffer length wraps around.\<close>

lemma decodeRecord_wraps:
  assumes "length (wal_payload r) + 4 \<ge> 2 ^ 32" and "encodable r"
  shows "decodeRecord (wal_layout r) = Panic"
proof -
  let ?n = "length (wal_payload r)"
  let ?rest = "wal_payload r @ put_u32 (ChecksumIEEE (wal_payload r))"
  have n: "?n < 2 ^ 32" using assms(2) by (simp add: encodable_def)
  then have u: "unat (word_of_nat ?n :: u32) = ?n" by (rule unat_of_nat_u32)
  have "(word_of_nat ?n + 4 :: u32) = word_of_nat (?n + 4)" by simp
  then have w: "unat (word_of_nat ?n + 4 :: u32) = (?n + 4) mod 2 ^ 32"
    by (simp only: unat_of_nat take_bit_eq_mod) simp
  have m: "(?n + 4) mod 2 ^ 32 = ?n + 4 - 2 ^ 32" using assms(1) n by (simp add: mod_if)
  have r1: "read_full 4 (wal_layout r) = Inr (put_u32 (word_of_nat ?n), ?rest)"
    unfolding wal_layout_def by (rule read_full_append) simp
  have r2: "read_full (?n + 4 - 2 ^ 32) ?rest = Inr (take (?n + 4 - 2 ^ 32) ?rest, drop (?n + 4 - 2 ^ 32) ?rest)"
    by (simp add: read_full_def)
  have "go_slice (take (?n + 4 - 2 ^ 32) ?rest) ?n (length (take (?n + 4 - 2 ^ 32) ?rest)) = None"
    using assms(1) n by (simp add: go_slice_def)
  then show ?thesis
    unfolding decodeRecord_def r1 sum.case prod.case Let_def get_put u w m r2 by simp
qed

text \<open>A successful read consumes at least the length prefix, so a read loop ends.\<close>

lemma read_full_length: "read_full n s = Inr (x, s') \<Longrightarrow> length s' = length s - n \<and> n \<le> length s"
  by (auto simp: read_full_def split: if_splits)

lemma decodeRecord_consumes: "decodeRecord s = Ok (r, s') \<Longrightarrow> length s' < length s"
  by (auto simp: decodeRecord_def Let_def split: sum.splits prod.splits if_splits
      dest!: read_full_length)

end
