(* ===== verification/Wal_Log.thy ===== *)
theory Wal_Log
  imports Wal_Codec "HOL-Library.List_Lexorder" "HOL-Library.Char_ord"
begin

text \<open>
  The write-ahead log itself, \<open>pkg/storage/wal/wal.go\<close>: segments, rotation, single and batch
  writes, replay, truncation and opening. The directory is an association list from file
  names to contents. The current segment is a file plus the unflushed bytes of its
  \<open>bufio.Writer\<close>; \<open>seg_synced\<close> is how much of the file the last \<open>Sync\<close> made durable, which
  only the crash model reads. \<open>clk k\<close> is the \<open>k\<close>-th reading of \<open>time.Now().UnixNano()\<close>;
  \<open>reads\<close> counts the readings so far. Operating-system calls on the log directory succeed,
  except that opening a missing file fails.
\<close>

section \<open>State\<close>

type_synonym directory = "(string \<times> byte list) list"

record segment =
  seg_path :: string
  seg_buf :: "byte list"
  seg_size :: nat
  seg_synced :: nat

record segmentInfo =
  si_path :: string
  si_lastSeqNum :: u64
  si_size :: nat

record wal =
  files :: directory
  reads :: nat
  segmentSize :: int
  syncOnWrite :: bool
  currentSegment :: segment
  segments :: "segmentInfo list"
  lastSeqNum :: u64
  asyncEnabled :: bool
  asyncBatchSize :: int

record wal_config =
  cfg_SegmentSize :: int
  cfg_SyncOnWrite :: bool
  cfg_AsyncEnabled :: bool
  cfg_AsyncBatchSize :: int

datatype log_error = CodecError wal_error | FileNotFound string

section \<open>Files\<close>

definition dir_lookup :: "directory \<Rightarrow> string \<Rightarrow> byte list option" where
  "dir_lookup d n = map_of d n"

definition dir_store :: "string \<Rightarrow> byte list \<Rightarrow> directory \<Rightarrow> directory" where
  "dir_store n bs d =
     (if n \<in> fst ` set d then map (\<lambda>(m, c). if m = n then (m, bs) else (m, c)) d else d @ [(n, bs)])"

definition dir_remove :: "string \<Rightarrow> directory \<Rightarrow> directory" where
  "dir_remove n d = filter (\<lambda>(m, _). m \<noteq> n) d"

text \<open>\<open>fmt.Sprintf("%020d.wal", n)\<close>: decimal digits, padded with zeros to at least 20.\<close>

definition segment_name :: "nat \<Rightarrow> string" where
  "segment_name n =
     (let ds = dec_digits n in map digit_char (replicate (20 - length ds) 0 @ ds) @ ''.wal'')"

text \<open>
  \<open>bufio.Writer.Write\<close> with the default buffer of 4096 bytes, on the pair of file contents
  and buffered bytes: what does not fit behind the buffered bytes fills the buffer, which is
  flushed; a large remainder goes to the file directly.
\<close>

definition bufio_size :: nat where
  "bufio_size = 4096"

definition bufio_write :: "byte list \<Rightarrow> byte list \<times> byte list \<Rightarrow> byte list \<times> byte list" where
  "bufio_write p fb =
     (case fb of (file, buf) \<Rightarrow>
       let avail = bufio_size - length buf in
       if length p \<le> avail then (file, buf @ p)
       else if buf = [] then (file @ p, [])
       else let file' = file @ buf @ take avail p; p' = drop avail p in
         if length p' \<le> bufio_size then (file', p') else (file' @ p', []))"

section \<open>The current segment\<close>

definition current_file :: "wal \<Rightarrow> byte list" where
  "current_file w = (case dir_lookup (files w) (seg_path (currentSegment w)) of None \<Rightarrow> [] | Some c \<Rightarrow> c)"

definition openCurrentSegment :: "(nat \<Rightarrow> nat) \<Rightarrow> wal \<Rightarrow> wal" where
  "openCurrentSegment clk w =
     (let name = segment_name (clk (reads w));
          content = (case dir_lookup (files w) name of None \<Rightarrow> [] | Some c \<Rightarrow> c)
      in w\<lparr>reads := Suc (reads w), files := dir_store name content (files w),
           currentSegment := \<lparr>seg_path = name, seg_buf = [], seg_size = 0, seg_synced = length content\<rparr>\<rparr>)"

text \<open>\<open>writer.Flush()\<close> and \<open>file.Sync()\<close> of the current segment.\<close>

definition flush_current :: "wal \<Rightarrow> wal" where
  "flush_current w =
     (let seg = currentSegment w in
      w\<lparr>files := dir_store (seg_path seg) (current_file w @ seg_buf seg) (files w),
        currentSegment := seg\<lparr>seg_buf := []\<rparr>\<rparr>)"

definition sync_current :: "wal \<Rightarrow> wal" where
  "sync_current w = w\<lparr>currentSegment := (currentSegment w)\<lparr>seg_synced := length (current_file w)\<rparr>\<rparr>"

definition rotate :: "(nat \<Rightarrow> nat) \<Rightarrow> wal \<Rightarrow> wal" where
  "rotate clk w =
     (let w1 = sync_current (flush_current w);
          info = \<lparr>si_path = seg_path (currentSegment w1), si_lastSeqNum = 0,
                  si_size = seg_size (currentSegment w1)\<rparr>
      in openCurrentSegment clk (w1\<lparr>segments := segments w1 @ [info]\<rparr>))"

text \<open>
  The part the write paths share: rotate when the segment would grow past its limit, hand
  the bytes to the buffered writer, and count them.
\<close>

definition append_bytes :: "(nat \<Rightarrow> nat) \<Rightarrow> byte list \<Rightarrow> wal \<Rightarrow> wal" where
  "append_bytes clk data w =
     (let w1 = (if int (seg_size (currentSegment w)) + int (length data) > segmentSize w
                then rotate clk w else w);
          seg = currentSegment w1;
          fb = bufio_write data (current_file w1, seg_buf seg)
      in w1\<lparr>files := dir_store (seg_path seg) (fst fb) (files w1),
            currentSegment := seg\<lparr>seg_buf := snd fb, seg_size := seg_size seg + length data\<rparr>\<rparr>)"

section \<open>Writing\<close>

text \<open>\<open>Write\<close>: the error, or the record as the call leaves it, with the new state.\<close>

definition Write :: "(nat \<Rightarrow> nat) \<Rightarrow> wal \<Rightarrow> wal_record \<Rightarrow> (wal_error + wal_record) \<times> wal" where
  "Write clk w r =
     (let seq = lastSeqNum w + 1;
          r' = r\<lparr>SeqNum := seq, Timestamp := word_of_nat (clk (reads w))\<rparr>;
          w1 = w\<lparr>lastSeqNum := seq, reads := Suc (reads w)\<rparr>
      in case encodeRecord r' of Inl e \<Rightarrow> (Inl e, w1)
         | Inr data \<Rightarrow>
           let w2 = append_bytes clk data w1 in
           (Inr r', if syncOnWrite w2 then sync_current (flush_current w2) else w2))"

definition encodeBatchSize :: "nat \<Rightarrow> byte list" where
  "encodeBatchSize n = put_u32 (word_of_nat n)"

definition decodeBatchSize :: "byte list \<Rightarrow> nat" where
  "decodeBatchSize data = (if length data < 4 then 0 else unat (get_u32 data))"

text \<open>One record or marker of a batch: numbered, stamped, encoded and buffered.\<close>

definition batch_put :: "(nat \<Rightarrow> nat) \<Rightarrow> wal \<Rightarrow> wal_record \<Rightarrow> (wal_error + wal_record) \<times> wal" where
  "batch_put clk w r =
     (let seq = lastSeqNum w + 1;
          r' = r\<lparr>SeqNum := seq, Timestamp := word_of_nat (clk (reads w))\<rparr>;
          w1 = w\<lparr>lastSeqNum := seq, reads := Suc (reads w)\<rparr>
      in case encodeRecord r' of Inl e \<Rightarrow> (Inl e, w1)
         | Inr data \<Rightarrow> (Inr r', append_bytes clk data w1))"

fun batch_put_all :: "(nat \<Rightarrow> nat) \<Rightarrow> wal \<Rightarrow> wal_record list \<Rightarrow> (wal_error + wal_record list) \<times> wal" where
  "batch_put_all clk w [] = (Inr [], w)"
| "batch_put_all clk w (r # rs) =
     (case batch_put clk w r of
        (Inl e, w1) \<Rightarrow> (Inl e, w1)
      | (Inr r', w1) \<Rightarrow>
        (case batch_put_all clk w1 rs of
           (Inl e, w2) \<Rightarrow> (Inl e, w2)
         | (Inr rs', w2) \<Rightarrow> (Inr (r' # rs'), w2)))"

definition batch_marker :: "byte \<Rightarrow> nat \<Rightarrow> wal_record" where
  "batch_marker typ n = \<lparr>SeqNum = 0, RType = typ, Collection = [], Data = encodeBatchSize n, Timestamp = 0\<rparr>"

definition WriteBatch :: "(nat \<Rightarrow> nat) \<Rightarrow> wal \<Rightarrow> wal_record list \<Rightarrow> (wal_error + wal_record list) \<times> wal" where
  "WriteBatch clk w rs =
     (case batch_put_all clk w (batch_marker RecordTypeBatchBegin (length rs) # rs
                                @ [batch_marker RecordTypeBatchEnd (length rs)]) of
        (Inl e, w1) \<Rightarrow> (Inl e, w1)
      | (Inr rs', w1) \<Rightarrow>
        let w2 = flush_current w1 in (Inr rs', if syncOnWrite w2 then sync_current w2 else w2))"

definition Sync :: "wal \<Rightarrow> wal" where
  "Sync w = sync_current (flush_current w)"

definition LastSeqNum :: "wal \<Rightarrow> u64" where
  "LastSeqNum w = lastSeqNum w"

section \<open>Replay\<close>

text \<open>\<open>replaySegment\<close>: all records of a file; only a clean end of file ends the loop without error.\<close>

function (sequential) replay_bytes :: "byte list \<Rightarrow> (wal_error, wal_record list) outcome" where
  "replay_bytes s =
     (case decodeRecord s of
        Ok (r, s') \<Rightarrow> bind_outcome (replay_bytes s') (\<lambda>rs. Ok (r # rs))
      | Err (IOError EOF) \<Rightarrow> Ok []
      | Err e \<Rightarrow> Err e
      | Panic \<Rightarrow> Panic)"
  by pat_completeness auto
termination
  by (relation "measure length") (auto intro: decodeRecord_consumes)

declare replay_bytes.simps [simp del]

definition replaySegment :: "directory \<Rightarrow> string \<Rightarrow> (log_error, wal_record list) outcome" where
  "replaySegment d path =
     (case dir_lookup d path of None \<Rightarrow> Err (FileNotFound path)
      | Some c \<Rightarrow> (case replay_bytes c of Ok rs \<Rightarrow> Ok rs | Err e \<Rightarrow> Err (CodecError e) | Panic \<Rightarrow> Panic))"

primrec replay_segments :: "directory \<Rightarrow> string list \<Rightarrow> (log_error, wal_record list) outcome" where
  "replay_segments d [] = Ok []"
| "replay_segments d (p # ps) =
     bind_outcome (replaySegment d p) (\<lambda>rs. bind_outcome (replay_segments d ps) (\<lambda>rs'. Ok (rs @ rs')))"

text \<open>
  The second half of \<open>Replay\<close>: which records reach the callback. The state is
  \<open>(inBatch, expectedBatchSize, batchBuf)\<close>.
\<close>

fun apply_records :: "bool \<Rightarrow> nat \<Rightarrow> wal_record list \<Rightarrow> wal_record list \<Rightarrow> wal_record list" where
  "apply_records inBatch expected buf [] = []"
| "apply_records inBatch expected buf (r # rs) =
     (if RType r = RecordTypeBatchBegin then
        apply_records True (decodeBatchSize (Data r)) [] rs
      else if RType r = RecordTypeBatchEnd then
        (if inBatch \<and> length buf = expected then buf else []) @ apply_records False expected [] rs
      else if inBatch then apply_records True expected (buf @ [r]) rs
      else r # apply_records False expected buf rs)"

definition collect_records :: "wal \<Rightarrow> (log_error, wal_record list) outcome \<times> wal" where
  "collect_records w =
     (let w1 = flush_current w in
      (replay_segments (files w1) (map si_path (segments w1) @ [seg_path (currentSegment w1)]), w1))"

text \<open>
  \<open>Replay(fn)\<close> with a callback over a state \<open>'s\<close> that may fail: the records are handed to it
  in order and the first error stops the loop.
\<close>

primrec run_callback :: "('s \<Rightarrow> wal_record \<Rightarrow> 'e + 's) \<Rightarrow> 's \<Rightarrow> wal_record list \<Rightarrow> 'e option \<times> 's" where
  "run_callback fn s [] = (None, s)"
| "run_callback fn s (r # rs) =
     (case fn s r of Inl e \<Rightarrow> (Some e, s) | Inr s' \<Rightarrow> run_callback fn s' rs)"

definition Replay :: "('s \<Rightarrow> wal_record \<Rightarrow> 'e + 's) \<Rightarrow> 's \<Rightarrow> wal
    \<Rightarrow> (log_error, 'e option \<times> 's) outcome \<times> wal" where
  "Replay fn s w =
     (case collect_records w of (res, w1) \<Rightarrow>
       (bind_outcome res (\<lambda>rs. Ok (run_callback fn s (apply_records False 0 [] rs))), w1))"

section \<open>Truncation\<close>

definition Truncate :: "u64 \<Rightarrow> wal \<Rightarrow> wal" where
  "Truncate before w =
     w\<lparr>files := fold dir_remove (map si_path (filter (\<lambda>s. si_lastSeqNum s < before) (segments w))) (files w),
       segments := filter (\<lambda>s. \<not> si_lastSeqNum s < before) (segments w)\<rparr>"

section \<open>Opening\<close>

function (sequential) scan_bytes :: "byte list \<Rightarrow> u64 \<Rightarrow> (wal_error, u64) outcome" where
  "scan_bytes s maxSeq =
     (case decodeRecord s of
        Ok (r, s') \<Rightarrow> scan_bytes s' (if SeqNum r > maxSeq then SeqNum r else maxSeq)
      | Err (IOError e) \<Rightarrow> Ok maxSeq
      | Err e \<Rightarrow> Err e
      | Panic \<Rightarrow> Panic)"
  by pat_completeness auto
termination
  by (relation "measure (\<lambda>(s, m). length s)") (auto intro: decodeRecord_consumes)

declare scan_bytes.simps [simp del]

definition scanSegmentLastSeqNum :: "byte list \<Rightarrow> (wal_error, u64) outcome" where
  "scanSegmentLastSeqNum s = scan_bytes s 0"

definition is_wal_name :: "string \<Rightarrow> bool" where
  "is_wal_name n \<longleftrightarrow> 4 \<le> length n \<and> drop (length n - 4) n = ''.wal''"

primrec load_all :: "directory \<Rightarrow> string list \<Rightarrow> segmentInfo list \<times> u64
    \<Rightarrow> (log_error, segmentInfo list \<times> u64) outcome" where
  "load_all d [] acc = Ok acc"
| "load_all d (p # ps) acc =
     (case dir_lookup d p of None \<Rightarrow> load_all d ps acc
      | Some c \<Rightarrow>
        (case scanSegmentLastSeqNum c of
           Ok lastSeq \<Rightarrow>
             load_all d ps
               (fst acc @ [\<lparr>si_path = p, si_lastSeqNum = lastSeq, si_size = length c\<rparr>],
                if lastSeq > snd acc then lastSeq else snd acc)
         | Err e \<Rightarrow> Err (CodecError e)
         | Panic \<Rightarrow> Panic))"

definition loadSegments :: "directory \<Rightarrow> (log_error, segmentInfo list \<times> u64) outcome" where
  "loadSegments d = load_all d (sort (filter is_wal_name (map fst d))) ([], 0)"

definition maxAsyncBatchSize :: int where
  "maxAsyncBatchSize = 1000000"

definition clampBatchSize :: "int \<Rightarrow> int" where
  "clampBatchSize n =
     (let n1 = (if n \<le> 0 then 100 else n) in if n1 > maxAsyncBatchSize then maxAsyncBatchSize else n1)"

definition asyncQueueCap :: "int \<Rightarrow> int" where
  "asyncQueueCap n = (if n > 0 \<and> n \<le> maxAsyncBatchSize then n * 10 else maxAsyncBatchSize * 10)"

definition Open :: "(nat \<Rightarrow> nat) \<Rightarrow> nat \<Rightarrow> wal_config \<Rightarrow> directory \<Rightarrow> (log_error, wal) outcome" where
  "Open clk k cfg d =
     bind_outcome (loadSegments d) (\<lambda>(segs, last).
       Ok (openCurrentSegment clk
         \<lparr>files = d, reads = k, segmentSize = cfg_SegmentSize cfg, syncOnWrite = cfg_SyncOnWrite cfg,
          currentSegment = \<lparr>seg_path = [], seg_buf = [], seg_size = 0, seg_synced = 0\<rparr>,
          segments = segs, lastSeqNum = last, asyncEnabled = cfg_AsyncEnabled cfg,
          asyncBatchSize = clampBatchSize (cfg_AsyncBatchSize cfg)\<rparr>))"

section \<open>Crash\<close>

text \<open>
  A crash loses the buffered bytes and any suffix of the current file behind its last sync:
  \<open>wal_crash n w\<close> is the directory when \<open>n\<close> bytes of the current file survive.
\<close>

definition crash_point :: "wal \<Rightarrow> nat \<Rightarrow> bool" where
  "crash_point w n \<longleftrightarrow> seg_synced (currentSegment w) \<le> n \<and> n \<le> length (current_file w)"

definition wal_crash :: "nat \<Rightarrow> wal \<Rightarrow> directory" where
  "wal_crash n w = dir_store (seg_path (currentSegment w)) (take n (current_file w)) (files w)"

end
