(* ===== verification/Wal_Refine.thy ===== *)
theory Wal_Refine
  imports Wal_Log
begin

text \<open>
  The write-ahead log refines a list of records. \<open>wal_rep w rs\<close> says that the segments of \<open>w\<close>,
  buffered bytes included, hold exactly the records \<open>rs\<close> in order; every write appends to
  that list, whatever rotation and buffering do, and replay reads it back.
\<close>

section \<open>The representation\<close>

definition encode_all :: "wal_record list \<Rightarrow> byte list" where
  "encode_all rs = concat (map wal_layout rs)"

definition seg_holds :: "directory \<Rightarrow> segmentInfo \<Rightarrow> wal_record list \<Rightarrow> bool" where
  "seg_holds d s rs \<longleftrightarrow> dir_lookup d (si_path s) = Some (encode_all rs) \<and> (\<forall>r \<in> set rs. readable r)"

definition wal_holds :: "wal \<Rightarrow> wal_record list list \<Rightarrow> wal_record list \<Rightarrow> bool" where
  "wal_holds w rss cur \<longleftrightarrow>
     list_all2 (seg_holds (files w)) (segments w) rss
     \<and> dir_lookup (files w) (seg_path (currentSegment w)) = Some (current_file w)
     \<and> current_file w @ seg_buf (currentSegment w) = encode_all cur
     \<and> (\<forall>r \<in> set cur. readable r)
     \<and> seg_path (currentSegment w) \<notin> si_path ` set (segments w)"

definition wal_rep :: "wal \<Rightarrow> wal_record list \<Rightarrow> bool" where
  "wal_rep w rs \<longleftrightarrow> (\<exists>rss cur. wal_holds w rss cur \<and> rs = concat rss @ cur)"

text \<open>Names the clock will still give to new segments are not in the directory.\<close>

definition fresh_names :: "(nat \<Rightarrow> nat) \<Rightarrow> wal \<Rightarrow> bool" where
  "fresh_names clk w \<longleftrightarrow> (\<forall>k \<ge> reads w. segment_name (clk k) \<notin> fst ` set (files w))"

section \<open>The directory\<close>

lemma map_of_overwrite:
  "map_of (map (\<lambda>(m, c). if m = n then (m, bs) else (m, c)) d) m
   = (if m = n then map_option (\<lambda>_. bs) (map_of d m) else map_of d m)"
  by (induction d) auto

lemma dir_lookup_store: "dir_lookup (dir_store n bs d) m = (if m = n then Some bs else dir_lookup d m)"
proof (cases "n \<in> fst ` set d")
  case True
  then have "map_of d n \<noteq> None" by (simp add: map_of_eq_None_iff)
  with True show ?thesis by (auto simp: dir_lookup_def dir_store_def map_of_overwrite)
next
  case False
  then have "map_of d n = None" by (simp add: map_of_eq_None_iff)
  with False show ?thesis by (auto simp: dir_lookup_def dir_store_def map_add_def split: option.splits)
qed

lemma dir_lookup_remove: "dir_lookup (dir_remove n d) m = (if m = n then None else dir_lookup d m)"
  unfolding dir_lookup_def dir_remove_def by (induction d) auto

interpretation dir: kv_store dir_lookup dir_store dir_remove "\<lambda>_. True"
  by unfold_locales (simp_all add: dir_lookup_store dir_lookup_remove)

lemma dir_names_store: "fst ` set (dir_store n bs d) = insert n (fst ` set d)"
  by (force simp: dir_store_def image_iff split: if_splits)

lemma dir_lookup_None_iff: "dir_lookup d n = None \<longleftrightarrow> n \<notin> fst ` set d"
  by (simp add: dir_lookup_def map_of_eq_None_iff)

lemma dir_lookup_SomeD: "dir_lookup d n = Some c \<Longrightarrow> n \<in> fst ` set d"
  using dir_lookup_None_iff [of d n] by auto

section \<open>Segment names\<close>

lemma digit_char_inj: "a < 10 \<Longrightarrow> b < 10 \<Longrightarrow> digit_char a = digit_char b \<Longrightarrow> a = b"
  by (auto simp: digit_char_def dest!: arg_cong [of _ _ of_char])

lemma foldl_pad: "foldl (\<lambda>v d. 10 * v + d) (0::nat) (replicate k 0 @ ds) = foldl (\<lambda>v d. 10 * v + d) 0 ds"
  by (induction k) auto

lemma segment_name_inj: "inj segment_name"
proof (rule injI)
  fix a b
  let ?p = "\<lambda>n. replicate (20 - length (dec_digits n)) 0 @ dec_digits n"
  assume "segment_name a = segment_name b"
  then have m: "map digit_char (?p a) = map digit_char (?p b)"
    by (simp add: segment_name_def Let_def)
  have "x < 10" if "x \<in> set (?p a) \<union> set (?p b)" for x
    using that by (auto dest: dec_digits_bound split: if_splits)
  then have "inj_on digit_char (set (?p a) \<union> set (?p b))"
    by (intro inj_onI digit_char_inj) simp_all
  with m have "?p a = ?p b" by (rule map_inj_on)
  then have "foldl (\<lambda>v d. 10 * v + d) 0 (?p a) = foldl (\<lambda>v d. 10 * v + d) 0 (?p b)" by simp
  then show "a = b" by (simp only: foldl_pad dec_digits_value)
qed

section \<open>Buffered writes\<close>

lemma bufio_write_content: "fst (bufio_write p (f, b)) @ snd (bufio_write p (f, b)) = f @ b @ p"
  by (auto simp: bufio_write_def Let_def)

lemma bufio_write_bound: "length b \<le> bufio_size \<Longrightarrow> length (snd (bufio_write p (f, b))) \<le> bufio_size"
  by (auto simp: bufio_write_def Let_def)

lemma bufio_write_grows: "\<exists>t. fst (bufio_write p (f, b)) = f @ t"
  by (auto simp: bufio_write_def Let_def)

section \<open>Replaying encoded records\<close>

lemma encode_all_simps [simp]:
  "encode_all [] = []" "encode_all (r # rs) = wal_layout r @ encode_all rs"
  "encode_all (rs @ rs') = encode_all rs @ encode_all rs'"
  by (simp_all add: encode_all_def)

lemma decodeRecord_empty: "decodeRecord [] = Err (IOError EOF)"
  by (simp add: decodeRecord_def read_full_def)

lemma replay_bytes_step: "readable r \<Longrightarrow> replay_bytes (wal_layout r @ z)
    = bind_outcome (replay_bytes z) (\<lambda>rs. Ok (stored_record r # rs))"
  by (subst replay_bytes.simps) (simp add: decodeRecord_layout)

lemma replay_bytes_empty [simp]: "replay_bytes [] = Ok []"
  by (subst replay_bytes.simps) (simp add: decodeRecord_empty)

lemma replay_bytes_encode_all:
  "\<forall>r \<in> set rs. readable r \<Longrightarrow>
   replay_bytes (encode_all rs @ z) = bind_outcome (replay_bytes z) (\<lambda>rs'. Ok (map stored_record rs @ rs'))"
proof (induction rs)
  case Nil
  then show ?case by (cases "replay_bytes z") auto
next
  case (Cons r rs)
  then show ?case by (cases "replay_bytes z") (simp_all add: replay_bytes_step)
qed

lemma replay_bytes_all: "\<forall>r \<in> set rs. readable r \<Longrightarrow> replay_bytes (encode_all rs) = Ok (map stored_record rs)"
  using replay_bytes_encode_all [of rs "[]"] by simp

lemma replay_segments_append:
  "replay_segments d (ps @ qs)
   = bind_outcome (replay_segments d ps) (\<lambda>rs. bind_outcome (replay_segments d qs) (\<lambda>rs'. Ok (rs @ rs')))"
proof (induction ps)
  case Nil
  show ?case by (cases "replay_segments d qs") auto
next
  case (Cons p ps)
  then show ?case
    by (cases "replaySegment d p"; cases "replay_segments d ps"; cases "replay_segments d qs") auto
qed

lemma replay_segments_holds:
  "list_all2 (seg_holds d) segs rss \<Longrightarrow>
   replay_segments d (map si_path segs) = Ok (map stored_record (concat rss))"
  by (induction rule: list_all2_induct)
    (simp_all add: replaySegment_def seg_holds_def replay_bytes_all)

section \<open>Every operation keeps the representation\<close>

lemma segs_store:
  "n \<notin> si_path ` set segs \<Longrightarrow>
   list_all2 (seg_holds (dir_store n c d)) segs rss \<longleftrightarrow> list_all2 (seg_holds d) segs rss"
  by (rule list.rel_cong_simp [OF refl refl, unfolded simp_implies_def])
    (auto simp: seg_holds_def dir_lookup_store)

lemma wal_holds_flush: "wal_holds w rss cur \<Longrightarrow> wal_holds (flush_current w) rss cur"
  by (simp add: wal_holds_def flush_current_def Let_def current_file_def dir_lookup_store segs_store)

lemma flush_current_file: "current_file (flush_current w) = current_file w @ seg_buf (currentSegment w)"
  by (simp add: flush_current_def Let_def current_file_def dir_lookup_store)

lemma current_file_sync [simp]: "current_file (sync_current w) = current_file w"
  by (simp add: sync_current_def current_file_def)

lemma wal_holds_sync: "wal_holds w rss cur \<Longrightarrow> wal_holds (sync_current w) rss cur"
  by (simp add: wal_holds_def) (simp add: sync_current_def current_file_def)

lemma segs_in_dir: "list_all2 (seg_holds d) segs rss \<Longrightarrow> si_path ` set segs \<subseteq> fst ` set d"
  by (induction rule: list_all2_induct) (auto simp: seg_holds_def dest: dir_lookup_SomeD)

lemma wal_holds_open:
  assumes "list_all2 (seg_holds (files w)) (segments w) rss"
    and "segment_name (clk (reads w)) \<notin> fst ` set (files w)"
  shows "wal_holds (openCurrentSegment clk w) rss []"
proof -
  let ?n = "segment_name (clk (reads w))"
  have none: "dir_lookup (files w) ?n = None" using assms(2) by (simp add: dir_lookup_None_iff)
  from segs_in_dir [OF assms(1)] assms(2) have "?n \<notin> si_path ` set (segments w)" by blast
  with assms(1) none show ?thesis
    by (simp add: openCurrentSegment_def Let_def wal_holds_def current_file_def dir_lookup_store segs_store)
qed

lemma wal_holds_rotate:
  assumes "wal_holds w rss cur" and "fresh_names clk w"
  shows "wal_holds (rotate clk w) (rss @ [cur]) []"
proof -
  let ?w1 = "sync_current (flush_current w)"
  let ?s = "\<lparr>si_path = seg_path (currentSegment ?w1), si_lastSeqNum = 0,
    si_size = seg_size (currentSegment ?w1)\<rparr>"
  have h: "wal_holds ?w1 rss cur" using assms(1) by (intro wal_holds_sync wal_holds_flush)
  have p: "seg_path (currentSegment ?w1) = seg_path (currentSegment w)"
    by (simp add: sync_current_def flush_current_def Let_def)
  have "seg_buf (currentSegment ?w1) = []"
    by (simp add: sync_current_def flush_current_def Let_def)
  with h have c: "seg_holds (files ?w1) ?s cur" by (simp add: wal_holds_def seg_holds_def)
  have r: "reads ?w1 = reads w" by (simp add: sync_current_def flush_current_def Let_def)
  have f: "fst ` set (files ?w1) = insert (seg_path (currentSegment w)) (fst ` set (files w))"
    by (simp add: sync_current_def flush_current_def Let_def dir_names_store)
  have "seg_path (currentSegment w) \<in> fst ` set (files w)"
    using assms(1) by (auto simp: wal_holds_def dest: dir_lookup_SomeD)
  moreover have "segment_name (clk (reads w)) \<notin> fst ` set (files w)"
    using assms(2) by (simp add: fresh_names_def)
  ultimately have "segment_name (clk (reads ?w1)) \<notin> fst ` set (files ?w1)"
    unfolding f r by (metis insert_absorb)
  with h c show ?thesis
    unfolding rotate_def Let_def
    by (intro wal_holds_open) (auto simp: wal_holds_def list_all2_appendI)
qed

lemma append_bytes_cases:
  "append_bytes clk data w =
    (let w1 = (if int (seg_size (currentSegment w)) + int (length data) > segmentSize w
               then rotate clk w else w);
         fb = bufio_write data (current_file w1, seg_buf (currentSegment w1))
     in w1\<lparr>files := dir_store (seg_path (currentSegment w1)) (fst fb) (files w1),
           currentSegment := (currentSegment w1)\<lparr>seg_buf := snd fb,
             seg_size := seg_size (currentSegment w1) + length data\<rparr>\<rparr>)"
  by (simp add: append_bytes_def Let_def)

lemma wal_holds_put:
  assumes "wal_holds w rss cur" and "readable r"
    and "fb = bufio_write (wal_layout r) (current_file w, seg_buf (currentSegment w))"
  shows "wal_holds (w\<lparr>files := dir_store (seg_path (currentSegment w)) (fst fb) (files w),
      currentSegment := (currentSegment w)\<lparr>seg_buf := snd fb, seg_size := n\<rparr>\<rparr>) rss (cur @ [r])"
proof -
  have "fst fb @ snd fb = encode_all cur @ wal_layout r"
    using assms(1,3) bufio_write_content [of "wal_layout r" "current_file w"]
    by (simp add: wal_holds_def append_assoc [symmetric] del: append_assoc)
  with assms(1,2) show ?thesis
    by (simp add: wal_holds_def current_file_def dir_lookup_store segs_store)
qed

lemma wal_rep_append:
  assumes "wal_rep w rs" and "fresh_names clk w" and "readable r"
  shows "wal_rep (append_bytes clk (wal_layout r) w) (rs @ [r])"
proof -
  from assms(1) obtain rss cur where h: "wal_holds w rss cur" and rs: "rs = concat rss @ cur"
    by (auto simp: wal_rep_def)
  show ?thesis
  proof (cases "int (seg_size (currentSegment w)) + int (length (wal_layout r)) > segmentSize w")
    case True
    have "wal_holds (append_bytes clk (wal_layout r) w) (rss @ [cur]) ([] @ [r])"
      unfolding append_bytes_cases using True
      by (simp only: if_True Let_def)
        (rule wal_holds_put [OF wal_holds_rotate [OF h assms(2)] assms(3) refl])
    with rs show ?thesis unfolding wal_rep_def by (metis append.assoc append_Nil concat_append concat.simps append_Nil2)
  next
    case False
    have "wal_holds (append_bytes clk (wal_layout r) w) rss (cur @ [r])"
      unfolding append_bytes_cases using False
      by (simp only: if_False Let_def) (rule wal_holds_put [OF h assms(3) refl])
    with rs show ?thesis unfolding wal_rep_def by (metis append.assoc)
  qed
qed

lemma wal_rep_flush: "wal_rep w rs \<Longrightarrow> wal_rep (flush_current w) rs"
  by (auto simp: wal_rep_def intro: wal_holds_flush)

lemma wal_rep_sync: "wal_rep w rs \<Longrightarrow> wal_rep (sync_current w) rs"
  by (auto simp: wal_rep_def intro: wal_holds_sync)

lemma wal_rep_frame [simp]: "wal_rep (w\<lparr>lastSeqNum := a, reads := k\<rparr>) rs \<longleftrightarrow> wal_rep w rs"
  by (simp add: wal_rep_def wal_holds_def current_file_def)

text \<open>Fresh names stay fresh: an operation adds only names of readings it has used up.\<close>

definition names_within :: "(nat \<Rightarrow> nat) \<Rightarrow> wal \<Rightarrow> wal \<Rightarrow> bool" where
  "names_within clk w w' \<longleftrightarrow> reads w \<le> reads w'
     \<and> fst ` set (files w') \<subseteq> insert (seg_path (currentSegment w))
          (fst ` set (files w) \<union> (\<lambda>k. segment_name (clk k)) ` {reads w..<reads w'})"

lemma fresh_names_within:
  assumes "inj clk" and "wal_rep w rs" and "fresh_names clk w" and "names_within clk w w'"
  shows "fresh_names clk w'"
proof -
  have cur: "seg_path (currentSegment w) \<in> fst ` set (files w)"
    using assms(2) by (auto simp: wal_rep_def wal_holds_def dest: dir_lookup_SomeD)
  have le: "reads w \<le> reads w'" and sub: "fst ` set (files w') \<subseteq> insert (seg_path (currentSegment w))
      (fst ` set (files w) \<union> (\<lambda>k. segment_name (clk k)) ` {reads w..<reads w'})"
    using assms(4) by (simp_all add: names_within_def)
  show ?thesis
    unfolding fresh_names_def
  proof (intro allI impI)
    fix k
    assume k: "reads w' \<le> k"
    have "segment_name (clk k) \<notin> fst ` set (files w)"
      using assms(3) k le by (simp add: fresh_names_def)
    moreover have "segment_name (clk k) \<noteq> segment_name (clk j)" if "j < reads w'" for j
      using that k injD [OF segment_name_inj, of "clk k" "clk j"] injD [OF assms(1), of k j] by auto
    then have "segment_name (clk k) \<notin> (\<lambda>k. segment_name (clk k)) ` {reads w..<reads w'}"
      by (metis atLeastLessThan_iff image_iff)
    moreover have "fst ` set (files w')
        \<subseteq> fst ` set (files w) \<union> (\<lambda>k. segment_name (clk k)) ` {reads w..<reads w'}"
      using sub unfolding insert_absorb [OF UnI1 [OF cur]] .
    ultimately show "segment_name (clk k) \<notin> fst ` set (files w')" by blast
  qed
qed

lemma names_rotate: "names_within clk w (rotate clk w)"
  by (auto simp: names_within_def rotate_def Let_def openCurrentSegment_def sync_current_def
      flush_current_def dir_names_store)

lemma names_append_bytes: "names_within clk w (append_bytes clk data w)"
  by (auto simp: names_within_def append_bytes_def Let_def rotate_def openCurrentSegment_def
      sync_current_def flush_current_def dir_names_store)

lemma fresh_names_next: "fresh_names clk w \<Longrightarrow> reads w \<le> k \<Longrightarrow> fresh_names clk (w\<lparr>lastSeqNum := a, reads := k\<rparr>)"
  by (auto simp: fresh_names_def)

lemma fresh_names_flush: "wal_rep w rs \<Longrightarrow> fresh_names clk (flush_current w) \<longleftrightarrow> fresh_names clk w"
proof -
  assume "wal_rep w rs"
  then have "seg_path (currentSegment w) \<in> fst ` set (files w)"
    by (auto simp: wal_rep_def wal_holds_def dest: dir_lookup_SomeD)
  then show ?thesis
    by (simp add: fresh_names_def flush_current_def Let_def dir_names_store insert_absorb)
qed

lemma fresh_names_sync [simp]: "fresh_names clk (sync_current w) \<longleftrightarrow> fresh_names clk w"
  by (simp add: fresh_names_def sync_current_def)

section \<open>Writes append\<close>

definition wal_ok :: "(nat \<Rightarrow> nat) \<Rightarrow> wal \<Rightarrow> wal_record list \<Rightarrow> bool" where
  "wal_ok clk w rs \<longleftrightarrow> inj clk \<and> wal_rep w rs \<and> fresh_names clk w"

lemma wal_ok_flush: "wal_ok clk w rs \<Longrightarrow> wal_ok clk (flush_current w) rs"
  using fresh_names_flush [of w rs clk] by (auto simp: wal_ok_def intro: wal_rep_flush)

lemma wal_ok_sync: "wal_ok clk w rs \<Longrightarrow> wal_ok clk (sync_current w) rs"
  by (simp add: wal_ok_def wal_rep_sync)

lemma wal_ok_next: "wal_ok clk w rs \<Longrightarrow> reads w \<le> k \<Longrightarrow> wal_ok clk (w\<lparr>lastSeqNum := a, reads := k\<rparr>) rs"
  by (simp add: wal_ok_def fresh_names_next)

lemma wal_ok_append:
  "wal_ok clk w rs \<Longrightarrow> readable r \<Longrightarrow> wal_ok clk (append_bytes clk (wal_layout r) w) (rs @ [r])"
  by (auto simp: wal_ok_def intro: wal_rep_append fresh_names_within names_append_bytes)

text \<open>The size of the stored form does not depend on the number and the time a write assigns.\<close>

lemma readable_stamp [simp]: "readable (r\<lparr>SeqNum := a, Timestamp := b\<rparr>) \<longleftrightarrow> readable r"
  by (simp add: readable_def length_wal_payload)

lemma batch_put_ok:
  assumes "wal_ok clk w rs" and "readable r"
  shows "\<exists>r' w'. batch_put clk w r = (Inr r', w') \<and> wal_ok clk w' (rs @ [r'])
    \<and> r' = r\<lparr>SeqNum := lastSeqNum w + 1, Timestamp := word_of_nat (clk (reads w))\<rparr>
    \<and> lastSeqNum w' = lastSeqNum w + 1 \<and> syncOnWrite w' = syncOnWrite w"
proof -
  let ?r = "r\<lparr>SeqNum := lastSeqNum w + 1, Timestamp := word_of_nat (clk (reads w))\<rparr>"
  let ?w = "w\<lparr>lastSeqNum := lastSeqNum w + 1, reads := Suc (reads w)\<rparr>"
  have "readable ?r" using assms(2) by simp
  moreover from this have "encodeRecord ?r = Inr (wal_layout ?r)"
    by (intro encodeRecord_layout readable_encodable)
  moreover have "wal_ok clk ?w rs" using assms(1) by (rule wal_ok_next) simp
  ultimately show ?thesis
    by (simp add: batch_put_def Let_def wal_ok_append)
      (simp add: append_bytes_def rotate_def Let_def openCurrentSegment_def sync_current_def flush_current_def)
qed

lemma Write_eq_batch_put:
  "Write clk w r =
     (case batch_put clk w r of (Inl e, w1) \<Rightarrow> (Inl e, w1)
      | (Inr r', w2) \<Rightarrow> (Inr r', if syncOnWrite w2 then sync_current (flush_current w2) else w2))"
  by (simp add: Write_def batch_put_def Let_def split: sum.splits)

text \<open>\<open>number_from s rs\<close>: the records \<open>rs\<close> carry the sequence numbers \<open>s+1, s+2, \<dots>\<close>\<close>

primrec numbered_from :: "u64 \<Rightarrow> wal_record list \<Rightarrow> bool" where
  "numbered_from s [] = True"
| "numbered_from s (r # rs) = (SeqNum r = s + 1 \<and> numbered_from (s + 1) rs)"

text \<open>Same content: what a write may change in a record is its number and its time.\<close>

definition same_content :: "wal_record \<Rightarrow> wal_record \<Rightarrow> bool" where
  "same_content r r' \<longleftrightarrow> RType r' = RType r \<and> Collection r' = Collection r \<and> Data r' = Data r"

lemma same_content_stamp [simp]: "same_content x (x\<lparr>SeqNum := a, Timestamp := b\<rparr>)"
  by (simp add: same_content_def)

lemma batch_put_all_ok:
  assumes "wal_ok clk w rs" and "\<forall>x \<in> set xs. readable x"
  shows "\<exists>xs' w'. batch_put_all clk w xs = (Inr xs', w') \<and> wal_ok clk w' (rs @ xs')
    \<and> list_all2 same_content xs xs' \<and> numbered_from (lastSeqNum w) xs'
    \<and> lastSeqNum w' = lastSeqNum w + word_of_nat (length xs) \<and> syncOnWrite w' = syncOnWrite w"
  using assms
proof (induction xs arbitrary: w rs)
  case Nil
  then show ?case by simp
next
  case (Cons x xs)
  have "readable x" using Cons.prems(2) by simp
  from batch_put_ok [OF Cons.prems(1) this]
  obtain x' w1 where p: "batch_put clk w x = (Inr x', w1)" and ok: "wal_ok clk w1 (rs @ [x'])"
    and x': "x' = x\<lparr>SeqNum := lastSeqNum w + 1, Timestamp := word_of_nat (clk (reads w))\<rparr>"
    and l: "lastSeqNum w1 = lastSeqNum w + 1" and sy: "syncOnWrite w1 = syncOnWrite w"
    by blast
  have "\<forall>y \<in> set xs. readable y" using Cons.prems(2) by simp
  from Cons.IH [OF ok this]
  obtain xs' w2 where "batch_put_all clk w1 xs = (Inr xs', w2)" and "wal_ok clk w2 ((rs @ [x']) @ xs')"
    and "list_all2 same_content xs xs'" and "numbered_from (lastSeqNum w1) xs'"
    and "lastSeqNum w2 = lastSeqNum w1 + word_of_nat (length xs)" and "syncOnWrite w2 = syncOnWrite w1"
    by blast
  with p x' l sy show ?case by (simp add: add.assoc)
qed

lemma Write_ok:
  assumes "wal_ok clk w rs" and "readable r"
  shows "\<exists>r' w'. Write clk w r = (Inr r', w') \<and> wal_ok clk w' (rs @ [r'])
    \<and> same_content r r' \<and> SeqNum r' = lastSeqNum w + 1 \<and> lastSeqNum w' = lastSeqNum w + 1
    \<and> syncOnWrite w' = syncOnWrite w
    \<and> (syncOnWrite w \<longrightarrow> seg_buf (currentSegment w') = []
        \<and> seg_synced (currentSegment w') = length (current_file w'))"
proof -
  from batch_put_ok [OF assms]
  obtain r' w1 where "batch_put clk w r = (Inr r', w1)" and "wal_ok clk w1 (rs @ [r'])"
    and "r' = r\<lparr>SeqNum := lastSeqNum w + 1, Timestamp := word_of_nat (clk (reads w))\<rparr>"
    and "lastSeqNum w1 = lastSeqNum w + 1" and "syncOnWrite w1 = syncOnWrite w"
    by blast
  then show ?thesis
    by (auto simp: Write_eq_batch_put same_content_def intro: wal_ok_sync wal_ok_flush)
      (simp_all add: sync_current_def flush_current_def Let_def current_file_def dir_lookup_store)
qed

lemma batch_marker_readable: "readable (batch_marker t n)"
  by (simp add: readable_def length_wal_payload batch_marker_def encodeBatchSize_def)

lemma WriteBatch_ok:
  assumes "wal_ok clk w rs" and "\<forall>x \<in> set xs. readable x"
  shows "\<exists>b xs' e w'. WriteBatch clk w xs = (Inr (b # xs' @ [e]), w') \<and> wal_ok clk w' (rs @ b # xs' @ [e])
    \<and> list_all2 same_content xs xs' \<and> numbered_from (lastSeqNum w) (b # xs' @ [e])
    \<and> same_content (batch_marker RecordTypeBatchBegin (length xs)) b
    \<and> same_content (batch_marker RecordTypeBatchEnd (length xs)) e
    \<and> seg_buf (currentSegment w') = []"
proof -
  let ?b = "batch_marker RecordTypeBatchBegin (length xs)"
  let ?e = "batch_marker RecordTypeBatchEnd (length xs)"
  have "\<forall>x \<in> set (?b # xs @ [?e]). readable x" using assms(2) batch_marker_readable by auto
  from batch_put_all_ok [OF assms(1) this]
  obtain ys w1 where p: "batch_put_all clk w (?b # xs @ [?e]) = (Inr ys, w1)"
    and ok: "wal_ok clk w1 (rs @ ys)" and c: "list_all2 same_content (?b # xs @ [?e]) ys"
    and n: "numbered_from (lastSeqNum w) ys" by blast
  from c obtain b xs' e where ys: "ys = b # xs' @ [e]" and "same_content ?b b"
    and "list_all2 same_content xs xs'" and "same_content ?e e"
    by (auto simp: list_all2_Cons1 list_all2_append1)
  moreover have "seg_buf (currentSegment (snd (WriteBatch clk w xs))) = []"
    by (simp add: WriteBatch_def p Let_def sync_current_def flush_current_def del: batch_put_all.simps)
  ultimately show ?thesis
    using p ok n
    by (auto simp: WriteBatch_def Let_def simp del: batch_put_all.simps intro: wal_ok_sync wal_ok_flush)
qed

section \<open>Replay reads the log back\<close>

lemma collect_records_ok:
  assumes "wal_rep w rs"
  shows "fst (collect_records w) = Ok (map stored_record rs)"
proof -
  from wal_rep_flush [OF assms] obtain rss cur
    where h: "wal_holds (flush_current w) rss cur" and rs: "rs = concat rss @ cur"
    by (auto simp: wal_rep_def)
  have "seg_buf (currentSegment (flush_current w)) = []" by (simp add: flush_current_def Let_def)
  with h have "replaySegment (files (flush_current w)) (seg_path (currentSegment (flush_current w)))
      = Ok (map stored_record cur)"
    by (simp add: wal_holds_def replaySegment_def replay_bytes_all)
  moreover from h have "replay_segments (files (flush_current w)) (map si_path (segments (flush_current w)))
      = Ok (map stored_record (concat rss))"
    by (intro replay_segments_holds) (simp add: wal_holds_def)
  ultimately show ?thesis
    by (simp add: collect_records_def Let_def replay_segments_append rs)
qed

section \<open>Batches\<close>

lemma decode_encode_batch_size: "n < 2 ^ 32 \<Longrightarrow> decodeBatchSize (encodeBatchSize n) = n"
  by (simp add: decodeBatchSize_def encodeBatchSize_def unat_of_nat_u32)

definition plain :: "wal_record \<Rightarrow> bool" where
  "plain r \<longleftrightarrow> RType r \<noteq> RecordTypeBatchBegin \<and> RType r \<noteq> RecordTypeBatchEnd"

lemma record_types_distinct [simp]: "RecordTypeBatchBegin \<noteq> RecordTypeBatchEnd"
  "RecordTypeBatchEnd \<noteq> RecordTypeBatchBegin"
  by (simp_all add: RecordTypeBatchBegin_def RecordTypeBatchEnd_def)

lemma apply_plain: "\<forall>r \<in> set xs. plain r \<Longrightarrow> apply_records False e b (xs @ ys) = xs @ apply_records False e b ys"
  by (induction xs) (auto simp: plain_def)

lemma apply_in_batch: "\<forall>r \<in> set xs. plain r \<Longrightarrow> apply_records True e b (xs @ ys) = apply_records True e (b @ xs) ys"
  by (induction xs arbitrary: b) (auto simp: plain_def)

text \<open>Outside a batch the expected size and the buffer are dead.\<close>

lemma apply_out_batch: "apply_records False e b xs = apply_records False 0 [] xs"
  by (induction xs arbitrary: e b) auto

lemma apply_append_closed:
  "apply_records i e b (xs @ ys) = apply_records i e b xs
     @ (let st = foldl (\<lambda>(i, e, b) r.
          if RType r = RecordTypeBatchBegin then (True, decodeBatchSize (Data r), [])
          else if RType r = RecordTypeBatchEnd then (False, e, [])
          else if i then (True, e, b @ [r]) else (False, e, b)) (i, e, b) xs
        in apply_records (fst st) (fst (snd st)) (snd (snd st)) ys)"
  by (induction xs arbitrary: i e b) (auto simp: Let_def)

lemma apply_batch:
  assumes "RType b = RecordTypeBatchBegin" and "decodeBatchSize (Data b) = length xs"
    and "\<forall>r \<in> set xs. plain r" and "RType e = RecordTypeBatchEnd"
  shows "apply_records False n buf (b # xs @ e # ys) = xs @ apply_records False 0 [] ys"
  using assms apply_in_batch [of xs "length xs" "[]" "e # ys"] apply_out_batch
  by (simp add: apply_out_batch [of "length xs" "[]" ys])

text \<open>An interrupted batch: none of its records is applied, and neither is any plain record behind it.\<close>

lemma apply_open_batch:
  assumes "RType b = RecordTypeBatchBegin" and "\<forall>r \<in> set xs. plain r"
  shows "apply_records False n buf (b # xs) = []"
  using assms apply_in_batch [of xs "decodeBatchSize (Data b)" "[]" "[]"] by simp

text \<open>A log prefix that ends outside a batch: what is applied splits there.\<close>

definition closed_log :: "wal_record list \<Rightarrow> bool" where
  "closed_log xs \<longleftrightarrow> (\<forall>ys. apply_records False 0 [] (xs @ ys)
      = apply_records False 0 [] xs @ apply_records False 0 [] ys)"

lemma closed_log_Nil: "closed_log []"
  by (simp add: closed_log_def)

lemma closed_log_plain: "closed_log xs \<Longrightarrow> plain r \<Longrightarrow> closed_log (xs @ [r])"
  by (simp add: closed_log_def plain_def)

lemma closed_log_batch:
  assumes "closed_log ls" and "RType b = RecordTypeBatchBegin" and "decodeBatchSize (Data b) = length xs"
    and "\<forall>r \<in> set xs. plain r" and "RType e = RecordTypeBatchEnd"
  shows "closed_log (ls @ b # xs @ [e])"
  unfolding closed_log_def
proof
  fix ys
  have 1: "apply_records False 0 [] (b # xs @ e # ys) = xs @ apply_records False 0 [] ys" for ys
    using apply_batch [OF assms(2-5)] .
  show "apply_records False 0 [] ((ls @ b # xs @ [e]) @ ys)
      = apply_records False 0 [] (ls @ b # xs @ [e]) @ apply_records False 0 [] ys"
    using assms(1) 1 [of ys] 1 [of "[]"] by (simp add: closed_log_def del: apply_records.simps(2))
qed

lemma apply_stored: "RType (stored_record r) = RType r" "Data (stored_record r) = Data r"
  "Collection (stored_record r) = Collection r" "SeqNum (stored_record r) = SeqNum r"
  by (simp_all add: stored_record_def)

lemma apply_records_stored:
  "apply_records i e (map stored_record b) (map stored_record rs) = map stored_record (apply_records i e b rs)"
proof (induction rs arbitrary: i e b)
  case Nil
  then show ?case by simp
next
  case (Cons r rs)
  from Cons [of _ _ "[]"] Cons [of True e "b @ [r]"] Cons [of False e b] show ?case
    by (simp add: apply_stored)
qed

end
