(* ===== verification/Wal_Recovery.thy ===== *)
theory Wal_Recovery
  imports Wal_Refine
begin

text \<open>
  What survives a crash and a restart: the decodable prefix of the current segment, the
  sequence number a scan restores, the order in which segments are loaded, and which segments
  truncation removes.
\<close>

definition wal_paths :: "wal \<Rightarrow> string list" where
  "wal_paths w = map si_path (segments w) @ [seg_path (currentSegment w)]"

definition max_seq :: "wal_record list \<Rightarrow> u64" where
  "max_seq rs = foldl (\<lambda>m r. if SeqNum r > m then SeqNum r else m) 0 rs"

text \<open>Every segment knows the highest sequence number it holds, as after \<open>loadSegments\<close>.\<close>

definition scanned :: "wal \<Rightarrow> wal_record list list \<Rightarrow> bool" where
  "scanned w rss \<longleftrightarrow> list_all2 (\<lambda>s rs. si_lastSeqNum s = max_seq rs) (segments w) rss
     \<and> distinct (wal_paths w)"

section \<open>Torn segments\<close>

lemma encode_all_cut:
  "n \<le> length (encode_all rs) \<Longrightarrow>
   \<exists>m t. m \<le> length rs \<and> take n (encode_all rs) = encode_all (take m rs) @ t
     \<and> (t = [] \<and> n = length (encode_all (take m rs))
        \<or> (\<exists>k. m < length rs \<and> k < length (wal_layout (rs ! m)) \<and> t = take k (wal_layout (rs ! m))))"
proof (induction rs arbitrary: n)
  case Nil
  then show ?case by simp
next
  case (Cons r rs)
  show ?case
  proof (cases "n < length (wal_layout r)")
    case True
    then show ?thesis by (intro exI [of _ 0] exI [of _ "take n (wal_layout r)"]) auto
  next
    case False
    let ?n = "n - length (wal_layout r)"
    have "?n \<le> length (encode_all rs)" using Cons.prems by simp
    from Cons.IH [OF this] obtain m t where mt: "m \<le> length rs"
      "take ?n (encode_all rs) = encode_all (take m rs) @ t"
      "t = [] \<and> ?n = length (encode_all (take m rs))
       \<or> (\<exists>k. m < length rs \<and> k < length (wal_layout (rs ! m)) \<and> t = take k (wal_layout (rs ! m)))"
      by blast
    with False show ?thesis by (intro exI [of _ "Suc m"] exI [of _ t]) auto
  qed
qed

lemma replay_bytes_torn:
  assumes "readable r" and "k < length (wal_layout r)"
  shows "replay_bytes (take k (wal_layout r))
    = (if k = 0 \<or> k = 4 then Ok [] else Err (IOError UnexpectedEOF))"
  using decodeRecord_torn [OF assms] by (subst replay_bytes.simps) simp

lemma replay_bytes_cut:
  assumes "\<forall>r \<in> set rs. readable r" and "n \<le> length (encode_all rs)"
  shows "(\<exists>m \<le> length rs. replay_bytes (take n (encode_all rs)) = Ok (map stored_record (take m rs)))
    \<or> replay_bytes (take n (encode_all rs)) = Err (IOError UnexpectedEOF)"
proof -
  from encode_all_cut [OF assms(2)] obtain m t where m: "m \<le> length rs"
    and tk: "take n (encode_all rs) = encode_all (take m rs) @ t"
    and t: "t = [] \<or> (\<exists>k. m < length rs \<and> k < length (wal_layout (rs ! m)) \<and> t = take k (wal_layout (rs ! m)))"
    by blast
  have rd: "\<forall>r \<in> set (take m rs). readable r" using assms(1) by (meson in_set_takeD)
  have "replay_bytes t = Ok [] \<or> replay_bytes t = Err (IOError UnexpectedEOF)"
    using t
  proof
    assume "\<exists>k. m < length rs \<and> k < length (wal_layout (rs ! m)) \<and> t = take k (wal_layout (rs ! m))"
    then obtain k where "m < length rs" and k: "k < length (wal_layout (rs ! m))" "t = take k (wal_layout (rs ! m))"
      by blast
    then have "readable (rs ! m)" using assms(1) by simp
    from replay_bytes_torn [OF this k(1)] k(2) show ?thesis by simp
  qed simp
  with m show ?thesis unfolding tk replay_bytes_encode_all [OF rd] by auto
qed

section \<open>Scanning\<close>

lemma scan_bytes_step: "readable r \<Longrightarrow> scan_bytes (wal_layout r @ z) m
    = scan_bytes z (if SeqNum r > m then SeqNum r else m)"
  by (subst scan_bytes.simps) (simp add: decodeRecord_layout apply_stored)

lemma scan_bytes_encode_all:
  "\<forall>r \<in> set rs. readable r \<Longrightarrow> scan_bytes (encode_all rs @ z) m
    = scan_bytes z (foldl (\<lambda>m r. if SeqNum r > m then SeqNum r else m) m rs)"
  by (induction rs arbitrary: m) (simp_all add: scan_bytes_step)

lemma scan_bytes_torn:
  "readable r \<Longrightarrow> k < length (wal_layout r) \<Longrightarrow> scan_bytes (take k (wal_layout r)) m = Ok m"
  by (subst scan_bytes.simps) (simp add: decodeRecord_torn)

lemma scan_bytes_empty: "scan_bytes [] m = Ok m"
  by (subst scan_bytes.simps) (simp add: decodeRecord_empty)

lemma scan_segment_cut:
  assumes "\<forall>r \<in> set rs. readable r" and "n \<le> length (encode_all rs)"
  shows "\<exists>m \<le> length rs. scanSegmentLastSeqNum (take n (encode_all rs)) = Ok (max_seq (take m rs))"
proof -
  from encode_all_cut [OF assms(2)] obtain m t where m: "m \<le> length rs"
    and tk: "take n (encode_all rs) = encode_all (take m rs) @ t"
    and t: "t = [] \<or> (\<exists>k. m < length rs \<and> k < length (wal_layout (rs ! m)) \<and> t = take k (wal_layout (rs ! m)))"
    by blast
  have rd: "\<forall>r \<in> set (take m rs). readable r" using assms(1) by (meson in_set_takeD)
  have "scan_bytes t k = Ok k" for k using t assms(1) scan_bytes_torn scan_bytes_empty by auto
  with m show ?thesis
    unfolding scanSegmentLastSeqNum_def tk scan_bytes_encode_all [OF rd] max_seq_def by auto
qed

lemma scan_segment_all: "\<forall>r \<in> set rs. readable r \<Longrightarrow> scanSegmentLastSeqNum (encode_all rs) = Ok (max_seq rs)"
  using scan_bytes_encode_all [of rs "[]" 0] by (simp add: scanSegmentLastSeqNum_def max_seq_def scan_bytes_empty)

lemma max_seq_upper: "r \<in> set rs \<Longrightarrow> SeqNum r \<le> max_seq rs"
  unfolding max_seq_def by (rule foldl_max_elem)

text \<open>What a file replays to, its scan accounts for.\<close>

lemma replay_scan:
  "replay_bytes s = Ok rs \<Longrightarrow>
   scan_bytes s m = Ok (foldl (\<lambda>m r. if SeqNum r > m then SeqNum r else m) m rs)"
proof (induction s arbitrary: rs m rule: replay_bytes.induct)
  case (1 s)
  show ?case
  proof (cases "decodeRecord s")
    case (Ok p)
    obtain r s' where p: "p = (r, s')" by (cases p)
    with Ok "1.prems" obtain rs' where rs: "rs = r # rs'" "replay_bytes s' = Ok rs'"
      by (auto simp: replay_bytes.simps [of s])
    from "1.IH" [OF Ok p [symmetric] rs(2)] rs(1) show ?thesis
      by (simp add: scan_bytes.simps [of s] Ok p)
  next
    case (Err e)
    with "1.prems" show ?thesis
      by (auto simp: replay_bytes.simps [of s] scan_bytes.simps [of s]
          split: wal_error.splits io_error.splits)
  next
    case Panic
    with "1.prems" show ?thesis by (simp add: replay_bytes.simps [of s])
  qed
qed

lemma replay_scan_upper:
  assumes "replay_bytes c = Ok rs" and "r \<in> set rs" and "scanSegmentLastSeqNum c = Ok s"
  shows "SeqNum r \<le> s"
  using assms max_seq_upper [OF assms(2)] replay_scan [OF assms(1), of 0]
  by (simp add: scanSegmentLastSeqNum_def max_seq_def)

section \<open>Crash\<close>

lemma wal_crash_segments:
  assumes "wal_holds w rss cur"
  shows "replay_segments (wal_crash n w) (map si_path (segments w)) = Ok (map stored_record (concat rss))"
proof -
  have "list_all2 (seg_holds (wal_crash n w)) (segments w) rss"
    using assms by (simp add: wal_crash_def wal_holds_def segs_store)
  then show ?thesis by (rule replay_segments_holds)
qed

lemma wal_crash_current:
  "dir_lookup (wal_crash n w) (seg_path (currentSegment w)) = Some (take n (current_file w))"
  by (simp add: wal_crash_def dir_lookup_store)

lemma current_file_prefix:
  "wal_holds w rss cur \<Longrightarrow> n \<le> length (current_file w) \<Longrightarrow> take n (current_file w) = take n (encode_all cur)"
  by (metis take_append_prefix wal_holds_def)

lemma wal_crash_replay:
  assumes "wal_rep w rs" and "crash_point w n"
  shows "(\<exists>m \<le> length rs. replay_segments (wal_crash n w) (wal_paths w) = Ok (map stored_record (take m rs)))
    \<or> replay_segments (wal_crash n w) (wal_paths w) = Err (CodecError (IOError UnexpectedEOF))"
proof -
  from assms(1) obtain rss cur where h: "wal_holds w rss cur" and rs: "rs = concat rss @ cur"
    by (auto simp: wal_rep_def)
  have n: "n \<le> length (current_file w)" using assms(2) by (simp add: crash_point_def)
  have c: "\<forall>r \<in> set cur. readable r" "length (current_file w) \<le> length (encode_all cur)"
    using h by (auto simp: wal_holds_def dest!: arg_cong [of _ _ length])
  have t: "take n (current_file w) = take n (encode_all cur)" by (rule current_file_prefix [OF h n])
  from replay_bytes_cut [OF c(1), of n] n c(2) consider
    (ok) m where "m \<le> length cur" "replay_bytes (take n (encode_all cur)) = Ok (map stored_record (take m cur))"
    | (torn) "replay_bytes (take n (encode_all cur)) = Err (IOError UnexpectedEOF)"
    by fastforce
  then show ?thesis
  proof cases
    case ok
    have "replay_segments (wal_crash n w) (wal_paths w)
        = Ok (map stored_record (take (length (concat rss) + m) rs))"
      unfolding wal_paths_def replay_segments_append wal_crash_segments [OF h]
      by (simp add: replaySegment_def wal_crash_current t ok(2) rs)
    moreover have "length (concat rss) + m \<le> length rs" using ok(1) rs by simp
    ultimately show ?thesis by blast
  next
    case torn
    then show ?thesis
      unfolding wal_paths_def replay_segments_append wal_crash_segments [OF h]
      by (simp add: replaySegment_def wal_crash_current t)
  qed
qed

lemma wal_crash_synced:
  assumes "wal_rep w rs" and "crash_point w n" and "seg_buf (currentSegment w) = []"
    and "seg_synced (currentSegment w) = length (current_file w)"
  shows "replay_segments (wal_crash n w) (wal_paths w) = Ok (map stored_record rs)"
proof -
  from assms(1) obtain rss cur where h: "wal_holds w rss cur" and rs: "rs = concat rss @ cur"
    by (auto simp: wal_rep_def)
  have "take n (current_file w) = encode_all cur"
    using assms(2-4) h by (simp add: crash_point_def wal_holds_def)
  moreover have "\<forall>r \<in> set cur. readable r" using h by (simp add: wal_holds_def)
  ultimately show ?thesis
    unfolding wal_paths_def replay_segments_append wal_crash_segments [OF h]
    by (simp add: replaySegment_def wal_crash_current rs replay_bytes_all)
qed

section \<open>Opening\<close>

definition scan_info :: "directory \<Rightarrow> string \<Rightarrow> segmentInfo" where
  "scan_info d p = (case dir_lookup d p of
      Some c \<Rightarrow> (case scanSegmentLastSeqNum c of Ok s \<Rightarrow> \<lparr>si_path = p, si_lastSeqNum = s, si_size = length c\<rparr>
                 | _ \<Rightarrow> \<lparr>si_path = p, si_lastSeqNum = 0, si_size = 0\<rparr>)
    | None \<Rightarrow> \<lparr>si_path = p, si_lastSeqNum = 0, si_size = 0\<rparr>)"

lemma load_all_ok:
  assumes "\<forall>p \<in> set ps. \<exists>c s. dir_lookup d p = Some c \<and> scanSegmentLastSeqNum c = Ok s"
  shows "load_all d ps (segs, m) = Ok (segs @ map (scan_info d) ps,
      foldl (\<lambda>m s. if si_lastSeqNum s > m then si_lastSeqNum s else m) m (map (scan_info d) ps))"
  using assms
proof (induction ps arbitrary: segs m)
  case Nil
  then show ?case by simp
next
  case (Cons p ps)
  then obtain c s where "dir_lookup d p = Some c" and "scanSegmentLastSeqNum c = Ok s" by auto
  with Cons show ?case by (simp add: scan_info_def)
qed

lemma loadSegments_ok:
  assumes "\<forall>p \<in> set (map fst d). is_wal_name p \<longrightarrow> (\<exists>c s. dir_lookup d p = Some c \<and> scanSegmentLastSeqNum c = Ok s)"
  shows "\<exists>last. loadSegments d = Ok (map (scan_info d) (sort (filter is_wal_name (map fst d))), last)
    \<and> (\<forall>s \<in> set (map (scan_info d) (sort (filter is_wal_name (map fst d)))). si_lastSeqNum s \<le> last)"
proof -
  let ?ps = "sort (filter is_wal_name (map fst d))"
  let ?f = "\<lambda>m s. if si_lastSeqNum s > m then si_lastSeqNum s else m"
  have "\<forall>p \<in> set ?ps. \<exists>c s. dir_lookup d p = Some c \<and> scanSegmentLastSeqNum c = Ok s"
    using assms by auto
  from load_all_ok [OF this, of "[]" 0]
  have l: "loadSegments d = Ok (map (scan_info d) ?ps, foldl ?f 0 (map (scan_info d) ?ps))"
    by (simp add: loadSegments_def)
  have "s \<in> set xs \<Longrightarrow> si_lastSeqNum s \<le> foldl ?f m xs" for s m and xs :: "segmentInfo list"
    by (rule foldl_max_elem)
  with l show ?thesis by blast
qed

section \<open>Truncation\<close>

lemma dir_lookup_fold_remove:
  "dir_lookup (fold dir_remove ps d) p = (if p \<in> set ps then None else dir_lookup d p)"
  using dir.fold_del [OF TrueI, of ps d p] by blast

lemma list_all2_filter:
  "list_all2 P xs ys \<Longrightarrow> (\<And>x y. x \<in> set xs \<Longrightarrow> P x y \<Longrightarrow> q x = q' y) \<Longrightarrow> list_all2 P (filter q xs) (filter q' ys)"
  by (induction rule: list_all2_induct) auto

lemma Truncate_holds:
  assumes h: "wal_holds w rss cur" and sc: "scanned w rss"
  shows "wal_holds (Truncate b w) (filter (\<lambda>rs. \<not> max_seq rs < b) rss) cur"
proof -
  let ?gone = "map si_path (filter (\<lambda>s. si_lastSeqNum s < b) (segments w))"
  let ?d = "fold dir_remove ?gone (files w)"
  let ?P = "\<lambda>s rs. seg_holds (files w) s rs \<and> si_lastSeqNum s = max_seq rs"
  have ds: "distinct (map si_path (segments w))"
    and cu: "seg_path (currentSegment w) \<notin> set ?gone"
    using sc by (auto simp: scanned_def wal_paths_def)
  have "list_all2 ?P (segments w) rss"
    using h sc by (auto simp: wal_holds_def scanned_def list_all2_conv_all_nth)
  then have f: "list_all2 ?P (filter (\<lambda>s. \<not> si_lastSeqNum s < b) (segments w)) (filter (\<lambda>rs. \<not> max_seq rs < b) rss)"
    by (rule list_all2_filter) simp
  have keep: "seg_holds ?d s rs" if "seg_holds (files w) s rs" "s \<in> set (segments w)" "\<not> si_lastSeqNum s < b" for s rs
  proof -
    have "si_path s \<notin> set ?gone"
      using that(2,3) ds by (auto simp: distinct_map dest: inj_onD)
    with that(1) show ?thesis by (simp add: seg_holds_def dir_lookup_fold_remove)
  qed
  have "list_all2 (seg_holds ?d) (filter (\<lambda>s. \<not> si_lastSeqNum s < b) (segments w)) (filter (\<lambda>rs. \<not> max_seq rs < b) rss)"
    using f by (rule list.rel_mono_strong) (use keep in auto)
  then show ?thesis
    using h cu
    by (auto simp: wal_holds_def Truncate_def current_file_def dir_lookup_fold_remove)
qed

lemma filter_concat_kept:
  "filter (\<lambda>r. \<not> SeqNum r < b) (concat (filter (\<lambda>rs. \<not> max_seq rs < b) rss))
   = filter (\<lambda>r. \<not> SeqNum r < b) (concat rss)"
proof (induction rss)
  case Nil
  then show ?case by simp
next
  case (Cons rs rss)
  have "filter (\<lambda>r. \<not> SeqNum r < b) rs = []" if "max_seq rs < b"
    using that max_seq_upper by (force simp: filter_empty_conv)
  with Cons show ?case by auto
qed

end
