(* ===== verification/Wal_Async.thy ===== *)
theory Wal_Async
  imports Wal_Recovery
begin

text \<open>
  The asynchronous write path of \<open>pkg/storage/wal/wal.go\<close>: callers of \<open>WriteAsync\<close> and the
  background goroutine \<open>asyncWriter\<close> as a step relation over the bounded channel, the
  writer's local batch and the log. Which of the two moves next is not determined.
  \<open>accepted\<close>, \<open>flushed\<close> and \<open>handed\<close> are history variables: the records put on the channel, the
  records of completed flushes, and everything given to the log, each in order.
\<close>

record async_state =
  aw_log :: wal
  aw_queue :: "wal_record list"
  aw_batch :: "wal_record list"
  aw_stopped :: bool
  accepted :: "wal_record list"
  flushed :: "wal_record list"
  handed :: "wal_record list"

section \<open>Operations\<close>

text \<open>The closure \<open>flush\<close> of \<open>asyncWriter\<close>; an error of \<open>WriteBatch\<close> is dropped.\<close>

definition async_flush :: "(nat \<Rightarrow> nat) \<Rightarrow> async_state \<Rightarrow> async_state" where
  "async_flush clk s =
     (if aw_batch s = [] then s
      else s\<lparr>aw_log := snd (WriteBatch clk (aw_log s) (aw_batch s)), aw_batch := [],
             flushed := flushed s @ aw_batch s, handed := handed s @ aw_batch s\<rparr>)"

text \<open>\<open>WriteAsync\<close>: the channel send, or the synchronous write when async mode is off or the channel is full.\<close>

definition WriteAsync :: "(nat \<Rightarrow> nat) \<Rightarrow> nat \<Rightarrow> wal_record \<Rightarrow> async_state \<Rightarrow> async_state" where
  "WriteAsync clk cap r s =
     (if asyncEnabled (aw_log s) \<and> length (aw_queue s) < cap
      then s\<lparr>aw_queue := aw_queue s @ [r], accepted := accepted s @ [r]\<rparr>
      else s\<lparr>aw_log := snd (Write clk (aw_log s) r), handed := handed s @ [r]\<rparr>)"

definition async_receive :: "(nat \<Rightarrow> nat) \<Rightarrow> async_state \<Rightarrow> async_state" where
  "async_receive clk s =
     (case aw_queue s of [] \<Rightarrow> s
      | r # q \<Rightarrow>
        let s1 = s\<lparr>aw_queue := q, aw_batch := aw_batch s @ [r]\<rparr> in
        if int (length (aw_batch s1)) \<ge> asyncBatchSize (aw_log s1) then async_flush clk s1 else s1)"

text \<open>The \<open>asyncDone\<close> case: drain the channel, flush once, return.\<close>

definition async_drain :: "(nat \<Rightarrow> nat) \<Rightarrow> async_state \<Rightarrow> async_state" where
  "async_drain clk s =
     (async_flush clk (s\<lparr>aw_batch := aw_batch s @ aw_queue s, aw_queue := []\<rparr>))\<lparr>aw_stopped := True\<rparr>"

inductive async_step :: "(nat \<Rightarrow> nat) \<Rightarrow> nat \<Rightarrow> async_state \<Rightarrow> async_state \<Rightarrow> bool"
  for clk :: "nat \<Rightarrow> nat" and cap :: nat where
  wr: "readable r \<Longrightarrow> plain r \<Longrightarrow> async_step clk cap s (WriteAsync clk cap r s)"
| recv: "\<not> aw_stopped s \<Longrightarrow> aw_queue s \<noteq> [] \<Longrightarrow> async_step clk cap s (async_receive clk s)"
| tick: "\<not> aw_stopped s \<Longrightarrow> async_step clk cap s (async_flush clk s)"
| quit: "\<not> aw_stopped s \<Longrightarrow> async_step clk cap s (async_drain clk s)"

inductive async_reach :: "(nat \<Rightarrow> nat) \<Rightarrow> nat \<Rightarrow> async_state \<Rightarrow> async_state \<Rightarrow> bool"
  for clk :: "nat \<Rightarrow> nat" and cap :: nat and s0 :: async_state where
  start: "async_reach clk cap s0 s0"
| step: "async_reach clk cap s0 s \<Longrightarrow> async_step clk cap s t \<Longrightarrow> async_reach clk cap s0 t"

inductive_cases async_stepE: "async_step clk cap s t"

definition async_start :: "wal \<Rightarrow> async_state" where
  "async_start w = \<lparr>aw_log = w, aw_queue = [], aw_batch = [], aw_stopped = False,
     accepted = [], flushed = [], handed = []\<rparr>"

section \<open>The invariant\<close>

definition fifo :: "async_state \<Rightarrow> bool" where
  "fifo s \<longleftrightarrow> accepted s = flushed s @ aw_batch s @ aw_queue s"

definition log_matches :: "(nat \<Rightarrow> nat) \<Rightarrow> async_state \<Rightarrow> bool" where
  "log_matches clk s \<longleftrightarrow> (\<exists>rs. wal_ok clk (aw_log s) rs \<and> closed_log rs
     \<and> list_all2 same_content (handed s) (apply_records False 0 [] rs))"

definition pending_ok :: "async_state \<Rightarrow> bool" where
  "pending_ok s \<longleftrightarrow> (\<forall>r \<in> set (aw_batch s @ aw_queue s). readable r \<and> plain r)"

text \<open>A batch fits its 32-bit size field.\<close>

definition batch_bound :: "nat \<Rightarrow> async_state \<Rightarrow> bool" where
  "batch_bound cap s \<longleftrightarrow> length (aw_queue s) \<le> cap
     \<and> 0 < asyncBatchSize (aw_log s) \<and> int (length (aw_batch s)) < asyncBatchSize (aw_log s)
     \<and> asyncBatchSize (aw_log s) + int cap < 2 ^ 32"

definition async_inv :: "(nat \<Rightarrow> nat) \<Rightarrow> nat \<Rightarrow> async_state \<Rightarrow> bool" where
  "async_inv clk cap s \<longleftrightarrow> fifo s \<and> log_matches clk s \<and> pending_ok s \<and> batch_bound cap s"

section \<open>Lemmas\<close>

lemma batch_size_put: "batch_put clk w r = (res, w') \<Longrightarrow> asyncBatchSize w' = asyncBatchSize w"
  by (auto simp: batch_put_def Let_def append_bytes_def rotate_def openCurrentSegment_def
      sync_current_def flush_current_def split: sum.splits)

lemma batch_size_put_all: "asyncBatchSize (snd (batch_put_all clk w rs)) = asyncBatchSize w"
  by (induction clk w rs rule: batch_put_all.induct)
    (auto split: prod.splits sum.splits dest: batch_size_put)

lemma batch_size_flush [simp]: "asyncBatchSize (flush_current w) = asyncBatchSize w"
  "asyncBatchSize (sync_current w) = asyncBatchSize w"
  by (simp_all add: flush_current_def sync_current_def Let_def)

lemma batch_size_Write [simp]: "asyncBatchSize (snd (Write clk w r)) = asyncBatchSize w"
  by (auto simp: Write_eq_batch_put split: prod.splits sum.splits dest: batch_size_put)

lemma batch_size_WriteBatch [simp]: "asyncBatchSize (snd (WriteBatch clk w rs)) = asyncBatchSize w"
  using batch_size_put_all [of clk w "batch_marker RecordTypeBatchBegin (length rs) # rs
      @ [batch_marker RecordTypeBatchEnd (length rs)]"]
  by (auto simp: WriteBatch_def Let_def simp del: batch_put_all.simps split: prod.splits sum.splits)

lemma same_content_plain: "list_all2 same_content xs ys \<Longrightarrow> \<forall>x \<in> set xs. plain x \<Longrightarrow> \<forall>y \<in> set ys. plain y"
  by (induction rule: list_all2_induct) (auto simp: same_content_def plain_def)

lemma WriteBatch_matches:
  assumes ok: "wal_ok clk w rs" and cl: "closed_log rs"
    and m: "list_all2 same_content hs (apply_records False 0 [] rs)"
    and r: "\<forall>x \<in> set xs. readable x \<and> plain x" and n: "length xs < 2 ^ 32"
  shows "\<exists>rs'. wal_ok clk (snd (WriteBatch clk w xs)) rs' \<and> closed_log rs'
    \<and> list_all2 same_content (hs @ xs) (apply_records False 0 [] rs')"
proof -
  have "\<forall>x \<in> set xs. readable x" using r by simp
  from WriteBatch_ok [OF ok this] obtain b xs' e w' where
    w: "WriteBatch clk w xs = (Inr (b # xs' @ [e]), w')" and ok': "wal_ok clk w' (rs @ b # xs' @ [e])"
    and c: "list_all2 same_content xs xs'"
    and b: "same_content (batch_marker RecordTypeBatchBegin (length xs)) b"
    and e: "same_content (batch_marker RecordTypeBatchEnd (length xs)) e"
    by blast
  have l: "length xs' = length xs" using c by (simp add: list_all2_lengthD)
  have b': "RType b = RecordTypeBatchBegin" "decodeBatchSize (Data b) = length xs'"
    using b n l by (simp_all add: same_content_def batch_marker_def decode_encode_batch_size)
  have e': "RType e = RecordTypeBatchEnd" using e by (simp add: same_content_def batch_marker_def)
  have p: "\<forall>x \<in> set xs'. plain x" using same_content_plain [OF c] r by simp
  have "apply_records False 0 [] (rs @ b # xs' @ [e]) = apply_records False 0 [] rs @ xs'"
    using cl apply_batch [OF b' p e', of 0 "[]" "[]"] by (simp add: closed_log_def del: apply_records.simps(2))
  moreover have "closed_log (rs @ b # xs' @ [e])" by (rule closed_log_batch [OF cl b' p e'])
  moreover have "list_all2 same_content (hs @ xs) (apply_records False 0 [] rs @ xs')"
    using m c by (rule list_all2_appendI)
  ultimately show ?thesis using w ok' by (metis snd_conv)
qed

lemma Write_matches:
  assumes ok: "wal_ok clk w rs" and cl: "closed_log rs"
    and m: "list_all2 same_content hs (apply_records False 0 [] rs)"
    and r: "readable x" "plain x"
  shows "\<exists>rs'. wal_ok clk (snd (Write clk w x)) rs' \<and> closed_log rs'
    \<and> list_all2 same_content (hs @ [x]) (apply_records False 0 [] rs')"
proof -
  from Write_ok [OF ok r(1)] obtain x' w' where w: "Write clk w x = (Inr x', w')"
    and ok': "wal_ok clk w' (rs @ [x'])" and c: "same_content x x'" by blast
  have p: "plain x'" using c r(2) by (simp add: same_content_def plain_def)
  have "apply_records False 0 [] (rs @ [x']) = apply_records False 0 [] rs @ [x']"
    using cl p by (simp add: closed_log_def plain_def)
  moreover have "closed_log (rs @ [x'])" by (rule closed_log_plain [OF cl p])
  moreover have "list_all2 same_content (hs @ [x]) (apply_records False 0 [] rs @ [x'])"
    using m c by (simp add: list_all2_appendI)
  ultimately show ?thesis using w ok' by (metis snd_conv)
qed

lemma async_flush_log:
  assumes "log_matches clk s" and "pending_ok s" and "length (aw_batch s) < 2 ^ 32"
  shows "log_matches clk (async_flush clk s)"
proof (cases "aw_batch s = []")
  case False
  from assms(1) obtain rs where "wal_ok clk (aw_log s) rs" and "closed_log rs"
    and "list_all2 same_content (handed s) (apply_records False 0 [] rs)"
    by (auto simp: log_matches_def)
  moreover have "\<forall>x \<in> set (aw_batch s). readable x \<and> plain x" using assms(2) by (simp add: pending_ok_def)
  ultimately show ?thesis
    using WriteBatch_matches assms(3) False by (simp add: log_matches_def async_flush_def)
qed (use assms in \<open>simp add: async_flush_def\<close>)

lemma async_flush_inv: "async_inv clk cap s \<Longrightarrow> async_inv clk cap (async_flush clk s)"
proof -
  assume i: "async_inv clk cap s"
  then have "log_matches clk (async_flush clk s)"
    by (intro async_flush_log) (auto simp: async_inv_def batch_bound_def)
  with i show ?thesis
    by (auto simp: async_inv_def fifo_def pending_ok_def batch_bound_def async_flush_def)
qed

lemma async_write_inv:
  assumes "async_inv clk cap s" and "readable r" and "plain r"
  shows "async_inv clk cap (WriteAsync clk cap r s)"
proof (cases "asyncEnabled (aw_log s) \<and> length (aw_queue s) < cap")
  case True
  with assms show ?thesis
    by (auto simp: async_inv_def fifo_def log_matches_def pending_ok_def batch_bound_def WriteAsync_def)
next
  case False
  from assms(1) obtain rs where "wal_ok clk (aw_log s) rs" and "closed_log rs"
    and "list_all2 same_content (handed s) (apply_records False 0 [] rs)"
    by (auto simp: async_inv_def log_matches_def)
  from Write_matches [OF this assms(2,3)] False have "log_matches clk (WriteAsync clk cap r s)"
    by (auto simp: log_matches_def WriteAsync_def)
  with assms(1) False show ?thesis
    by (auto simp: async_inv_def fifo_def pending_ok_def batch_bound_def WriteAsync_def)
qed

lemma async_receive_inv:
  assumes i: "async_inv clk cap s"
  shows "async_inv clk cap (async_receive clk s)"
proof (cases "aw_queue s")
  case Nil
  with i show ?thesis by (simp add: async_receive_def)
next
  case (Cons r q)
  let ?s = "s\<lparr>aw_queue := q, aw_batch := aw_batch s @ [r]\<rparr>"
  have parts: "fifo ?s" "log_matches clk ?s" "pending_ok ?s"
    using i Cons by (simp_all add: async_inv_def fifo_def log_matches_def pending_ok_def)
  show ?thesis
  proof (cases "int (length (aw_batch ?s)) \<ge> asyncBatchSize (aw_log ?s)")
    case True
    have "length (aw_batch ?s) < 2 ^ 32" using i by (auto simp: async_inv_def batch_bound_def)
    with parts have "log_matches clk (async_flush clk ?s)" by (intro async_flush_log)
    with parts i True Cons show ?thesis
      by (auto simp: async_receive_def async_inv_def fifo_def pending_ok_def batch_bound_def async_flush_def)
  next
    case False
    with parts i Cons show ?thesis
      by (auto simp: async_receive_def async_inv_def batch_bound_def)
  qed
qed

lemma async_drain_inv:
  assumes i: "async_inv clk cap s"
  shows "async_inv clk cap (async_drain clk s)"
proof -
  let ?s = "s\<lparr>aw_batch := aw_batch s @ aw_queue s, aw_queue := []\<rparr>"
  have parts: "fifo ?s" "log_matches clk ?s" "pending_ok ?s"
    using i by (simp_all add: async_inv_def fifo_def log_matches_def pending_ok_def)
  have "length (aw_batch ?s) < 2 ^ 32" using i by (auto simp: async_inv_def batch_bound_def)
  with parts have "log_matches clk (async_flush clk ?s)" by (intro async_flush_log)
  with parts i show ?thesis
    by (auto simp: async_drain_def async_inv_def fifo_def log_matches_def pending_ok_def
        batch_bound_def async_flush_def)
qed

lemma async_step_inv: "async_step clk cap s t \<Longrightarrow> async_inv clk cap s \<Longrightarrow> async_inv clk cap t"
  by (induction rule: async_step.induct)
    (auto intro: async_write_inv async_receive_inv async_flush_inv async_drain_inv)

lemma async_reach_inv: "async_reach clk cap s0 s \<Longrightarrow> async_inv clk cap s0 \<Longrightarrow> async_inv clk cap s"
  by (induction rule: async_reach.induct) (auto intro: async_step_inv)

lemma async_drained: "aw_queue (async_drain clk s) = [] \<and> aw_batch (async_drain clk s) = []"
  by (simp add: async_drain_def async_flush_def)

end
