(* ===== verification/Wal_Properties.thy ===== *)
theory Wal_Properties
  imports Wal_Async
begin

text \<open>
  The properties of the write-ahead log. The example log \<open>wal0\<close>, a fresh log over an empty
  directory, serves their witnesses.
\<close>

definition cfg0 :: wal_config where
  "cfg0 = \<lparr>cfg_SegmentSize = 100, cfg_SyncOnWrite = True, cfg_AsyncEnabled = True, cfg_AsyncBatchSize = 2\<rparr>"

definition wal0 :: wal where
  "wal0 = openCurrentSegment (\<lambda>k. k)
     \<lparr>files = [], reads = 0, segmentSize = 100, syncOnWrite = True,
      currentSegment = \<lparr>seg_path = [], seg_buf = [], seg_size = 0, seg_synced = 0\<rparr>,
      segments = [], lastSeqNum = 0, asyncEnabled = True, asyncBatchSize = 2\<rparr>"

definition rec0 :: wal_record where
  "rec0 = \<lparr>SeqNum = 0, RType = RecordTypeInsert, Collection = [99], Data = [1, 2, 3], Timestamp = 0\<rparr>"

lemma rec0_readable: "readable rec0"
  by (simp add: readable_def length_wal_payload rec0_def)

lemma rec0_plain: "plain rec0"
  by (simp add: plain_def rec0_def RecordTypeInsert_def RecordTypeBatchBegin_def RecordTypeBatchEnd_def)

lemma fresh_log_ok:
  assumes "inj clk" and "files w = []" and "segments w = []"
  shows "wal_ok clk (openCurrentSegment clk w) []"
proof -
  have "wal_holds (openCurrentSegment clk w) [] []"
    by (rule wal_holds_open) (simp_all add: assms)
  then have "wal_rep (openCurrentSegment clk w) []" by (auto simp: wal_rep_def)
  moreover have "fresh_names clk (openCurrentSegment clk w)"
    using assms injD [OF segment_name_inj] injD [OF assms(1)]
    by (fastforce simp: fresh_names_def openCurrentSegment_def Let_def dir_store_def)
  ultimately show ?thesis using assms(1) by (simp add: wal_ok_def)
qed

lemma wal0_ok: "wal_ok (\<lambda>k. k) wal0 []"
  unfolding wal0_def by (rule fresh_log_ok) simp_all

lemma wal0_sync: "syncOnWrite wal0"
  by (simp add: wal0_def openCurrentSegment_def Let_def)

section \<open>Records\<close>

text \<open>C12: A record whose stored form fits the 32-bit length field is encoded without error, and
  decoding the bytes gives the record back and leaves exactly the bytes behind it; a negative
  timestamp comes back as 0.\<close>

theorem wal_record_roundtrip:
  assumes "readable r"
  shows "\<exists>bs. encodeRecord r = Inr bs \<and> length bs = 31 + length (Collection r) + length (Data r)
    \<and> decodeRecord (bs @ rest) = Ok (r\<lparr>Timestamp := safeInt64ToUint64 (Timestamp r)\<rparr>, rest)"
  using encodeRecord_layout [OF readable_encodable [OF assms]] decodeRecord_layout [OF assms, of rest]
  by (simp add: length_wal_layout length_wal_payload stored_record_def)

theorem wal_record_roundtrip_witness:
  "\<exists>bs. encodeRecord rec0 = Inr bs \<and> decodeRecord (bs @ [7]) = Ok (rec0\<lparr>Timestamp := 0\<rparr>, [7])"
  using wal_record_roundtrip [OF rec0_readable, of "[7]"]
  by (auto simp: rec0_def safeInt64ToUint64_def)

text \<open>A record cut short anywhere, as an interrupted write leaves it, never decodes: the
  reader reports a clean end of file when nothing or only the length prefix is left, and an
  unexpected end of file otherwise.\<close>

theorem wal_record_torn:
  assumes "readable r" and "encodeRecord r = Inr bs" and "n < length bs"
  shows "decodeRecord (take n bs) = Err (IOError (if n = 0 \<or> n = 4 then EOF else UnexpectedEOF))"
  using assms decodeRecord_torn by (simp add: encodeRecord_Inr_iff)

theorem wal_record_torn_witness:
  "\<exists>bs. encodeRecord rec0 = Inr bs \<and> decodeRecord (take 9 bs) = Err (IOError UnexpectedEOF)"
proof -
  have e: "encodeRecord rec0 = Inr (wal_layout rec0)"
    by (intro encodeRecord_layout readable_encodable rec0_readable)
  have "9 < length (wal_layout rec0)" by (simp add: length_wal_layout length_wal_payload)
  from e wal_record_torn [OF rec0_readable e this] show ?thesis by simp
qed

text \<open>C8: Changing any single byte of a stored record behind its length prefix, checksum
  included, makes decoding fail with a CRC mismatch.\<close>

theorem wal_record_corruption:
  assumes "readable r" and "encodeRecord r = Inr bs"
    and "4 \<le> i" and "i < length bs" and "b \<noteq> bs ! i"
  shows "decodeRecord (bs[i := b] @ rest) = Err CRCMismatch"
  using assms decodeRecord_corrupt by (simp add: encodeRecord_Inr_iff)

theorem wal_record_corruption_witness:
  "\<exists>bs b. encodeRecord rec0 = Inr bs \<and> decodeRecord (bs[4 := b] @ []) = Err CRCMismatch"
proof -
  have e: "encodeRecord rec0 = Inr (wal_layout rec0)"
    by (intro encodeRecord_layout readable_encodable rec0_readable)
  have l: "(4::nat) \<le> 4" "4 < length (wal_layout rec0)"
    by (simp_all add: length_wal_layout length_wal_payload)
  have "(wal_layout rec0 ! 4 + 1) \<noteq> wal_layout rec0 ! 4" by simp
  from e wal_record_corruption [OF rec0_readable e l this, of "[]"] show ?thesis by blast
qed

text \<open>C20: The largest record sizes that \<open>encodeRecord\<close> accepts cannot be read back: the buffer
  length \<open>length+4\<close> wraps around in 32 bits and the reader panics.\<close>

theorem wal_record_size_wraps:
  assumes "encodeRecord r = Inr bs" and "2 ^ 32 \<le> length bs - 4"
  shows "decodeRecord bs = Panic"
  using assms decodeRecord_wraps by (simp add: encodeRecord_Inr_iff length_wal_layout)

theorem wal_record_size_wraps_witness:
  "decodeRecord (wal_layout (rec0\<lparr>Collection := [], Data := replicate (2 ^ 32 - 27) 0\<rparr>)) = Panic"
proof -
  let ?r = "rec0\<lparr>Collection := [], Data := replicate (2 ^ 32 - 27) 0\<rparr>"
  have l: "length (wal_payload ?r) = 2 ^ 32 - 4" by (simp add: length_wal_payload)
  then have "encodable ?r" by (simp add: encodable_def)
  then have e: "encodeRecord ?r = Inr (wal_layout ?r)" by (rule encodeRecord_layout)
  have "2 ^ 32 \<le> length (wal_layout ?r) - 4" by (simp add: length_wal_layout length_wal_payload)
  from wal_record_size_wraps [OF e this] show ?thesis .
qed

section \<open>The log\<close>

text \<open>The log refines a list of records: a write that fits appends one record, with the next
  sequence number and the caller's content, whatever rotation and buffering it causes, and a
  replay of the new state collects exactly the old records followed by the new one.\<close>

theorem wal_write_appends:
  assumes "wal_ok clk w rs" and "readable r"
  shows "\<exists>r' w'. Write clk w r = (Inr r', w') \<and> wal_ok clk w' (rs @ [r'])
    \<and> RType r' = RType r \<and> Collection r' = Collection r \<and> Data r' = Data r
    \<and> SeqNum r' = lastSeqNum w + 1 \<and> LastSeqNum w' = lastSeqNum w + 1
    \<and> fst (collect_records w') = Ok (map stored_record (rs @ [r']))"
proof -
  from Write_ok [OF assms] obtain r' w' where "Write clk w r = (Inr r', w')"
    and ok: "wal_ok clk w' (rs @ [r'])" and "same_content r r'" and "SeqNum r' = lastSeqNum w + 1"
    and "lastSeqNum w' = lastSeqNum w + 1" by blast
  moreover have "fst (collect_records w') = Ok (map stored_record (rs @ [r']))"
    using ok by (intro collect_records_ok) (simp add: wal_ok_def)
  ultimately show ?thesis by (simp add: same_content_def LastSeqNum_def)
qed

theorem wal_write_appends_witness:
  "\<exists>r' w'. Write (\<lambda>k. k) wal0 rec0 = (Inr r', w') \<and> SeqNum r' = 1
    \<and> fst (collect_records w') = Ok [stored_record r']"
  using wal_write_appends [OF wal0_ok rec0_readable]
  by (auto simp: wal0_def openCurrentSegment_def Let_def)

text \<open>C9: With \<open>syncOnWrite\<close>, a record is durable once \<open>Write\<close> has returned: after a crash at any
  point, the segments replay to all records written so far, the new one included.\<close>

theorem wal_sync_write_durable:
  assumes "wal_ok clk w rs" and "readable r" and "syncOnWrite w"
  shows "\<exists>r' w'. Write clk w r = (Inr r', w') \<and> same_content r r'
    \<and> (\<forall>n. crash_point w' n \<longrightarrow>
         replay_segments (wal_crash n w') (wal_paths w') = Ok (map stored_record (rs @ [r'])))"
proof -
  from Write_ok [OF assms(1,2)] assms(3) obtain r' w' where "Write clk w r = (Inr r', w')"
    and ok: "wal_ok clk w' (rs @ [r'])" and "same_content r r'"
    and "seg_buf (currentSegment w') = []" and "seg_synced (currentSegment w') = length (current_file w')"
    by blast
  with wal_crash_synced show ?thesis by (auto simp: wal_ok_def)
qed

theorem wal_sync_write_durable_witness:
  "\<exists>r' w'. Write (\<lambda>k. k) wal0 rec0 = (Inr r', w')
    \<and> (\<forall>n. crash_point w' n \<longrightarrow> replay_segments (wal_crash n w') (wal_paths w') = Ok [stored_record r'])"
  using wal_sync_write_durable [OF wal0_ok rec0_readable wal0_sync] by auto



section \<open>Batches\<close>

text \<open>A batch that was written completely is replayed completely: the records applied after
  \<open>WriteBatch\<close> are those applied before, followed by the batch's records in order.\<close>

theorem wal_batch_applied:
  assumes "wal_ok clk w rs" and "closed_log rs"
    and "\<forall>x \<in> set xs. readable x \<and> plain x" and "length xs < 2 ^ 32"
  shows "\<exists>b xs' e w'. WriteBatch clk w xs = (Inr (b # xs' @ [e]), w')
    \<and> list_all2 same_content xs xs' \<and> numbered_from (lastSeqNum w) (b # xs' @ [e])
    \<and> fst (collect_records w') = Ok (map stored_record (rs @ b # xs' @ [e]))
    \<and> apply_records False 0 [] (rs @ b # xs' @ [e]) = apply_records False 0 [] rs @ xs'"
proof -
  have "\<forall>x \<in> set xs. readable x" using assms(3) by simp
  from WriteBatch_ok [OF assms(1) this] obtain b xs' e w' where
    w: "WriteBatch clk w xs = (Inr (b # xs' @ [e]), w')" and ok: "wal_ok clk w' (rs @ b # xs' @ [e])"
    and c: "list_all2 same_content xs xs'" and n: "numbered_from (lastSeqNum w) (b # xs' @ [e])"
    and b: "same_content (batch_marker RecordTypeBatchBegin (length xs)) b"
    and e: "same_content (batch_marker RecordTypeBatchEnd (length xs)) e"
    by blast
  have "RType b = RecordTypeBatchBegin" "decodeBatchSize (Data b) = length xs'"
    using b assms(4) list_all2_lengthD [OF c]
    by (simp_all add: same_content_def batch_marker_def decode_encode_batch_size)
  moreover have "\<forall>x \<in> set xs'. plain x" using same_content_plain [OF c] assms(3) by simp
  moreover have "RType e = RecordTypeBatchEnd" using e by (simp add: same_content_def batch_marker_def)
  ultimately have "apply_records False 0 [] (b # xs' @ [e]) = xs'"
    using apply_batch [of b xs' e 0 "[]" "[]"] by (simp del: apply_records.simps(2))
  with assms(2) have "apply_records False 0 [] (rs @ b # xs' @ [e]) = apply_records False 0 [] rs @ xs'"
    by (simp add: closed_log_def del: apply_records.simps(2))
  moreover have "fst (collect_records w') = Ok (map stored_record (rs @ b # xs' @ [e]))"
    using ok by (intro collect_records_ok) (simp add: wal_ok_def)
  ultimately show ?thesis using w c n by blast
qed

theorem wal_batch_applied_witness:
  "\<exists>b xs' e w'. WriteBatch (\<lambda>k. k) wal0 [rec0, rec0] = (Inr (b # xs' @ [e]), w')
    \<and> list_all2 same_content [rec0, rec0] xs'
    \<and> apply_records False 0 [] (b # xs' @ [e]) = xs'"
proof -
  have "\<forall>x \<in> set [rec0, rec0]. readable x \<and> plain x" using rec0_readable rec0_plain by simp
  from wal_batch_applied [OF wal0_ok closed_log_Nil this] show ?thesis
    by (auto simp del: apply_records.simps(2))
qed



text \<open>After an interrupted batch, records that are written later on their own, as after a
  restart, are taken for members of the open batch: replay applies none of them.\<close>

theorem wal_open_batch_swallows:
  assumes "closed_log rs" and "RType b = RecordTypeBatchBegin"
    and "\<forall>x \<in> set xs. plain x" and "\<forall>y \<in> set later. plain y"
  shows "apply_records False 0 [] (rs @ b # xs @ later) = apply_records False 0 [] rs"
  using assms apply_open_batch [OF assms(2), of "xs @ later" 0 "[]"]
  by (simp add: closed_log_def ball_Un del: apply_records.simps(2))

theorem wal_open_batch_swallows_witness:
  "apply_records False 0 [] ([] @ batch_marker RecordTypeBatchBegin 2 # [rec0] @ [rec0, rec0, rec0])
   = apply_records False 0 [] []"
proof -
  have b: "RType (batch_marker RecordTypeBatchBegin 2) = RecordTypeBatchBegin" by (simp add: batch_marker_def)
  have p: "\<forall>x \<in> set [rec0]. plain x" "\<forall>x \<in> set [rec0, rec0, rec0]. plain x" using rec0_plain by simp_all
  show ?thesis by (rule wal_open_batch_swallows [OF closed_log_Nil b p])
qed

section \<open>Opening and truncation\<close>

text \<open>Opening a directory whose \<open>.wal\<close> files hold whole records, possibly with a torn last
  one, succeeds; the segments are all \<open>.wal\<close> files in the order of their names, and the restored
  sequence number is at least that of every record a file still replays to, so later writes
  do not reuse one.\<close>

theorem wal_open_restores:
  assumes "distinct (map fst d)"
    and "\<forall>(p, c) \<in> set d. is_wal_name p \<longrightarrow> (\<exists>rs n. (\<forall>r \<in> set rs. readable r)
           \<and> n \<le> length (encode_all rs) \<and> c = take n (encode_all rs))"
  shows "\<exists>w. Open clk k cfg d = Ok w
    \<and> map si_path (segments w) = sort (filter is_wal_name (map fst d))
    \<and> (\<forall>p c rs r. (p, c) \<in> set d \<and> is_wal_name p \<and> replay_bytes c = Ok rs \<and> r \<in> set rs
          \<longrightarrow> SeqNum r \<le> LastSeqNum w)"
proof -
  have look: "dir_lookup d p = Some c" if "(p, c) \<in> set d" for p c
    using that assms(1) by (simp add: dir_lookup_def)
  have scan: "\<exists>c s. dir_lookup d p = Some c \<and> scanSegmentLastSeqNum c = Ok s"
    if "p \<in> set (map fst d)" "is_wal_name p" for p
  proof -
    from that(1) obtain c where pc: "(p, c) \<in> set d" by auto
    with assms(2) that(2) obtain rs n where "\<forall>r \<in> set rs. readable r"
      and "n \<le> length (encode_all rs)" and "c = take n (encode_all rs)" by blast
    with scan_segment_cut [of rs n] look [OF pc] show ?thesis by auto
  qed
  then obtain last where l: "loadSegments d = Ok (map (scan_info d) (sort (filter is_wal_name (map fst d))), last)"
    and up: "\<forall>s \<in> set (map (scan_info d) (sort (filter is_wal_name (map fst d)))). si_lastSeqNum s \<le> last"
    using loadSegments_ok [of d] by blast
  have path: "si_path (scan_info d p) = p" for p
    by (simp add: scan_info_def split: option.splits outcome.splits)
  have "SeqNum r \<le> last" if pc: "(p, c) \<in> set d" "is_wal_name p" "replay_bytes c = Ok rs" "r \<in> set rs"
    for p c rs r
  proof -
    from pc(1) have "p \<in> set (map fst d)" by force
    from scan [OF this pc(2)] look [OF pc(1)] obtain s where s: "scanSegmentLastSeqNum c = Ok s" by auto
    with look [OF pc(1)] have "si_lastSeqNum (scan_info d p) = s" by (simp add: scan_info_def)
    moreover have "si_lastSeqNum (scan_info d p) \<le> last" using up pc(1,2) by force
    ultimately show ?thesis using replay_scan_upper [OF pc(3,4) s] by simp
  qed
  with l path show ?thesis
    by (auto simp: Open_def openCurrentSegment_def Let_def LastSeqNum_def comp_def)
qed

theorem wal_open_restores_witness:
  "\<exists>w. Open (\<lambda>k. k) 5 cfg0 [(''a.wal'', encode_all [rec0]), (''x.txt'', [])] = Ok w
    \<and> map si_path (segments w) = [''a.wal'']"
proof -
  have n: "is_wal_name ''a.wal''" "\<not> is_wal_name ''x.txt''" by (simp_all add: is_wal_name_def)
  have "\<exists>rs n. (\<forall>r \<in> set rs. readable r) \<and> n \<le> length (encode_all rs)
      \<and> encode_all [rec0] = take n (encode_all rs)"
    by (rule exI [of _ "[rec0]"]) (auto simp: rec0_readable)
  then have "\<forall>(p, c) \<in> set [(''a.wal'', encode_all [rec0]), (''x.txt'', [])].
      is_wal_name p \<longrightarrow> (\<exists>rs n. (\<forall>r \<in> set rs. readable r) \<and> n \<le> length (encode_all rs)
        \<and> c = take n (encode_all rs))"
    using n by simp
  from wal_open_restores [OF _ this, of "\<lambda>k. k" 5 cfg0] n show ?thesis by auto
qed

text \<open>Truncation of a log whose segments know their last sequence number, as after
  opening, loses no record at or above the given number: what a replay collects afterwards is
  the same list up to records below it.\<close>

theorem wal_truncate_keeps:
  assumes "wal_holds w rss cur" and "scanned w rss"
  shows "\<exists>kept. fst (collect_records (Truncate b w)) = Ok (map stored_record kept)
    \<and> filter (\<lambda>r. \<not> SeqNum r < b) kept = filter (\<lambda>r. \<not> SeqNum r < b) (concat rss @ cur)"
proof -
  let ?rss = "filter (\<lambda>rs. \<not> max_seq rs < b) rss"
  have "wal_rep (Truncate b w) (concat ?rss @ cur)"
    using Truncate_holds [OF assms, of b] by (auto simp: wal_rep_def)
  then have "fst (collect_records (Truncate b w)) = Ok (map stored_record (concat ?rss @ cur))"
    by (rule collect_records_ok)
  moreover have "filter (\<lambda>r. \<not> SeqNum r < b) (concat ?rss @ cur)
      = filter (\<lambda>r. \<not> SeqNum r < b) (concat rss @ cur)"
    unfolding filter_append filter_concat_kept ..
  ultimately show ?thesis by blast
qed

theorem wal_truncate_keeps_witness:
  "wal_holds wal0 [] [] \<and> scanned wal0 []
    \<and> (\<exists>kept. fst (collect_records (Truncate 3 wal0)) = Ok (map stored_record kept)
       \<and> filter (\<lambda>r. \<not> SeqNum r < 3) kept = [])"
proof -
  have h: "wal_holds wal0 [] []" unfolding wal0_def by (rule wal_holds_open) simp_all
  have s: "scanned wal0 []"
    by (simp add: scanned_def wal_paths_def wal0_def openCurrentSegment_def Let_def)
  show ?thesis using h s wal_truncate_keeps [OF h s, of 3] by simp
qed

text \<open>A segment closed by rotation is registered with last sequence number 0, so a
  truncation in the same process removes it whatever it holds: after a rotation,
  \<open>Truncate\<close> with any positive number deletes every record of the rotated segment.\<close>

theorem wal_truncate_after_rotate:
  assumes "wal_ok clk w rs" and "segments w = []" and "0 < b"
  shows "fst (collect_records (Truncate b (rotate clk w))) = Ok []"
proof -
  from assms(1) obtain rss cur where h: "wal_holds w rss cur" by (auto simp: wal_ok_def wal_rep_def)
  have r: "wal_holds (rotate clk w) (rss @ [cur]) []"
    using wal_holds_rotate [OF h] assms(1) by (simp add: wal_ok_def)
  have one: "\<forall>s \<in> set (segments (rotate clk w)). si_lastSeqNum s = 0"
    using assms(2) by (simp add: rotate_def openCurrentSegment_def Let_def sync_current_def flush_current_def)
  let ?w = "Truncate b (rotate clk w)"
  have "segments ?w = []" using one assms(3) by (simp add: Truncate_def filter_empty_conv)
  moreover have "dir_lookup (files ?w) (seg_path (currentSegment ?w)) = Some (current_file ?w)"
    and "current_file ?w @ seg_buf (currentSegment ?w) = encode_all []"
    using r by (auto simp: Truncate_def wal_holds_def current_file_def dir_lookup_fold_remove)
  ultimately have "wal_holds ?w [] []" by (simp add: wal_holds_def)
  then have "wal_rep ?w []" by (auto simp: wal_rep_def)
  from collect_records_ok [OF this] show ?thesis by simp
qed

theorem wal_truncate_after_rotate_witness:
  "\<exists>w. (\<exists>r'. Write (\<lambda>k. k) wal0 rec0 = (Inr r', w) \<and> SeqNum r' = 1)
    \<and> fst (collect_records (Truncate 1 (rotate (\<lambda>k. k) w))) = Ok []"
proof -
  from Write_ok [OF wal0_ok rec0_readable] obtain r' w where
    w: "Write (\<lambda>k. k) wal0 rec0 = (Inr r', w)" "wal_ok (\<lambda>k. k) w ([] @ [r'])" "SeqNum r' = lastSeqNum wal0 + 1"
    by blast
  have e: "encodeRecord (rec0\<lparr>SeqNum := 1, Timestamp := 1\<rparr>) = Inr (wal_layout (rec0\<lparr>SeqNum := 1, Timestamp := 1\<rparr>))"
    by (intro encodeRecord_layout readable_encodable) (simp add: rec0_readable)
  have len: "length (Collection rec0) = 1" "length (Data rec0) = 3" by (simp_all add: rec0_def)
  have "segments (snd (Write (\<lambda>k. k) wal0 rec0)) = []"
    by (simp add: Write_def Let_def wal0_def openCurrentSegment_def e append_bytes_def
        sync_current_def flush_current_def length_wal_layout length_wal_payload len)
  with w(1) have "segments w = []" by simp
  from wal_truncate_after_rotate [OF w(2) this, of 1] w show ?thesis
    by (auto simp: wal0_def openCurrentSegment_def Let_def)
qed

section \<open>The asynchronous writer\<close>



end
