(* ===== verification/Go_Strings.thy ===== *)
theory Go_Strings
  imports Prelude "HOL-Library.Sublist"
begin

text \<open>
  The functions of Go's package \<open>strings\<close> the query components call, on strings of ASCII
  characters (a Go string is a byte sequence; on ASCII bytes the Unicode case and space tables
  reduce to the ones below, and byte and rune indices coincide).
\<close>

definition ascii :: "string \<Rightarrow> bool" where
  "ascii s \<longleftrightarrow> list_all (\<lambda>c. (of_char c :: nat) < 128) s"

section \<open>Case and space\<close>

definition lower_char :: "char \<Rightarrow> char" where
  "lower_char c = (let n = (of_char c :: nat) in if 65 \<le> n \<and> n \<le> 90 then char_of (n + 32) else c)"

definition upper_char :: "char \<Rightarrow> char" where
  "upper_char c = (let n = (of_char c :: nat) in if 97 \<le> n \<and> n \<le> 122 then char_of (n - 32) else c)"

definition ToLower :: "string \<Rightarrow> string" where
  "ToLower s = map lower_char s"

definition ToUpper :: "string \<Rightarrow> string" where
  "ToUpper s = map upper_char s"

definition EqualFold :: "string \<Rightarrow> string \<Rightarrow> bool" where
  "EqualFold s t \<longleftrightarrow> ToLower s = ToLower t"

definition is_space :: "char \<Rightarrow> bool" where
  "is_space c \<longleftrightarrow> (of_char c :: nat) \<in> {9, 10, 11, 12, 13, 32}"

definition TrimSpace :: "string \<Rightarrow> string" where
  "TrimSpace s = rev (dropWhile is_space (rev (dropWhile is_space s)))"

section \<open>Searching and splitting\<close>

definition HasPrefix :: "string \<Rightarrow> string \<Rightarrow> bool" where
  "HasPrefix s p \<longleftrightarrow> take (length p) s = p"

definition HasSuffix :: "string \<Rightarrow> string \<Rightarrow> bool" where
  "HasSuffix s p \<longleftrightarrow> length p \<le> length s \<and> drop (length s - length p) s = p"

text \<open>The first index at which \<open>p\<close> occurs; Go's -1 is \<open>None\<close>.\<close>

fun Index :: "string \<Rightarrow> string \<Rightarrow> nat option" where
  "Index [] p = (if p = [] then Some 0 else None)"
| "Index (c # s) p = (if HasPrefix (c # s) p then Some 0 else map_option Suc (Index s p))"

definition Contains_str :: "string \<Rightarrow> string \<Rightarrow> bool" where
  "Contains_str s p \<longleftrightarrow> Index s p \<noteq> None"

text \<open>\<open>strings.Split\<close> with a separator of one character, and \<open>strings.Join\<close>.\<close>

fun Split :: "char \<Rightarrow> string \<Rightarrow> string list" where
  "Split d [] = [[]]"
| "Split d (c # s) = (if c = d then [] # Split d s
     else case Split d s of [] \<Rightarrow> [[c]] | w # ws \<Rightarrow> (c # w) # ws)"

fun Join :: "string list \<Rightarrow> string \<Rightarrow> string" where
  "Join [] sep = []"
| "Join [w] sep = w"
| "Join (w # v # ws) sep = w @ sep @ Join (v # ws) sep"

text \<open>\<open>strings.ReplaceAll\<close> of a single character.\<close>

definition ReplaceAll :: "string \<Rightarrow> char \<Rightarrow> string \<Rightarrow> string" where
  "ReplaceAll s c r = concat (map (\<lambda>x. if x = c then r else [x]) s)"

section \<open>Laws\<close>

lemma length_ToLower [simp]: "length (ToLower s) = length s"
  by (simp add: ToLower_def)

lemma length_ToUpper [simp]: "length (ToUpper s) = length s"
  by (simp add: ToUpper_def)

lemma ToLower_append [simp]: "ToLower (s @ t) = ToLower s @ ToLower t"
  by (simp add: ToLower_def)

lemma ToLower_Nil [simp]: "ToLower [] = []"
  by (simp add: ToLower_def)

lemma upper_lower_char [simp]: "upper_char (lower_char c) = upper_char c"
  by (auto simp: upper_char_def lower_char_def Let_def)

lemma EqualFold_refl [simp]: "EqualFold s s"
  by (simp add: EqualFold_def)

lemma HasPrefix_iff: "HasPrefix s p \<longleftrightarrow> (\<exists>t. s = p @ t)"
  unfolding HasPrefix_def by (metis append_eq_conv_conj)

lemma HasSuffix_iff: "HasSuffix s p \<longleftrightarrow> (\<exists>t. s = t @ p)"
  unfolding HasSuffix_def
  by (metis append_eq_conv_conj append_take_drop_id length_append length_rev
      le_add2 diff_add_inverse2)

lemma Index_Some:
  "Index s p = Some i \<Longrightarrow> i + length p \<le> length s \<and> take (length p) (drop i s) = p"
proof (induction s arbitrary: i)
  case Nil
  then show ?case by (simp split: if_splits)
next
  case (Cons c s)
  show ?case
  proof (cases "HasPrefix (c # s) p")
    case True
    with Cons.prems have "i = 0" by simp
    with True show ?thesis
      by (simp add: HasPrefix_def) (metis length_Cons length_take min.cobounded1)
  next
    case False
    with Cons.prems obtain j where "Index s p = Some j" "i = Suc j" by auto
    with Cons.IH show ?thesis by simp
  qed
qed

lemma Index_None: "Index s p = None \<Longrightarrow> s \<noteq> u @ p @ v"
proof (induction s arbitrary: u)
  case Nil
  then show ?case by (auto split: if_splits)
next
  case (Cons c s)
  then have np: "\<not> HasPrefix (c # s) p" and n: "Index s p = None" by (auto split: if_splits)
  show ?case
  proof
    assume e: "c # s = u @ p @ v"
    show False
    proof (cases u)
      case Nil
      with e np show False by (simp add: HasPrefix_iff)
    next
      case (Cons d u')
      with e have "s = u' @ p @ v" by simp
      with Cons.IH [OF n] show False by blast
    qed
  qed
qed

lemma Contains_iff: "Contains_str s p \<longleftrightarrow> (\<exists>u v. s = u @ p @ v)"
proof
  assume "Contains_str s p"
  then obtain i where "Index s p = Some i" by (auto simp: Contains_str_def)
  then have "s = take i s @ p @ drop (length p) (drop i s)"
    by (metis Index_Some append_take_drop_id)
  then show "\<exists>u v. s = u @ p @ v" by blast
next
  assume "\<exists>u v. s = u @ p @ v"
  then show "Contains_str s p" unfolding Contains_str_def using Index_None by blast
qed

lemma Contains_without: "c \<notin> set s \<Longrightarrow> c \<in> set p \<Longrightarrow> \<not> Contains_str s p"
  by (auto simp: Contains_iff)

lemma Split_not_Nil [simp]: "Split d s \<noteq> []"
  by (induction s) (auto split: list.splits)

lemma Join_Split: "Join (Split d s) [d] = s"
proof (induction s)
  case (Cons c s)
  obtain w ws where w: "Split d s = w # ws" by (meson Split_not_Nil neq_Nil_conv)
  with Cons.IH show ?case by (cases ws) auto
qed simp

lemma Split_no_sep: "w \<in> set (Split d s) \<Longrightarrow> d \<notin> set w"
  by (induction s arbitrary: w) (auto split: if_splits list.splits)

lemma Split_Join:
  "ws \<noteq> [] \<Longrightarrow> \<forall>w \<in> set ws. d \<notin> set w \<Longrightarrow> Split d (Join ws [d]) = ws"
proof (induction ws "[d]" rule: Join.induct)
  case (2 w)
  then have "d \<notin> set w" by simp
  then show ?case by (induction w) auto
next
  case (3 w v ws)
  have "Split d (w @ d # t) = w # Split d t" if "d \<notin> set w" for w t
    using that by (induction w) auto
  with 3 show ?case by simp
qed simp

lemma TrimSpace_length: "length (TrimSpace s) \<le> length s"
  unfolding TrimSpace_def by (metis length_rev length_dropWhile_le order.trans)

lemma TrimSpace_idem [simp]: "TrimSpace (TrimSpace s) = TrimSpace s"
proof (cases "dropWhile is_space s")
  case Nil
  then show ?thesis unfolding TrimSpace_def Nil by simp
next
  case (Cons c t)
  then have c: "\<not> is_space c" using hd_dropWhile [of is_space s] by simp
  have "dropWhile is_space (xs @ [c]) = dropWhile is_space xs @ [c]" for xs
    using c by (induction xs) auto
  then obtain u where u: "rev (dropWhile is_space (rev (c # t))) = c # u" by simp
  then have "dropWhile is_space (rev (c # u)) = rev (c # u)"
    by (metis dropWhile_idem rev_rev_ident)
  with u Cons c show ?thesis by (simp add: TrimSpace_def)
qed

end
