(* ===== verification/Go_Values.thy ===== *)
theory Go_Values
  imports Go_Strings Complex_Main
begin

text \<open>
  Dynamically typed Go values (\<open>interface{}\<close>) as payloads hold them, and the \<open>float64\<close>
  arithmetic the payload filters use: comparison and conversion from integers. A finite float
  is its exact rational value; the two zeros, which no comparison distinguishes, are one value.
\<close>

section \<open>Floating point numbers\<close>

datatype f64 = NaN | PInf | NInf | Fin rat

fun f64_eq :: "f64 \<Rightarrow> f64 \<Rightarrow> bool" where
  "f64_eq (Fin x) (Fin y) \<longleftrightarrow> x = y"
| "f64_eq PInf PInf \<longleftrightarrow> True"
| "f64_eq NInf NInf \<longleftrightarrow> True"
| "f64_eq _ _ \<longleftrightarrow> False"

fun f64_lt :: "f64 \<Rightarrow> f64 \<Rightarrow> bool" where
  "f64_lt (Fin x) (Fin y) \<longleftrightarrow> x < y"
| "f64_lt NInf (Fin y) \<longleftrightarrow> True"
| "f64_lt NInf PInf \<longleftrightarrow> True"
| "f64_lt (Fin x) PInf \<longleftrightarrow> True"
| "f64_lt _ _ \<longleftrightarrow> False"

definition f64_le :: "f64 \<Rightarrow> f64 \<Rightarrow> bool" where
  "f64_le x y \<longleftrightarrow> f64_lt x y \<or> f64_eq x y"

text \<open>
  Conversion of an integer: round to 53 significant bits, ties to even. \<open>extra_bits\<close> counts
  the bits beyond the 53rd.
\<close>

fun extra_bits :: "nat \<Rightarrow> nat" where
  "extra_bits a = (if a < 2 ^ 53 then 0 else Suc (extra_bits (a div 2)))"

declare extra_bits.simps [simp del]

definition round53 :: "nat \<Rightarrow> nat" where
  "round53 a = (let k = extra_bits a in
     if k = 0 then a
     else let q = a div 2 ^ k; r = a mod 2 ^ k; half = 2 ^ (k - 1)
          in (if half < r \<or> (r = half \<and> odd q) then q + 1 else q) * 2 ^ k)"

definition int_to_f64 :: "int \<Rightarrow> f64" where
  "int_to_f64 n = Fin (of_int (sgn n * int (round53 (nat \<bar>n\<bar>))))"

section \<open>Interface values\<close>

datatype go_value =
    VNil
  | VBool bool
  | VFloat64 f64
  | VFloat32 f64
  | VInt int
  | VInt64 int
  | VString string
  | VList "go_value list"
  | VMap "(string \<times> go_value) list"

type_synonym go_map = "(string \<times> go_value) list"

text \<open>Indexing a map: a missing key gives the zero value \<open>nil\<close>.\<close>

definition map_get :: "go_map \<Rightarrow> string \<Rightarrow> go_value" where
  "map_get m k = (case map_of m k of Some v \<Rightarrow> v | None \<Rightarrow> VNil)"

text \<open>
  The operator \<open>==\<close> on two interface values: false when the dynamic types differ, and a run-time
  panic (\<open>None\<close>) when they agree and are not comparable.
\<close>

fun iface_eq :: "go_value \<Rightarrow> go_value \<Rightarrow> bool option" where
  "iface_eq VNil VNil = Some True"
| "iface_eq (VBool a) (VBool b) = Some (a = b)"
| "iface_eq (VFloat64 x) (VFloat64 y) = Some (f64_eq x y)"
| "iface_eq (VFloat32 x) (VFloat32 y) = Some (f64_eq x y)"
| "iface_eq (VInt m) (VInt n) = Some (m = n)"
| "iface_eq (VInt64 m) (VInt64 n) = Some (m = n)"
| "iface_eq (VString s) (VString t) = Some (s = t)"
| "iface_eq (VList _) (VList _) = None"
| "iface_eq (VMap _) (VMap _) = None"
| "iface_eq _ _ = Some False"

fun comparable :: "go_value \<Rightarrow> bool" where
  "comparable (VList _) = False"
| "comparable (VMap _) = False"
| "comparable _ = True"

section \<open>Laws\<close>

lemma f64_lt_irrefl [simp]: "\<not> f64_lt x x"
  by (cases x) auto

lemma f64_lt_trans: "f64_lt x y \<Longrightarrow> f64_lt y z \<Longrightarrow> f64_lt x z"
  by (cases x; cases y; cases z) auto

lemma f64_trichotomy:
  "x \<noteq> NaN \<Longrightarrow> y \<noteq> NaN \<Longrightarrow> f64_lt x y \<or> f64_eq x y \<or> f64_lt y x"
  by (cases x; cases y) auto

lemma f64_lt_not_eq: "f64_lt x y \<Longrightarrow> \<not> f64_eq x y \<and> \<not> f64_lt y x"
  by (cases x; cases y) auto

lemma f64_eq_iff: "f64_eq x y \<longleftrightarrow> x = y \<and> x \<noteq> NaN"
  by (cases x; cases y) auto

lemma round53_small: "a < 2 ^ 53 \<Longrightarrow> round53 a = a"
  by (simp add: round53_def extra_bits.simps [of a])

lemma int_to_f64_exact: "\<bar>n\<bar> < 2 ^ 53 \<Longrightarrow> int_to_f64 n = Fin (of_int n)"
proof -
  assume "\<bar>n\<bar> < 2 ^ 53"
  then have "nat \<bar>n\<bar> < 2 ^ 53" by simp
  then show ?thesis by (simp add: int_to_f64_def round53_small mult_sgn_abs)
qed

lemma int_to_f64_not_NaN [simp]: "int_to_f64 n \<noteq> NaN"
  by (simp add: int_to_f64_def)

lemma extra_bits_top: "extra_bits a \<noteq> 0 \<Longrightarrow> 2 ^ 52 \<le> a div 2 ^ extra_bits a \<and> a div 2 ^ extra_bits a < 2 ^ 53"
proof (induction a rule: extra_bits.induct)
  case (1 a)
  then have a: "\<not> a < 2 ^ 53" by (auto simp: extra_bits.simps [of a])
  then have e: "extra_bits a = Suc (extra_bits (a div 2))" by (simp add: extra_bits.simps [of a])
  show ?case
  proof (cases "extra_bits (a div 2) = 0")
    case True
    then have "a div 2 < 2 ^ 53" by (auto simp: extra_bits.simps [of "a div 2"] split: if_splits)
    with a True e show ?thesis by simp
  next
    case False
    from "1.IH" [OF a False] show ?thesis by (simp add: e div_mult2_eq)
  qed
qed

text \<open>Rounding never moves a value past another one.\<close>

definition round_at :: "nat \<Rightarrow> nat \<Rightarrow> nat" where
  "round_at k a = (let q = a div 2 ^ k; r = a mod 2 ^ k; half = 2 ^ (k - 1)
     in if half < r \<or> (r = half \<and> odd q) then q + 1 else q)"

lemma round53_at: "extra_bits a = k \<Longrightarrow> k \<noteq> 0 \<Longrightarrow> round53 a = round_at k a * 2 ^ k"
  by (simp add: round53_def round_at_def Let_def)

lemma round_at_bounds: "a div 2 ^ k \<le> round_at k a" "round_at k a \<le> a div 2 ^ k + 1"
  by (simp_all add: round_at_def Let_def)

lemma round_at_mono:
  assumes "a \<le> b"
  shows "round_at k a \<le> round_at k b"
proof (cases "a div 2 ^ k = b div 2 ^ k")
  case True
  with assms have "a mod 2 ^ k \<le> b mod 2 ^ k"
    by (metis add_le_cancel_left div_mult_mod_eq)
  with True show ?thesis by (auto simp: round_at_def Let_def)
next
  case False
  with assms have "a div 2 ^ k + 1 \<le> b div 2 ^ k"
    by (metis Suc_eq_plus1 Suc_leI div_le_mono le_neq_implies_less)
  with round_at_bounds(2) [of k a] round_at_bounds(1) [of b k] show ?thesis by linarith
qed

lemma extra_bits_mono: "a \<le> b \<Longrightarrow> extra_bits a \<le> extra_bits b"
proof (induction a arbitrary: b rule: extra_bits.induct)
  case (1 a)
  show ?case
  proof (cases "a < 2 ^ 53")
    case True
    then show ?thesis by (simp add: extra_bits.simps [of a])
  next
    case False
    then have "extra_bits (a div 2) \<le> extra_bits (b div 2)"
      using 1 by (simp add: div_le_mono)
    with False "1.prems" show ?thesis by (simp add: extra_bits.simps [of a] extra_bits.simps [of b])
  qed
qed

lemma round53_upper: "round53 a \<le> 2 ^ (53 + extra_bits a)"
proof (cases "extra_bits a = 0")
  case True
  then have "a < 2 ^ 53" by (auto simp: extra_bits.simps [of a] split: if_splits)
  with True show ?thesis by (simp add: round53_small)
next
  case False
  have "round_at (extra_bits a) a \<le> 2 ^ 53"
    using extra_bits_top [OF False] round_at_bounds(2) [of "extra_bits a" a] by linarith
  then show ?thesis using False by (simp add: round53_at [OF refl] power_add)
qed

lemma round53_lower: "extra_bits a \<noteq> 0 \<Longrightarrow> 2 ^ (52 + extra_bits a) \<le> round53 a"
  using extra_bits_top [of a] round_at_bounds(1) [of a "extra_bits a"]
  by (simp add: round53_at [OF refl] power_add)

lemma round53_mono:
  assumes "a \<le> b"
  shows "round53 a \<le> round53 b"
proof (cases "extra_bits a = extra_bits b")
  case True
  then show ?thesis
  proof (cases "extra_bits b = 0")
    case True
    with \<open>extra_bits a = extra_bits b\<close> assms show ?thesis by (simp add: round53_def)
  next
    case False
    with True assms show ?thesis by (simp add: round53_at round_at_mono)
  qed
next
  case False
  with extra_bits_mono [OF assms] have l: "extra_bits a < extra_bits b" by simp
  then have "(2::nat) ^ (53 + extra_bits a) \<le> 2 ^ (52 + extra_bits b)"
    by (intro power_increasing) auto
  with l round53_upper [of a] round53_lower [of b] show ?thesis by linarith
qed

lemma int_to_f64_mono: "m \<le> n \<Longrightarrow> \<not> f64_lt (int_to_f64 n) (int_to_f64 m)"
proof -
  assume mn: "m \<le> n"
  have "sgn m * int (round53 (nat \<bar>m\<bar>)) \<le> sgn n * int (round53 (nat \<bar>n\<bar>))"
  proof (cases "0 \<le> m")
    case True
    then have "round53 (nat \<bar>m\<bar>) \<le> round53 (nat \<bar>n\<bar>)" using mn by (intro round53_mono) simp
    with True mn show ?thesis by (auto simp: sgn_if round53_small)
  next
    case False
    then have "n < 0 \<Longrightarrow> round53 (nat \<bar>n\<bar>) \<le> round53 (nat \<bar>m\<bar>)" using mn by (intro round53_mono) simp
    with False show ?thesis by (auto simp: sgn_if)
  qed
  then show ?thesis unfolding int_to_f64_def f64_lt.simps not_less of_int_le_iff .
qed

lemma iface_eq_total: "comparable a \<or> comparable b \<Longrightarrow> iface_eq a b \<noteq> None"
  by (cases a; cases b) auto

end
