(* ===== verification/Payload_Filter.thy ===== *)
theory Payload_Filter
  imports Go_Values
begin

text \<open>
  The payload filters of \<open>pkg/index/payload/filter.go\<close>: the filter tree, its constructors, the
  evaluator that decides whether a payload matches, the fluent builder, the translation of
  Qdrant-style filters and the validator. A pointer that may be nil is an \<open>option\<close>; an
  evaluation that panics is \<open>None\<close>.
\<close>

section \<open>Filters\<close>

abbreviation FilterTypeAnd :: string where "FilterTypeAnd \<equiv> ''and''"
abbreviation FilterTypeOr :: string where "FilterTypeOr \<equiv> ''or''"
abbreviation FilterTypeNot :: string where "FilterTypeNot \<equiv> ''not''"
abbreviation FilterTypeField :: string where "FilterTypeField \<equiv> ''field''"

abbreviation OpEqual :: string where "OpEqual \<equiv> ''eq''"
abbreviation OpNotEqual :: string where "OpNotEqual \<equiv> ''ne''"
abbreviation OpGreater :: string where "OpGreater \<equiv> ''gt''"
abbreviation OpGreaterEqual :: string where "OpGreaterEqual \<equiv> ''gte''"
abbreviation OpLess :: string where "OpLess \<equiv> ''lt''"
abbreviation OpLessEqual :: string where "OpLessEqual \<equiv> ''lte''"
abbreviation OpIn :: string where "OpIn \<equiv> ''in''"
abbreviation OpNotIn :: string where "OpNotIn \<equiv> ''nin''"
abbreviation OpContains :: string where "OpContains \<equiv> ''contains''"
abbreviation OpStartsWith :: string where "OpStartsWith \<equiv> ''starts_with''"
abbreviation OpEndsWith :: string where "OpEndsWith \<equiv> ''ends_with''"
abbreviation OpIsNull :: string where "OpIsNull \<equiv> ''is_null''"
abbreviation OpIsNotNull :: string where "OpIsNotNull \<equiv> ''is_not_null''"
abbreviation OpRange :: string where "OpRange \<equiv> ''range''"

record condition =
  Op :: string
  Value :: go_value
  Values :: "go_value list"
  Min :: go_value
  Max :: go_value

datatype pfilter = Filter
  (fType: string)
  (fField: string)
  (fCondition: "condition option")
  (fFilters: "pfilter option list")
  (fConditions: "pfilter option list")

definition And :: "pfilter option list \<Rightarrow> pfilter" where
  "And filters = Filter FilterTypeAnd [] None filters []"

definition Or :: "pfilter option list \<Rightarrow> pfilter" where
  "Or filters = Filter FilterTypeOr [] None filters []"

definition Not_filter :: "pfilter option \<Rightarrow> pfilter" where
  "Not_filter f = Filter FilterTypeNot [] None [f] []"

definition Field :: "string \<Rightarrow> condition option \<Rightarrow> pfilter" where
  "Field name cond = Filter FilterTypeField name cond [] []"

definition cond_of :: "string \<Rightarrow> condition" where
  "cond_of op = \<lparr>Op = op, Value = VNil, Values = [], Min = VNil, Max = VNil\<rparr>"

definition Eq :: "go_value \<Rightarrow> condition" where "Eq v = (cond_of OpEqual)\<lparr>Value := v\<rparr>"
definition Ne :: "go_value \<Rightarrow> condition" where "Ne v = (cond_of OpNotEqual)\<lparr>Value := v\<rparr>"
definition Gt :: "go_value \<Rightarrow> condition" where "Gt v = (cond_of OpGreater)\<lparr>Value := v\<rparr>"
definition Gte :: "go_value \<Rightarrow> condition" where "Gte v = (cond_of OpGreaterEqual)\<lparr>Value := v\<rparr>"
definition Lt :: "go_value \<Rightarrow> condition" where "Lt v = (cond_of OpLess)\<lparr>Value := v\<rparr>"
definition Lte :: "go_value \<Rightarrow> condition" where "Lte v = (cond_of OpLessEqual)\<lparr>Value := v\<rparr>"
definition In :: "go_value list \<Rightarrow> condition" where "In vs = (cond_of OpIn)\<lparr>Values := vs\<rparr>"
definition NotIn :: "go_value list \<Rightarrow> condition" where "NotIn vs = (cond_of OpNotIn)\<lparr>Values := vs\<rparr>"
definition Contains :: "string \<Rightarrow> condition" where "Contains s = (cond_of OpContains)\<lparr>Value := VString s\<rparr>"
definition StartsWith :: "string \<Rightarrow> condition" where "StartsWith s = (cond_of OpStartsWith)\<lparr>Value := VString s\<rparr>"
definition EndsWith :: "string \<Rightarrow> condition" where "EndsWith s = (cond_of OpEndsWith)\<lparr>Value := VString s\<rparr>"
definition IsNull :: condition where "IsNull = cond_of OpIsNull"
definition IsNotNull :: condition where "IsNotNull = cond_of OpIsNotNull"
definition Range :: "go_value \<Rightarrow> go_value \<Rightarrow> condition" where
  "Range mn mx = (cond_of OpRange)\<lparr>Min := mn, Max := mx\<rparr>"

lemmas cond_defs = cond_of_def Eq_def Ne_def Gt_def Gte_def Lt_def Lte_def In_def NotIn_def
  Contains_def StartsWith_def EndsWith_def IsNull_def IsNotNull_def Range_def

section \<open>Comparing values\<close>

fun toFloat64 :: "go_value \<Rightarrow> f64 option" where
  "toFloat64 (VFloat64 x) = Some x"
| "toFloat64 (VFloat32 x) = Some x"
| "toFloat64 (VInt n) = Some (int_to_f64 n)"
| "toFloat64 (VInt64 n) = Some (int_to_f64 n)"
| "toFloat64 _ = None"

fun as_string :: "go_value \<Rightarrow> string option" where
  "as_string (VString s) = Some s"
| "as_string _ = None"

definition compareEqual :: "go_value \<Rightarrow> go_value \<Rightarrow> bool option" where
  "compareEqual a b =
    (if a = VNil \<and> b = VNil then Some True
     else if a = VNil \<or> b = VNil then Some False
     else case (toFloat64 a, toFloat64 b) of
       (Some x, Some y) \<Rightarrow> Some (f64_eq x y)
     | _ \<Rightarrow> (case (as_string a, as_string b) of
         (Some s, Some t) \<Rightarrow> Some (EqualFold s t)
       | _ \<Rightarrow> iface_eq a b))"

definition compareNumeric :: "go_value \<Rightarrow> go_value \<Rightarrow> int" where
  "compareNumeric a b = (case (toFloat64 a, toFloat64 b) of
     (Some x, Some y) \<Rightarrow> if f64_lt x y then -1 else if f64_lt y x then 1 else 0
   | _ \<Rightarrow> 0)"

fun valueIn :: "go_value \<Rightarrow> go_value list \<Rightarrow> bool option" where
  "valueIn v [] = Some False"
| "valueIn v (w # ws) = (case compareEqual v w of
     None \<Rightarrow> None
   | Some b \<Rightarrow> if b then Some True else valueIn v ws)"

definition stringContains :: "go_value \<Rightarrow> go_value \<Rightarrow> bool" where
  "stringContains v w = (case (as_string v, as_string w) of
     (Some s, Some t) \<Rightarrow> Contains_str (ToLower s) (ToLower t) | _ \<Rightarrow> False)"

definition stringStartsWith :: "go_value \<Rightarrow> go_value \<Rightarrow> bool" where
  "stringStartsWith v w = (case (as_string v, as_string w) of
     (Some s, Some t) \<Rightarrow> HasPrefix (ToLower s) (ToLower t) | _ \<Rightarrow> False)"

definition stringEndsWith :: "go_value \<Rightarrow> go_value \<Rightarrow> bool" where
  "stringEndsWith v w = (case (as_string v, as_string w) of
     (Some s, Some t) \<Rightarrow> HasSuffix (ToLower s) (ToLower t) | _ \<Rightarrow> False)"

definition inRange :: "go_value \<Rightarrow> go_value \<Rightarrow> go_value \<Rightarrow> bool" where
  "inRange v mn mx = (case (toFloat64 v, toFloat64 mn, toFloat64 mx) of
     (Some x, Some lo, Some hi) \<Rightarrow> f64_le lo x \<and> f64_le x hi | _ \<Rightarrow> False)"

section \<open>The evaluator\<close>

fun walk :: "string list \<Rightarrow> go_value \<Rightarrow> go_value" where
  "walk [] current = current"
| "walk (part # parts) current = (case current of
     VNil \<Rightarrow> VNil
   | VMap m \<Rightarrow> walk parts (map_get m part)
   | _ \<Rightarrow> VNil)"

definition getFieldValue :: "string \<Rightarrow> go_map \<Rightarrow> go_value" where
  "getFieldValue field payload = walk (Split (CHR ''.'') field) (VMap payload)"

definition evaluateCondition :: "string \<Rightarrow> condition option \<Rightarrow> go_map \<Rightarrow> bool option" where
  "evaluateCondition field cond payload = (case cond of
     None \<Rightarrow> Some True
   | Some c \<Rightarrow>
       let value = getFieldValue field payload; op = Op c in
       if op = OpEqual then compareEqual value (Value c)
       else if op = OpNotEqual then map_option Not (compareEqual value (Value c))
       else if op = OpGreater then Some (compareNumeric value (Value c) > 0)
       else if op = OpGreaterEqual then Some (compareNumeric value (Value c) \<ge> 0)
       else if op = OpLess then Some (compareNumeric value (Value c) < 0)
       else if op = OpLessEqual then Some (compareNumeric value (Value c) \<le> 0)
       else if op = OpIn then valueIn value (Values c)
       else if op = OpNotIn then map_option Not (valueIn value (Values c))
       else if op = OpContains then Some (stringContains value (Value c))
       else if op = OpStartsWith then Some (stringStartsWith value (Value c))
       else if op = OpEndsWith then Some (stringEndsWith value (Value c))
       else if op = OpIsNull then Some (value = VNil)
       else if op = OpIsNotNull then Some (value \<noteq> VNil)
       else if op = OpRange then Some (inRange value (Min c) (Max c))
       else Some True)"

text \<open>
  The two loops over sub-filters take the evaluator they call; \<open>Evaluate\<close> ties the knot.
\<close>

fun evaluateAnd :: "(pfilter option \<Rightarrow> bool option) \<Rightarrow> pfilter option list \<Rightarrow> bool option" where
  "evaluateAnd ev [] = Some True"
| "evaluateAnd ev (f # fs) = (case ev f of
     None \<Rightarrow> None
   | Some b \<Rightarrow> if \<not> b then Some False else evaluateAnd ev fs)"

fun or_loop :: "(pfilter option \<Rightarrow> bool option) \<Rightarrow> pfilter option list \<Rightarrow> bool option" where
  "or_loop ev [] = Some False"
| "or_loop ev (f # fs) = (case ev f of
     None \<Rightarrow> None
   | Some b \<Rightarrow> if b then Some True else or_loop ev fs)"

definition evaluateOr :: "(pfilter option \<Rightarrow> bool option) \<Rightarrow> pfilter option list \<Rightarrow> bool option" where
  "evaluateOr ev fs = (if fs = [] then Some True else or_loop ev fs)"

lemma evaluateAnd_cong [fundef_cong]:
  "fs = gs \<Longrightarrow> (\<And>f. f \<in> set gs \<Longrightarrow> ev f = ev' f) \<Longrightarrow> evaluateAnd ev fs = evaluateAnd ev' gs"
  by (induction gs arbitrary: fs) (auto split: option.split)

lemma or_loop_cong: "(\<And>f. f \<in> set fs \<Longrightarrow> ev f = ev' f) \<Longrightarrow> or_loop ev fs = or_loop ev' fs"
  by (induction fs) (auto split: option.split)

lemma evaluateOr_cong [fundef_cong]:
  "fs = gs \<Longrightarrow> (\<And>f. f \<in> set gs \<Longrightarrow> ev f = ev' f) \<Longrightarrow> evaluateOr ev fs = evaluateOr ev' gs"
  by (auto simp: evaluateOr_def intro: or_loop_cong)

function (sequential) Evaluate :: "pfilter option \<Rightarrow> go_map \<Rightarrow> bool option" where
  "Evaluate None payload = Some True"
| "Evaluate (Some (Filter ty field cond filters conds)) payload =
    (if ty = FilterTypeAnd then evaluateAnd (\<lambda>f. Evaluate f payload) filters
     else if ty = FilterTypeOr then evaluateOr (\<lambda>f. Evaluate f payload) filters
     else if ty = FilterTypeNot then
       (case filters of [] \<Rightarrow> Some True | f # fs \<Rightarrow> map_option Not (Evaluate f payload))
     else if ty = FilterTypeField then evaluateCondition field cond payload
     else Some True)"
  by pat_completeness auto
lemma sub_size:
  assumes "f \<in> set filters"
  shows "size_option size f < size_option size (Some (Filter ty field cond filters conds))"
proof -
  have "size_option size f \<le> size_list (size_option size) filters"
    by (rule size_list_estimation' [OF assms order_refl])
  then show ?thesis by simp
qed

termination Evaluate
  by (relation "measure (size_option size \<circ> fst)") (auto simp: sub_size simp del: pfilter.size option.size)

section \<open>The filter builder\<close>

record 'e filter_builder =
  fb_filter :: pfilter
  fb_err :: "'e option"

definition NewFilterBuilder :: "'e filter_builder" where
  "NewFilterBuilder = \<lparr>fb_filter = Filter FilterTypeAnd [] None [] [], fb_err = None\<rparr>"

definition add_sub :: "pfilter \<Rightarrow> pfilter \<Rightarrow> pfilter" where
  "add_sub f g = Filter (fType f) (fField f) (fCondition f) (fFilters f @ [Some g]) (fConditions f)"

definition Where :: "string \<Rightarrow> condition option \<Rightarrow> 'e filter_builder \<Rightarrow> 'e filter_builder" where
  "Where field cond fb = (if fb_err fb \<noteq> None then fb
     else fb\<lparr>fb_filter := add_sub (fb_filter fb) (Field field cond)\<rparr>)"

definition And_builder :: "'e filter_builder \<Rightarrow> 'e filter_builder \<Rightarrow> 'e filter_builder" where
  "And_builder other fb = (if fb_err fb \<noteq> None then fb
     else if fb_err other \<noteq> None then fb\<lparr>fb_err := fb_err other\<rparr>
     else fb\<lparr>fb_filter := add_sub (fb_filter fb) (fb_filter other)\<rparr>)"

definition OrWhere :: "string \<Rightarrow> condition option \<Rightarrow> 'e filter_builder \<Rightarrow> 'e filter_builder" where
  "OrWhere field cond fb = (if fb_err fb \<noteq> None then fb
     else fb\<lparr>fb_filter := Filter FilterTypeOr [] None [Some (fb_filter fb), Some (Field field cond)] []\<rparr>)"

definition Build :: "'e filter_builder \<Rightarrow> 'e + pfilter" where
  "Build fb = (case fb_err fb of Some e \<Rightarrow> Inl e | None \<Rightarrow> Inr (fb_filter fb))"

section \<open>Qdrant filters\<close>

record qmatch =
  m_value :: go_value
  m_any :: "go_value list"
  m_text :: string

record qrange =
  r_lt :: "f64 option"
  r_lte :: "f64 option"
  r_gt :: "f64 option"
  r_gte :: "f64 option"

record qdrant_condition =
  q_field :: string
  q_match :: "qmatch option"
  q_range :: "qrange option"
  q_is_null :: "bool option"

record qdrant_filter =
  must :: "qdrant_condition list"
  should :: "qdrant_condition list"
  must_not :: "qdrant_condition list"

definition match_cond :: "qmatch \<Rightarrow> condition option" where
  "match_cond m = (if m_value m \<noteq> VNil then Some (Eq (m_value m))
     else if length (m_any m) > 0 then Some (In (m_any m))
     else if m_text m \<noteq> [] then Some (Contains (m_text m))
     else None)"

definition range_cond :: "qrange \<Rightarrow> condition option" where
  "range_cond r = (case r_lt r of Some x \<Rightarrow> Some (Lt (VFloat64 x))
   | None \<Rightarrow> (case r_lte r of Some x \<Rightarrow> Some (Lte (VFloat64 x))
   | None \<Rightarrow> (case r_gt r of Some x \<Rightarrow> Some (Gt (VFloat64 x))
   | None \<Rightarrow> (case r_gte r of Some x \<Rightarrow> Some (Gte (VFloat64 x))
   | None \<Rightarrow> None))))"

definition conditionToFilter :: "qdrant_condition option \<Rightarrow> pfilter option" where
  "conditionToFilter cond = (case cond of None \<Rightarrow> None
   | Some c \<Rightarrow> Some (Field (q_field c)
       (case q_is_null c of Some b \<Rightarrow> Some (if b then IsNull else IsNotNull)
        | None \<Rightarrow> (case q_match c of Some m \<Rightarrow> match_cond m
        | None \<Rightarrow> (case q_range c of Some r \<Rightarrow> range_cond r
        | None \<Rightarrow> None)))))"

definition ToFilter :: "qdrant_filter option \<Rightarrow> pfilter option" where
  "ToFilter qf = (case qf of None \<Rightarrow> None
   | Some q \<Rightarrow>
       let filters = map (conditionToFilter \<circ> Some) (must q);
           shoulds = (if length (should q) > 0
             then [Some (Filter FilterTypeOr [] None (map (conditionToFilter \<circ> Some) (should q)) [])] else []);
           nots = map (\<lambda>c. Some (Not_filter (conditionToFilter (Some c)))) (must_not q)
       in Some (Filter FilterTypeAnd [] None (filters @ shoulds @ nots) []))"

section \<open>Validation\<close>

datatype filter_error =
    EmptyAndOr
  | NotOneSubFilter
  | FieldNameMissing
  | ConditionMissing
  | UnknownFilterType

fun validate_all :: "(pfilter option \<Rightarrow> filter_error option) \<Rightarrow> pfilter option list \<Rightarrow> filter_error option" where
  "validate_all val [] = None"
| "validate_all val (f # fs) = (case val f of Some e \<Rightarrow> Some e | None \<Rightarrow> validate_all val fs)"

lemma validate_all_cong [fundef_cong]:
  "fs = gs \<Longrightarrow> (\<And>f. f \<in> set gs \<Longrightarrow> val f = val' f) \<Longrightarrow> validate_all val fs = validate_all val' gs"
  by (induction gs arbitrary: fs) (auto split: option.split)

function (sequential) Validate :: "pfilter option \<Rightarrow> filter_error option" where
  "Validate None = None"
| "Validate (Some (Filter ty field cond filters conds)) =
    (if ty = FilterTypeAnd \<or> ty = FilterTypeOr then
       (if length filters = 0 then Some EmptyAndOr else validate_all Validate filters)
     else if ty = FilterTypeNot then
       (case filters of [f] \<Rightarrow> Validate f | _ \<Rightarrow> Some NotOneSubFilter)
     else if ty = FilterTypeField then
       (if field = [] then Some FieldNameMissing
        else if cond = None then Some ConditionMissing else None)
     else Some UnknownFilterType)"
  by pat_completeness auto

termination Validate
  by (relation "measure (size_option size)") (auto simp: sub_size simp del: pfilter.size option.size)

end
