(* ===== verification/Payload_Sql.thy ===== *)
theory Payload_Sql
  imports Payload_Filter "HOL-Library.List_Lexorder" "HOL-Library.Char_ord"
begin

text \<open>
  The payload index of \<open>pkg/index/payload/index.go\<close>: compilation of a filter tree to a
  parameterised SQL query for the JSON table, escaping of LIKE patterns, and the registry of
  indexed fields. The SQLite engine itself is third-party code and stays outside; the theorems
  about its LIKE operator take it as a parameter with its documented behaviour.
\<close>

section \<open>Rendering values\<close>

text \<open>
  \<open>fmt.Sprint\<close> of a single operand. The shortest decimal rendering of a float is the
  argument \<open>ff\<close>; maps print in key order.
\<close>

fun Sprint :: "(f64 \<Rightarrow> string) \<Rightarrow> go_value \<Rightarrow> string" where
  "Sprint ff VNil = ''<nil>''"
| "Sprint ff (VBool b) = (if b then ''true'' else ''false'')"
| "Sprint ff (VFloat64 x) = ff x"
| "Sprint ff (VFloat32 x) = ff x"
| "Sprint ff (VInt n) = show_int n"
| "Sprint ff (VInt64 n) = show_int n"
| "Sprint ff (VString s) = s"
| "Sprint ff (VList vs) = ''['' @ Join (map (Sprint ff) vs) '' '' @ '']''"
| "Sprint ff (VMap m) =
    ''map['' @ Join (map (\<lambda>(k, s). k @ '':'' @ s) (sort_key fst (map (\<lambda>(k, v). (k, Sprint ff v)) m))) '' '' @ '']''"

definition escapeLikePattern :: "string \<Rightarrow> string" where
  "escapeLikePattern s =
    (let s = ReplaceAll s (CHR 0x5C) [CHR 0x5C, CHR 0x5C];
         s = ReplaceAll s (CHR ''%'') [CHR 0x5C, CHR ''%'']
     in ReplaceAll s (CHR ''_'') [CHR 0x5C, CHR ''_''])"

section \<open>Compilation to SQL\<close>

definition like_clause :: string where
  "like_clause = ''json_extract(data, ?) LIKE ? ESCAPE '' @ [CHR 0x27, CHR 0x5C, CHR 0x27]"

definition in_clause :: "string \<Rightarrow> go_value list \<Rightarrow> string" where
  "in_clause kw vs = ''json_extract(data, ?) '' @ kw @ '' ('' @ Join (map (\<lambda>v. ''?'') vs) '','' @ '')''"

definition null_str :: string where
  "null_str = [CHR 0x27] @ ''null'' @ [CHR 0x27]"

text \<open>The branches for a field condition; a clause is a text and its positional arguments.\<close>

definition field_clause :: "(f64 \<Rightarrow> string) \<Rightarrow> string \<Rightarrow> condition \<Rightarrow> string \<times> go_value list" where
  "field_clause ff field c =
    (let path = VString (''$.'' @ field); op = Op c; esc = escapeLikePattern (Sprint ff (Value c)) in
     if op = OpEqual then (''json_extract(data, ?) = ?'', [path, Value c])
     else if op = OpNotEqual then (''json_extract(data, ?) != ?'', [path, Value c])
     else if op = OpGreater then (''json_extract(data, ?) > ?'', [path, Value c])
     else if op = OpGreaterEqual then (''json_extract(data, ?) >= ?'', [path, Value c])
     else if op = OpLess then (''json_extract(data, ?) < ?'', [path, Value c])
     else if op = OpLessEqual then (''json_extract(data, ?) <= ?'', [path, Value c])
     else if op = OpIn then
       (if length (Values c) = 0 then (''0'', []) else (in_clause ''IN'' (Values c), path # Values c))
     else if op = OpNotIn then
       (if length (Values c) = 0 then (''1'', []) else (in_clause ''NOT IN'' (Values c), path # Values c))
     else if op = OpContains then (like_clause, [path, VString (''%'' @ esc @ ''%'')])
     else if op = OpStartsWith then (like_clause, [path, VString (esc @ ''%'')])
     else if op = OpEndsWith then (like_clause, [path, VString (''%'' @ esc)])
     else if op = OpIsNull then
       (''(json_extract(data, ?) IS NULL OR json_type(data, ?) = '' @ null_str @ '')'', [path, path])
     else if op = OpIsNotNull then
       (''(json_extract(data, ?) IS NOT NULL AND json_type(data, ?) != '' @ null_str @ '')'', [path, path])
     else if op = OpRange then
       (''(json_extract(data, ?) >= ? AND json_extract(data, ?) <= ?)'', [path, Min c, path, Max c])
     else ([], []))"

text \<open>The loop of the AND and OR branches: the clauses and arguments of the sub-filters that yield one.\<close>

fun gather :: "(pfilter option \<Rightarrow> string \<times> go_value list) \<Rightarrow> pfilter option list \<Rightarrow> string list \<times> go_value list" where
  "gather bw [] = ([], [])"
| "gather bw (f # fs) = (let (c, a) = bw f; (cs, as) = gather bw fs
     in if c \<noteq> [] then (c # cs, a @ as) else (cs, as))"

lemma gather_cong [fundef_cong]:
  "fs = gs \<Longrightarrow> (\<And>f. f \<in> set gs \<Longrightarrow> bw f = bw' f) \<Longrightarrow> gather bw fs = gather bw' gs"
  by (induction gs arbitrary: fs) auto

definition junction :: "string \<Rightarrow> string list \<times> go_value list \<Rightarrow> string \<times> go_value list" where
  "junction kw r = (case r of (cs, as) \<Rightarrow> if length cs = 0 then ([], []) else (''('' @ Join cs kw @ '')'', as))"

function (sequential) buildWhereClause :: "(f64 \<Rightarrow> string) \<Rightarrow> pfilter option \<Rightarrow> string \<times> go_value list" where
  "buildWhereClause ff None = ([], [])"
| "buildWhereClause ff (Some (Filter ty field cond filters conds)) =
    (if ty = FilterTypeAnd then junction '' AND '' (gather (buildWhereClause ff) filters)
     else if ty = FilterTypeOr then junction '' OR '' (gather (buildWhereClause ff) filters)
     else if ty = FilterTypeNot then
       (case filters of [] \<Rightarrow> ([], [])
        | f # fs \<Rightarrow> (case buildWhereClause ff f of (c, a) \<Rightarrow>
            if c = [] then ([], []) else (''NOT ('' @ c @ '')'', a)))
     else if ty = FilterTypeField then
       (case cond of None \<Rightarrow> ([], []) | Some c \<Rightarrow> field_clause ff field c)
     else ([], []))"
  by pat_completeness auto

termination buildWhereClause
  by (relation "measure (size_option size \<circ> snd)") (auto simp: sub_size simp del: pfilter.size option.size)

definition buildFilterQuery :: "(f64 \<Rightarrow> string) \<Rightarrow> pfilter option \<Rightarrow> string \<times> go_value list" where
  "buildFilterQuery ff f = (case buildWhereClause ff f of (w, as) \<Rightarrow>
     if w = [] then ([], []) else (''SELECT point_id FROM payloads WHERE '' @ w, as))"

section \<open>The registry of indexed fields\<close>

datatype index_type = IndexTypeHash | IndexTypeNumeric | IndexTypeFullText | IndexTypeGeo

record index_stats =
  PointCount :: int
  SizeBytes :: int

type_synonym field_registry = "(string \<times> index_type) list"

definition IndexedFields :: "field_registry \<Rightarrow> string list" where
  "IndexedFields r = map fst r"

definition CreateIndex :: "string \<Rightarrow> index_type \<Rightarrow> field_registry \<Rightarrow> field_registry" where
  "CreateIndex name ty r = (name, ty) # filter (\<lambda>(n, _). n \<noteq> name) r"

definition DeleteIndex :: "string \<Rightarrow> field_registry \<Rightarrow> field_registry" where
  "DeleteIndex name r = filter (\<lambda>(n, _). n \<noteq> name) r"

definition GetIndexStats :: "string \<Rightarrow> field_registry \<Rightarrow> index_stats option" where
  "GetIndexStats name r = (if map_of r name \<noteq> None then Some \<lparr>PointCount = 1, SizeBytes = 1024\<rparr> else None)"

end
