(* ===== verification/Payload_Facts.thy ===== *)
theory Payload_Facts
  imports Payload_Sql
begin

text \<open>
  Facts about the payload filters the properties rest on: the two loops as quantifiers, totality
  of the evaluator, and the shape of compiled SQL clauses.
\<close>

section \<open>The loops as quantifiers\<close>

lemma evaluateAnd_total:
  "(\<And>f. f \<in> set fs \<Longrightarrow> ev f \<noteq> None) \<Longrightarrow> evaluateAnd ev fs = Some (\<forall>f \<in> set fs. ev f = Some True)"
  by (induction fs) (auto split: option.split)

lemma or_loop_total:
  "(\<And>f. f \<in> set fs \<Longrightarrow> ev f \<noteq> None) \<Longrightarrow> or_loop ev fs = Some (\<exists>f \<in> set fs. ev f = Some True)"
  by (induction fs) (auto split: option.split)

lemma evaluateOr_total:
  "(\<And>f. f \<in> set fs \<Longrightarrow> ev f \<noteq> None) \<Longrightarrow>
   evaluateOr ev fs = Some (fs = [] \<or> (\<exists>f \<in> set fs. ev f = Some True))"
  by (auto simp: evaluateOr_def or_loop_total)

lemma evaluateAnd_append:
  "evaluateAnd ev (fs @ gs) = (case evaluateAnd ev fs of Some True \<Rightarrow> evaluateAnd ev gs | r \<Rightarrow> r)"
  by (induction fs) (auto split: option.split bool.split)

lemma or_loop_demorgan:
  "(\<And>f. f \<in> set fs \<Longrightarrow> ev (g f) = map_option Not (ev f)) \<Longrightarrow>
   or_loop ev (map g fs) = map_option Not (evaluateAnd ev fs)"
  by (induction fs) (auto split: option.split)

lemma evaluateAnd_demorgan:
  "(\<And>f. f \<in> set fs \<Longrightarrow> ev (g f) = map_option Not (ev f)) \<Longrightarrow>
   evaluateAnd ev (map g fs) = map_option Not (or_loop ev fs)"
  by (induction fs) (auto split: option.split)

lemma Evaluate_And [simp]: "Evaluate (Some (And fs)) p = evaluateAnd (\<lambda>f. Evaluate f p) fs"
  by (simp add: And_def)

lemma Evaluate_Or [simp]: "Evaluate (Some (Or fs)) p = evaluateOr (\<lambda>f. Evaluate f p) fs"
  by (simp add: Or_def)

lemma Evaluate_Not [simp]: "Evaluate (Some (Not_filter f)) p = map_option Not (Evaluate f p)"
  by (simp add: Not_filter_def)

lemma Evaluate_Field [simp]: "Evaluate (Some (Field n c)) p = evaluateCondition n c p"
  by (simp add: Field_def)

section \<open>Panics\<close>

lemma toFloat64_comparable: "toFloat64 a = Some x \<Longrightarrow> comparable a"
  by (cases a) auto

lemma as_string_comparable: "as_string a = Some x \<Longrightarrow> comparable a"
  by (cases a) auto

text \<open>An equality test panics exactly on two slices or two maps.\<close>

lemma compareEqual_panics:
  "compareEqual a b = None \<longleftrightarrow>
   (\<exists>xs ys. a = VList xs \<and> b = VList ys) \<or> (\<exists>m n. a = VMap m \<and> b = VMap n)"
  by (cases a; cases b) (simp_all add: compareEqual_def)

lemma compareEqual_total: "comparable b \<Longrightarrow> \<exists>r. compareEqual a b = Some r"
  using compareEqual_panics [of a b] by (cases "compareEqual a b") auto

lemma valueIn_total: "list_all comparable vs \<Longrightarrow> \<exists>r. valueIn a vs = Some r"
proof (induction vs)
  case Nil
  have "valueIn a [] = Some False" by simp
  then show ?case ..
next
  case (Cons w ws)
  then obtain r b where "valueIn a ws = Some r" "compareEqual a w = Some b"
    using compareEqual_total [of w a] by auto
  then have "valueIn a (w # ws) = Some (b \<or> r)" by simp
  then show ?case ..
qed

text \<open>A condition whose equality operands are scalars.\<close>

definition safe_cond :: "condition \<Rightarrow> bool" where
  "safe_cond c \<longleftrightarrow> (Op c \<in> {OpEqual, OpNotEqual} \<longrightarrow> comparable (Value c))
     \<and> (Op c \<in> {OpIn, OpNotIn} \<longrightarrow> list_all comparable (Values c))"

function (sequential) safe_filter :: "pfilter option \<Rightarrow> bool" where
  "safe_filter None = True"
| "safe_filter (Some (Filter ty field cond filters conds)) \<longleftrightarrow>
     (\<forall>c. cond = Some c \<longrightarrow> safe_cond c) \<and> (\<forall>f \<in> set filters. safe_filter f)"
  by pat_completeness auto

termination safe_filter
  by (relation "measure (size_option size)") (auto simp: sub_size simp del: pfilter.size option.size)

lemma evaluateCondition_total: "(\<And>c. cond = Some c \<Longrightarrow> safe_cond c) \<Longrightarrow> evaluateCondition n cond p \<noteq> None"
  by (cases cond)
    (auto simp: evaluateCondition_def Let_def safe_cond_def
      dest: valueIn_total [of _ "getFieldValue n p"] compareEqual_total [of _ "getFieldValue n p"])

lemma Evaluate_total: "safe_filter f \<Longrightarrow> Evaluate f p \<noteq> None"
proof (induction f rule: safe_filter.induct)
  case (2 ty field cond filters conds)
  then have sub: "\<And>f. f \<in> set filters \<Longrightarrow> Evaluate f p \<noteq> None" by simp
  have c: "evaluateCondition field cond p \<noteq> None" using 2 by (intro evaluateCondition_total) simp
  show ?case using sub c
    by (auto simp: evaluateAnd_total evaluateOr_total split: list.split)
qed simp

section \<open>Numbers\<close>

lemma compareNumeric_cases:
  "compareNumeric a b = -1 \<or> compareNumeric a b = 0 \<or> compareNumeric a b = 1"
  by (auto simp: compareNumeric_def split: option.split)

lemma compareNumeric_int:
  assumes "toFloat64 a = Some (int_to_f64 m)" and "toFloat64 b = Some (int_to_f64 n)"
  shows "m \<le> n \<Longrightarrow> compareNumeric a b \<le> 0" and "n \<le> m \<Longrightarrow> 0 \<le> compareNumeric a b"
    and "\<bar>m\<bar> < 2 ^ 53 \<Longrightarrow> \<bar>n\<bar> < 2 ^ 53 \<Longrightarrow> compareNumeric a b = sgn (m - n)"
  using assms int_to_f64_mono [of m n] int_to_f64_mono [of n m]
  by (auto simp: compareNumeric_def int_to_f64_exact sgn_if)

lemma inRange_compare:
  assumes "toFloat64 v = Some x" "toFloat64 lo = Some l" "toFloat64 hi = Some h"
    and "x \<noteq> NaN" "l \<noteq> NaN" "h \<noteq> NaN"
  shows "inRange v lo hi \<longleftrightarrow> compareNumeric v lo \<ge> 0 \<and> compareNumeric v hi \<le> 0"
  using assms f64_trichotomy [of l x] f64_trichotomy [of x h]
  by (auto simp: inRange_def compareNumeric_def f64_le_def f64_eq_iff dest: f64_lt_not_eq split: if_splits)

lemma compareNumeric_non_number: "toFloat64 a = None \<Longrightarrow> compareNumeric a b = 0"
  by (simp add: compareNumeric_def)

section \<open>SQL clauses\<close>

definition marks :: "string \<Rightarrow> nat" where
  "marks s = count_list s (CHR ''?'')"

lemma marks_append [simp]: "marks (s @ t) = marks s + marks t"
  by (simp add: marks_def)

lemma marks_Nil [simp]: "marks [] = 0"
  by (simp add: marks_def)

lemma marks_Cons [simp]: "marks (c # s) = (if c = CHR ''?'' then Suc (marks s) else marks s)"
  by (simp add: marks_def)

lemma marks_Join: "marks sep = 0 \<Longrightarrow> marks (Join ws sep) = sum_list (map marks ws)"
  by (induction ws sep rule: Join.induct) auto

lemma marks_in_clause: "marks kw = 0 \<Longrightarrow> marks (in_clause kw vs) = Suc (length vs)"
proof -
  assume "marks kw = 0"
  moreover have "sum_list (map (marks \<circ> (\<lambda>v. ''?'')) vs) = length vs" by (induction vs) auto
  ultimately show ?thesis by (simp add: in_clause_def marks_Join)
qed

lemma marks_field_clause: "marks (fst (field_clause ff n c)) = length (snd (field_clause ff n c))"
  by (simp add: field_clause_def Let_def marks_in_clause like_clause_def null_str_def)

lemma marks_gather:
  "(\<And>f. f \<in> set fs \<Longrightarrow> marks (fst (bw f)) = length (snd (bw f))) \<Longrightarrow>
   sum_list (map marks (fst (gather bw fs))) = length (snd (gather bw fs))"
proof (induction fs)
  case (Cons f fs)
  from Cons.prems [of f] have "marks (fst (bw f)) = length (snd (bw f))" by simp
  moreover have "sum_list (map marks (fst (gather bw fs))) = length (snd (gather bw fs))"
    using Cons by simp
  ultimately show ?case by (auto simp: Let_def split: prod.split)
qed simp

lemma marks_junction:
  "marks kw = 0 \<Longrightarrow> sum_list (map marks (fst r)) = length (snd r) \<Longrightarrow>
   marks (fst (junction kw r)) = length (snd (junction kw r))"
  by (auto simp: junction_def marks_Join split: prod.split)

lemma marks_buildWhereClause:
  "marks (fst (buildWhereClause ff f)) = length (snd (buildWhereClause ff f))"
proof (induction ff f rule: buildWhereClause.induct)
  case (2 ff ty field cond filters conds)
  consider "ty = FilterTypeAnd" | "ty = FilterTypeOr" | "ty = FilterTypeNot" | "ty = FilterTypeField"
    | "ty \<notin> {FilterTypeAnd, FilterTypeOr, FilterTypeNot, FilterTypeField}" by auto
  then show ?case
  proof cases
    case 1
    then show ?thesis using "2.IH"(1) by (simp add: marks_junction marks_gather)
  next
    case 2
    then show ?thesis using "2.IH"(2) by (simp add: marks_junction marks_gather)
  next
    case 3
    then show ?thesis using "2.IH"(3) by (auto split: list.split prod.split)
  next
    case 4
    then show ?thesis by (simp add: marks_field_clause split: option.split)
  qed simp
qed simp

text \<open>A filter with its field names and operands blanked.\<close>

definition blank_cond :: "condition \<Rightarrow> condition" where
  "blank_cond c = \<lparr>Op = Op c, Value = VNil, Values = map (\<lambda>_. VNil) (Values c), Min = VNil, Max = VNil\<rparr>"

function (sequential) blank :: "pfilter option \<Rightarrow> pfilter option" where
  "blank None = None"
| "blank (Some (Filter ty field cond filters conds)) =
     Some (Filter ty [] (map_option blank_cond cond) (map blank filters) [])"
  by pat_completeness auto

termination blank
  by (relation "measure (size_option size)") (auto simp: sub_size simp del: pfilter.size option.size)

lemma field_clause_blank:
  "fst (field_clause ff n c) = fst (field_clause ff' n' (blank_cond c))"
  by (simp add: field_clause_def Let_def blank_cond_def in_clause_def comp_def)

lemma gather_blank:
  "(\<And>f. f \<in> set fs \<Longrightarrow> fst (bw f) = fst (bw' (g f))) \<Longrightarrow> fst (gather bw fs) = fst (gather bw' (map g fs))"
proof (induction fs)
  case (Cons f fs)
  from Cons.prems [of f] have "fst (bw f) = fst (bw' (g f))" by simp
  moreover have "fst (gather bw fs) = fst (gather bw' (map g fs))" using Cons by simp
  ultimately show ?case by (auto simp: Let_def split: prod.split)
qed simp

lemma junction_blank: "fst r = fst r' \<Longrightarrow> fst (junction kw r) = fst (junction kw r')"
  by (cases r; cases r') (simp add: junction_def)

lemma buildWhereClause_blank:
  "fst (buildWhereClause ff f) = fst (buildWhereClause ff (blank f))"
proof (induction ff f rule: buildWhereClause.induct)
  case (2 ff ty field cond filters conds)
  consider "ty = FilterTypeAnd" | "ty = FilterTypeOr" | "ty = FilterTypeNot" | "ty = FilterTypeField"
    | "ty \<notin> {FilterTypeAnd, FilterTypeOr, FilterTypeNot, FilterTypeField}" by auto
  then show ?case
  proof cases
    case 1
    then show ?thesis using "2.IH"(1) by (simp, intro junction_blank gather_blank) simp
  next
    case 2
    then show ?thesis using "2.IH"(2) by (simp, intro junction_blank gather_blank) simp
  next
    case 3
    then show ?thesis using "2.IH"(3) by (cases filters) (auto split: prod.split)
  next
    case 4
    then show ?thesis by (cases cond) (simp_all add: field_clause_blank [of ff field])
  qed simp
qed simp

section \<open>LIKE patterns\<close>

definition esc_char :: "char \<Rightarrow> string" where
  "esc_char c = (if c \<in> {CHR 0x5C, CHR ''%'', CHR ''_''} then [CHR 0x5C, c] else [c])"

lemma escapeLikePattern_chars: "escapeLikePattern s = concat (map esc_char s)"
  by (induction s) (auto simp: escapeLikePattern_def ReplaceAll_def esc_char_def Let_def)

text \<open>
  The documented behaviour of the SQLite operator \<open>LIKE\<close> with the escape character backslash, for
  a pattern and a string of ASCII characters: a percent sign stands for any sequence, an
  underscore for any character, an escaped character for itself and every other character for
  itself up to case.
\<close>

definition like_laws :: "(string \<Rightarrow> string \<Rightarrow> bool) \<Rightarrow> bool" where
  "like_laws like \<longleftrightarrow>
    (\<forall>t. like [] t \<longleftrightarrow> t = [])
    \<and> (\<forall>q t. like (CHR ''%'' # q) t \<longleftrightarrow> (\<exists>u v. t = u @ v \<and> like q v))
    \<and> (\<forall>q t. like (CHR ''_'' # q) t \<longleftrightarrow> (\<exists>d v. t = d # v \<and> like q v))
    \<and> (\<forall>c q t. like (CHR 0x5C # c # q) t \<longleftrightarrow> (\<exists>d v. t = d # v \<and> lower_char d = lower_char c \<and> like q v))
    \<and> (\<forall>c q t. c \<notin> {CHR 0x5C, CHR ''%'', CHR ''_''} \<longrightarrow>
         (like (c # q) t \<longleftrightarrow> (\<exists>d v. t = d # v \<and> lower_char d = lower_char c \<and> like q v)))"

lemma like_escape:
  assumes "like_laws like"
  shows "like (escapeLikePattern s @ q) t \<longleftrightarrow> (\<exists>u v. t = u @ v \<and> EqualFold u s \<and> like q v)"
proof (induction s arbitrary: t)
  case Nil
  then show ?case by (simp add: escapeLikePattern_chars EqualFold_def ToLower_def)
next
  case (Cons c s)
  have "like (escapeLikePattern (c # s) @ q) t
      \<longleftrightarrow> (\<exists>d v. t = d # v \<and> lower_char d = lower_char c \<and> like (escapeLikePattern s @ q) v)"
    using assms by (simp add: like_laws_def escapeLikePattern_chars esc_char_def)
  also have "\<dots> \<longleftrightarrow> (\<exists>d u v. t = (d # u) @ v \<and> lower_char d = lower_char c \<and> EqualFold u s \<and> like q v)"
    unfolding Cons.IH by auto
  also have "\<dots> \<longleftrightarrow> (\<exists>u v. t = u @ v \<and> EqualFold u (c # s) \<and> like q v)"
    unfolding EqualFold_def ToLower_def list.map map_eq_Cons_conv by blast
  finally show ?case .
qed

lemma fold_prefix: "(\<exists>u v. t = u @ v \<and> EqualFold u s) \<longleftrightarrow> HasPrefix (ToLower t) (ToLower s)"
  unfolding HasPrefix_iff EqualFold_def ToLower_def by (metis map_append map_eq_append_conv)

lemma fold_suffix: "(\<exists>u v. t = u @ v \<and> EqualFold v s) \<longleftrightarrow> HasSuffix (ToLower t) (ToLower s)"
  unfolding HasSuffix_iff EqualFold_def ToLower_def by (metis map_append map_eq_append_conv)

lemma fold_infix: "(\<exists>u v w. t = u @ v @ w \<and> EqualFold v s) \<longleftrightarrow> Contains_str (ToLower t) (ToLower s)"
  unfolding Contains_iff EqualFold_def ToLower_def by (metis map_append map_eq_append_conv)

lemma like_contains:
  "like_laws like \<Longrightarrow> like (''%'' @ escapeLikePattern s @ ''%'') t \<longleftrightarrow> Contains_str (ToLower t) (ToLower s)"
  unfolding fold_infix [symmetric]
  by (simp add: like_laws_def [THEN iffD1] like_escape) (auto simp: like_laws_def)

lemma like_starts:
  "like_laws like \<Longrightarrow> like (escapeLikePattern s @ ''%'') t \<longleftrightarrow> HasPrefix (ToLower t) (ToLower s)"
  unfolding fold_prefix [symmetric]
  by (simp add: like_escape) (auto simp: like_laws_def)

lemma like_ends:
  assumes "like_laws like"
  shows "like (''%'' @ escapeLikePattern s) t \<longleftrightarrow> HasSuffix (ToLower t) (ToLower s)"
  unfolding fold_suffix [symmetric] using like_escape [OF assms, of s "[]"] assms
  by (simp add: like_laws_def)

section \<open>The registry of indexed fields\<close>

interpretation fields: kv_store map_of CreateIndex DeleteIndex "\<lambda>r. distinct (map fst r)"
proof
  have f: "map_of (filter (\<lambda>(m, _). m \<noteq> n) r) k = (if k = n then None else map_of r k)"
    for n :: string and r :: field_registry and k
    by (induction r) auto
  show "map_of (CreateIndex k v r) k' = (if k' = k then Some v else map_of r k')" for k v r k'
    by (simp add: CreateIndex_def f)
  show "map_of (DeleteIndex k r) k' = (if k' = k then None else map_of r k')" for k r k'
    by (simp add: DeleteIndex_def f)
  have d: "distinct (map fst (filter P r))" if "distinct (map fst r)" for P and r :: field_registry
    using that by (induction r) auto
  then show "distinct (map fst (CreateIndex k v r))" if "distinct (map fst r)" for k v r
    using that by (auto simp: CreateIndex_def)
  show "distinct (map fst (DeleteIndex k r))" if "distinct (map fst r)" for k r
    using that d by (simp add: DeleteIndex_def)
qed

end
