(* ===== verification/Payload_Properties.thy ===== *)
theory Payload_Properties
  imports Payload_Facts
begin

text \<open>
  Properties of the payload filters and of their compilation to SQL, each with a concrete
  instance where it has hypotheses.
\<close>

section \<open>The evaluator\<close>

text \<open>A filter whose equality and membership operands are scalars is evaluated on every
  payload without a panic, and its value is that of the Boolean formula it denotes: a conjunction
  holds when all parts hold, a disjunction when it is empty or some part holds, a negation when
  its part does not.\<close>

theorem filter_total_boolean:
  assumes "safe_filter (Some (And fs))"
  shows "Evaluate (Some (And fs)) p = Some (\<forall>f \<in> set fs. Evaluate f p = Some True)
    \<and> Evaluate (Some (Or fs)) p = Some (fs = [] \<or> (\<exists>f \<in> set fs. Evaluate f p = Some True))
    \<and> (\<forall>f \<in> set fs. Evaluate (Some (Not_filter f)) p = Some (Evaluate f p \<noteq> Some True))"
proof -
  from assms have "\<And>f. f \<in> set fs \<Longrightarrow> safe_filter f" by (simp add: And_def)
  then have t: "\<And>f. f \<in> set fs \<Longrightarrow> Evaluate f p \<noteq> None" by (blast dest: Evaluate_total)
  have "Evaluate (Some (Not_filter f)) p = Some (Evaluate f p \<noteq> Some True)" if "f \<in> set fs" for f
    using t [OF that] by (cases "Evaluate f p") auto
  with t show ?thesis by (simp add: evaluateAnd_total evaluateOr_total)
qed

theorem filter_total_boolean_witness:
  "Evaluate (Some (And [Some (Field ''a.b'' (Some (Eq (VString ''X'')))), None]))
     [(''a'', VMap [(''b'', VString ''x'')])] = Some True"
proof -
  let ?f = "Field ''a.b'' (Some (Eq (VString ''X'')))"
  have "safe_filter (Some (And [Some ?f, None]))"
    by (simp add: And_def Field_def safe_cond_def cond_defs)
  from conjunct1 [OF filter_total_boolean [OF this, of "[(''a'', VMap [(''b'', VString ''x'')])]"]] show ?thesis
    by (simp add: evaluateCondition_def Let_def cond_defs getFieldValue_def map_get_def
        compareEqual_def EqualFold_def ToLower_def lower_char_def char_of_def bit_0 del: Evaluate_And)
qed

text \<open>De Morgan's laws hold for the evaluator with its short circuits, panics included: the
  negation of a non-empty conjunction is evaluated like the disjunction of the negations, and the
  other way round.\<close>

theorem filter_demorgan:
  assumes "fs \<noteq> []"
  shows "Evaluate (Some (Not_filter (Some (And fs)))) p
      = Evaluate (Some (Or (map (\<lambda>f. Some (Not_filter f)) fs))) p
    \<and> Evaluate (Some (Not_filter (Some (Or fs)))) p
      = Evaluate (Some (And (map (\<lambda>f. Some (Not_filter f)) fs))) p"
  using assms by (simp add: evaluateOr_def or_loop_demorgan evaluateAnd_demorgan)

theorem filter_demorgan_witness:
  "Evaluate (Some (Not_filter (Some (And [None, Some (Field ''a'' (Some IsNull))])))) [(''a'', VInt 1)]
   = Evaluate (Some (Or [Some (Not_filter None), Some (Not_filter (Some (Field ''a'' (Some IsNull))))])) [(''a'', VInt 1)]"
  using conjunct1 [OF filter_demorgan [of "[None, Some (Field ''a'' (Some IsNull))]" "[(''a'', VInt 1)]"]]
  by (simp del: Evaluate_And Evaluate_Or Evaluate_Not)

text \<open>Comparison filters on integer fields: a strict comparison that matches is true of the
  integers, a non-strict one that is true of the integers matches, whatever their size, and both
  are exact below 2 ^ 53 in absolute value, where the conversion to float64 loses nothing.\<close>

theorem filter_numeric:
  assumes "getFieldValue n p \<in> {VInt a, VInt64 a}" and "v \<in> {VInt b, VInt64 b}"
  shows "(Evaluate (Some (Field n (Some (Lt v)))) p = Some True \<longrightarrow> a < b)
    \<and> (Evaluate (Some (Field n (Some (Gt v)))) p = Some True \<longrightarrow> b < a)
    \<and> (a \<le> b \<longrightarrow> Evaluate (Some (Field n (Some (Lte v)))) p = Some True)
    \<and> (b \<le> a \<longrightarrow> Evaluate (Some (Field n (Some (Gte v)))) p = Some True)
    \<and> (\<bar>a\<bar> < 2 ^ 53 \<and> \<bar>b\<bar> < 2 ^ 53 \<longrightarrow>
         Evaluate (Some (Field n (Some (Lt v)))) p = Some (a < b)
         \<and> Evaluate (Some (Field n (Some (Gte v)))) p = Some (b \<le> a)
         \<and> Evaluate (Some (Field n (Some (Eq v)))) p = Some (a = b))"
proof -
  from assms have f: "toFloat64 (getFieldValue n p) = Some (int_to_f64 a)" "toFloat64 v = Some (int_to_f64 b)"
    and nn: "getFieldValue n p \<noteq> VNil" "v \<noteq> VNil" by auto
  note c = compareNumeric_int [OF f]
  show ?thesis using c nn f
    by (auto simp: evaluateCondition_def Let_def cond_defs compareEqual_def int_to_f64_exact
        not_less [symmetric] sgn_if split: if_splits)
qed

theorem filter_numeric_witness:
  "Evaluate (Some (Field ''n'' (Some (Lt (VInt64 5))))) [(''n'', VInt 3)] = Some True
   \<and> Evaluate (Some (Field ''n'' (Some (Eq (VInt64 5))))) [(''n'', VInt 3)] = Some False"
proof -
  have "getFieldValue ''n'' [(''n'', VInt 3)] \<in> {VInt 3, VInt64 3}"
    by (simp add: getFieldValue_def map_get_def)
  from filter_numeric [OF this, of "VInt64 5" 5] show ?thesis by simp
qed

text \<open>A non-strict comparison never excludes a payload whose field is missing or is not a
  number: it matches, while the strict one and the range filter do not.\<close>

theorem filter_non_number_matches:
  assumes "toFloat64 (getFieldValue n p) = None"
  shows "Evaluate (Some (Field n (Some (Gte v)))) p = Some True
    \<and> Evaluate (Some (Field n (Some (Lte v)))) p = Some True
    \<and> Evaluate (Some (Field n (Some (Gt v)))) p = Some False
    \<and> Evaluate (Some (Field n (Some (Lt v)))) p = Some False
    \<and> Evaluate (Some (Field n (Some (Range v w)))) p = Some False"
  using assms
  by (simp add: evaluateCondition_def Let_def cond_defs compareNumeric_non_number inRange_def)

theorem filter_non_number_matches_witness:
  "Evaluate (Some (Field ''price'' (Some (Gte (VInt 10))))) [(''name'', VString ''x'')] = Some True"
  using filter_non_number_matches [of "''price''" "[(''name'', VString ''x'')]" "VInt 10" "VInt 20"]
  by (simp add: getFieldValue_def map_get_def)

text \<open>On numbers the range filter is the conjunction of the two non-strict comparisons.\<close>

theorem filter_range_conj:
  assumes "toFloat64 (getFieldValue n p) = Some x" and "toFloat64 lo = Some l" and "toFloat64 hi = Some h"
    and "x \<noteq> NaN" and "l \<noteq> NaN" and "h \<noteq> NaN"
  shows "Evaluate (Some (Field n (Some (Range lo hi)))) p
    = Evaluate (Some (And [Some (Field n (Some (Gte lo))), Some (Field n (Some (Lte hi)))])) p"
  using inRange_compare [OF assms] by (simp add: evaluateCondition_def Let_def cond_defs)

theorem filter_range_conj_witness:
  "Evaluate (Some (Field ''n'' (Some (Range (VInt 1) (VInt 9))))) [(''n'', VInt 3)]
   = Evaluate (Some (And [Some (Field ''n'' (Some (Gte (VInt 1)))), Some (Field ''n'' (Some (Lte (VInt 9))))])) [(''n'', VInt 3)]"
  by (rule filter_range_conj [of _ _ "int_to_f64 3" _ "int_to_f64 1" _ "int_to_f64 9"])
    (simp_all add: getFieldValue_def map_get_def)

section \<open>Builders and translations\<close>

text \<open>A Qdrant filter is translated to one that holds exactly when every must condition
  holds, some should condition holds if there are any, and no must_not condition holds.\<close>

theorem qdrant_translation:
  assumes "\<forall>c \<in> set (must q @ should q @ must_not q). safe_filter (conditionToFilter (Some c))"
  shows "Evaluate (ToFilter (Some q)) p = Some
    ((\<forall>c \<in> set (must q). Evaluate (conditionToFilter (Some c)) p = Some True)
     \<and> (should q = [] \<or> (\<exists>c \<in> set (should q). Evaluate (conditionToFilter (Some c)) p = Some True))
     \<and> (\<forall>c \<in> set (must_not q). Evaluate (conditionToFilter (Some c)) p = Some False))"
proof -
  let ?ev = "\<lambda>f. Evaluate f p"
  from assms have t: "\<exists>b. Evaluate (conditionToFilter (Some c)) p = Some b"
    if "c \<in> set (must q) \<union> set (should q) \<union> set (must_not q)" for c
    using that Evaluate_total by fastforce
  have m: "evaluateAnd ?ev (map (conditionToFilter \<circ> Some) (must q))
      = Some (\<forall>c \<in> set (must q). Evaluate (conditionToFilter (Some c)) p = Some True)"
    using t by (subst evaluateAnd_total) auto
  have s: "Evaluate (Some (Filter FilterTypeOr [] None (map (conditionToFilter \<circ> Some) (should q)) [])) p
      = Some (should q = [] \<or> (\<exists>c \<in> set (should q). Evaluate (conditionToFilter (Some c)) p = Some True))"
    using t by (simp, subst evaluateOr_total) auto
  have n: "evaluateAnd ?ev (map (\<lambda>c. Some (Not_filter (conditionToFilter (Some c)))) (must_not q))
      = Some (\<forall>c \<in> set (must_not q). Evaluate (conditionToFilter (Some c)) p = Some False)"
    using t by (subst evaluateAnd_total) auto
  show ?thesis
    using m s n by (auto simp: ToFilter_def Let_def evaluateAnd_append split: bool.splits)
qed

theorem qdrant_translation_witness:
  "let c = \<lparr>q_field = ''a'', q_match = Some \<lparr>m_value = VInt 1, m_any = [], m_text = []\<rparr>, q_range = None, q_is_null = None\<rparr>
   in Evaluate (ToFilter (Some \<lparr>must = [c], should = [], must_not = []\<rparr>)) [(''a'', VInt 1)] = Some True"
  unfolding Let_def
  by (subst qdrant_translation)
    (simp_all add: conditionToFilter_def match_cond_def Field_def safe_cond_def cond_defs
      evaluateCondition_def getFieldValue_def map_get_def compareEqual_def int_to_f64_exact)

text \<open>A Qdrant range keeps a single bound: once \<open>lt\<close> is given, the filter is the comparison
  with it alone, whatever lower bound the range also carries.\<close>

theorem qdrant_range_one_bound:
  assumes "q_is_null c = None" and "q_match c = None" and "q_range c = Some r" and "r_lt r = Some x"
  shows "Evaluate (conditionToFilter (Some c)) p = Some (compareNumeric (getFieldValue (q_field c) p) (VFloat64 x) < 0)
    \<and> conditionToFilter (Some c) = conditionToFilter (Some (c\<lparr>q_range := Some (r\<lparr>r_gte := g, r_gt := g'\<rparr>)\<rparr>))"
  using assms by (simp add: conditionToFilter_def range_cond_def evaluateCondition_def Let_def cond_defs)

theorem qdrant_range_one_bound_witness:
  "let r = \<lparr>r_lt = Some (Fin 10), r_lte = None, r_gt = None, r_gte = Some (Fin 0)\<rparr>;
       c = \<lparr>q_field = ''n'', q_match = None, q_range = Some r, q_is_null = None\<rparr>
   in Evaluate (conditionToFilter (Some c)) [(''n'', VFloat64 (Fin (-5)))] = Some True"
  unfolding Let_def
  by (subst conjunct1 [OF qdrant_range_one_bound [where x = "Fin 10"
      and r = "\<lparr>r_lt = Some (Fin 10), r_lte = None, r_gt = None, r_gte = Some (Fin 0)\<rparr>"]])
    (simp_all add: compareNumeric_def getFieldValue_def map_get_def)

text \<open>A chain of Where calls builds the conjunction of its conditions and a following OrWhere
  weakens it by one disjunct; what is added after that, by And or by Where, becomes a further
  disjunct and not a conjunct.\<close>

definition where_all :: "(string \<times> condition option) list \<Rightarrow> 'e filter_builder \<Rightarrow> 'e filter_builder" where
  "where_all cs fb = foldl (\<lambda>fb (n, c). Where n c fb) fb cs"

lemma where_all_filter:
  "fb_err fb = None \<Longrightarrow> where_all cs fb = fb\<lparr>fb_filter := Filter (fType (fb_filter fb)) (fField (fb_filter fb))
     (fCondition (fb_filter fb)) (fFilters (fb_filter fb) @ map (\<lambda>(n, c). Some (Field n c)) cs) (fConditions (fb_filter fb))\<rparr>"
  unfolding where_all_def
  by (induction cs arbitrary: fb) (auto simp: Where_def add_sub_def)

theorem builder_conditions:
  fixes other :: "'e filter_builder"
  assumes "fb_err other = None"
  shows "\<exists>f g h. Build (where_all cs NewFilterBuilder :: 'e filter_builder) = Inr f
    \<and> Evaluate (Some f) p = evaluateAnd (\<lambda>f. Evaluate f p) (map (\<lambda>(n, c). Some (Field n c)) cs)
    \<and> Build (OrWhere m d (where_all cs NewFilterBuilder :: 'e filter_builder)) = Inr g
    \<and> Evaluate (Some g) p = or_loop (\<lambda>f. Evaluate f p) [Some f, Some (Field m d)]
    \<and> Build (And_builder other (OrWhere m d (where_all cs NewFilterBuilder))) = Inr h
    \<and> Evaluate (Some h) p = or_loop (\<lambda>f. Evaluate f p) [Some f, Some (Field m d), Some (fb_filter other)]"
  using assms
  by (simp add: Build_def NewFilterBuilder_def where_all_filter OrWhere_def And_builder_def add_sub_def
      evaluateOr_def)

theorem builder_conditions_witness:
  "\<exists>f. Build (And_builder NewFilterBuilder (OrWhere ''x'' None (where_all [] (NewFilterBuilder :: unit filter_builder)))) = Inr f
     \<and> Evaluate (Some f) [] = Some True"
proof -
  have "fb_err (NewFilterBuilder :: unit filter_builder) = None" by (simp add: NewFilterBuilder_def)
  from builder_conditions [OF this, of "[]" "[]" "''x''" None] show ?thesis by auto
qed

section \<open>Compilation to SQL\<close>

text \<open>The query has exactly one positional argument for every placeholder in its text.\<close>

theorem sql_placeholders:
  "marks (fst (buildFilterQuery ff f)) = length (snd (buildFilterQuery ff f))"
  using marks_buildWhereClause [of ff f] by (auto simp: buildFilterQuery_def split: prod.split)

text \<open>C22: No field name and no operand reaches the text of the query: it is the text compiled for
  the filter with all of them blanked, and two filters that differ in nothing else have the same
  text.\<close>

theorem sql_text_no_input:
  "fst (buildFilterQuery ff f) = fst (buildFilterQuery ff (blank f))
   \<and> (blank f = blank g \<longrightarrow> fst (buildFilterQuery ff f) = fst (buildFilterQuery ff g))"
proof -
  have "fst (buildFilterQuery ff f) = fst (buildFilterQuery ff (blank f))" for f
    using buildWhereClause_blank [of ff f] by (auto simp: buildFilterQuery_def split: prod.split)
  then show ?thesis by metis
qed

theorem sql_text_no_input_witness:
  "fst (buildFilterQuery (\<lambda>x. []) (Some (Field ''a'' (Some (Eq (VString ''1'')))))) =
   fst (buildFilterQuery (\<lambda>x. []) (Some (Field ''b) OR 1=1'' (Some (Eq (VInt 7))))))"
proof -
  have "blank (Some (Field ''a'' (Some (Eq (VString ''1''))))) = blank (Some (Field ''b) OR 1=1'' (Some (Eq (VInt 7)))))"
    by (simp add: Field_def blank_cond_def cond_defs)
  with sql_text_no_input [of "\<lambda>x. []" "Some (Field ''a'' (Some (Eq (VString ''1''))))"] show ?thesis by blast
qed


fun like_match :: "string \<Rightarrow> string \<Rightarrow> bool" where
  "like_match [] t \<longleftrightarrow> t = []"
| "like_match (c # q) t \<longleftrightarrow>
    (if c = CHR ''%'' then list_ex (\<lambda>i. like_match q (drop i t)) [0..<Suc (length t)]
     else if c = CHR ''_'' then t \<noteq> [] \<and> like_match q (tl t)
     else if c = CHR 0x5C then
       (case q of [] \<Rightarrow> False
        | e # q' \<Rightarrow> t \<noteq> [] \<and> lower_char (hd t) = lower_char e \<and> like_match q' (tl t))
     else t \<noteq> [] \<and> lower_char (hd t) = lower_char c \<and> like_match q (tl t))"

lemma like_match_laws: "like_laws like_match"
proof -
  have nc: "t \<noteq> [] \<and> P (hd t) \<and> Q (tl t) \<longleftrightarrow> (\<exists>d v. t = d # v \<and> P d \<and> Q v)"
    for t :: string and P Q by (cases t) auto
  have any: "list_ex (\<lambda>i. Q (drop i t)) [0..<Suc (length t)] \<longleftrightarrow> (\<exists>u v. t = u @ v \<and> Q v)"
    for t :: string and Q
  proof
    assume "list_ex (\<lambda>i. Q (drop i t)) [0..<Suc (length t)]"
    then show "\<exists>u v. t = u @ v \<and> Q v" by (metis append_take_drop_id list_ex_iff)
  next
    assume "\<exists>u v. t = u @ v \<and> Q v"
    then obtain u v where "t = u @ v" "Q v" by blast
    then show "list_ex (\<lambda>i. Q (drop i t)) [0..<Suc (length t)]"
      by (auto simp: list_ex_iff intro!: bexI [of _ "length u"])
  qed
  show ?thesis unfolding like_laws_def
    using nc [of _ "\<lambda>_. True"] nc [of _ "\<lambda>d. lower_char d = lower_char _"] any
    by (simp del: upt_Suc)
qed


end
