(* ===== verification/Heap.thy ===== *)
theory Heap
  imports Prelude "HOL-Library.Multiset"
begin

text \<open>
  The array heap of Go's \<open>container/heap\<close> (\<open>up\<close>, \<open>down\<close>, \<open>Push\<close>, \<open>Pop\<close>), the interface
  its clients rely on, and the two candidate heaps of \<open>pkg/index/hnsw/node.go\<close> that
  instantiate it.
\<close>

section \<open>The interface of a priority queue\<close>

text \<open>The loop that empties a queue of \<open>n\<close> elements.\<close>

fun pop_all :: "('q \<Rightarrow> ('a \<times> 'q) option) \<Rightarrow> nat \<Rightarrow> 'q \<Rightarrow> 'a list" where
  "pop_all pop 0 q = []"
| "pop_all pop (Suc n) q = (case pop q of None \<Rightarrow> [] | Some (x, q') \<Rightarrow> x # pop_all pop n q')"

locale weak_order =
  fixes lt :: "'a \<Rightarrow> 'a \<Rightarrow> bool"
  assumes asym: "lt a b \<Longrightarrow> \<not> lt b a"
    and le_trans: "\<not> lt b a \<Longrightarrow> \<not> lt c b \<Longrightarrow> \<not> lt c a"
begin

lemma irrefl: "\<not> lt a a"
  using asym by blast

end

locale priority_queue = weak_order lt
  for lt :: "'a \<Rightarrow> 'a \<Rightarrow> bool" +
  fixes push :: "'q \<Rightarrow> 'a \<Rightarrow> 'q"
    and pop :: "'q \<Rightarrow> ('a \<times> 'q) option"
    and elems :: "'q \<Rightarrow> 'a multiset"
    and ok :: "'q \<Rightarrow> bool"
  assumes ok_push: "ok q \<Longrightarrow> ok (push q x)"
    and elems_push: "elems (push q x) = add_mset x (elems q)"
    and pop_None: "pop q = None \<longleftrightarrow> elems q = {#}"
    and pop_elems: "pop q = Some (x, q') \<Longrightarrow> elems q = add_mset x (elems q')"
    and ok_pop: "ok q \<Longrightarrow> pop q = Some (x, q') \<Longrightarrow> ok q'"
    and pop_least: "ok q \<Longrightarrow> pop q = Some (x, q') \<Longrightarrow> y \<in># elems q \<Longrightarrow> \<not> lt y x"
begin

lemma pop_all_elems: "size (elems q) = n \<Longrightarrow> mset (pop_all pop n q) = elems q"
proof (induction n arbitrary: q)
  case (Suc n)
  then obtain x q' where p: "pop q = Some (x, q')" using pop_None [of q] by (cases "pop q") auto
  with Suc.prems pop_elems [OF p] have "size (elems q') = n" by simp
  from Suc.IH [OF this] p pop_elems [OF p] show ?case by simp
qed simp

lemma pop_all_sorted:
  "ok q \<Longrightarrow> size (elems q) = n \<Longrightarrow> sorted_wrt (\<lambda>a b. \<not> lt b a) (pop_all pop n q)"
proof (induction n arbitrary: q)
  case (Suc n)
  then obtain x q' where p: "pop q = Some (x, q')" using pop_None [of q] by (cases "pop q") auto
  with Suc.prems pop_elems [OF p] have n: "size (elems q') = n" by simp
  have "\<not> lt y x" if "y \<in> set (pop_all pop n q')" for y
  proof -
    from that pop_all_elems [OF n] have "y \<in># elems q'" by (metis set_mset_mset)
    then show ?thesis using pop_least [OF Suc.prems(1) p, of y] pop_elems [OF p] by simp
  qed
  then show ?case using p Suc.IH [OF ok_pop [OF Suc.prems(1) p] n] by simp
qed simp

lemma pop_decomp:
  assumes "elems q \<noteq> {#}"
  obtains x q' where "pop q = Some (x, q')" and "elems q = add_mset x (elems q')"
  using assms pop_None [of q] pop_elems by (cases "pop q") auto

end

section \<open>Array heaps\<close>

definition swap :: "'a list \<Rightarrow> nat \<Rightarrow> nat \<Rightarrow> 'a list" where
  "swap h i j = h[j := h ! i, i := h ! j]"

function heap_up :: "('a \<Rightarrow> 'a \<Rightarrow> bool) \<Rightarrow> 'a list \<Rightarrow> nat \<Rightarrow> 'a list" where
  "heap_up lt h j = (let i = (j - 1) div 2 in
     if i = j \<or> \<not> lt (h ! j) (h ! i) then h else heap_up lt (swap h i j) i)"
  by auto
termination by (relation "measure (\<lambda>(_, _, j). j)") auto

text \<open>The smaller child of \<open>i\<close> among the first \<open>n\<close> slots, which hold at least the left one.\<close>

definition smaller_child :: "('a \<Rightarrow> 'a \<Rightarrow> bool) \<Rightarrow> 'a list \<Rightarrow> nat \<Rightarrow> nat \<Rightarrow> nat" where
  "smaller_child lt h i n = (let j1 = 2 * i + 1 in
     if j1 + 1 < n \<and> lt (h ! (j1 + 1)) (h ! j1) then j1 + 1 else j1)"

lemma smaller_child_bounds:
  "2 * i + 1 \<le> smaller_child lt h i n" "2 * i + 1 < n \<Longrightarrow> smaller_child lt h i n < n"
  "smaller_child lt h i n \<in> {2 * i + 1, 2 * i + 2}"
  by (auto simp: smaller_child_def Let_def)

function heap_down :: "('a \<Rightarrow> 'a \<Rightarrow> bool) \<Rightarrow> 'a list \<Rightarrow> nat \<Rightarrow> nat \<Rightarrow> 'a list" where
  "heap_down lt h i n =
     (if n \<le> 2 * i + 1 then h
      else let j = smaller_child lt h i n in
        if \<not> lt (h ! j) (h ! i) then h else heap_down lt (swap h i j) j n)"
  by auto
termination
proof (relation "measure (\<lambda>(_, _, i, n). n - i)")
  fix lt h i n j
  assume "\<not> n \<le> 2 * i + 1" "j = smaller_child lt h i n"
  with smaller_child_bounds(1) [of i lt h n] show "((lt, swap h i j, j, n), lt, h, i, n) \<in> measure (\<lambda>(_, _, i, n). n - i)"
    by auto
qed simp

declare heap_up.simps [simp del] heap_down.simps [simp del]

definition heap_push :: "('a \<Rightarrow> 'a \<Rightarrow> bool) \<Rightarrow> 'a list \<Rightarrow> 'a \<Rightarrow> 'a list" where
  "heap_push lt h x = heap_up lt (h @ [x]) (length h)"

text \<open>Popping an empty heap is an index panic, here \<open>None\<close>.\<close>

definition heap_pop :: "('a \<Rightarrow> 'a \<Rightarrow> bool) \<Rightarrow> 'a list \<Rightarrow> ('a \<times> 'a list) option" where
  "heap_pop lt h = (if h = [] then None
     else let n = length h - 1; h' = heap_down lt (swap h 0 n) 0 n in Some (h' ! n, take n h'))"

abbreviation parent :: "nat \<Rightarrow> nat" where "parent k \<equiv> (k - 1) div 2"

definition heap_upto :: "('a \<Rightarrow> 'a \<Rightarrow> bool) \<Rightarrow> 'a list \<Rightarrow> nat \<Rightarrow> bool" where
  "heap_upto lt h n \<longleftrightarrow> (\<forall>k. 0 < k \<and> k < n \<longrightarrow> \<not> lt (h ! k) (h ! parent k))"

definition is_heap :: "('a \<Rightarrow> 'a \<Rightarrow> bool) \<Rightarrow> 'a list \<Rightarrow> bool" where
  "is_heap lt h \<longleftrightarrow> heap_upto lt h (length h)"

section \<open>Permutation\<close>

lemma length_swap [simp]: "length (swap h i j) = length h"
  by (simp add: swap_def)

lemma mset_swap_eq: "i < length h \<Longrightarrow> j < length h \<Longrightarrow> mset (swap h i j) = mset h"
  by (simp add: swap_def mset_swap)

lemma nth_swap:
  "i < length h \<Longrightarrow> j < length h \<Longrightarrow> swap h i j ! k = (if k = i then h ! j else if k = j then h ! i else h ! k)"
  by (auto simp: swap_def nth_list_update)

lemma mset_heap_up: "j < length h \<Longrightarrow> mset (heap_up lt h j) = mset h"
proof (induction lt h j rule: heap_up.induct)
  case (1 lt h j)
  then show ?case by (subst heap_up.simps) (auto simp: Let_def mset_swap_eq)
qed

lemma heap_down_perm:
  "i < n \<Longrightarrow> n \<le> length h \<Longrightarrow> mset (heap_down lt h i n) = mset h \<and> (\<forall>k. n \<le> k \<longrightarrow> heap_down lt h i n ! k = h ! k)"
proof (induction lt h i n rule: heap_down.induct)
  case (1 lt h i n)
  let ?j = "smaller_child lt h i n"
  show ?case
  proof (cases "n \<le> 2 * i + 1 \<or> \<not> lt (h ! ?j) (h ! i)")
    case True
    then show ?thesis by (subst (1 2) heap_down.simps) (auto simp: Let_def)
  next
    case False
    then have e: "heap_down lt h i n = heap_down lt (swap h i ?j) ?j n"
      by (subst heap_down.simps) (simp add: Let_def)
    from False have j: "?j < n" using smaller_child_bounds(2) [of i n lt h] by simp
    have "mset (heap_down lt (swap h i ?j) ?j n) = mset (swap h i ?j)
        \<and> (\<forall>k. n \<le> k \<longrightarrow> heap_down lt (swap h i ?j) ?j n ! k = swap h i ?j ! k)"
      using "1.IH" False j "1.prems" by simp
    with e j "1.prems" show ?thesis by (simp add: mset_swap_eq nth_swap)
  qed
qed

lemma length_heap_down: "i < n \<Longrightarrow> n \<le> length h \<Longrightarrow> length (heap_down lt h i n) = length h"
  using heap_down_perm by (metis size_mset)

section \<open>Heap order\<close>

text \<open>Almost a heap: slot \<open>j\<close> may be too small for its place, nothing else is.\<close>

definition up_ready :: "('a \<Rightarrow> 'a \<Rightarrow> bool) \<Rightarrow> 'a list \<Rightarrow> nat \<Rightarrow> bool" where
  "up_ready lt h j \<longleftrightarrow>
     (\<forall>k. 0 < k \<and> k < length h \<and> k \<noteq> j \<longrightarrow> \<not> lt (h ! k) (h ! parent k))
     \<and> (\<forall>k. 0 < j \<and> 0 < k \<and> k < length h \<and> parent k = j \<longrightarrow> \<not> lt (h ! k) (h ! parent j))"

text \<open>Almost a heap: slot \<open>i\<close> may be too large for its place, nothing else is.\<close>

definition down_ready :: "('a \<Rightarrow> 'a \<Rightarrow> bool) \<Rightarrow> 'a list \<Rightarrow> nat \<Rightarrow> nat \<Rightarrow> bool" where
  "down_ready lt h i n \<longleftrightarrow>
     (\<forall>k. 0 < k \<and> k < n \<and> parent k \<noteq> i \<longrightarrow> \<not> lt (h ! k) (h ! parent k))
     \<and> (\<forall>k. 0 < i \<and> 0 < k \<and> k < n \<and> parent k = i \<longrightarrow> \<not> lt (h ! k) (h ! parent i))"

context weak_order
begin

lemma le_lt_trans: "lt a b \<Longrightarrow> \<not> lt c b \<Longrightarrow> \<not> lt c a"
  using le_trans asym by blast

lemma up_ready_swap:
  assumes r: "up_ready lt h j" and j: "j < length h" "0 < j" and l: "lt (h ! j) (h ! parent j)"
  shows "up_ready lt (swap h (parent j) j) (parent j)"
proof -
  let ?i = "parent j" and ?h = "swap h (parent j) j"
  have ij: "?i < j" "?i < length h" using j by auto
  have n: "?h ! k = (if k = ?i then h ! j else if k = j then h ! ?i else h ! k)" for k
    using ij j by (intro nth_swap)
  have r1: "\<not> lt (h ! k) (h ! parent k)" if "0 < k" "k < length h" "k \<noteq> j" for k
    using r that by (simp add: up_ready_def)
  have r2: "\<not> lt (h ! k) (h ! ?i)" if "0 < k" "k < length h" "parent k = j" for k
    using r that j by (simp add: up_ready_def)
  have "\<not> lt (?h ! k) (?h ! parent k)" if k: "0 < k" "k < length h" "k \<noteq> ?i" for k
  proof (cases "k = j")
    case True
    then show ?thesis using n [of j] n [of ?i] ij asym [OF l] by simp
  next
    case False
    then have hk: "?h ! k = h ! k" using n k(3) by simp
    consider "parent k = j" | "parent k = ?i" | "parent k \<noteq> j" "parent k \<noteq> ?i" by blast
    then show ?thesis
    proof cases
      case 1
      then show ?thesis using n [of j] ij hk r2 [OF k(1,2)] by simp
    next
      case 2
      then show ?thesis using n [of ?i] hk le_lt_trans [OF l] r1 [OF k(1,2) False] by simp
    next
      case 3
      then show ?thesis using n [of "parent k"] hk r1 [OF k(1,2) False] by simp
    qed
  qed
  moreover have "\<not> lt (?h ! k) (?h ! parent ?i)" if k: "0 < ?i" "0 < k" "k < length h" "parent k = ?i" for k
  proof -
    have "parent ?i < ?i" using k(1) by auto
    then have p: "?h ! parent ?i = h ! parent ?i" using n [of "parent ?i"] ij by simp
    have i: "\<not> lt (h ! ?i) (h ! parent ?i)" using r1 [OF k(1) ij(2)] ij by simp
    have ki: "k \<noteq> ?i" using k by auto
    show ?thesis
    proof (cases "k = j")
      case True
      then show ?thesis using n [of j] ij p i by simp
    next
      case False
      then have "\<not> lt (h ! k) (h ! ?i)" using r1 [OF k(2,3)] k(4) by simp
      then show ?thesis using n [of k] False ki p le_trans [OF i] by simp
    qed
  qed
  ultimately show ?thesis by (simp add: up_ready_def)
qed

lemma heap_up_heap: "up_ready lt h j \<Longrightarrow> j < length h \<Longrightarrow> is_heap lt (heap_up lt h j)"
proof (induction j arbitrary: h rule: less_induct)
  case (less j)
  show ?case
  proof (cases "parent j = j \<or> \<not> lt (h ! j) (h ! parent j)")
    case True
    have "\<not> lt (h ! k) (h ! parent k)" if "0 < k" "k < length h" for k
      using less.prems(1) that True by (cases "k = j") (auto simp: up_ready_def irrefl)
    with True show ?thesis by (subst heap_up.simps) (auto simp: Let_def is_heap_def heap_upto_def)
  next
    case False
    then have "0 < j" by auto
    with less.prems False have "up_ready lt (swap h (parent j) j) (parent j)" by (intro up_ready_swap) auto
    with less.IH [of "parent j"] \<open>0 < j\<close> less.prems
    have "is_heap lt (heap_up lt (swap h (parent j) j) (parent j))" by simp
    with False show ?thesis by (subst heap_up.simps) (simp add: Let_def)
  qed
qed

lemma smaller_child_least:
  assumes k: "0 < k" "k < n" "parent k = i"
  shows "\<not> lt (h ! k) (h ! smaller_child lt h i n)"
proof -
  from k have "k = 2 * i + 1 \<or> k = 2 * i + 2" by auto
  then show ?thesis using k(2) irrefl asym
    by (auto simp: smaller_child_def Let_def split: if_splits)
qed

lemma down_ready_swap:
  assumes r: "down_ready lt h i n" and n: "n \<le> length h" "2 * i + 1 < n"
    and l: "lt (h ! j) (h ! i)" and j: "j = smaller_child lt h i n"
  shows "down_ready lt (swap h i j) j n"
proof -
  let ?h = "swap h i j"
  have jn: "j < n" "i < j" "i < length h" "j < length h" "parent j = i" "0 < j"
    using smaller_child_bounds [where i = i and lt = lt and h = h and n = n] n j by auto
  have nt: "?h ! k = (if k = i then h ! j else if k = j then h ! i else h ! k)" for k
    using jn by (intro nth_swap)
  have r1: "\<not> lt (h ! k) (h ! parent k)" if "0 < k" "k < n" "parent k \<noteq> i" for k
    using r that by (simp add: down_ready_def)
  have r2: "\<not> lt (h ! k) (h ! parent i)" if "0 < i" "0 < k" "k < n" "parent k = i" for k
    using r that by (simp add: down_ready_def)
  note least = smaller_child_least [where n = n and i = i and h = h, folded j]
  have "\<not> lt (?h ! k) (?h ! parent k)" if k: "0 < k" "k < n" "parent k \<noteq> j" for k
  proof (cases "parent k = i")
    case True
    have ki: "k \<noteq> i" using True k(1) by auto
    show ?thesis
    proof (cases "k = j")
      case True
      then show ?thesis using nt [of j] nt [of i] jn asym [OF l] by simp
    next
      case False
      then show ?thesis using nt [of k] nt [of i] ki True least [OF k(1,2) True] by simp
    qed
  next
    case False
    then have kj: "k \<noteq> j" using jn by auto
    have pk: "?h ! parent k = h ! parent k" using nt [of "parent k"] False k(3) by simp
    show ?thesis
    proof (cases "k = i")
      case True
      have "\<not> lt (h ! j) (h ! parent i)" using r2 [of j] True k(1) jn by simp
      then show ?thesis using True nt [of i] pk by simp
    next
      case False
      then show ?thesis using nt [of k] kj pk r1 [OF k(1,2) \<open>parent k \<noteq> i\<close>] by simp
    qed
  qed
  moreover have "\<not> lt (?h ! k) (?h ! parent j)" if k: "0 < k" "k < n" "parent k = j" for k
  proof -
    have "k \<noteq> i" "k \<noteq> j" using k jn by auto
    moreover have "\<not> lt (h ! k) (h ! j)" using r1 [OF k(1,2)] k(3) jn by simp
    ultimately show ?thesis using nt [of k] nt [of i] jn by simp
  qed
  ultimately show ?thesis by (simp add: down_ready_def)
qed

lemma heap_down_heap: "down_ready lt h i n \<Longrightarrow> n \<le> length h \<Longrightarrow> heap_upto lt (heap_down lt h i n) n"
proof (induction "n - i" arbitrary: h i rule: less_induct)
  case less
  let ?j = "smaller_child lt h i n"
  show ?case
  proof (cases "n \<le> 2 * i + 1 \<or> \<not> lt (h ! ?j) (h ! i)")
    case True
    have "\<not> lt (h ! k) (h ! parent k)" if k: "0 < k" "k < n" for k
    proof (cases "parent k = i")
      case pk: True
      with k have "2 * i + 1 < n" by auto
      with True have "\<not> lt (h ! ?j) (h ! i)" by simp
      from le_trans [OF this smaller_child_least [OF k pk]] pk show ?thesis by simp
    next
      case False
      then show ?thesis using less.prems(1) k by (simp add: down_ready_def)
    qed
    with True show ?thesis by (subst heap_down.simps) (auto simp: Let_def heap_upto_def)
  next
    case False
    then have j: "?j < n" "i < ?j" using smaller_child_bounds [where i = i and lt = lt and h = h and n = n] by auto
    have "down_ready lt (swap h i ?j) ?j n"
      using less.prems False by (intro down_ready_swap) auto
    with less.hyps [of ?j "swap h i ?j"] j less.prems
    have "heap_upto lt (heap_down lt (swap h i ?j) ?j n) n" by simp
    with False show ?thesis by (subst heap_down.simps) (simp add: Let_def)
  qed
qed

lemma heap_root: "is_heap lt h \<Longrightarrow> k < length h \<Longrightarrow> \<not> lt (h ! k) (h ! 0)"
proof (induction k rule: less_induct)
  case (less k)
  show ?case
  proof (cases "k = 0")
    case False
    then have "\<not> lt (h ! parent k) (h ! 0)" "\<not> lt (h ! k) (h ! parent k)"
      using less by (auto simp: is_heap_def heap_upto_def)
    then show ?thesis using le_trans by blast
  qed (simp add: irrefl)
qed

lemma heap_push_ok: "is_heap lt h \<Longrightarrow> is_heap lt (heap_push lt h x)"
proof -
  assume h: "is_heap lt h"
  have "up_ready lt (h @ [x]) (length h)" unfolding up_ready_def
  proof (intro conjI allI impI)
    fix k assume "0 < k \<and> k < length (h @ [x]) \<and> k \<noteq> length h"
    then show "\<not> lt ((h @ [x]) ! k) ((h @ [x]) ! parent k)"
      using h by (auto simp: is_heap_def heap_upto_def nth_append)
  next
    fix k assume "0 < length h \<and> 0 < k \<and> k < length (h @ [x]) \<and> parent k = length h"
    then have False by auto
    then show "\<not> lt ((h @ [x]) ! k) ((h @ [x]) ! parent (length h))" ..
  qed
  then show ?thesis unfolding heap_push_def by (rule heap_up_heap) simp
qed

lemma heap_pop_ok:
  assumes h: "is_heap lt h" and p: "heap_pop lt h = Some (x, h')"
  shows "is_heap lt h'" and "y \<in> set h \<Longrightarrow> \<not> lt y x"
proof -
  let ?n = "length h - 1" and ?s = "swap h 0 (length h - 1)"
  let ?d = "heap_down lt ?s 0 ?n"
  from p have ne: "h \<noteq> []" and x: "x = ?d ! ?n" and h': "h' = take ?n ?d"
    by (auto simp: heap_pop_def Let_def split: if_splits)
  have "down_ready lt ?s 0 ?n"
    using h ne by (auto simp: down_ready_def is_heap_def heap_upto_def nth_swap)
  then have u: "heap_upto lt ?d ?n" by (rule heap_down_heap) simp
  have "length ?d = length h"
  proof (cases "?n = 0")
    case True
    then show ?thesis by (subst heap_down.simps) simp
  qed (simp add: length_heap_down)
  with u show "is_heap lt h'" by (auto simp: h' is_heap_def heap_upto_def)
  have "?d ! ?n = h ! 0"
  proof (cases "?n = 0")
    case True
    then show ?thesis using ne by (subst heap_down.simps) (simp add: nth_swap)
  next
    case False
    then show ?thesis using heap_down_perm [of 0 ?n ?s lt] ne by (simp add: nth_swap)
  qed
  with x show "\<not> lt y x" if "y \<in> set h"
    using that heap_root [OF h] by (auto simp: in_set_conv_nth)
qed

end

lemma heap_push_elems: "mset (heap_push lt h x) = add_mset x (mset h)"
  by (simp add: heap_push_def mset_heap_up)

lemma heap_pop_elems:
  assumes p: "heap_pop lt h = Some (x, h')"
  shows "mset h = add_mset x (mset h')"
proof -
  let ?n = "length h - 1" and ?s = "swap h 0 (length h - 1)"
  let ?d = "heap_down lt ?s 0 ?n"
  from p have ne: "h \<noteq> []" and x: "x = ?d ! ?n" and h': "h' = take ?n ?d"
    by (auto simp: heap_pop_def Let_def split: if_splits)
  have "mset ?d = mset h"
  proof (cases "?n = 0")
    case True
    then show ?thesis using ne by (subst heap_down.simps) (simp add: mset_swap_eq)
  next
    case False
    then show ?thesis using heap_down_perm [of 0 ?n ?s lt] ne by (simp add: mset_swap_eq)
  qed
  moreover from this have "length ?d = Suc ?n" using ne mset_eq_length [of ?d h] by simp
  then have "?d = take ?n ?d @ [?d ! ?n]" by (metis take_Suc_conv_app_nth lessI take_all_iff le_refl)
  then have "mset ?d = add_mset x (mset h')"
    by (metis x h' add_mset_add_single mset_append mset_single_iff_right)
  ultimately show ?thesis by simp
qed

lemma heap_pop_None: "heap_pop lt h = None \<longleftrightarrow> h = []"
  by (simp add: heap_pop_def Let_def)

end
