(* ===== verification/Visited.thy ===== *)
theory Visited
  imports Prelude
begin

text \<open>
  The three trackers of visited nodes: the generation-stamped list of \<open>internal/pool/pool.go\<close>
  the searches use, and the map-backed set and the bit set of \<open>pkg/index/hnsw/node.go\<close>. One
  interface states what a search relies on; each tracker is shown to provide it. Node numbers are
  \<open>nat\<close> (they are \<open>uint32\<close> indices into the node array).
\<close>

section \<open>The interface\<close>

locale visited_tracker =
  fixes member :: "'s \<Rightarrow> nat \<Rightarrow> bool"
    and visit :: "nat \<Rightarrow> 's \<Rightarrow> 's"
    and clear :: "'s \<Rightarrow> 's"
    and ok :: "'s \<Rightarrow> bool"
    and dom_of :: "'s \<Rightarrow> nat \<Rightarrow> bool"
  assumes member_visit: "ok s \<Longrightarrow> dom_of s i \<Longrightarrow> member (visit i s) j \<longleftrightarrow> j = i \<or> member s j"
    and member_clear: "ok s \<Longrightarrow> \<not> member (clear s) j"
    and ok_visit: "ok s \<Longrightarrow> ok (visit i s)"
    and ok_clear: "ok s \<Longrightarrow> ok (clear s)"
    and dom_visit: "dom_of (visit i s) j \<longleftrightarrow> dom_of s j"
    and dom_clear: "dom_of (clear s) j \<longleftrightarrow> dom_of s j"
begin

lemma fold_visit:
  "ok s \<Longrightarrow> \<forall>i \<in> set is. dom_of s i \<Longrightarrow>
   ok (fold visit is s) \<and> (member (fold visit is s) j \<longleftrightarrow> j \<in> set is \<or> member s j)"
  by (induction "is" arbitrary: s) (auto simp: ok_visit member_visit dom_visit)

lemma after_clear:
  "ok s \<Longrightarrow> \<forall>i \<in> set is. dom_of s i \<Longrightarrow> member (fold visit is (clear s)) j \<longleftrightarrow> j \<in> set is"
  using fold_visit [of "clear s" "is" j] by (simp add: ok_clear dom_clear member_clear)

end

section \<open>VisitedList\<close>

record visited_list =
  matches :: "u32 list"
  match_gen :: u32

definition NewVisitedList :: "nat \<Rightarrow> visited_list" where
  "NewVisitedList n = \<lparr>matches = replicate n 0, match_gen = 0\<rparr>"

definition vl_grow :: "nat \<Rightarrow> visited_list \<Rightarrow> visited_list" where
  "vl_grow i vl = (if length (matches vl) \<le> i
     then vl\<lparr>matches := matches vl @ replicate (i * 2 + 100 - length (matches vl)) 0\<rparr> else vl)"

definition vl_Add :: "nat \<Rightarrow> visited_list \<Rightarrow> bool \<times> visited_list" where
  "vl_Add i vl = (let vl = vl_grow i vl in
     if matches vl ! i = match_gen vl then (True, vl)
     else (False, vl\<lparr>matches := (matches vl)[i := match_gen vl]\<rparr>))"

definition vl_Contains :: "visited_list \<Rightarrow> nat \<Rightarrow> bool" where
  "vl_Contains vl i = (if length (matches vl) \<le> i then False else matches vl ! i = match_gen vl)"

definition vl_Reset :: "visited_list \<Rightarrow> visited_list" where
  "vl_Reset vl = (let g = match_gen vl + 1 in
     if g = 0 then \<lparr>matches = map (\<lambda>_. 0) (matches vl), match_gen = 1\<rparr>
     else vl\<lparr>match_gen := g\<rparr>)"

text \<open>A list taken from the pool: no stamp is newer than the current generation. After the reset
  that \<open>Get\<close> performs the generation is positive, so fresh slots are not mistaken for visited.\<close>

definition vl_stamped :: "visited_list \<Rightarrow> bool" where
  "vl_stamped vl \<longleftrightarrow> (\<forall>m \<in> set (matches vl). m \<le> match_gen vl)"

definition vl_ok :: "visited_list \<Rightarrow> bool" where
  "vl_ok vl \<longleftrightarrow> vl_stamped vl \<and> match_gen vl \<noteq> 0"

lemma NewVisitedList_stamped: "vl_stamped (NewVisitedList n)"
  by (simp add: NewVisitedList_def vl_stamped_def)

lemma length_vl_grow: "i < length (matches (vl_grow i vl))"
  by (simp add: vl_grow_def)

lemma vl_grow_facts [simp]:
  "match_gen (vl_grow i vl) = match_gen vl" "vl_ok vl \<Longrightarrow> vl_ok (vl_grow i vl)"
  by (auto simp: vl_grow_def vl_ok_def vl_stamped_def)

lemma vl_grow_nth:
  "j < length (matches vl) \<Longrightarrow> matches (vl_grow i vl) ! j = matches vl ! j"
  by (simp add: vl_grow_def nth_append)

lemma vl_grow_Contains: "vl_ok vl \<Longrightarrow> vl_Contains (vl_grow i vl) j \<longleftrightarrow> vl_Contains vl j"
  by (auto simp: vl_grow_def vl_Contains_def nth_append vl_ok_def)

lemma vl_Add_fst: "vl_ok vl \<Longrightarrow> fst (vl_Add i vl) \<longleftrightarrow> vl_Contains vl i"
  using vl_grow_Contains [of vl i i] length_vl_grow [of i vl]
  by (auto simp: vl_Add_def Let_def vl_Contains_def [of "vl_grow i vl"])

lemma vl_Contains_Add: "vl_ok vl \<Longrightarrow> vl_Contains (snd (vl_Add i vl)) j \<longleftrightarrow> j = i \<or> vl_Contains vl j"
  using vl_grow_Contains [of vl i j] length_vl_grow [of i vl]
  by (auto simp: vl_Add_def Let_def vl_Contains_def [of "vl_grow i vl"]
      vl_Contains_def [of "vl_grow i vl\<lparr>matches := _\<rparr>"] nth_list_update)

lemma vl_ok_Add: "vl_ok vl \<Longrightarrow> vl_ok (snd (vl_Add i vl))"
proof -
  assume "vl_ok vl"
  then have "vl_ok (vl_grow i vl)" by simp
  then show ?thesis
    by (auto simp: vl_Add_def Let_def vl_ok_def vl_stamped_def dest: set_update_subset_insert [THEN subsetD])
qed

lemma word_not_max: "g + 1 \<noteq> (0 :: u32) \<Longrightarrow> m \<le> g \<Longrightarrow> m < g + 1"
  using unatSuc [of g] by (simp add: word_less_nat_alt word_le_nat_alt add.commute)

lemma vl_Reset_ok: "vl_stamped vl \<Longrightarrow> vl_ok (vl_Reset vl)"
  by (auto simp: vl_Reset_def Let_def vl_ok_def vl_stamped_def dest: word_not_max)

lemma vl_Reset_empty: "vl_stamped vl \<Longrightarrow> \<not> vl_Contains (vl_Reset vl) j"
proof -
  assume s: "vl_stamped vl"
  show ?thesis
  proof (cases "match_gen vl + 1 = 0 \<or> length (matches vl) \<le> j")
    case True
    then show ?thesis by (auto simp: vl_Reset_def Let_def vl_Contains_def)
  next
    case False
    then have "matches vl ! j < match_gen vl + 1"
      using s by (intro word_not_max) (auto simp: vl_stamped_def)
    with False show ?thesis by (auto simp: vl_Reset_def Let_def vl_Contains_def)
  qed
qed

interpretation vlist: visited_tracker vl_Contains "\<lambda>i s. snd (vl_Add i s)" vl_Reset vl_ok "\<lambda>s i. True"
proof unfold_locales
  have s: "vl_ok s \<Longrightarrow> vl_stamped s" for s by (simp add: vl_ok_def)
  show "vl_ok s \<Longrightarrow> \<not> vl_Contains (vl_Reset s) j" for s j using s vl_Reset_empty by blast
  show "vl_ok s \<Longrightarrow> vl_ok (vl_Reset s)" for s using s vl_Reset_ok by blast
qed (simp_all add: vl_Contains_Add vl_ok_Add)


section \<open>VisitedSet\<close>

text \<open>The map from ids to empty structs, as the list of its keys.\<close>

type_synonym visited_set = "nat list"

definition vs_Add :: "nat \<Rightarrow> visited_set \<Rightarrow> bool \<times> visited_set" where
  "vs_Add i v = (if i \<in> set v then (True, v) else (False, i # v))"

definition vs_Contains :: "visited_set \<Rightarrow> nat \<Rightarrow> bool" where
  "vs_Contains v i \<longleftrightarrow> i \<in> set v"

definition vs_Reset :: "visited_set \<Rightarrow> visited_set" where
  "vs_Reset v = []"

definition vs_Size :: "visited_set \<Rightarrow> nat" where
  "vs_Size v = length v"

interpretation vset: visited_tracker vs_Contains "\<lambda>i s. snd (vs_Add i s)" vs_Reset distinct "\<lambda>s i. True"
  by unfold_locales (auto simp: vs_Contains_def vs_Add_def vs_Reset_def)

lemma vs_Size_card: "distinct v \<Longrightarrow> vs_Size v = card {i. vs_Contains v i}"
  by (simp add: vs_Size_def vs_Contains_def distinct_card)

section \<open>BitSet\<close>

record bit_set =
  bits :: "u64 list"
  bs_size :: int

definition NewBitSet :: "int \<Rightarrow> bit_set" where
  "NewBitSet n = \<lparr>bits = replicate (nat ((n + 63) div 64)) 0, bs_size = n\<rparr>"

definition bs_Set :: "int \<Rightarrow> bit_set \<Rightarrow> bit_set" where
  "bs_Set index b = (if index < 0 \<or> index \<ge> bs_size b then b
     else let w = nat (index div 64); i = nat (index mod 64)
          in b\<lparr>bits := (bits b)[w := or (bits b ! w) (push_bit i 1)]\<rparr>)"

definition bs_Test :: "bit_set \<Rightarrow> int \<Rightarrow> bool" where
  "bs_Test b index = (if index < 0 \<or> index \<ge> bs_size b then False
     else let w = nat (index div 64); i = nat (index mod 64)
          in and (bits b ! w) (push_bit i 1) \<noteq> 0)"

definition bs_Clear :: "bit_set \<Rightarrow> bit_set" where
  "bs_Clear b = b\<lparr>bits := map (\<lambda>_. 0) (bits b)\<rparr>"

definition bs_ok :: "bit_set \<Rightarrow> bool" where
  "bs_ok b \<longleftrightarrow> bs_size b \<le> 64 * int (length (bits b))"

lemma NewBitSet_ok: "bs_ok (NewBitSet n)"
  by (simp add: bs_ok_def NewBitSet_def) linarith

lemma bs_Test_bit:
  "bs_ok b \<Longrightarrow> bs_Test b j \<longleftrightarrow> 0 \<le> j \<and> j < bs_size b \<and> bit (bits b ! nat (j div 64)) (nat (j mod 64))"
  by (auto simp: bs_Test_def Let_def and_exp_eq_0_iff_not_bit)

lemma bs_word_bound: "bs_ok b \<Longrightarrow> 0 \<le> j \<Longrightarrow> j < bs_size b \<Longrightarrow> nat (j div 64) < length (bits b)"
  by (simp add: bs_ok_def nat_less_iff div_less_iff_less_mult)

lemma bs_ok_Set: "bs_ok b \<Longrightarrow> bs_ok (bs_Set i b)"
  by (simp add: bs_Set_def bs_ok_def Let_def)

lemma bs_Test_Set:
  assumes b: "bs_ok b" and i: "0 \<le> i" "i < bs_size b"
  shows "bs_Test (bs_Set i b) j \<longleftrightarrow> j = i \<or> bs_Test b j"
proof -
  let ?w = "nat (i div 64)" and ?k = "nat (i mod 64)"
  have k: "?k < 64" by (simp add: nat_less_iff)
  have st: "bs_size (bs_Set i b) = bs_size b" "bits (bs_Set i b) = (bits b)[?w := or (bits b ! ?w) (2 ^ ?k)]"
    using i by (simp_all add: bs_Set_def Let_def)
  have e: "j = i \<longleftrightarrow> nat (j div 64) = ?w \<and> nat (j mod 64) = ?k" if "0 \<le> j"
  proof
    assume "nat (j div 64) = ?w \<and> nat (j mod 64) = ?k"
    with that i(1) have "j div 64 = i div 64" "j mod 64 = i mod 64"
      by (simp_all add: eq_nat_nat_iff pos_imp_zdiv_nonneg_iff)
    then show "j = i" by (metis div_mult_mod_eq)
  qed simp
  have g: "bit (bits (bs_Set i b) ! nat (j div 64)) (nat (j mod 64)) \<longleftrightarrow>
      (nat (j div 64) = ?w \<and> nat (j mod 64) = ?k) \<or> bit (bits b ! nat (j div 64)) (nat (j mod 64))"
    unfolding st(2) using bs_word_bound [OF b i] k by (auto simp: nth_list_update bit_simps)
  show ?thesis
    unfolding bs_Test_bit [OF bs_ok_Set [OF b]] bs_Test_bit [OF b] st(1) g using e i by blast
qed

interpretation bset: visited_tracker "\<lambda>b i. bs_Test b (int i)" "\<lambda>i. bs_Set (int i)" bs_Clear bs_ok
  "\<lambda>b i. int i < bs_size b"
proof unfold_locales
  show "bs_ok s \<Longrightarrow> int i < bs_size s \<Longrightarrow> bs_Test (bs_Set (int i) s) (int j) \<longleftrightarrow> j = i \<or> bs_Test s (int j)" for s i j
    by (simp add: bs_Test_Set)
  show ok: "bs_ok s \<Longrightarrow> bs_ok (bs_Clear s)" for s by (simp add: bs_ok_def bs_Clear_def)
  show "bs_ok s \<Longrightarrow> \<not> bs_Test (bs_Clear s) (int j)" for s j
    using bs_word_bound [of s "int j"]
    by (auto simp: bs_Test_def bs_Clear_def Let_def)
  show "bs_ok s \<Longrightarrow> bs_ok (bs_Set (int i) s)" for s i by (rule bs_ok_Set)
qed (simp_all add: bs_Set_def bs_Clear_def Let_def)

end
