(* ===== verification/Hnsw_Node.thy ===== *)
theory Hnsw_Node
  imports Heap Visited Go_Values
begin

text \<open>
  Nodes of the HNSW graph and the two candidate heaps (\<open>pkg/index/hnsw/node.go\<close>). Vectors are
  lists over an arbitrary component type (the nil vector is the empty list), distances are
  elements of a linear order, so that every statement holds for each metric whose values compare
  like numbers. An index out of range is a panic, here \<open>None\<close>.
\<close>

section \<open>Nodes\<close>

record 'f hnode =
  nodeID :: string
  Vector :: "'f list"
  Quantized :: "byte list option"
  Level :: int
  Connections :: "nat list list"
  deleted :: bool
  node_payload :: "go_map option"

definition NewNode :: "string \<Rightarrow> 'f list \<Rightarrow> int \<Rightarrow> bool \<Rightarrow> 'f hnode" where
  "NewNode i vec level useMmap =
     \<lparr>nodeID = i, Vector = vec, Quantized = None, Level = level,
      Connections = (if \<not> useMmap then replicate (nat (level + 1)) [] else []),
      deleted = False, node_payload = None\<rparr>"

definition GetConnections :: "'f hnode \<Rightarrow> int \<Rightarrow> nat list option" where
  "GetConnections n layer =
     (if layer > Level n \<or> layer < 0 then Some [] else go_index (Connections n) (nat layer))"

definition SetConnections :: "int \<Rightarrow> nat list \<Rightarrow> 'f hnode \<Rightarrow> 'f hnode option" where
  "SetConnections layer conns n =
     (if layer > Level n \<or> layer < 0 then Some n
      else if length (Connections n) \<le> nat layer then None
      else Some (n\<lparr>Connections := (Connections n)[nat layer := conns]\<rparr>))"

definition AddConnection :: "int \<Rightarrow> nat \<Rightarrow> 'f hnode \<Rightarrow> (bool \<times> 'f hnode) option" where
  "AddConnection layer i n =
     (if layer > Level n \<or> layer < 0 then Some (False, n)
      else case go_index (Connections n) (nat layer) of
        None \<Rightarrow> None
      | Some cs \<Rightarrow> if i \<in> set cs then Some (False, n)
          else Some (True, n\<lparr>Connections := (Connections n)[nat layer := cs @ [i]]\<rparr>))"

text \<open>The first occurrence is overwritten by the last element and the list shortened.\<close>

definition swap_remove :: "nat \<Rightarrow> nat list \<Rightarrow> nat list option" where
  "swap_remove x cs = (let i = length (takeWhile (\<lambda>c. c \<noteq> x) cs) in
     if i < length cs then Some (butlast (cs[i := last cs])) else None)"

definition RemoveConnection :: "int \<Rightarrow> nat \<Rightarrow> 'f hnode \<Rightarrow> (bool \<times> 'f hnode) option" where
  "RemoveConnection layer i n =
     (if layer > Level n \<or> layer < 0 then Some (False, n)
      else case go_index (Connections n) (nat layer) of
        None \<Rightarrow> None
      | Some cs \<Rightarrow> (case swap_remove i cs of
          None \<Rightarrow> Some (False, n)
        | Some cs' \<Rightarrow> Some (True, n\<lparr>Connections := (Connections n)[nat layer := cs']\<rparr>)))"

definition ConnectionCount :: "'f hnode \<Rightarrow> int \<Rightarrow> nat option" where
  "ConnectionCount n layer =
     (if layer > Level n \<or> layer < 0 then Some 0 else map_option length (go_index (Connections n) (nat layer)))"

definition MarkDeleted :: "'f hnode \<Rightarrow> 'f hnode" where
  "MarkDeleted n = n\<lparr>deleted := True\<rparr>"

definition SetPayload :: "go_map option \<Rightarrow> 'f hnode \<Rightarrow> 'f hnode" where
  "SetPayload p n = n\<lparr>node_payload := p\<rparr>"

definition GetPayload :: "'f hnode \<Rightarrow> go_map option" where
  "GetPayload n = node_payload n"

text \<open>A node as kept in memory: one connection list per layer it is on, without repetitions.\<close>

definition node_ok :: "'f hnode \<Rightarrow> bool" where
  "node_ok n \<longleftrightarrow> 0 \<le> Level n \<and> int (length (Connections n)) = Level n + 1
     \<and> list_all distinct (Connections n)"

definition conns :: "'f hnode \<Rightarrow> int \<Rightarrow> nat list" where
  "conns n layer = (if layer > Level n \<or> layer < 0 then [] else Connections n ! nat layer)"

lemma layer_index: "node_ok n \<Longrightarrow> \<not> (layer > Level n \<or> layer < 0) \<Longrightarrow> nat layer < length (Connections n)"
  by (simp add: node_ok_def) linarith

lemma GetConnections_ok: "node_ok n \<Longrightarrow> GetConnections n layer = Some (conns n layer)"
  using layer_index [of n layer] by (auto simp: GetConnections_def conns_def go_index_def)

lemma distinct_conns: "node_ok n \<Longrightarrow> distinct (conns n layer)"
  using layer_index [of n layer] by (auto simp: conns_def node_ok_def list_all_length)

lemma NewNode_ok: "0 \<le> level \<Longrightarrow> node_ok (NewNode i v level False)"
  by (simp add: NewNode_def node_ok_def list_all_iff)

lemma SetConnections_ok:
  assumes n: "node_ok n" and d: "distinct cs"
  obtains n' where "SetConnections layer cs n = Some n'" and "node_ok n'"
    and "\<And>l. conns n' l = (if l = layer \<and> 0 \<le> l \<and> l \<le> Level n then cs else conns n l)"
    and "Level n' = Level n" and "n' = n\<lparr>Connections := Connections n'\<rparr>"
proof (cases "layer > Level n \<or> layer < 0")
  case True
  show ?thesis
    by (rule that [of n]) (use True n in \<open>auto simp: SetConnections_def\<close>)
next
  case False
  let ?n = "n\<lparr>Connections := (Connections n)[nat layer := cs]\<rparr>"
  have i: "nat layer < length (Connections n)" by (rule layer_index [OF n False])
  show ?thesis
  proof (rule that [of ?n])
    show "SetConnections layer cs n = Some ?n" using False i by (simp add: SetConnections_def)
    show "node_ok ?n" using n d by (auto simp: node_ok_def list_all_iff dest!: set_update_subset_insert [THEN subsetD])
    show "conns ?n l = (if l = layer \<and> 0 \<le> l \<and> l \<le> Level n then cs else conns n l)" for l
      using False i layer_index [OF n, of l]
      by (auto simp: conns_def nth_list_update eq_nat_nat_iff)
  qed simp_all
qed

lemma swap_remove_Some:
  assumes "x \<in> set cs"
  obtains cs' where "swap_remove x cs = Some cs'" and "mset cs = add_mset x (mset cs')"
proof -
  let ?i = "length (takeWhile (\<lambda>c. c \<noteq> x) cs)"
  have i: "?i < length cs" using assms by (metis (mono_tags, lifting) length_takeWhile_le le_neq_implies_less
        takeWhile_eq_all_conv takeWhile_eq_take take_all_iff order_refl)
  then have x: "cs ! ?i = x" using nth_length_takeWhile [of "\<lambda>c. c \<noteq> x" cs] by simp
  have ne: "cs \<noteq> []" using assms by auto
  have e: "swap_remove x cs = Some (butlast (cs[?i := last cs]))" using i by (simp add: swap_remove_def Let_def)
  have "mset (cs[?i := last cs]) = add_mset (last cs) (mset cs - {#x#})"
    using i x by (simp add: mset_update)
  moreover have "last (cs[?i := last cs]) = last cs"
    using ne by (simp add: last_list_update)
  moreover have "mset (cs[?i := last cs]) = mset (butlast (cs[?i := last cs]) @ [last (cs[?i := last cs])])"
    using ne by (subst append_butlast_last_id) simp_all
  ultimately have "mset (butlast (cs[?i := last cs])) = mset cs - {#x#}" by simp
  then show ?thesis using e that assms by (metis insert_DiffM set_mset_mset)
qed

lemma swap_remove_None: "x \<notin> set cs \<Longrightarrow> swap_remove x cs = None"
proof -
  assume "x \<notin> set cs"
  then have "takeWhile (\<lambda>c. c \<noteq> x) cs = cs" by (auto simp: takeWhile_eq_all_conv)
  then show ?thesis unfolding swap_remove_def Let_def by (simp only: less_irrefl if_False)
qed

section \<open>Candidates and their heaps\<close>

record 'd candidate =
  cID :: nat
  Distance :: 'd

definition nearer :: "('d :: linorder) candidate \<Rightarrow> 'd candidate \<Rightarrow> bool" where
  "nearer a b \<longleftrightarrow> Distance a < Distance b"

definition farther :: "('d :: linorder) candidate \<Rightarrow> 'd candidate \<Rightarrow> bool" where
  "farther a b \<longleftrightarrow> Distance a > Distance b"

interpretation near_order: weak_order nearer
  by unfold_locales (auto simp: nearer_def)

interpretation far_order: weak_order farther
  by unfold_locales (auto simp: farther_def)

interpretation near: priority_queue nearer "heap_push nearer" "heap_pop nearer" mset "is_heap nearer"
proof unfold_locales
  show "heap_pop nearer q = Some (x, q') \<Longrightarrow> is_heap nearer q \<Longrightarrow> y \<in># mset q \<Longrightarrow> \<not> nearer y x" for q x q' y
    using near_order.heap_pop_ok(2) by (metis set_mset_mset)
qed (auto simp: near_order.heap_push_ok heap_push_elems heap_pop_None heap_pop_elems
    intro: near_order.heap_pop_ok(1))

interpretation far: priority_queue farther "heap_push farther" "heap_pop farther" mset "is_heap farther"
proof unfold_locales
  show "heap_pop farther q = Some (x, q') \<Longrightarrow> is_heap farther q \<Longrightarrow> y \<in># mset q \<Longrightarrow> \<not> farther y x" for q x q' y
    using far_order.heap_pop_ok(2) by (metis set_mset_mset)
qed (auto simp: far_order.heap_push_ok heap_push_elems heap_pop_None heap_pop_elems
    intro: far_order.heap_pop_ok(1))

end
