(* ===== verification/Hnsw_Graph.thy ===== *)
theory Hnsw_Graph
  imports Hnsw_Node
begin

text \<open>
  The HNSW index (\<open>pkg/index/hnsw/hnsw.go\<close>) in its in-memory configuration: both memory-mapped
  pagers are nil, vectors and connections live in the nodes. The distance calculator and the
  quantizer are the fields through which the code calls them. \<open>sort.Slice\<close>, which promises a
  sorted permutation and no more, is the argument \<open>srt\<close>; the tracker taken from the pool is
  the argument \<open>vl\<close>; the level drawn by \<open>randomLevel\<close> is an argument of \<open>Insert\<close>. The
  operations run under the index's locks, so each is one step.
\<close>

section \<open>The index\<close>

record ('f, 'd) quantizer =
  q_Encode :: "'f list \<Rightarrow> byte list option"
  q_Distance :: "'f list \<Rightarrow> byte list \<Rightarrow> 'd"

record ('f, 'd) hnsw =
  hM :: int
  Mmax :: int
  Mmax0 :: int
  efConstruction :: int
  efSearch :: int
  maxLevel :: int
  nodes :: "'f hnode list"
  entryPoint :: nat
  nodeCount :: int
  dimension :: int
  idToIndex :: "(string \<times> nat) list"
  deletedCount :: int
  distCalc :: "'f list \<Rightarrow> 'f list \<Rightarrow> 'd"
  hquantizer :: "('f, 'd) quantizer option"

record 'f point =
  pID :: string
  pVector :: "'f list"
  pPayload :: "go_map option"

datatype hnsw_error = ErrDimensionMismatch | ErrPointExists | ErrPointNotFound | ErrTooManyNodes
  | ErrParameterM | ErrDimension

record ('f, 'd) hnsw_config =
  cfgM :: int
  cfgEfConstruction :: int
  cfgEfSearch :: int
  cfgDimension :: int
  cfgDistance :: "'f list \<Rightarrow> 'f list \<Rightarrow> 'd"
  cfgQuantizer :: "('f, 'd) quantizer option"

definition New :: "('f, 'd) hnsw_config \<Rightarrow> hnsw_error + ('f, 'd) hnsw" where
  "New cfg = (if cfgM cfg < 2 then Inl ErrParameterM
     else if cfgDimension cfg \<le> 0 then Inl ErrDimension
     else Inr \<lparr>hM = cfgM cfg, Mmax = cfgM cfg, Mmax0 = 2 * cfgM cfg,
       efConstruction = cfgEfConstruction cfg, efSearch = cfgEfSearch cfg, maxLevel = -1,
       nodes = [], entryPoint = 0, nodeCount = 0, dimension = cfgDimension cfg,
       idToIndex = [], deletedCount = 0, distCalc = cfgDistance cfg, hquantizer = cfgQuantizer cfg\<rparr>)"

section \<open>Access\<close>

definition getVector :: "('f, 'd) hnsw \<Rightarrow> nat \<Rightarrow> 'f list option" where
  "getVector h i = map_option Vector (go_index (nodes h) i)"

definition getConnections :: "('f, 'd) hnsw \<Rightarrow> nat \<Rightarrow> int \<Rightarrow> nat list option" where
  "getConnections h i layer = (case go_index (nodes h) i of None \<Rightarrow> None | Some n \<Rightarrow> GetConnections n layer)"

definition setConnections :: "nat \<Rightarrow> int \<Rightarrow> nat list \<Rightarrow> ('f, 'd) hnsw \<Rightarrow> ('f, 'd) hnsw option" where
  "setConnections i layer cs h = (case go_index (nodes h) i of None \<Rightarrow> None
     | Some n \<Rightarrow> (case SetConnections layer cs n of None \<Rightarrow> None
       | Some n' \<Rightarrow> Some (h\<lparr>nodes := (nodes h)[i := n']\<rparr>)))"

text \<open>The distance of the query to a node: through the quantizer where the node has a code.\<close>

definition node_distance :: "('f, 'd) hnsw \<Rightarrow> 'f list \<Rightarrow> nat \<Rightarrow> 'd option" where
  "node_distance h query i = (case go_index (nodes h) i of None \<Rightarrow> None
     | Some n \<Rightarrow> Some (case (hquantizer h, Quantized n) of
         (Some qz, Some code) \<Rightarrow> q_Distance qz query code
       | _ \<Rightarrow> distCalc h query (Vector n)))"

section \<open>Greedy descent\<close>

text \<open>The pass over the neighbours of the current node: the state is the current node, its
  distance and whether the pass moved.\<close>

fun greedy_scan :: "('f, 'd :: linorder) hnsw \<Rightarrow> 'f list \<Rightarrow> nat list \<Rightarrow> nat \<times> 'd \<times> bool \<Rightarrow> (nat \<times> 'd \<times> bool) option" where
  "greedy_scan h query [] st = Some st"
| "greedy_scan h query (nb # nbs) (cur, d, changed) =
    (case go_index (nodes h) nb of None \<Rightarrow> None
     | Some n \<Rightarrow> if deleted n then greedy_scan h query nbs (cur, d, changed)
         else (case node_distance h query nb of None \<Rightarrow> None
           | Some nd \<Rightarrow> if nd < d then greedy_scan h query nbs (nb, nd, True)
               else greedy_scan h query nbs (cur, d, changed)))"

lemma greedy_scan_progress:
  "greedy_scan h query nbs (cur, d, ch) = Some (cur', d', ch') \<Longrightarrow>
   (ch' = ch \<and> cur' = cur \<and> d' = d) \<or>
   (ch' \<and> d' < d \<and> cur' < length (nodes h) \<and> cur' \<in> set nbs \<and> node_distance h query cur' = Some d')"
proof (induction nbs arbitrary: cur d ch)
  case (Cons nb nbs)
  show ?case
  proof (cases "\<exists>n nd. go_index (nodes h) nb = Some n \<and> \<not> deleted n \<and> node_distance h query nb = Some nd \<and> nd < d")
    case True
    then obtain n nd where m: "go_index (nodes h) nb = Some n" "\<not> deleted n"
      "node_distance h query nb = Some nd" "nd < d" by blast
    with Cons.prems have "greedy_scan h query nbs (nb, nd, True) = Some (cur', d', ch')" by simp
    from Cons.IH [OF this] m show ?thesis by (auto simp: go_index_def split: if_splits)
  next
    case False
    with Cons.prems have "greedy_scan h query nbs (cur, d, ch) = Some (cur', d', ch')"
      by (auto split: option.splits if_splits)
    from Cons.IH [OF this] show ?thesis by auto
  qed
qed simp

function greedy_loop :: "('f, 'd :: linorder) hnsw \<Rightarrow> 'f list \<Rightarrow> int \<Rightarrow> nat \<Rightarrow> 'd \<Rightarrow> nat option" where
  "greedy_loop h query layer cur d =
    (case getConnections h cur layer of None \<Rightarrow> None
     | Some nbs \<Rightarrow> (case greedy_scan h query nbs (cur, d, False) of None \<Rightarrow> None
       | Some (cur', d', changed) \<Rightarrow> if changed then greedy_loop h query layer cur' d' else Some cur'))"
  by auto

definition closer_nodes :: "('f, 'd :: linorder) hnsw \<Rightarrow> 'f list \<Rightarrow> 'd \<Rightarrow> nat set" where
  "closer_nodes h query d = {i. i < length (nodes h) \<and> (\<exists>d'. node_distance h query i = Some d' \<and> d' < d)}"

lemma closer_nodes_less:
  assumes "node_distance h query cur' = Some d'" and "d' < d" and "cur' < length (nodes h)"
  shows "card (closer_nodes h query d') < card (closer_nodes h query d)"
proof (rule psubset_card_mono)
  show "finite (closer_nodes h query d)" by (simp add: closer_nodes_def)
  have "cur' \<in> closer_nodes h query d" "cur' \<notin> closer_nodes h query d'"
    using assms by (auto simp: closer_nodes_def)
  moreover have "closer_nodes h query d' \<subseteq> closer_nodes h query d"
    using assms(2) by (auto simp: closer_nodes_def)
  ultimately show "closer_nodes h query d' \<subset> closer_nodes h query d" by blast
qed

termination greedy_loop
proof (relation "measure (\<lambda>(h, query, layer, cur, d). card (closer_nodes h query d))")
  fix h :: "('f, 'd :: linorder) hnsw" and query layer cur d nbs st cur' y d' and changed :: bool
  assume "greedy_scan h query nbs (cur, d, False) = Some st" "(cur', y) = st" "(d', changed) = y" changed
  then have "greedy_scan h query nbs (cur, d, False) = Some (cur', d', True)" by auto
  from greedy_scan_progress [OF this]
  show "((h, query, layer, cur', d'), h, query, layer, cur, d) \<in> measure (\<lambda>(h, query, layer, cur, d). card (closer_nodes h query d))"
    by (auto intro: closer_nodes_less)
qed simp

declare greedy_loop.simps [simp del]

definition greedySearchLayer :: "('f, 'd :: linorder) hnsw \<Rightarrow> 'f list \<Rightarrow> nat \<Rightarrow> int \<Rightarrow> nat option" where
  "greedySearchLayer h query entryID layer =
    (case node_distance h query entryID of None \<Rightarrow> None
     | Some d \<Rightarrow> greedy_loop h query layer entryID d)"

section \<open>Best-first search of a layer\<close>

text \<open>The state of the search: the tracker, the candidates to explore and the best results.\<close>

type_synonym 'd search_state = "visited_list \<times> 'd candidate list \<times> 'd candidate list"

definition better :: "int \<Rightarrow> 'd :: linorder \<Rightarrow> 'd candidate list \<Rightarrow> bool option" where
  "better ef nd results = (if int (length results) < ef then Some True
     else map_option (\<lambda>top. nd < Distance top) (go_index results 0))"

definition trim :: "int \<Rightarrow> ('d :: linorder) candidate list \<Rightarrow> 'd candidate list option" where
  "trim ef results = (if int (length results) > ef then map_option snd (heap_pop farther results) else Some results)"

text \<open>The body of the loop over the neighbours of the current candidate.\<close>

definition explore_one :: "('f, 'd :: linorder) hnsw \<Rightarrow> 'f list \<Rightarrow> int \<Rightarrow> nat \<Rightarrow> 'd search_state \<Rightarrow> 'd search_state option" where
  "explore_one h query ef nb st = (case st of (vl, cands, results) \<Rightarrow>
    (case vl_Add nb vl of (seen, vl') \<Rightarrow>
     if seen then Some (vl', cands, results)
     else case go_index (nodes h) nb of None \<Rightarrow> None
      | Some n \<Rightarrow> if deleted n then Some (vl', cands, results)
          else (case node_distance h query nb of None \<Rightarrow> None
           | Some nd \<Rightarrow> (case better ef nd results of None \<Rightarrow> None
             | Some True \<Rightarrow> (let c = \<lparr>cID = nb, Distance = nd\<rparr> in
                 case trim ef (heap_push farther results c) of None \<Rightarrow> None
                 | Some results' \<Rightarrow> Some (vl', heap_push nearer cands c, results'))
             | Some False \<Rightarrow> Some (vl', cands, results)))))"

fun explore :: "('f, 'd :: linorder) hnsw \<Rightarrow> 'f list \<Rightarrow> int \<Rightarrow> nat list \<Rightarrow> 'd search_state \<Rightarrow> 'd search_state option" where
  "explore h query ef [] st = Some st"
| "explore h query ef (nb # nbs) st =
    (case explore_one h query ef nb st of None \<Rightarrow> None | Some st' \<Rightarrow> explore h query ef nbs st')"

text \<open>Whether the search can stop at a candidate: enough results, and all of them nearer.\<close>

definition stop_at :: "int \<Rightarrow> ('d :: linorder) candidate \<Rightarrow> 'd candidate list \<Rightarrow> bool option" where
  "stop_at ef cnd results = (if int (length results) \<ge> ef
     then map_option (\<lambda>top. Distance cnd > Distance top) (go_index results 0) else Some False)"

text \<open>The nodes not yet visited; every round of the search shrinks them or the candidates.\<close>

definition unvisited :: "('f, 'd) hnsw \<Rightarrow> visited_list \<Rightarrow> nat set" where
  "unvisited h vl = {i. i < length (nodes h) \<and> \<not> vl_Contains vl i}"

lemma finite_unvisited [simp]: "finite (unvisited h vl)"
  by (simp add: unvisited_def)

lemma vl_Add_Contains:
  "vl_Contains (snd (vl_Add i vl)) i" "vl_Contains vl j \<Longrightarrow> vl_Contains (snd (vl_Add i vl)) j"
  using length_vl_grow [of i vl] vl_grow_nth [of j vl i]
  by (auto simp: vl_Add_def Let_def vl_Contains_def nth_list_update vl_grow_def nth_append split: if_splits)

lemma vl_Add_unseen: "fst (vl_Add i vl) = False \<Longrightarrow> vl_Contains vl i \<Longrightarrow> False"
  using vl_grow_nth [of i vl i] by (auto simp: vl_Add_def Let_def vl_Contains_def split: if_splits)

definition shrinks :: "('f, 'd) hnsw \<Rightarrow> 'd search_state \<Rightarrow> 'd search_state \<Rightarrow> bool" where
  "shrinks h st st' \<longleftrightarrow> unvisited h (fst st') \<subseteq> unvisited h (fst st) \<and>
     (unvisited h (fst st') = unvisited h (fst st) \<longrightarrow> length (fst (snd st')) = length (fst (snd st)))"

lemma shrinks_trans: "shrinks h st st' \<Longrightarrow> shrinks h st' st'' \<Longrightarrow> shrinks h st st''"
  by (auto simp: shrinks_def)

lemma explore_one_shrinks: "explore_one h query ef nb st = Some st' \<Longrightarrow> shrinks h st st'"
proof -
  assume e: "explore_one h query ef nb st = Some st'"
  obtain vl cands results where st: "st = (vl, cands, results)" by (cases st)
  obtain seen v where v: "vl_Add nb vl = (seen, v)" by (cases "vl_Add nb vl")
  have v': "fst st' = v" using e st v
    by (auto simp: explore_one_def Let_def split: option.splits if_splits bool.splits)
  have sub: "unvisited h v \<subseteq> unvisited h vl"
    using vl_Add_Contains(2) [where i = nb and vl = vl] v by (auto simp: unvisited_def)
  show ?thesis
  proof (cases seen)
    case True
    then show ?thesis using e st v sub by (auto simp: explore_one_def shrinks_def)
  next
    case False
    then have fresh: "\<not> vl_Contains vl nb" using vl_Add_unseen [of nb vl] v by auto
    from e st v False have "nb < length (nodes h)"
      by (auto simp: explore_one_def go_index_def split: if_splits)
    then have "nb \<in> unvisited h vl" "nb \<notin> unvisited h v"
      using fresh vl_Add_Contains(1) [of nb vl] v by (auto simp: unvisited_def)
    then show ?thesis using sub v' st by (auto simp: shrinks_def)
  qed
qed

lemma explore_shrinks: "explore h query ef nbs st = Some st' \<Longrightarrow> shrinks h st st'"
proof (induction nbs arbitrary: st)
  case Nil
  then show ?case by (simp add: shrinks_def)
next
  case (Cons nb nbs)
  then show ?case by (auto split: option.splits intro: shrinks_trans explore_one_shrinks)
qed

function search_loop :: "('f, 'd :: linorder) hnsw \<Rightarrow> 'f list \<Rightarrow> int \<Rightarrow> int \<Rightarrow> 'd search_state \<Rightarrow> 'd candidate list option" where
  "search_loop h query ef layer (vl, cands, results) =
    (case heap_pop nearer cands of None \<Rightarrow> Some results
     | Some (cnd, cands') \<Rightarrow> (case stop_at ef cnd results of None \<Rightarrow> None
       | Some True \<Rightarrow> Some results
       | Some False \<Rightarrow> (case getConnections h (cID cnd) layer of None \<Rightarrow> None
         | Some nbs \<Rightarrow> (case explore h query ef nbs (vl, cands', results) of None \<Rightarrow> None
           | Some st \<Rightarrow> search_loop h query ef layer st))))"
  by pat_completeness auto

lemma heap_pop_length: "heap_pop lt h = Some (x, h') \<Longrightarrow> length h = Suc (length h')"
  using heap_pop_elems [of lt h x h'] by (metis size_add_mset size_mset)

termination search_loop
proof (relation "inv_image (less_than <*lex*> less_than)
    (\<lambda>(h, query, ef, layer, vl, cands, results). (card (unvisited h vl), length cands))")
  show "wf (inv_image (less_than <*lex*> less_than)
    (\<lambda>(h, query, ef, layer, vl, cands, results). (card (unvisited h vl), length cands)))" by auto
next
  fix h :: "('f, 'd :: linorder) hnsw" and query ef layer vl cands results p cnd cands' b nbs st
  assume p: "heap_pop nearer cands = Some p" "(cnd, cands') = p"
    and e: "explore h query ef nbs (vl, cands', results) = Some st"
  obtain v c r where st: "st = (v, c, r)" by (cases st)
  from explore_shrinks [OF e] have m: "unvisited h v \<subseteq> unvisited h vl"
    "unvisited h v = unvisited h vl \<longrightarrow> length c = length cands'" by (auto simp: st shrinks_def)
  from p have l: "length cands = Suc (length cands')" using heap_pop_length [of nearer cands cnd cands'] by simp
  show "((h, query, ef, layer, st), h, query, ef, layer, vl, cands, results) \<in> inv_image (less_than <*lex*> less_than)
      (\<lambda>(h, query, ef, layer, vl, cands, results). (card (unvisited h vl), length cands))"
  proof (cases "unvisited h v = unvisited h vl")
    case True
    with m(2) l show ?thesis by (simp add: st)
  next
    case False
    with m(1) have "card (unvisited h v) < card (unvisited h vl)" by (intro psubset_card_mono) auto
    then show ?thesis by (simp add: st)
  qed
qed

declare search_loop.simps [simp del]

definition searchLayer :: "visited_list \<Rightarrow> ('f, 'd :: linorder) hnsw \<Rightarrow> 'f list \<Rightarrow> nat \<Rightarrow> int \<Rightarrow> int \<Rightarrow> 'd candidate list option" where
  "searchLayer vl h query entryID ef layer =
    (let vl = snd (vl_Add entryID (vl_Reset vl)) in
     case node_distance h query entryID of None \<Rightarrow> None
     | Some d \<Rightarrow>
         let c = \<lparr>cID = entryID, Distance = d\<rparr> in
         (case search_loop h query ef layer (vl, heap_push nearer [] c, heap_push farther [] c) of None \<Rightarrow> None
          | Some results \<Rightarrow> Some (rev (pop_all (heap_pop farther) (length results) results))))"

section \<open>Neighbour selection\<close>

text \<open>Whether a candidate is at least as near to the query as to every neighbour selected so far.\<close>

fun accepts :: "('f, 'd :: linorder) hnsw \<Rightarrow> 'f list \<Rightarrow> 'd candidate \<Rightarrow> 'd candidate list \<Rightarrow> bool option" where
  "accepts h cVec c [] = Some True"
| "accepts h cVec c (s # ss) = (case getVector h (cID s) of None \<Rightarrow> None
     | Some sVec \<Rightarrow> if sVec = [] then accepts h cVec c ss
         else if distCalc h cVec sVec < Distance c then Some False
         else accepts h cVec c ss)"

fun heuristic_loop :: "('f, 'd :: linorder) hnsw \<Rightarrow> int \<Rightarrow> 'd candidate list \<Rightarrow> 'd candidate list \<Rightarrow> 'd candidate list
    \<Rightarrow> ('d candidate list \<times> 'd candidate list) option" where
  "heuristic_loop h maxConn [] selected discarded = Some (selected, discarded)"
| "heuristic_loop h maxConn (c # cs) selected discarded =
    (if int (length selected) \<ge> maxConn then Some (selected, discarded)
     else case getVector h (cID c) of None \<Rightarrow> None
      | Some cVec \<Rightarrow> if cVec = [] then heuristic_loop h maxConn cs selected (discarded @ [c])
          else (case accepts h cVec c selected of None \<Rightarrow> None
            | Some True \<Rightarrow> heuristic_loop h maxConn cs (selected @ [c]) discarded
            | Some False \<Rightarrow> heuristic_loop h maxConn cs selected (discarded @ [c])))"

definition selectNeighborsHeuristic :: "('d candidate list \<Rightarrow> 'd candidate list) \<Rightarrow> ('f, 'd :: linorder) hnsw
    \<Rightarrow> 'd candidate list \<Rightarrow> int \<Rightarrow> 'd candidate list option" where
  "selectNeighborsHeuristic srt h candidates maxConn =
    (if int (length candidates) \<le> maxConn then Some candidates
     else (case heuristic_loop h maxConn (srt candidates) [] [] of None \<Rightarrow> None
       | Some (selected, discarded) \<Rightarrow>
           Some (selected @ take (nat (maxConn - int (length selected))) discarded)))"

text \<open>The candidates of a link list: its members with their distance to the node.\<close>

fun rank :: "('f, 'd) hnsw \<Rightarrow> 'f list \<Rightarrow> nat list \<Rightarrow> 'd candidate list option" where
  "rank h vec [] = Some []"
| "rank h vec (i # is) = (case getVector h i of None \<Rightarrow> None
     | Some v \<Rightarrow> (case rank h vec is of None \<Rightarrow> None
       | Some cs \<Rightarrow> Some (\<lparr>cID = i, Distance = distCalc h vec v\<rparr> # cs)))"

definition addConnection :: "('d candidate list \<Rightarrow> 'd candidate list) \<Rightarrow> nat \<Rightarrow> nat \<Rightarrow> int \<Rightarrow> int
    \<Rightarrow> ('f, 'd :: linorder) hnsw \<Rightarrow> ('f, 'd) hnsw option" where
  "addConnection srt fromID toID layer maxConn h =
    (case getConnections h fromID layer of None \<Rightarrow> None
     | Some cs \<Rightarrow>
         if toID \<in> set cs then Some h
         else if int (length cs) < maxConn then setConnections fromID layer (cs @ [toID]) h
         else (case getVector h fromID of None \<Rightarrow> None
           | Some fromVec \<Rightarrow> (case rank h fromVec (cs @ [toID]) of None \<Rightarrow> None
             | Some candidates \<Rightarrow> (case selectNeighborsHeuristic srt h candidates maxConn of None \<Rightarrow> None
               | Some selected \<Rightarrow> setConnections fromID layer (map cID selected) h))))"

fun add_reverse :: "('d candidate list \<Rightarrow> 'd candidate list) \<Rightarrow> nat \<Rightarrow> int \<Rightarrow> int \<Rightarrow> nat list
    \<Rightarrow> ('f, 'd :: linorder) hnsw \<Rightarrow> ('f, 'd) hnsw option" where
  "add_reverse srt toID layer maxConn [] h = Some h"
| "add_reverse srt toID layer maxConn (i # is) h =
    (case addConnection srt i toID layer maxConn h of None \<Rightarrow> None
     | Some h' \<Rightarrow> add_reverse srt toID layer maxConn is h')"

definition own_max :: "('f, 'd) hnsw \<Rightarrow> int \<Rightarrow> int" where
  "own_max h layer = (if layer = 0 then Mmax0 h else hM h)"

definition neighbor_max :: "('f, 'd) hnsw \<Rightarrow> int \<Rightarrow> int" where
  "neighbor_max h layer = (if layer = 0 then Mmax0 h else Mmax h)"

definition selectNeighbors :: "('d candidate list \<Rightarrow> 'd candidate list) \<Rightarrow> nat \<Rightarrow> 'd candidate list \<Rightarrow> int
    \<Rightarrow> ('f, 'd :: linorder) hnsw \<Rightarrow> ('f, 'd) hnsw option" where
  "selectNeighbors srt i candidates layer h =
    (case getVector h i of None \<Rightarrow> None
     | Some queryVec \<Rightarrow> (case selectNeighborsHeuristic srt h candidates (own_max h layer) of None \<Rightarrow> None
       | Some selected \<Rightarrow> (case setConnections i layer (map cID selected) h of None \<Rightarrow> None
         | Some h' \<Rightarrow> add_reverse srt i layer (neighbor_max h layer) (map cID selected) h')))"

section \<open>Insertion\<close>

definition MaxNodes :: nat where
  "MaxNodes = 4294967295"

definition insertNode :: "'f hnode \<Rightarrow> string \<Rightarrow> int \<Rightarrow> ('f, 'd) hnsw
    \<Rightarrow> hnsw_error + (nat \<times> nat \<times> int \<times> bool \<times> ('f, 'd) hnsw)" where
  "insertNode node pointID level h =
    (if length (nodes h) \<ge> MaxNodes then Inl ErrTooManyNodes
     else let i = length (nodes h);
              h = h\<lparr>nodes := nodes h @ [node], idToIndex := (pointID, i) # idToIndex h, nodeCount := nodeCount h + 1\<rparr>
          in if maxLevel h = -1 then Inr (i, 0, 0, True, h\<lparr>maxLevel := level, entryPoint := i\<rparr>)
             else let ep = entryPoint h; ml = maxLevel h;
                      h = (if level > ml then h\<lparr>maxLevel := level, entryPoint := i\<rparr> else h)
                  in Inr (i, ep, ml, False, h))"

text \<open>The descent from the top layer to the one above \<open>stop\<close>.\<close>

function descend :: "('f, 'd :: linorder) hnsw \<Rightarrow> 'f list \<Rightarrow> int \<Rightarrow> int \<Rightarrow> nat \<Rightarrow> nat option" where
  "descend h query l stop cur =
    (if l > stop then (case greedySearchLayer h query cur l of None \<Rightarrow> None
       | Some cur' \<Rightarrow> descend h query (l - 1) stop cur') else Some cur)"
  by auto
termination by (relation "measure (\<lambda>(h, query, l, stop, cur). nat (l - stop))") auto

function insert_layers :: "('d candidate list \<Rightarrow> 'd candidate list) \<Rightarrow> visited_list \<Rightarrow> 'f list \<Rightarrow> nat \<Rightarrow> int \<Rightarrow> nat
    \<Rightarrow> ('f, 'd :: linorder) hnsw \<Rightarrow> ('f, 'd) hnsw option" where
  "insert_layers srt vl query i l cur h =
    (if l \<ge> 0 then (case searchLayer vl h query cur (efConstruction h) l of None \<Rightarrow> None
       | Some neighbors \<Rightarrow> (case selectNeighbors srt i neighbors l h of None \<Rightarrow> None
         | Some h' \<Rightarrow> (case neighbors of [] \<Rightarrow> None
           | c # _ \<Rightarrow> insert_layers srt vl query i (l - 1) (cID c) h')))
     else Some h)"
  by auto
termination by (relation "measure (\<lambda>(srt, vl, query, i, l, cur, h). nat (l + 1))") auto

declare descend.simps [simp del] insert_layers.simps [simp del]

definition quantize :: "('f, 'd) hnsw \<Rightarrow> 'f list \<Rightarrow> byte list option" where
  "quantize h vec = (case hquantizer h of None \<Rightarrow> None | Some qz \<Rightarrow> q_Encode qz vec)"

definition Insert :: "('d candidate list \<Rightarrow> 'd candidate list) \<Rightarrow> visited_list \<Rightarrow> int \<Rightarrow> 'f point
    \<Rightarrow> ('f, 'd :: linorder) hnsw \<Rightarrow> (hnsw_error, ('f, 'd) hnsw) outcome" where
  "Insert srt vl level p h =
    (if int (length (pVector p)) \<noteq> dimension h then Err ErrDimensionMismatch
     else if map_of (idToIndex h) (pID p) \<noteq> None then Err ErrPointExists
     else let node = SetPayload (pPayload p)
                ((NewNode (pID p) (pVector p) level False)\<lparr>Quantized := quantize h (pVector p)\<rparr>)
          in case insertNode node (pID p) level h of
            Inl e \<Rightarrow> Err e
          | Inr (i, ep, ml, done, h') \<Rightarrow>
              if done then Ok h'
              else (case descend h' (pVector p) ml level ep of None \<Rightarrow> Panic
                | Some cur \<Rightarrow> of_option_panic (insert_layers srt vl (pVector p) i (min level ml) cur h')))"

section \<open>Queries and deletion\<close>

definition rescore :: "('d candidate list \<Rightarrow> 'd candidate list) \<Rightarrow> ('f, 'd :: linorder) hnsw \<Rightarrow> 'f list
    \<Rightarrow> 'd candidate list \<Rightarrow> 'd candidate list option" where
  "rescore srt h query candidates = (if hquantizer h = None then Some candidates
     else map_option srt (rank h query (map cID candidates)))"

definition SearchWithEf :: "('d candidate list \<Rightarrow> 'd candidate list) \<Rightarrow> visited_list \<Rightarrow> ('f, 'd :: linorder) hnsw
    \<Rightarrow> 'f list \<Rightarrow> int \<Rightarrow> int \<Rightarrow> (hnsw_error, 'd candidate list) outcome" where
  "SearchWithEf srt vl h query k ef =
    (if int (length query) \<noteq> dimension h then Err ErrDimensionMismatch
     else if maxLevel h = -1 then Ok []
     else let ef = (if ef < k then k else ef);
              searchEf = (if hquantizer h \<noteq> None then ef * 2 else ef)
          in (case descend h query (maxLevel h) 0 (entryPoint h) of None \<Rightarrow> Panic
            | Some cur \<Rightarrow> (case searchLayer vl h query cur searchEf 0 of None \<Rightarrow> Panic
              | Some candidates \<Rightarrow> (case rescore srt h query candidates of None \<Rightarrow> Panic
                | Some candidates \<Rightarrow> of_option_panic (top_k k candidates)))))"

definition Search :: "('d candidate list \<Rightarrow> 'd candidate list) \<Rightarrow> visited_list \<Rightarrow> ('f, 'd :: linorder) hnsw
    \<Rightarrow> 'f list \<Rightarrow> int \<Rightarrow> (hnsw_error, 'd candidate list) outcome" where
  "Search srt vl h query k = SearchWithEf srt vl h query k (efSearch h)"

definition Delete :: "string \<Rightarrow> ('f, 'd) hnsw \<Rightarrow> (hnsw_error, ('f, 'd) hnsw) outcome" where
  "Delete i h = (case map_of (idToIndex h) i of None \<Rightarrow> Err ErrPointNotFound
     | Some k \<Rightarrow> (case go_index (nodes h) k of None \<Rightarrow> Panic
       | Some n \<Rightarrow> if deleted n then Ok h
           else Ok (h\<lparr>nodes := (nodes h)[k := MarkDeleted n], deletedCount := deletedCount h + 1\<rparr>)))"

definition Get :: "string \<Rightarrow> ('f, 'd) hnsw \<Rightarrow> (hnsw_error, 'f point) outcome" where
  "Get i h = (case map_of (idToIndex h) i of None \<Rightarrow> Err ErrPointNotFound
     | Some k \<Rightarrow> (case go_index (nodes h) k of None \<Rightarrow> Panic
       | Some n \<Rightarrow> if deleted n then Err ErrPointNotFound
           else Ok \<lparr>pID = nodeID n, pVector = Vector n, pPayload = GetPayload n\<rparr>))"

definition Size :: "('f, 'd) hnsw \<Rightarrow> int" where
  "Size h = nodeCount h - deletedCount h"

definition TotalSize :: "('f, 'd) hnsw \<Rightarrow> int" where
  "TotalSize h = nodeCount h"

definition SetEfSearch :: "int \<Rightarrow> ('f, 'd) hnsw \<Rightarrow> ('f, 'd) hnsw" where
  "SetEfSearch ef h = h\<lparr>efSearch := ef\<rparr>"

definition GetNodeID :: "('f, 'd) hnsw \<Rightarrow> string \<Rightarrow> nat option" where
  "GetNodeID h i = map_of (idToIndex h) i"

definition GetPointID :: "('f, 'd) hnsw \<Rightarrow> nat \<Rightarrow> string" where
  "GetPointID h i = (if i \<ge> length (nodes h) then [] else nodeID (nodes h ! i))"

definition GetAllPoints :: "('f, 'd) hnsw \<Rightarrow> 'f point list" where
  "GetAllPoints h = map (\<lambda>n. \<lparr>pID = nodeID n, pVector = Vector n, pPayload = GetPayload n\<rparr>)
     (filter (\<lambda>n. \<not> deleted n) (nodes h))"

text \<open>Iteration with a callback that may stop it with an error.\<close>

fun iterate_nodes :: "('s \<Rightarrow> string \<Rightarrow> 'e + 's) \<Rightarrow> 'f hnode list \<Rightarrow> 's \<Rightarrow> 'e option \<times> 's" where
  "iterate_nodes fn [] s = (None, s)"
| "iterate_nodes fn (n # ns) s = (if deleted n then iterate_nodes fn ns s
     else case fn s (nodeID n) of Inl e \<Rightarrow> (Some e, s) | Inr s' \<Rightarrow> iterate_nodes fn ns s')"

definition Iterate :: "('s \<Rightarrow> string \<Rightarrow> 'e + 's) \<Rightarrow> ('f, 'd) hnsw \<Rightarrow> 's \<Rightarrow> 'e option \<times> 's" where
  "Iterate fn h s = iterate_nodes fn (nodes h) s"

end
