(* ===== verification/Hnsw_Search.thy ===== *)
theory Hnsw_Search
  imports Hnsw_Graph
begin

text \<open>
  The searches of a well-formed graph: they never index out of range, the greedy walk ends in a
  local minimum, and the best-first search returns distinct reachable nodes with their distances in
  order, all of them when the beam is wide enough.
\<close>

section \<open>Well-formed graphs\<close>

definition graph_ok :: "('f, 'd) hnsw \<Rightarrow> bool" where
  "graph_ok h \<longleftrightarrow> (\<forall>n \<in> set (nodes h). node_ok n)
     \<and> (\<forall>i < length (nodes h). \<forall>l. \<forall>j \<in> set (conns (nodes h ! i) l).
          j < length (nodes h) \<and> j \<noteq> i \<and> l \<le> Level (nodes h ! j))"

abbreviation links :: "('f, 'd) hnsw \<Rightarrow> nat \<Rightarrow> int \<Rightarrow> nat list" where
  "links h i l \<equiv> conns (nodes h ! i) l"

abbreviation live :: "('f, 'd) hnsw \<Rightarrow> nat \<Rightarrow> bool" where
  "live h i \<equiv> \<not> deleted (nodes h ! i)"

definition dist_to :: "('f, 'd) hnsw \<Rightarrow> 'f list \<Rightarrow> nat \<Rightarrow> 'd" where
  "dist_to h query i = (case (hquantizer h, Quantized (nodes h ! i)) of
     (Some qz, Some code) \<Rightarrow> q_Distance qz query code
   | _ \<Rightarrow> distCalc h query (Vector (nodes h ! i)))"

lemma go_index_ok [simp]: "i < length xs \<Longrightarrow> go_index xs i = Some (xs ! i)"
  by (simp add: go_index_def)

lemma node_distance_ok [simp]: "i < length (nodes h) \<Longrightarrow> node_distance h query i = Some (dist_to h query i)"
  by (simp add: node_distance_def dist_to_def)

lemma getVector_ok [simp]: "i < length (nodes h) \<Longrightarrow> getVector h i = Some (Vector (nodes h ! i))"
  by (simp add: getVector_def)

lemma getConnections_ok: "graph_ok h \<Longrightarrow> i < length (nodes h) \<Longrightarrow> getConnections h i l = Some (links h i l)"
  by (simp add: getConnections_def GetConnections_ok graph_ok_def)

lemma links_bound: "graph_ok h \<Longrightarrow> i < length (nodes h) \<Longrightarrow> j \<in> set (links h i l) \<Longrightarrow> j < length (nodes h)"
  by (auto simp: graph_ok_def)

text \<open>A set of nodes a search on a layer cannot leave.\<close>

definition closed_under :: "('f, 'd) hnsw \<Rightarrow> int \<Rightarrow> (nat \<Rightarrow> bool) \<Rightarrow> bool" where
  "closed_under h l P \<longleftrightarrow> (\<forall>i. P i \<longrightarrow> i < length (nodes h) \<and> (\<forall>j \<in> set (links h i l). live h j \<longrightarrow> P j))"

lemma closed_underD:
  "closed_under h l P \<Longrightarrow> P i \<Longrightarrow> i < length (nodes h)"
  "closed_under h l P \<Longrightarrow> P i \<Longrightarrow> j \<in> set (links h i l) \<Longrightarrow> live h j \<Longrightarrow> P j"
  by (auto simp: closed_under_def)

section \<open>The greedy walk\<close>

lemma greedy_scan_total:
  "\<forall>nb \<in> set nbs. nb < length (nodes h) \<Longrightarrow> \<exists>st. greedy_scan h query nbs (cur, d, ch) = Some st"
  by (induction nbs arbitrary: cur d ch) auto

lemma greedy_scan_mono:
  "greedy_scan h query nbs (cur, d, True) = Some (cur', d', ch') \<Longrightarrow> ch'"
  using greedy_scan_progress by blast

lemma greedy_scan_unchanged:
  assumes "\<forall>nb \<in> set nbs. nb < length (nodes h)"
    and "greedy_scan h query nbs (cur, d, False) = Some (cur', d', False)"
  shows "\<forall>nb \<in> set nbs. live h nb \<longrightarrow> \<not> dist_to h query nb < d"
  using assms
proof (induction nbs arbitrary: cur d)
  case (Cons nb nbs)
  from Cons.prems(1) have nb: "nb < length (nodes h)" by simp
  have s: "\<not> (live h nb \<and> dist_to h query nb < d)"
    using Cons.prems nb greedy_scan_mono [of h query nbs nb "dist_to h query nb" cur' d' False] by auto
  then have "greedy_scan h query nbs (cur, d, False) = Some (cur', d', False)"
    using Cons.prems nb by (auto split: if_splits)
  with Cons.IH Cons.prems(1) s show ?case by auto
qed simp

lemma greedy_scan_live:
  assumes "\<forall>nb \<in> set nbs. nb < length (nodes h)"
    and "greedy_scan h query nbs (cur, d, ch) = Some (cur', d', ch')"
  shows "cur' = cur \<or> (cur' \<in> set nbs \<and> live h cur')"
  using assms
proof (induction nbs arbitrary: cur d ch)
  case (Cons nb nbs)
  from Cons.prems(1) have nb: "nb < length (nodes h)" by simp
  have "\<exists>cur2 d2 ch2. greedy_scan h query nbs (cur2, d2, ch2) = Some (cur', d', ch') \<and> (cur2 = cur \<or> cur2 = nb \<and> live h nb)"
    using Cons.prems nb by (auto split: if_splits)
  then obtain cur2 d2 ch2 where g: "greedy_scan h query nbs (cur2, d2, ch2) = Some (cur', d', ch')"
    and c: "cur2 = cur \<or> cur2 = nb \<and> live h nb" by blast
  from Cons.IH [OF _ g] Cons.prems(1) c show ?case by auto
qed simp

lemma greedy_loop_ok:
  assumes "graph_ok h" and "closed_under h layer P"
  shows "P cur \<Longrightarrow> d = dist_to h query cur \<Longrightarrow>
    \<exists>c. greedy_loop h query layer cur d = Some c \<and> P c \<and> dist_to h query c \<le> d
      \<and> (\<forall>j \<in> set (links h c layer). live h j \<longrightarrow> dist_to h query c \<le> dist_to h query j)"
proof (induction "card (closer_nodes h query d)" arbitrary: cur d rule: less_induct)
  case less
  have cur: "cur < length (nodes h)" using closed_underD(1) [OF assms(2) less.prems(1)] .
  have nb: "\<forall>nb \<in> set (links h cur layer). nb < length (nodes h)"
    using links_bound [OF assms(1) cur] by blast
  from greedy_scan_total [OF nb] obtain cur' d' ch where
    s: "greedy_scan h query (links h cur layer) (cur, d, False) = Some (cur', d', ch)" by (metis prod_cases3)
  show ?case
  proof (cases ch)
    case True
    with greedy_scan_progress [OF s] have p: "d' < d" "cur' < length (nodes h)" "node_distance h query cur' = Some d'"
      "cur' \<in> set (links h cur layer)" by auto
    then have d': "d' = dist_to h query cur'" by simp
    have "cur' \<noteq> cur" using p(1) d' less.prems(2) by auto
    with greedy_scan_live [OF nb s] have "live h cur'" by blast
    with p(4) have P': "P cur'" using closed_underD(2) [OF assms(2) less.prems(1)] by blast
    from less.hyps [OF closer_nodes_less [OF p(3,1,2)] P' d'] obtain c where
      c: "greedy_loop h query layer cur' d' = Some c" "P c" "dist_to h query c \<le> d'"
        "\<forall>j \<in> set (links h c layer). live h j \<longrightarrow> dist_to h query c \<le> dist_to h query j" by blast
    have "greedy_loop h query layer cur d = Some c"
      using s True c(1) by (subst greedy_loop.simps) (simp add: getConnections_ok [OF assms(1) cur])
    with c p(1) show ?thesis by auto
  next
    case False
    with greedy_scan_progress [OF s] have e: "cur' = cur" "d' = d" by auto
    have "greedy_loop h query layer cur d = Some cur"
      using s False e by (subst greedy_loop.simps) (simp add: getConnections_ok [OF assms(1) cur])
    moreover have "\<forall>j \<in> set (links h cur layer). live h j \<longrightarrow> \<not> dist_to h query j < d"
      using greedy_scan_unchanged [OF nb] s False by simp
    ultimately show ?thesis using less.prems by (auto simp: not_less)
  qed
qed

lemma greedySearchLayer_ok:
  assumes "graph_ok h" and "closed_under h layer P" and "P entry"
  obtains c where "greedySearchLayer h query entry layer = Some c" and "P c"
    and "dist_to h query c \<le> dist_to h query entry"
    and "\<forall>j \<in> set (links h c layer). live h j \<longrightarrow> dist_to h query c \<le> dist_to h query j"
  using greedy_loop_ok [OF assms refl, of query] closed_underD(1) [OF assms(2,3)]
  by (auto simp: greedySearchLayer_def)

section \<open>Best-first search\<close>

text \<open>What the search keeps: both heaps are heaps, every candidate is a node of the explored region
  with its distance and has been visited, the results are distinct and at most \<open>ef\<close>.\<close>

definition cand_ok :: "('f, 'd :: linorder) hnsw \<Rightarrow> 'f list \<Rightarrow> (nat \<Rightarrow> bool) \<Rightarrow> visited_list \<Rightarrow> 'd candidate \<Rightarrow> bool" where
  "cand_ok h query P vl c \<longleftrightarrow> P (cID c) \<and> vl_Contains vl (cID c) \<and> Distance c = dist_to h query (cID c)"

fun search_inv :: "('f, 'd :: linorder) hnsw \<Rightarrow> 'f list \<Rightarrow> int \<Rightarrow> (nat \<Rightarrow> bool) \<Rightarrow> 'd search_state \<Rightarrow> bool" where
  "search_inv h query ef P (vl, cands, results) \<longleftrightarrow>
     vl_ok vl \<and> is_heap nearer cands \<and> is_heap farther results \<and> results \<noteq> []
     \<and> int (length results) \<le> max ef 1 \<and> distinct (map cID results)
     \<and> (\<forall>c \<in> set cands \<union> set results. cand_ok h query P vl c)"

lemma heap_push_set [simp]: "set (heap_push lt h x) = insert x (set h)"
  by (metis heap_push_elems set_mset_add_mset_insert set_mset_mset)

lemma heap_push_length [simp]: "length (heap_push lt h x) = Suc (length h)"
  by (metis heap_push_elems size_add_mset size_mset)

lemma trim_push:
  assumes "is_heap farther results" and "results \<noteq> []" and "int (length results) \<le> max ef 1"
  obtains r where "trim ef (heap_push farther results c) = Some r" and "is_heap farther r"
    and "set r \<subseteq> insert c (set results)" and "r \<noteq> []" and "int (length r) \<le> max ef 1"
    and "distinct (map cID (c # results)) \<Longrightarrow> distinct (map cID r)"
    and "int (length results) < ef \<Longrightarrow> set r = insert c (set results)"
proof -
  let ?p = "heap_push farther results c"
  have hp: "is_heap farther ?p" by (rule far_order.heap_push_ok [OF assms(1)])
  have mp: "mset ?p = mset (c # results)" by (simp add: heap_push_elems)
  show ?thesis
  proof (cases "int (length ?p) > ef")
    case True
    have "?p \<noteq> []" by (metis heap_push_length length_0_conv nat.distinct(1))
    then obtain x r where x: "heap_pop farther ?p = Some (x, r)"
      using heap_pop_None [of farther ?p] by (cases "heap_pop farther ?p") auto
    have m: "mset (c # results) = mset (x # r)" using heap_pop_elems [OF x] mp by simp
    then have s: "set (c # results) = set (x # r)" and l: "length (c # results) = length (x # r)"
      by (rule mset_eq_setD, metis m size_mset)
    have "mset (map cID (c # results)) = mset (map cID (x # r))" using m by (metis mset_map)
    then have d: "distinct (map cID (c # results)) \<longleftrightarrow> distinct (map cID (x # r))"
      by (rule mset_eq_imp_distinct_iff)
    show ?thesis
    proof (rule that [of r])
      show "trim ef ?p = Some r" using True x by (simp add: trim_def)
      show "is_heap farther r" by (rule far_order.heap_pop_ok(1) [OF hp x])
      show "set r \<subseteq> insert c (set results)" using s by auto
      show "r \<noteq> []" using l assms(2) by auto
      show "int (length r) \<le> max ef 1" using l assms(3) by simp
      show "distinct (map cID r)" if "distinct (map cID (c # results))" using d that by simp
      show "set r = insert c (set results)" if "int (length results) < ef" using that True by simp
    qed
  next
    case False
    show ?thesis
    proof (rule that [of ?p])
      show "distinct (map cID ?p)" if "distinct (map cID (c # results))"
        using mset_eq_imp_distinct_iff [of "map cID ?p" "map cID (c # results)"] that mp by (metis mset_map)
      show "?p \<noteq> []" by (metis heap_push_length length_0_conv nat.distinct(1))
    qed (use False hp in \<open>auto simp: trim_def\<close>)
  qed
qed

lemma cand_ok_Add: "vl_ok vl \<Longrightarrow> cand_ok h query P vl c \<Longrightarrow> cand_ok h query P (snd (vl_Add i vl)) c"
  by (simp add: cand_ok_def vl_Contains_Add)

text \<open>One neighbour. The second part is what a beam wider than the results guarantees: a live
  neighbour seen for the first time joins both heaps, and nothing is dropped.\<close>

definition absorbs :: "('f, 'd) hnsw \<Rightarrow> nat list \<Rightarrow> 'd search_state \<Rightarrow> 'd search_state \<Rightarrow> bool" where
  "absorbs h nbs st st' \<longleftrightarrow> (case st of (vl, cands, results) \<Rightarrow> case st' of (vl', cands', results') \<Rightarrow>
     (\<forall>i. vl_Contains vl' i \<longleftrightarrow> vl_Contains vl i \<or> i \<in> set nbs)
     \<and> set cands \<subseteq> set cands' \<and> set results \<subseteq> set results'
     \<and> (\<forall>c \<in> set results'. c \<in> set results \<or> c \<in> set cands')
     \<and> (\<forall>i \<in> set nbs. live h i \<longrightarrow> vl_Contains vl i \<or> i \<in> cID ` set results'))"

lemma absorbs_refl: "absorbs h [] st st"
  by (auto simp: absorbs_def split: prod.split)

lemma absorbs_trans: "absorbs h [nb] st st' \<Longrightarrow> absorbs h nbs st' st'' \<Longrightarrow> absorbs h (nb # nbs) st st''"
  unfolding absorbs_def by (cases st; cases st'; cases st'') (simp, blast)

lemma explore_one_ok:
  assumes i: "search_inv h query ef P st" and nb: "nb < length (nodes h)" and P: "live h nb \<Longrightarrow> P nb"
  obtains st' where "explore_one h query ef nb st = Some st'" and "search_inv h query ef P st'"
    and "int (length (nodes h)) < ef \<Longrightarrow> length (snd (snd st)) \<le> length (nodes h) \<Longrightarrow> absorbs h [nb] st st'"
proof -
  obtain vl cands results where st: "st = (vl, cands, results)" by (cases st)
  from i st have vl: "vl_ok vl" and ne: "results \<noteq> []" and far: "is_heap farther results"
    and len: "int (length results) \<le> max ef 1" by simp_all
  obtain seen v where v: "vl_Add nb vl = (seen, v)" by (cases "vl_Add nb vl")
  have seen: "seen \<longleftrightarrow> vl_Contains vl nb" using vl_Add_fst [OF vl, of nb] v by simp
  have vok: "vl_ok v" using vl_ok_Add [OF vl, of nb] v by simp
  have vc: "vl_Contains v j \<longleftrightarrow> j = nb \<or> vl_Contains vl j" for j using vl_Contains_Add [OF vl, of nb j] v by simp
  have keep: "cand_ok h query P v c" if "cand_ok h query P vl c" for c
    using that cand_ok_Add [OF vl, of h query P c nb] v by simp
  have inv_same: "search_inv h query ef P (v, cands, results)" using i st vok keep by auto
  obtain b where b: "better ef (dist_to h query nb) results = Some b"
    using ne by (cases "int (length results) < ef") (auto simp: better_def)
  consider "seen \<or> deleted (nodes h ! nb)" | "\<not> seen" "live h nb" "better ef (dist_to h query nb) results = Some False"
    | "\<not> seen" "live h nb" "better ef (dist_to h query nb) results = Some True"
    using b by (cases b) auto
  then show ?thesis
  proof cases
    case 1
    show ?thesis by (rule that [of "(v, cands, results)"])
        (use 1 inv_same st v nb vc seen in \<open>auto simp: explore_one_def absorbs_def\<close>)
  next
    case 2
    have n: "\<not> int (length results) < ef" using 2(3) by (auto simp: better_def)
    show ?thesis by (rule that [of "(v, cands, results)"])
        (use 2 n inv_same st v nb in \<open>auto simp: explore_one_def\<close>)
  next
    case 3
    let ?c = "\<lparr>cID = nb, Distance = dist_to h query nb\<rparr>"
    from trim_push [OF far ne len] obtain r where r: "trim ef (heap_push farther results ?c) = Some r"
      "is_heap farther r" "set r \<subseteq> insert ?c (set results)" "r \<noteq> []" "int (length r) \<le> max ef 1"
      "distinct (map cID (?c # results)) \<Longrightarrow> distinct (map cID r)"
      "int (length results) < ef \<Longrightarrow> set r = insert ?c (set results)" by blast
    let ?st = "(v, heap_push nearer cands ?c, r)"
    have "nb \<notin> cID ` set results" using i st 3(1) seen by (auto simp: cand_ok_def)
    then have d: "distinct (map cID r)" using r(6) i st by simp
    have c: "cand_ok h query P v ?c" using P [OF 3(2)] vc by (simp add: cand_ok_def)
    have all: "\<forall>c \<in> set (heap_push nearer cands ?c) \<union> set r. cand_ok h query P v c"
      using i st keep c r(3) by auto
    have near: "is_heap nearer (heap_push nearer cands ?c)" using i st by (simp add: near_order.heap_push_ok)
    show ?thesis
    proof (rule that [of ?st])
      show "explore_one h query ef nb st = Some ?st"
        using 3 st v nb r(1) by (simp add: explore_one_def Let_def)
      show "search_inv h query ef P ?st" using vok near r d all by simp
      show "absorbs h [nb] st ?st" if "int (length (nodes h)) < ef" "length (snd (snd st)) \<le> length (nodes h)"
        using that r(7) st vc by (auto simp: absorbs_def)
    qed
  qed
qed

lemma search_inv_length:
  assumes "search_inv h query ef P st" and "\<And>i. P i \<Longrightarrow> i < length (nodes h)"
  shows "length (snd (snd st)) \<le> length (nodes h)"
proof -
  obtain vl cands results where st: "st = (vl, cands, results)" by (cases st)
  with assms have "set (map cID results) \<subseteq> {..<length (nodes h)}" "distinct (map cID results)"
    by (auto simp: cand_ok_def)
  then have "length (map cID results) \<le> card {..<length (nodes h)}"
    by (metis card_mono distinct_card finite_lessThan)
  then show ?thesis by (simp add: st)
qed

lemma explore_ok:
  assumes "search_inv h query ef P st" and "\<forall>nb \<in> set nbs. nb < length (nodes h) \<and> (live h nb \<longrightarrow> P nb)"
    and b: "\<And>i. P i \<Longrightarrow> i < length (nodes h)"
  shows "\<exists>st'. explore h query ef nbs st = Some st' \<and> search_inv h query ef P st'
    \<and> (int (length (nodes h)) < ef \<longrightarrow> absorbs h nbs st st')"
  using assms(1,2)
proof (induction nbs arbitrary: st)
  case Nil
  then show ?case by (simp add: absorbs_refl)
next
  case (Cons nb nbs)
  then have nb: "nb < length (nodes h)" "live h nb \<Longrightarrow> P nb" by auto
  from explore_one_ok [OF Cons.prems(1) nb] obtain st1 where s: "explore_one h query ef nb st = Some st1"
    "search_inv h query ef P st1"
    "int (length (nodes h)) < ef \<Longrightarrow> length (snd (snd st)) \<le> length (nodes h) \<Longrightarrow> absorbs h [nb] st st1" by blast
  from Cons.IH [OF s(2)] Cons.prems(2) obtain st2 where t: "explore h query ef nbs st1 = Some st2"
    "search_inv h query ef P st2" "int (length (nodes h)) < ef \<longrightarrow> absorbs h nbs st1 st2" by auto
  from s t search_inv_length [OF Cons.prems(1) b] show ?case by (auto intro: absorbs_trans)
qed

text \<open>The loop: popped candidates are expanded; at the end, with a wide beam, the visited live nodes
  are the results and the region is exhausted.\<close>

definition expanded :: "('f, 'd) hnsw \<Rightarrow> int \<Rightarrow> 'd search_state \<Rightarrow> bool" where
  "expanded h layer st \<longleftrightarrow> (case st of (vl, cands, results) \<Rightarrow>
     (\<forall>i. vl_Contains vl i \<longrightarrow> live h i \<longrightarrow> i \<in> cID ` set results)
     \<and> (\<forall>c \<in> set results. c \<in> set cands \<or> (\<forall>j \<in> set (links h (cID c) layer). vl_Contains vl j)))"

definition exhausts :: "('f, 'd) hnsw \<Rightarrow> int \<Rightarrow> 'd candidate list \<Rightarrow> bool" where
  "exhausts h layer results \<longleftrightarrow> (\<forall>c \<in> set results. \<forall>j \<in> set (links h (cID c) layer). live h j \<longrightarrow> j \<in> cID ` set results)"

definition results_ok :: "('f, 'd :: linorder) hnsw \<Rightarrow> 'f list \<Rightarrow> int \<Rightarrow> (nat \<Rightarrow> bool) \<Rightarrow> 'd candidate list \<Rightarrow> bool" where
  "results_ok h query ef P results \<longleftrightarrow> results \<noteq> [] \<and> int (length results) \<le> max ef 1
     \<and> distinct (map cID results) \<and> (\<forall>c \<in> set results. P (cID c) \<and> Distance c = dist_to h query (cID c))"

lemma search_inv_results:
  "search_inv h query ef P (vl, cands, results) \<Longrightarrow> is_heap farther results \<and> results_ok h query ef P results"
  by (auto simp: results_ok_def cand_ok_def)

lemma expanded_step:
  assumes e: "expanded h layer (vl, cands, results)" and p: "heap_pop nearer cands = Some (c, cands')"
    and a: "absorbs h (links h (cID c) layer) (vl, cands', results) st'"
  shows "expanded h layer st'"
proof -
  obtain v cs r where st': "st' = (v, cs, r)" by (cases st')
  have m: "set cands = insert c (set cands')" using heap_pop_elems [OF p] by (metis set_mset_add_mset_insert set_mset_mset)
  note a' = a [unfolded absorbs_def st' prod.case]
  show ?thesis unfolding expanded_def st' prod.case
  proof (intro conjI allI ballI impI)
    fix j assume j: "vl_Contains v j" "live h j"
    have "cID ` set results \<subseteq> cID ` set r" using a' by (intro image_mono) blast
    moreover have "vl_Contains vl j \<Longrightarrow> j \<in> cID ` set results" using e j(2) by (simp add: expanded_def)
    moreover have "vl_Contains vl j \<or> j \<in> cID ` set r" using a' j by blast
    ultimately show "j \<in> cID ` set r" by blast
  next
    fix d assume d: "d \<in> set r"
    show "d \<in> set cs \<or> (\<forall>j \<in> set (links h (cID d) layer). vl_Contains v j)"
    proof (cases "d \<in> set results")
      case True
      with e have "d \<in> set cands \<or> (\<forall>j \<in> set (links h (cID d) layer). vl_Contains vl j)" by (auto simp: expanded_def)
      with m a' show ?thesis by auto
    next
      case False
      with d a' show ?thesis by auto
    qed
  qed
qed

lemma search_loop_ok:
  "graph_ok h \<Longrightarrow> closed_under h layer P \<Longrightarrow> search_inv h query ef P st \<Longrightarrow>
    \<exists>r. search_loop h query ef layer st = Some r \<and> is_heap farther r \<and> results_ok h query ef P r
      \<and> (int (length (nodes h)) < ef \<and> expanded h layer st \<longrightarrow> exhausts h layer r \<and> set (snd (snd st)) \<subseteq> set r)"
proof (induction h query ef layer st rule: search_loop.induct)
  case (1 h query ef layer vl cands results)
  note i = "1.prems"(3)
  have bound: "\<And>i. P i \<Longrightarrow> i < length (nodes h)" using closed_underD(1) [OF "1.prems"(2)] .
  show ?case
  proof (cases "heap_pop nearer cands")
    case None
    then have "cands = []" by (simp add: heap_pop_None)
    with None search_inv_results [OF i] show ?thesis
      by (subst search_loop.simps) (auto simp: expanded_def exhausts_def)
  next
    case (Some p)
    then obtain c cands' where p: "heap_pop nearer cands = Some (c, cands')" by (cases p) auto
    have m: "set cands = insert c (set cands')" using heap_pop_elems [OF p] by (metis set_mset_add_mset_insert set_mset_mset)
    have i1: "search_inv h query ef P (vl, cands', results)"
      using i m near_order.heap_pop_ok(1) [OF _ p] by auto
    have Pc: "P (cID c)" using i m by (auto simp: cand_ok_def)
    have ne: "results \<noteq> []" using i by simp
    then obtain b where b: "stop_at ef c results = Some b"
      by (cases "int (length results) \<ge> ef") (auto simp: stop_at_def)
    show ?thesis
    proof (cases b)
      case True
      then have "ef \<le> int (length results)" using b by (auto simp: stop_at_def split: if_splits)
      also have "length results \<le> length (nodes h)" using search_inv_length [OF i bound] by simp
      finally have "\<not> int (length (nodes h)) < ef" by simp
      with b True p search_inv_results [OF i] show ?thesis by (subst search_loop.simps) simp
    next
      case False
      then have bf: "b = False" by simp
      have l: "getConnections h (cID c) layer = Some (links h (cID c) layer)"
        by (rule getConnections_ok [OF "1.prems"(1) bound [OF Pc]])
      have nbs: "\<forall>nb \<in> set (links h (cID c) layer). nb < length (nodes h) \<and> (live h nb \<longrightarrow> P nb)"
        using links_bound [OF "1.prems"(1) bound [OF Pc]] closed_underD(2) [OF "1.prems"(2) Pc] by blast
      from explore_ok [OF i1 nbs bound] obtain st' where
        e: "explore h query ef (links h (cID c) layer) (vl, cands', results) = Some st'"
        and i2: "search_inv h query ef P st'"
        and a: "int (length (nodes h)) < ef \<longrightarrow> absorbs h (links h (cID c) layer) (vl, cands', results) st'" by blast
      from "1.IH" [OF p refl b bf l e "1.prems"(1,2) i2]
      obtain r where r: "search_loop h query ef layer st' = Some r" "is_heap farther r" "results_ok h query ef P r"
        "int (length (nodes h)) < ef \<and> expanded h layer st' \<longrightarrow> exhausts h layer r \<and> set (snd (snd st')) \<subseteq> set r" by blast
      have "search_loop h query ef layer (vl, cands, results) = Some r"
        using p b False l e r(1) by (subst search_loop.simps) simp
      moreover have "exhausts h layer r \<and> set results \<subseteq> set r"
        if w: "int (length (nodes h)) < ef" "expanded h layer (vl, cands, results)"
      proof -
        from a w(1) have ab: "absorbs h (links h (cID c) layer) (vl, cands', results) st'" by blast
        have "expanded h layer st'" by (rule expanded_step [OF w(2) p ab])
        with r(4) w(1) ab show ?thesis by (auto simp: absorbs_def split: prod.splits)
      qed
      ultimately show ?thesis using r by auto
    qed
  qed
qed

text \<open>Reachability on a layer through live nodes.\<close>

inductive reach :: "('f, 'd) hnsw \<Rightarrow> int \<Rightarrow> nat \<Rightarrow> nat \<Rightarrow> bool" for h layer entry where
  start: "reach h layer entry entry"
| step: "reach h layer entry i \<Longrightarrow> j \<in> set (links h i layer) \<Longrightarrow> live h j \<Longrightarrow> reach h layer entry j"

lemma reach_closed:
  assumes "graph_ok h" and "entry < length (nodes h)"
  shows "closed_under h layer (reach h layer entry)"
proof -
  have "i < length (nodes h)" if "reach h layer entry i" for i
    using that by induction (auto simp: assms links_bound [OF assms(1)])
  then show ?thesis by (auto simp: closed_under_def intro: reach.step)
qed

lemma searchLayer_ok:
  assumes g: "graph_ok h" and P: "closed_under h layer P" "P entry" and v: "vl_stamped vl"
  obtains r where "searchLayer vl h query entry ef layer = Some r" and "results_ok h query ef P r"
    and "sorted (map Distance r)"
    and "int (length (nodes h)) < ef \<Longrightarrow> cID ` set r = {i. reach h layer entry i}"
proof -
  have en: "entry < length (nodes h)" using closed_underD(1) [OF P] .
  let ?vl = "snd (vl_Add entry (vl_Reset vl))"
  let ?c = "\<lparr>cID = entry, Distance = dist_to h query entry\<rparr>"
  let ?st = "(?vl, heap_push nearer [] ?c, heap_push farther [] ?c)"
  have vk: "vl_ok (vl_Reset vl)" by (rule vl_Reset_ok [OF v])
  have vc: "vl_Contains ?vl j \<longleftrightarrow> j = entry" for j
    using vl_Contains_Add [OF vk, of entry j] vl_Reset_empty [OF v] by simp
  have hp: "heap_push lt [] c = [c]" for lt :: "'d candidate \<Rightarrow> _" and c
    by (simp add: heap_push_def heap_up.simps)
  have inv: "search_inv h query ef Q ?st" if "Q entry" for Q
    using that vl_ok_Add [OF vk] vc by (simp add: hp is_heap_def heap_upto_def cand_ok_def)
  have ex: "expanded h layer ?st" by (simp add: expanded_def vc hp)
  from search_loop_ok [OF g P(1) inv [of P], OF P(2)] obtain r where
    r: "search_loop h query ef layer ?st = Some r" "is_heap farther r" "results_ok h query ef P r" 
       "int (length (nodes h)) < ef \<longrightarrow> exhausts h layer r \<and> ?c \<in> set r"
    using ex by (auto simp: hp)
  let ?out = "rev (pop_all (heap_pop farther) (length r) r)"
  have m: "mset ?out = mset r" using far.pop_all_elems [of r "length r"] by simp
  have srt: "sorted (map Distance ?out)"
    using far.pop_all_sorted [OF r(2), of "length r"]
    by (simp add: sorted_wrt_rev sorted_wrt_map farther_def not_less)
  have so: "set ?out = set r" using m by (rule mset_eq_setD)
  have "mset (map cID ?out) = mset (map cID r)" using m by (metis mset_map)
  from mset_eq_imp_distinct_iff [OF this] have d: "distinct (map cID ?out)" using r(3) by (simp add: results_ok_def)
  have lo: "length ?out = length r" using m by (metis size_mset)
  show ?thesis
  proof (rule that [of ?out])
    show "searchLayer vl h query entry ef layer = Some ?out"
      using r(1) en by (simp add: searchLayer_def Let_def)
    show "results_ok h query ef P ?out" using r(3) d lo so by (auto simp: results_ok_def)
    show "sorted (map Distance ?out)" by (rule srt)
    assume w: "int (length (nodes h)) < ef"
    have "i \<in> cID ` set r" if "reach h layer entry i" for i
      using that
    proof induction
      case start
      then show ?case using r(4) w by force
    next
      case (step i j)
      then show ?case using r(4) w by (auto simp: exhausts_def)
    qed
    moreover from search_loop_ok [OF g reach_closed [OF g en] inv [of "reach h layer entry"], OF reach.start]
    have "reach h layer entry i" if "i \<in> cID ` set r" for i
      using that r(1) by (auto simp: results_ok_def)
    ultimately show "cID ` set ?out = {i. reach h layer entry i}" using so by auto
  qed
qed

end
