(* ===== verification/Hnsw_Insert.thy ===== *)
theory Hnsw_Insert
  imports Hnsw_Search
begin

text \<open>
  The invariant of the HNSW index and its preservation by the operations that change the graph:
  linking, neighbour selection, insertion and deletion.
\<close>

section \<open>The invariant\<close>

definition degree_ok :: "('f, 'd) hnsw \<Rightarrow> bool" where
  "degree_ok h \<longleftrightarrow> (\<forall>i < length (nodes h). \<forall>l. int (length (links h i l)) \<le> neighbor_max h l)"

definition index_ok :: "('f, 'd) hnsw \<Rightarrow> bool" where
  "index_ok h \<longleftrightarrow> (\<forall>i < length (nodes h). map_of (idToIndex h) (nodeID (nodes h ! i)) = Some i)
     \<and> (\<forall>p i. map_of (idToIndex h) p = Some i \<longrightarrow> i < length (nodes h) \<and> nodeID (nodes h ! i) = p)"

definition top_ok :: "('f, 'd) hnsw \<Rightarrow> bool" where
  "top_ok h \<longleftrightarrow> (if nodes h = [] then maxLevel h = -1
     else entryPoint h < length (nodes h) \<and> Level (nodes h ! entryPoint h) = maxLevel h
       \<and> (\<forall>n \<in> set (nodes h). Level n \<le> maxLevel h))"

definition counts_ok :: "('f, 'd) hnsw \<Rightarrow> bool" where
  "counts_ok h \<longleftrightarrow> nodeCount h = int (length (nodes h))
     \<and> deletedCount h = int (length (filter deleted (nodes h)))"

definition params_ok :: "('f, 'd) hnsw \<Rightarrow> bool" where
  "params_ok h \<longleftrightarrow> 2 \<le> hM h \<and> Mmax h = hM h \<and> Mmax0 h = 2 * hM h \<and> 0 < dimension h
     \<and> (\<forall>n \<in> set (nodes h). int (length (Vector n)) = dimension h)"

definition hnsw_inv :: "('f, 'd) hnsw \<Rightarrow> bool" where
  "hnsw_inv h \<longleftrightarrow> graph_ok h \<and> degree_ok h \<and> index_ok h \<and> top_ok h \<and> counts_ok h \<and> params_ok h"

lemma New_inv: "New cfg = Inr h \<Longrightarrow> hnsw_inv h"
  by (auto simp: New_def hnsw_inv_def graph_ok_def degree_ok_def index_ok_def top_ok_def counts_ok_def
      params_ok_def split: if_splits)

lemma max_eq: "params_ok h \<Longrightarrow> own_max h l = neighbor_max h l \<and> 2 \<le> neighbor_max h l"
  by (auto simp: params_ok_def own_max_def neighbor_max_def)

text \<open>Everything but the links.\<close>

definition skeleton :: "('f, 'd) hnsw \<Rightarrow> ('f, 'd) hnsw" where
  "skeleton h = h\<lparr>nodes := map (\<lambda>n. n\<lparr>Connections := []\<rparr>) (nodes h)\<rparr>"

lemma skeleton_length: "skeleton h = skeleton h' \<Longrightarrow> length (nodes h) = length (nodes h')"
  by (auto simp: skeleton_def dest!: arg_cong [of _ _ nodes] dest: map_eq_imp_length_eq)

lemma skeleton_node:
  assumes "skeleton h = skeleton h'" and "i < length (nodes h)"
  shows "(nodes h ! i)\<lparr>Connections := []\<rparr> = (nodes h' ! i)\<lparr>Connections := []\<rparr>"
proof -
  from assms(1) have "map (\<lambda>n. n\<lparr>Connections := []\<rparr>) (nodes h) = map (\<lambda>n. n\<lparr>Connections := []\<rparr>) (nodes h')"
    by (auto simp: skeleton_def dest: arg_cong [of _ _ nodes])
  then show ?thesis using assms skeleton_length [OF assms(1)] by (metis nth_map)
qed

lemma skeleton_fields:
  assumes "skeleton h = skeleton h'" and "i < length (nodes h)"
  shows "nodeID (nodes h ! i) = nodeID (nodes h' ! i)" "Level (nodes h ! i) = Level (nodes h' ! i)"
    "Vector (nodes h ! i) = Vector (nodes h' ! i)" "deleted (nodes h ! i) = deleted (nodes h' ! i)"
    "Quantized (nodes h ! i) = Quantized (nodes h' ! i)" "node_payload (nodes h ! i) = node_payload (nodes h' ! i)"
  using arg_cong [OF skeleton_node [OF assms], of nodeID] arg_cong [OF skeleton_node [OF assms], of Level]
    arg_cong [OF skeleton_node [OF assms], of Vector] arg_cong [OF skeleton_node [OF assms], of deleted]
    arg_cong [OF skeleton_node [OF assms], of Quantized] arg_cong [OF skeleton_node [OF assms], of node_payload]
  by simp_all

lemma skeleton_params:
  assumes "skeleton h = skeleton h'"
  shows "hM h = hM h'" "Mmax h = Mmax h'" "Mmax0 h = Mmax0 h'" "efConstruction h = efConstruction h'"
    "maxLevel h = maxLevel h'" "entryPoint h = entryPoint h'" "nodeCount h = nodeCount h'" "dimension h = dimension h'"
    "idToIndex h = idToIndex h'" "deletedCount h = deletedCount h'" "hquantizer h = hquantizer h'" "distCalc h = distCalc h'"
    "efSearch h = efSearch h'"
  using arg_cong [OF assms, of hM] arg_cong [OF assms, of Mmax] arg_cong [OF assms, of Mmax0]
    arg_cong [OF assms, of efConstruction] arg_cong [OF assms, of maxLevel] arg_cong [OF assms, of entryPoint]
    arg_cong [OF assms, of nodeCount] arg_cong [OF assms, of dimension] arg_cong [OF assms, of idToIndex]
    arg_cong [OF assms, of deletedCount] arg_cong [OF assms, of hquantizer] arg_cong [OF assms, of distCalc]
    arg_cong [OF assms, of efSearch]
  by (simp_all add: skeleton_def)

lemma neighbor_max_skeleton: "skeleton h = skeleton h' \<Longrightarrow> neighbor_max h l = neighbor_max h' l"
  by (simp add: neighbor_max_def skeleton_params(2,3) [of h h'])

text \<open>An index keeps the parts of its invariant that do not concern links.\<close>

definition rest_ok :: "('f, 'd) hnsw \<Rightarrow> bool" where
  "rest_ok h \<longleftrightarrow> index_ok h \<and> top_ok h \<and> counts_ok h \<and> params_ok h"

lemma params_ok_skeleton: "params_ok (skeleton h) \<longleftrightarrow> params_ok h"
  by (simp add: skeleton_def params_ok_def)

lemma params_ok_cong: "skeleton h = skeleton h' \<Longrightarrow> params_ok h \<longleftrightarrow> params_ok h'"
  using params_ok_skeleton by metis

lemma rest_ok_skeleton: "rest_ok (skeleton h) \<longleftrightarrow> rest_ok h"
proof -
  have f: "deleted \<circ> Connections_update g = deleted" for g :: "nat list list \<Rightarrow> nat list list" by (rule ext) simp
  have "index_ok (skeleton h) \<longleftrightarrow> index_ok h" by (simp add: skeleton_def index_ok_def cong: conj_cong)
  moreover have "top_ok (skeleton h) \<longleftrightarrow> top_ok h" by (simp add: skeleton_def top_ok_def cong: conj_cong)
  moreover have "counts_ok (skeleton h) \<longleftrightarrow> counts_ok h" by (simp add: skeleton_def counts_ok_def filter_map f)
  ultimately show ?thesis by (simp add: rest_ok_def params_ok_skeleton)
qed

lemma rest_ok_cong: "skeleton h = skeleton h' \<Longrightarrow> rest_ok h \<longleftrightarrow> rest_ok h'"
  using rest_ok_skeleton by metis

lemma hnsw_inv_parts: "hnsw_inv h \<longleftrightarrow> graph_ok h \<and> degree_ok h \<and> rest_ok h"
  by (auto simp: hnsw_inv_def rest_ok_def)

section \<open>Setting links\<close>

lemma setConnections_ok:
  assumes g: "graph_ok h" and i: "i < length (nodes h)" and d: "distinct cs"
    and cs: "\<forall>j \<in> set cs. j < length (nodes h) \<and> j \<noteq> i \<and> layer \<le> Level (nodes h ! j)"
  obtains h' where "setConnections i layer cs h = Some h'" and "skeleton h' = skeleton h" and "graph_ok h'"
    and "\<And>j l. j < length (nodes h) \<Longrightarrow>
      links h' j l = (if j = i \<and> l = layer \<and> 0 \<le> l \<and> l \<le> Level (nodes h ! i) then cs else links h j l)"
proof -
  have n: "node_ok (nodes h ! i)" using g i by (simp add: graph_ok_def)
  from SetConnections_ok [OF n d, of layer] obtain n' where n': "SetConnections layer cs (nodes h ! i) = Some n'"
    "node_ok n'" "\<And>l. conns n' l = (if l = layer \<and> 0 \<le> l \<and> l \<le> Level (nodes h ! i) then cs else links h i l)"
    "Level n' = Level (nodes h ! i)" "n' = (nodes h ! i)\<lparr>Connections := Connections n'\<rparr>" by blast
  let ?h = "h\<lparr>nodes := (nodes h)[i := n']\<rparr>"
  have sk: "n'\<lparr>Connections := []\<rparr> = (nodes h ! i)\<lparr>Connections := []\<rparr>" by (subst n'(5)) simp
  have links: "links ?h j l = (if j = i \<and> l = layer \<and> 0 \<le> l \<and> l \<le> Level (nodes h ! i) then cs else links h j l)"
    if "j < length (nodes h)" for j l using that i n'(3) by (simp add: nth_list_update)
  have lev: "Level ((nodes h)[i := n'] ! j) = Level (nodes h ! j)" if "j < length (nodes h)" for j
    using that i n'(4) by (simp add: nth_list_update)
  show ?thesis
  proof (rule that [of ?h])
    show "setConnections i layer cs h = Some ?h" using i n'(1) by (simp add: setConnections_def)
    have "map (\<lambda>n. n\<lparr>Connections := []\<rparr>) ((nodes h)[i := n']) = map (\<lambda>n. n\<lparr>Connections := []\<rparr>) (nodes h)"
      using i sk by (simp add: map_update list_update_same_conv)
    then show "skeleton ?h = skeleton h" by (simp add: skeleton_def)
    have "\<forall>n \<in> set (nodes ?h). node_ok n"
      using g n'(2) by (auto simp: graph_ok_def dest: set_update_subset_insert [THEN subsetD])
    moreover have "j < length (nodes h) \<and> j \<noteq> k \<and> l \<le> Level (nodes ?h ! j)"
      if "k < length (nodes h)" "j \<in> set (links ?h k l)" for j k l
      using that g cs lev unfolding links [OF that(1)] by (auto simp: graph_ok_def split: if_splits)
    ultimately show "graph_ok ?h" by (simp add: graph_ok_def)
    show "links ?h j l = (if j = i \<and> l = layer \<and> 0 \<le> l \<and> l \<le> Level (nodes h ! i) then cs else links h j l)"
      if "j < length (nodes h)" for j l by (rule links [OF that])
  qed
qed

section \<open>Neighbour selection\<close>

text \<open>What \<open>sort.Slice\<close> promises.\<close>

definition sorts :: "(('d :: linorder) candidate list \<Rightarrow> 'd candidate list) \<Rightarrow> bool" where
  "sorts srt \<longleftrightarrow> (\<forall>xs. mset (srt xs) = mset xs \<and> sorted (map Distance (srt xs)))"

lemma sort_key_sorts: "sorts (sort_key Distance)"
  by (simp add: sorts_def)

abbreviation valid_ids :: "('f, 'd) hnsw \<Rightarrow> 'd candidate list \<Rightarrow> bool" where
  "valid_ids h cs \<equiv> \<forall>c \<in> set cs. cID c < length (nodes h)"

lemma accepts_total: "valid_ids h ss \<Longrightarrow> \<exists>b. accepts h v c ss = Some b"
proof (induction ss)
  case Nil
  have "accepts h v c [] = Some True" by simp
  then show ?case ..
qed auto

lemma heuristic_loop_ok:
  "valid_ids h cs \<Longrightarrow> valid_ids h sel \<Longrightarrow>
   \<exists>sel' disc' rest. heuristic_loop h maxConn cs sel disc = Some (sel', disc')
     \<and> mset sel' + mset disc' + mset rest = mset sel + mset disc + mset cs
     \<and> (maxConn \<le> int (length sel') \<or> rest = [])
     \<and> (int (length sel) \<le> maxConn \<longrightarrow> int (length sel') \<le> maxConn)"
proof (induction cs arbitrary: sel disc)
  case Nil
  then show ?case by (auto intro!: exI [of _ "[]"])
next
  case (Cons c cs)
  show ?case
  proof (cases "int (length sel) \<ge> maxConn")
    case True
    then show ?thesis by (auto intro!: exI [of _ "c # cs"])
  next
    case False
    have c: "cID c < length (nodes h)" and vs: "valid_ids h cs" using Cons.prems by auto
    from accepts_total [OF Cons.prems(2)] obtain b where
      b: "accepts h (Vector (nodes h ! cID c)) c sel = Some b" by blast
    show ?thesis
    proof (cases "Vector (nodes h ! cID c) = [] \<or> \<not> b")
      case True
      then have "heuristic_loop h maxConn (c # cs) sel disc = heuristic_loop h maxConn cs sel (disc @ [c])"
        using False b c by auto
      with Cons.IH [OF vs Cons.prems(2), of "disc @ [c]"] show ?thesis by (auto simp: ac_simps)
    next
      case acc: False
      then have e: "heuristic_loop h maxConn (c # cs) sel disc = heuristic_loop h maxConn cs (sel @ [c]) disc"
        using False b c by auto
      have "valid_ids h (sel @ [c])" using Cons.prems(2) c by simp
      from Cons.IH [OF vs this, of disc] e False show ?thesis by (auto simp: ac_simps)
    qed
  qed
qed

lemma selectNeighborsHeuristic_ok:
  assumes "sorts srt" and "valid_ids h cands" and "0 \<le> maxConn"
  obtains sel where "selectNeighborsHeuristic srt h cands maxConn = Some sel" and "mset sel \<subseteq># mset cands"
    and "int (length sel) = min (int (length cands)) maxConn" and "int (length sel) \<le> maxConn"
proof (cases "int (length cands) \<le> maxConn")
  case True
  then show ?thesis by (intro that [of cands]) (auto simp: selectNeighborsHeuristic_def)
next
  case False
  have ms: "mset (srt cands) = mset cands" using assms(1) by (simp add: sorts_def)
  have "valid_ids h (srt cands)" using assms(2) mset_eq_setD [OF ms] by simp
  from heuristic_loop_ok [OF this, of "[]" maxConn "[]"] obtain sel disc rest where
    l: "heuristic_loop h maxConn (srt cands) [] [] = Some (sel, disc)"
    and m: "mset sel + mset disc + mset rest = mset cands"
    and r: "maxConn \<le> int (length sel) \<or> rest = []" and b: "int (length sel) \<le> maxConn"
    using assms(3) ms by auto
  let ?k = "nat (maxConn - int (length sel))"
  have "size (mset sel + mset disc + mset rest) = length cands" using m by (metis size_mset)
  then have len: "length sel + length disc + length rest = length cands" by simp
  show ?thesis
  proof (rule that [of "sel @ take ?k disc"])
    show "selectNeighborsHeuristic srt h cands maxConn = Some (sel @ take ?k disc)"
      using False l by (simp add: selectNeighborsHeuristic_def)
    have "mset (take ?k disc) \<subseteq># mset disc" by (metis append_take_drop_id mset_append mset_subset_eq_add_left)
    then have "mset sel + mset (take ?k disc) \<subseteq># mset sel + mset disc" by simp
    also have "\<dots> \<subseteq># mset cands" using m by (metis mset_subset_eq_add_left)
    finally show "mset (sel @ take ?k disc) \<subseteq># mset cands" by simp
    show e: "int (length (sel @ take ?k disc)) = min (int (length cands)) maxConn"
      using r b len False by auto
    show "int (length (sel @ take ?k disc)) \<le> maxConn" unfolding e by simp
  qed
qed

lemma mset_le_distinct:
  assumes "mset xs \<subseteq># mset ys" and "distinct (map f ys)"
  shows "distinct (map f xs)" and "set xs \<subseteq> set ys"
proof -
  from assms(1) obtain zs where "mset ys = mset xs + mset zs" by (metis ex_mset mset_subset_eq_exists_conv)
  then have m: "mset ys = mset (xs @ zs)" by simp
  then have "mset (map f ys) = mset (map f (xs @ zs))" by (metis mset_map)
  from mset_eq_imp_distinct_iff [OF this] assms(2) show "distinct (map f xs)" by simp
  show "set xs \<subseteq> set ys" using mset_eq_setD [OF m] by auto
qed

lemma rank_ok:
  "\<forall>i \<in> set is. i < length (nodes h) \<Longrightarrow> \<exists>cs. rank h vec is = Some cs \<and> map cID cs = is
     \<and> (\<forall>c \<in> set cs. Distance c = distCalc h vec (Vector (nodes h ! cID c)))"
  by (induction "is") auto

text \<open>Only links of one layer change.\<close>

definition same_elsewhere :: "int \<Rightarrow> ('f, 'd) hnsw \<Rightarrow> ('f, 'd) hnsw \<Rightarrow> bool" where
  "same_elsewhere layer h h' \<longleftrightarrow> skeleton h' = skeleton h
     \<and> (\<forall>j < length (nodes h). \<forall>l. l \<noteq> layer \<longrightarrow> links h' j l = links h j l)"

lemma same_elsewhere_refl: "same_elsewhere layer h h"
  by (simp add: same_elsewhere_def)

lemma same_elsewhere_trans: "same_elsewhere l h h' \<Longrightarrow> same_elsewhere l h' h'' \<Longrightarrow> same_elsewhere l h h''"
  using skeleton_length [of h' h] by (auto simp: same_elsewhere_def)

lemma set_links_ok:
  assumes "graph_ok h" "degree_ok h" and "i < length (nodes h)" and "distinct cs"
    and "\<forall>j \<in> set cs. j < length (nodes h) \<and> j \<noteq> i \<and> layer \<le> Level (nodes h ! j)"
    and "int (length cs) \<le> neighbor_max h layer"
  obtains h' where "setConnections i layer cs h = Some h'" and "graph_ok h'" "degree_ok h'" and "same_elsewhere layer h h'"
    and "\<And>j. j < length (nodes h) \<Longrightarrow> j \<noteq> i \<Longrightarrow> links h' j layer = links h j layer"
proof -
  from setConnections_ok [OF assms(1,3,4,5)] obtain h' where h': "setConnections i layer cs h = Some h'"
    "skeleton h' = skeleton h" "graph_ok h'" "\<And>j l. j < length (nodes h) \<Longrightarrow>
      links h' j l = (if j = i \<and> l = layer \<and> 0 \<le> l \<and> l \<le> Level (nodes h ! i) then cs else links h j l)" by blast
  have "int (length (links h' j l)) \<le> neighbor_max h' l" if "j < length (nodes h')" for j l
    using that assms(2,6) h'(4) [of j l] skeleton_length [OF h'(2)] neighbor_max_skeleton [OF h'(2)]
    by (auto simp: degree_ok_def)
  then have "degree_ok h'" by (simp add: degree_ok_def)
  moreover have "same_elsewhere layer h h'" using h'(2,4) by (simp add: same_elsewhere_def)
  ultimately show ?thesis using that h' by simp
qed

lemma addConnection_ok:
  assumes g: "graph_ok h" "degree_ok h" "params_ok h" and s: "sorts srt"
    and i: "from < length (nodes h)" "to < length (nodes h)" "to \<noteq> from" and lv: "layer \<le> Level (nodes h ! to)"
  obtains h' where "addConnection srt from to layer (neighbor_max h layer) h = Some h'" and "graph_ok h'" "degree_ok h'"
    and "same_elsewhere layer h h'"
proof -
  let ?cs = "links h from layer" and ?m = "neighbor_max h layer"
  have gc: "getConnections h from layer = Some ?cs" by (rule getConnections_ok [OF g(1) i(1)])
  have cs: "\<forall>j \<in> set (?cs @ [to]). j < length (nodes h) \<and> j \<noteq> from \<and> layer \<le> Level (nodes h ! j)"
    using g(1) i lv by (auto simp: graph_ok_def)
  have d: "distinct ?cs" using g(1) i(1) by (intro distinct_conns) (simp add: graph_ok_def)
  consider "to \<in> set ?cs" | "to \<notin> set ?cs" "int (length ?cs) < ?m" | "to \<notin> set ?cs" "?m \<le> int (length ?cs)" by linarith
  then show ?thesis
  proof cases
    case 1
    then show ?thesis using gc g by (intro that [of h]) (simp_all add: addConnection_def same_elsewhere_refl)
  next
    case 2
    have "distinct (?cs @ [to])" "int (length (?cs @ [to])) \<le> ?m" using 2 d by auto
    from set_links_ok [OF g(1,2) i(1) this(1) cs this(2)] obtain h' where
      "setConnections from layer (?cs @ [to]) h = Some h'" "graph_ok h'" "degree_ok h'" "same_elsewhere layer h h'" by blast
    then show ?thesis using gc 2 by (intro that [of h']) (simp_all add: addConnection_def)
  next
    case 3
    have "\<forall>j \<in> set (?cs @ [to]). j < length (nodes h)" using cs by blast
    from rank_ok [OF this, of "Vector (nodes h ! from)"] obtain cands where
      c: "rank h (Vector (nodes h ! from)) (?cs @ [to]) = Some cands" "map cID cands = ?cs @ [to]" by blast
    have ids: "set (map cID cands) = set (?cs @ [to])" using c(2) by simp
    have v: "valid_ids h cands" using ids cs by auto
    have dc: "distinct (map cID cands)" using c(2) d 3(1) by simp
    have m0: "0 \<le> ?m" using max_eq [OF g(3), of layer] by simp
    from selectNeighborsHeuristic_ok [OF s v m0] obtain sel where
      sel: "selectNeighborsHeuristic srt h cands ?m = Some sel" "mset sel \<subseteq># mset cands" "int (length sel) \<le> ?m" by blast
    have ds: "distinct (map cID sel)" by (rule mset_le_distinct(1) [OF sel(2) dc])
    have "set (map cID sel) \<subseteq> set (?cs @ [to])"
      using image_mono [OF mset_le_distinct(2) [OF sel(2) dc], of cID] ids by simp
    then have js: "\<forall>j \<in> set (map cID sel). j < length (nodes h) \<and> j \<noteq> from \<and> layer \<le> Level (nodes h ! j)"
      using cs by blast
    have "int (length (map cID sel)) \<le> ?m" using sel(3) by simp
    from set_links_ok [OF g(1,2) i(1) ds js this] obtain h' where
      "setConnections from layer (map cID sel) h = Some h'" "graph_ok h'" "degree_ok h'" "same_elsewhere layer h h'" by blast
    then show ?thesis using gc 3 c(1) sel(1) i(1) by (intro that [of h']) (simp_all add: addConnection_def)
  qed
qed

lemma add_reverse_ok:
  assumes s: "sorts srt"
  shows "graph_ok h \<Longrightarrow> degree_ok h \<Longrightarrow> params_ok h \<Longrightarrow> to < length (nodes h) \<Longrightarrow> layer \<le> Level (nodes h ! to) \<Longrightarrow>
    \<forall>j \<in> set is. j < length (nodes h) \<and> j \<noteq> to \<Longrightarrow> m = neighbor_max h layer \<Longrightarrow>
    \<exists>h'. add_reverse srt to layer m is h = Some h' \<and> graph_ok h' \<and> degree_ok h' \<and> same_elsewhere layer h h'"
proof (induction "is" arbitrary: h)
  case (Cons i "is")
  have i: "i < length (nodes h)" "to \<noteq> i" using Cons.prems(6) by auto
  from addConnection_ok [OF Cons.prems(1-3) s i(1) Cons.prems(4) i(2) Cons.prems(5)] obtain h1 where
    h1: "addConnection srt i to layer m h = Some h1" "graph_ok h1" "degree_ok h1" "same_elsewhere layer h h1"
    using Cons.prems(7) by blast
  have sk: "skeleton h1 = skeleton h" using h1(4) by (simp add: same_elsewhere_def)
  have len: "length (nodes h1) = length (nodes h)" by (rule skeleton_length [OF sk])
  have p1: "params_ok h1" using params_ok_cong [OF sk] Cons.prems(3) by simp
  have "layer \<le> Level (nodes h1 ! to)" using skeleton_fields(2) [OF sk] Cons.prems(4,5) len by simp
  with Cons.IH [OF h1(2,3) p1] Cons.prems(4,6,7) len neighbor_max_skeleton [OF sk]
  obtain h2 where "add_reverse srt to layer m is h1 = Some h2" "graph_ok h2" "degree_ok h2" "same_elsewhere layer h1 h2"
    by auto
  with h1 show ?case by (auto intro: same_elsewhere_trans)
qed (simp add: same_elsewhere_refl)

lemma selectNeighbors_ok:
  assumes g: "graph_ok h" "degree_ok h" "params_ok h" and s: "sorts srt"
    and i: "i < length (nodes h)" "layer \<le> Level (nodes h ! i)"
    and c: "distinct (map cID cands)"
      "\<forall>c \<in> set cands. cID c < length (nodes h) \<and> cID c \<noteq> i \<and> layer \<le> Level (nodes h ! cID c)"
  obtains h' where "selectNeighbors srt i cands layer h = Some h'" and "graph_ok h'" "degree_ok h'"
    and "same_elsewhere layer h h'"
proof -
  let ?m = "neighbor_max h layer"
  have m: "own_max h layer = ?m" "0 \<le> ?m" using max_eq [OF g(3), of layer] by simp_all
  have "valid_ids h cands" using c(2) by blast
  from selectNeighborsHeuristic_ok [OF s this m(2)] obtain sel where
    sel: "selectNeighborsHeuristic srt h cands ?m = Some sel" "mset sel \<subseteq># mset cands" "int (length sel) \<le> ?m" by blast
  have d: "distinct (map cID sel)" and sub: "set sel \<subseteq> set cands" using mset_le_distinct [OF sel(2) c(1)] by auto
  have ids: "\<forall>j \<in> set (map cID sel). j < length (nodes h) \<and> j \<noteq> i \<and> layer \<le> Level (nodes h ! j)"
    using c(2) sub by auto
  from set_links_ok [OF g(1,2) i(1) d ids] sel(3) obtain h1 where
    h1: "setConnections i layer (map cID sel) h = Some h1" "graph_ok h1" "degree_ok h1" "same_elsewhere layer h h1" by auto
  have sk: "skeleton h1 = skeleton h" using h1(4) by (simp add: same_elsewhere_def)
  have len: "length (nodes h1) = length (nodes h)" by (rule skeleton_length [OF sk])
  have p1: "params_ok h1" using params_ok_cong [OF sk] g(3) by simp
  have i1: "i < length (nodes h1)" "layer \<le> Level (nodes h1 ! i)"
    using i len skeleton_fields(2) [OF sk, of i] by simp_all
  have js: "\<forall>j \<in> set (map cID sel). j < length (nodes h1) \<and> j \<noteq> i" using ids len by simp
  from add_reverse_ok [OF s h1(2,3) p1 i1 js neighbor_max_skeleton [OF sk, symmetric]] obtain h2 where
    h2: "add_reverse srt i layer ?m (map cID sel) h1 = Some h2" "graph_ok h2" "degree_ok h2" "same_elsewhere layer h1 h2"
    by (auto simp: neighbor_max_skeleton [OF sk])
  show ?thesis
  proof (rule that [of h2])
    show "selectNeighbors srt i cands layer h = Some h2"
      using i(1) sel(1) h1(1) h2(1) m(1) by (simp add: selectNeighbors_def)
  qed (use h1 h2 in \<open>auto intro: same_elsewhere_trans\<close>)
qed

section \<open>The descent\<close>

text \<open>Nodes of a layer other than the one being inserted.\<close>

definition on_layer :: "('f, 'd) hnsw \<Rightarrow> nat \<Rightarrow> int \<Rightarrow> nat \<Rightarrow> bool" where
  "on_layer h a l j \<longleftrightarrow> j < length (nodes h) \<and> j \<noteq> a \<and> l \<le> Level (nodes h ! j)"

text \<open>A node nothing links to on the layers up to \<open>l\<close>.\<close>

definition unlinked :: "('f, 'd) hnsw \<Rightarrow> nat \<Rightarrow> int \<Rightarrow> bool" where
  "unlinked h a l \<longleftrightarrow> (\<forall>j < length (nodes h). \<forall>l' \<le> l. a \<notin> set (links h j l'))"

lemma on_layer_closed: "graph_ok h \<Longrightarrow> unlinked h a l \<Longrightarrow> closed_under h l (on_layer h a l)"
  by (auto simp: closed_under_def on_layer_def graph_ok_def unlinked_def)

lemma descend_ok:
  assumes "graph_ok h"
  shows "unlinked h a l \<Longrightarrow> on_layer h a l cur \<Longrightarrow>
    \<exists>c. descend h query l stop cur = Some c \<and> on_layer h a (min l stop) c"
proof (induction "nat (l - stop)" arbitrary: l cur)
  case 0
  then show ?case by (subst descend.simps) auto
next
  case (Suc n)
  then have l: "l > stop" by simp
  from greedySearchLayer_ok [OF assms on_layer_closed [OF assms Suc.prems(1)] Suc.prems(2)] obtain c where
    c: "greedySearchLayer h query cur l = Some c" "on_layer h a l c" by blast
  have "unlinked h a (l - 1)" "on_layer h a (l - 1) c" using Suc.prems(1) c(2) by (auto simp: unlinked_def on_layer_def)
  moreover have "n = nat (l - 1 - stop)" using Suc.hyps(2) l by simp
  ultimately obtain c' where
    "descend h query (l - 1) stop c = Some c'" "on_layer h a (min (l - 1) stop) c'"
    using Suc.hyps(1) [of "l - 1" c] by blast
  with l c(1) show ?case by (subst descend.simps) auto
qed

section \<open>Insertion\<close>

lemma insert_layers_ok:
  assumes s: "sorts srt" and v: "vl_stamped vl"
  shows "graph_ok h \<Longrightarrow> degree_ok h \<Longrightarrow> params_ok h \<Longrightarrow> i < length (nodes h) \<Longrightarrow> l \<le> Level (nodes h ! i) \<Longrightarrow>
    unlinked h i l \<Longrightarrow> on_layer h i l cur \<Longrightarrow>
    \<exists>h'. insert_layers srt vl query i l cur h = Some h' \<and> graph_ok h' \<and> degree_ok h' \<and> skeleton h' = skeleton h"
proof (induction "nat (l + 1)" arbitrary: l cur h)
  case 0
  then show ?case by (subst insert_layers.simps) auto
next
  case (Suc n)
  then have l: "0 \<le> l" by simp
  note g = Suc.prems(1)
  from searchLayer_ok [OF g on_layer_closed [OF g Suc.prems(6)] Suc.prems(7) v] obtain r where
    r: "searchLayer vl h query cur (efConstruction h) l = Some r" "results_ok h query (efConstruction h) (on_layer h i l) r" by blast
  then have d: "distinct (map cID r)" and p: "\<forall>c \<in> set r. on_layer h i l (cID c)" and ne: "r \<noteq> []"
    by (auto simp: results_ok_def)
  from selectNeighbors_ok [OF Suc.prems(1-3) s Suc.prems(4,5) d] p obtain h1 where
    h1: "selectNeighbors srt i r l h = Some h1" "graph_ok h1" "degree_ok h1" "same_elsewhere l h h1"
    by (auto simp: on_layer_def)
  have sk: "skeleton h1 = skeleton h" using h1(4) by (simp add: same_elsewhere_def)
  have len: "length (nodes h1) = length (nodes h)" by (rule skeleton_length [OF sk])
  obtain c cs where rc: "r = c # cs" using ne by (cases r) auto
  have "on_layer h i l (cID c)" using p rc by simp
  then have o: "on_layer h1 i (l - 1) (cID c)" using skeleton_fields(2) [OF sk] len by (auto simp: on_layer_def)
  have u: "unlinked h1 i (l - 1)"
    using Suc.prems(6) h1(4) len by (auto simp: unlinked_def same_elsewhere_def)
  have "l - 1 \<le> Level (nodes h1 ! i)" using Suc.prems(4,5) skeleton_fields(2) [OF sk, of i] len by simp
  moreover have "n = nat (l - 1 + 1)" using Suc.hyps(2) l by simp
  moreover have "params_ok h1" "i < length (nodes h1)" using params_ok_cong [OF sk] Suc.prems(3,4) len by simp_all
  ultimately obtain h2 where "insert_layers srt vl query i (l - 1) (cID c) h1 = Some h2" "graph_ok h2" "degree_ok h2"
    "skeleton h2 = skeleton h1" using Suc.hyps(1) [of "l - 1" h1 "cID c"] h1(2,3) u o by blast
  with l r(1) h1(1) rc sk show ?case by (subst insert_layers.simps) auto
qed

text \<open>The index with one more node, not yet linked.\<close>

definition added :: "'f hnode \<Rightarrow> ('f, 'd) hnsw \<Rightarrow> ('f, 'd) hnsw" where
  "added n h = h\<lparr>nodes := nodes h @ [n], idToIndex := (nodeID n, length (nodes h)) # idToIndex h,
     nodeCount := nodeCount h + 1, maxLevel := max (Level n) (maxLevel h),
     entryPoint := (if Level n > maxLevel h then length (nodes h) else entryPoint h)\<rparr>"

lemma insertNode_added:
  assumes "length (nodes h) < MaxNodes" and "0 \<le> Level n"
  shows "insertNode n (nodeID n) (Level n) h =
    Inr (length (nodes h), if maxLevel h = -1 then 0 else entryPoint h, if maxLevel h = -1 then 0 else maxLevel h,
         maxLevel h = -1, added n h)"
  using assms by (cases h) (auto simp: insertNode_def added_def Let_def max_def)

lemma links_added:
  "j < Suc (length (nodes h)) \<Longrightarrow> links (added n h) j l = (if j < length (nodes h) then links h j l else conns n l)"
  by (auto simp: added_def nth_append less_Suc_eq)

lemma level_added:
  "j < length (nodes h) \<Longrightarrow> nodes (added n h) ! j = nodes h ! j"
  "nodes (added n h) ! length (nodes h) = n" "length (nodes (added n h)) = Suc (length (nodes h))"
  by (simp_all add: added_def nth_append)

lemma neighbor_max_added: "neighbor_max (added n h) l = neighbor_max h l"
  by (simp add: neighbor_max_def added_def)

lemma added_ok:
  assumes inv: "hnsw_inv h" and n: "node_ok n" "\<And>l. conns n l = []" "int (length (Vector n)) = dimension h" "\<not> deleted n"
    and fresh: "map_of (idToIndex h) (nodeID n) = None"
  shows "hnsw_inv (added n h)"
proof -
  have g: "graph_ok h" and dg: "degree_ok h" and ix: "index_ok h" and tp: "top_ok h" and p: "params_ok h"
    using inv by (simp_all add: hnsw_inv_def)
  have "graph_ok (added n h)" unfolding graph_ok_def
  proof (intro conjI allI impI ballI)
    fix m assume "m \<in> set (nodes (added n h))"
    then show "node_ok m" using g n(1) by (auto simp: added_def graph_ok_def)
  next
    fix i l j assume i: "i < length (nodes (added n h))" and j: "j \<in> set (links (added n h) i l)"
    then have "i < length (nodes h) \<and> j \<in> set (links h i l)"
      using links_added [of i h n l] n(2) by (auto simp: level_added split: if_splits)
    then have "j < length (nodes h) \<and> j \<noteq> i \<and> l \<le> Level (nodes h ! j)" using g by (auto simp: graph_ok_def)
    then show "j < length (nodes (added n h))" "j \<noteq> i" "l \<le> Level (nodes (added n h) ! j)"
      by (auto simp: level_added)
  qed
  moreover have "degree_ok (added n h)"
    using dg links_added [where h = h and n = n] n(2) max_eq [OF p]
    by (auto simp: degree_ok_def level_added neighbor_max_added less_Suc_eq intro: order_trans [of 0 2])
  moreover have "index_ok (added n h)" unfolding index_ok_def
  proof (intro conjI allI impI)
    fix i assume "i < length (nodes (added n h))"
    then consider "i < length (nodes h)" | "i = length (nodes h)" by (auto simp: level_added less_Suc_eq)
    then show "map_of (idToIndex (added n h)) (nodeID (nodes (added n h) ! i)) = Some i"
    proof cases
      case 1
      then have "map_of (idToIndex h) (nodeID (nodes h ! i)) = Some i" using ix by (simp add: index_ok_def)
      with fresh show ?thesis using 1 by (auto simp: level_added added_def nth_append)
    qed (simp add: added_def)
  next
    fix q i assume "map_of (idToIndex (added n h)) q = Some i"
    then have "q = nodeID n \<and> i = length (nodes h) \<or> map_of (idToIndex h) q = Some i"
      by (auto simp: added_def split: if_splits)
    moreover have "map_of (idToIndex h) q = Some i \<Longrightarrow> i < length (nodes h) \<and> nodeID (nodes h ! i) = q"
      using ix by (simp add: index_ok_def)
    ultimately show "i < length (nodes (added n h))" "nodeID (nodes (added n h) ! i) = q"
      by (auto simp: level_added less_SucI)
  qed
  moreover have "top_ok (added n h)"
    using tp n(1) by (auto simp: top_ok_def added_def nth_append max_def node_ok_def split: if_splits)
  moreover have "counts_ok (added n h)" using inv n(4) by (simp add: hnsw_inv_def counts_ok_def added_def)
  moreover have "params_ok (added n h)" using p n(3) by (simp add: params_ok_def added_def)
  ultimately show ?thesis by (simp add: hnsw_inv_def)
qed

lemma Insert_inv:
  assumes inv: "hnsw_inv h" and s: "sorts srt" and v: "vl_stamped vl" and lv: "0 \<le> level"
    and dim: "int (length (pVector p)) = dimension h" and fresh: "map_of (idToIndex h) (pID p) = None"
    and room: "length (nodes h) < MaxNodes"
  obtains h' n where "Insert srt vl level p h = Ok h'" and "hnsw_inv h'" and "skeleton h' = skeleton (added n h)"
    and "nodeID n = pID p" "Vector n = pVector p" "node_payload n = pPayload p" "\<not> deleted n" "Level n = level"
proof -
  let ?n = "SetPayload (pPayload p) ((NewNode (pID p) (pVector p) level False)\<lparr>Quantized := quantize h (pVector p)\<rparr>)"
  let ?h = "added ?n h" and ?i = "length (nodes h)"
  have f: "nodeID ?n = pID p" "Vector ?n = pVector p" "node_payload ?n = pPayload p" "\<not> deleted ?n" "Level ?n = level"
    by (simp_all add: SetPayload_def NewNode_def)
  have e: "\<And>l. conns ?n l = []" by (auto simp: SetPayload_def conns_def NewNode_def nth_replicate)
  have "node_ok ?n" using NewNode_ok [OF lv, of "pID p" "pVector p"] by (simp add: node_ok_def SetPayload_def)
  then have ok: "hnsw_inv ?h" using added_ok [OF inv _ e] dim fresh f by simp
  have ins: "insertNode ?n (pID p) level h = Inr (?i, if maxLevel h = -1 then 0 else entryPoint h,
      if maxLevel h = -1 then 0 else maxLevel h, maxLevel h = -1, ?h)"
    using insertNode_added [OF room, of ?n] lv f by simp
  show ?thesis
  proof (cases "maxLevel h = -1")
    case True
    have "Insert srt vl level p h = Ok ?h" using dim fresh ins True by (simp add: Insert_def Let_def)
    then show ?thesis using ok f by (intro that [of ?h ?n]) simp_all
  next
    case False
    have tp: "top_ok h" and g: "graph_ok h" using inv by (simp_all add: hnsw_inv_def)
    then have ep: "nodes h \<noteq> []" "entryPoint h < ?i" "Level (nodes h ! entryPoint h) = maxLevel h"
      using False by (auto simp: top_ok_def split: if_splits)
    have u: "unlinked ?h ?i l" for l
      using links_bound [OF g] links_added [where h = h and n = ?n] e
      by (fastforce simp: unlinked_def level_added split: if_splits)
    have on: "on_layer ?h ?i (maxLevel h) (entryPoint h)" using ep by (simp add: on_layer_def level_added)
    have gh: "graph_ok ?h" "degree_ok ?h" "params_ok ?h" using ok by (simp_all add: hnsw_inv_def)
    from descend_ok [OF gh(1) u on, of "pVector p" level] obtain c where
      c: "descend ?h (pVector p) (maxLevel h) level (entryPoint h) = Some c" "on_layer ?h ?i (min level (maxLevel h)) c"
      by (auto simp: min.commute)
    have il: "?i < length (nodes ?h)" "min level (maxLevel h) \<le> Level (nodes ?h ! ?i)" by (simp_all add: level_added f)
    from insert_layers_ok [OF s v gh il u c(2)] obtain h' where
      h': "insert_layers srt vl (pVector p) ?i (min level (maxLevel h)) c ?h = Some h'" "graph_ok h'" "degree_ok h'"
        "skeleton h' = skeleton ?h" by blast
    have "hnsw_inv h'" using h' ok rest_ok_cong [OF h'(4)] by (simp add: hnsw_inv_parts)
    moreover have "Insert srt vl level p h = Ok h'"
      using dim fresh ins False c(1) h'(1) by (simp add: Insert_def Let_def)
    ultimately show ?thesis using h'(4) f by (intro that [of h' ?n]) simp_all
  qed
qed

section \<open>Lookup and deletion\<close>

lemma Get_skeleton: "skeleton h = skeleton h' \<Longrightarrow> Get q h = Get q h'"
proof -
  assume sk: "skeleton h = skeleton h'"
  have "go_index (nodes h) k = Some n \<Longrightarrow> \<exists>n'. go_index (nodes h') k = Some n' \<and> nodeID n = nodeID n'
      \<and> Vector n = Vector n' \<and> deleted n = deleted n' \<and> node_payload n = node_payload n'" for k n
    using skeleton_fields [OF sk, of k] skeleton_length [OF sk] by (auto simp: go_index_def split: if_splits)
  moreover have "go_index (nodes h) k = None \<longleftrightarrow> go_index (nodes h') k = None" for k
    using skeleton_length [OF sk] by (simp add: go_index_def)
  ultimately show ?thesis
    unfolding Get_def skeleton_params(9) [OF sk]
    by (auto split: option.splits simp: GetPayload_def) (metis option.inject option.distinct(1))+
qed

lemma Get_added:
  assumes "hnsw_inv h" and "map_of (idToIndex h) (nodeID n) = None" and "\<not> deleted n"
  shows "Get q (added n h) = (if q = nodeID n then Ok \<lparr>pID = nodeID n, pVector = Vector n, pPayload = node_payload n\<rparr> else Get q h)"
proof (cases "q = nodeID n")
  case True
  then show ?thesis using assms(3) by (simp add: Get_def added_def nth_append GetPayload_def)
next
  case False
  have "map_of (idToIndex h) q = Some k \<Longrightarrow> k < length (nodes h)" for k
    using assms(1) by (simp add: hnsw_inv_def index_ok_def)
  with False show ?thesis by (auto simp: Get_def added_def nth_append split: option.split)
qed

lemma Delete_inv:
  assumes inv: "hnsw_inv h" and k: "map_of (idToIndex h) q = Some k"
  obtains h' where "Delete q h = Ok h'" and "hnsw_inv h'"
    and "h' = h \<or> h' = h\<lparr>nodes := (nodes h)[k := MarkDeleted (nodes h ! k)], deletedCount := deletedCount h + 1\<rparr>"
    and "k < length (nodes h)" and "nodeID (nodes h ! k) = q" and "deleted (nodes h' ! k)"
    and "h' = h \<longleftrightarrow> deleted (nodes h ! k)"
proof -
  have kl: "k < length (nodes h)" and id: "nodeID (nodes h ! k) = q" using inv k by (auto simp: hnsw_inv_def index_ok_def)
  let ?n = "MarkDeleted (nodes h ! k)"
  let ?h = "h\<lparr>nodes := (nodes h)[k := ?n], deletedCount := deletedCount h + 1\<rparr>"
  have c: "conns ?n l = links h k l" "Level ?n = Level (nodes h ! k)" "nodeID ?n = nodeID (nodes h ! k)"
    "Vector ?n = Vector (nodes h ! k)" "node_ok ?n = node_ok (nodes h ! k)" for l
    by (simp_all add: MarkDeleted_def conns_def node_ok_def)
  have nth: "conns (nodes ?h ! j) l = links h j l" "Level (nodes ?h ! j) = Level (nodes h ! j)"
    "nodeID (nodes ?h ! j) = nodeID (nodes h ! j)" for j l
    using c kl by (auto simp: nth_list_update)
  have set: "n \<in> set (nodes h) \<or> n = ?n" if "n \<in> set (nodes ?h)" for n
    using that by (auto dest: set_update_subset_insert [THEN subsetD])
  show ?thesis
  proof (cases "deleted (nodes h ! k)")
    case True
    then show ?thesis using k kl inv id by (intro that [of h]) (simp_all add: Delete_def)
  next
    case False
    have cnt: "length (filter deleted ((nodes h)[k := ?n])) = Suc (length (filter deleted (nodes h)))"
      using kl False by (simp add: upd_conv_take_nth_drop MarkDeleted_def)
        (metis (no_types, lifting) add_Suc_right filter.simps(2) filter_append id_take_nth_drop length_append)
    have ns: "nodes h ! k \<in> set (nodes h)" using kl by simp
    have "hnsw_inv ?h" unfolding hnsw_inv_def
    proof (intro conjI)
      have g: "graph_ok h" using inv by (simp add: hnsw_inv_def)
      have "node_ok n" if "n \<in> set (nodes ?h)" for n
        using set [OF that] g ns c(5) by (auto simp: graph_ok_def)
      moreover have "\<forall>i < length (nodes ?h). \<forall>l. \<forall>j \<in> set (links ?h i l).
          j < length (nodes ?h) \<and> j \<noteq> i \<and> l \<le> Level (nodes ?h ! j)"
        unfolding nth using g by (simp add: graph_ok_def)
      ultimately show "graph_ok ?h" unfolding graph_ok_def by blast
      have m: "neighbor_max ?h l = neighbor_max h l" for l by (simp add: neighbor_max_def)
      have "degree_ok h" using inv by (simp add: hnsw_inv_def)
      then show "degree_ok ?h" unfolding degree_ok_def nth m by simp
      show "index_ok ?h" using inv nth by (simp add: hnsw_inv_def index_ok_def)
      have tp: "top_ok h" using inv by (simp add: hnsw_inv_def)
      have ne: "nodes h \<noteq> []" using ns by auto
      have "Level n \<le> maxLevel h" if "n \<in> set (nodes ?h)" for n
        using set [OF that] tp ne ns c(2) by (auto simp: top_ok_def)
      with tp ne nth(2) show "top_ok ?h" by (simp add: top_ok_def)
      show "counts_ok ?h" using inv cnt by (simp add: hnsw_inv_def counts_ok_def)
      have pm: "params_ok h" using inv by (simp add: hnsw_inv_def)
      have "int (length (Vector n)) = dimension h" if "n \<in> set (nodes ?h)" for n
        using set [OF that] pm ns c(4) by (auto simp: params_ok_def)
      with pm show "params_ok ?h" by (simp add: params_ok_def)
    qed
    moreover have "?h \<noteq> h"
    proof
      assume "?h = h"
      then have "deletedCount ?h = deletedCount h" by simp
      then show False by simp
    qed
    ultimately show ?thesis using k kl False id
      by (intro that [of ?h]) (simp_all add: Delete_def MarkDeleted_def)
  qed
qed

section \<open>Queries\<close>

lemma nonempty_level:
  assumes "hnsw_inv h" and "nodes h \<noteq> []"
  shows "maxLevel h \<noteq> -1"
proof -
  have "top_ok h" "graph_ok h" using assms by (simp_all add: hnsw_inv_def)
  then have "node_ok (nodes h ! entryPoint h)" "Level (nodes h ! entryPoint h) = maxLevel h"
    using assms(2) by (auto simp: top_ok_def graph_ok_def)
  then show ?thesis by (simp add: node_ok_def)
qed

lemma search_start:
  assumes inv: "hnsw_inv h" and ne: "nodes h \<noteq> []"
  obtains cur where "descend h query (maxLevel h) 0 (entryPoint h) = Some cur" and "cur < length (nodes h)"
proof -
  have g: "graph_ok h" and tp: "top_ok h" using inv by (simp_all add: hnsw_inv_def)
  let ?a = "length (nodes h)"
  have u: "unlinked h ?a l" for l using links_bound [OF g] by (fastforce simp: unlinked_def)
  have "on_layer h ?a (maxLevel h) (entryPoint h)" using tp ne by (auto simp: top_ok_def on_layer_def)
  from descend_ok [OF g u this, of query 0] that show ?thesis by (auto simp: on_layer_def)
qed

lemma searchLayer_from:
  assumes inv: "hnsw_inv h" and v: "vl_stamped vl" and c: "cur < length (nodes h)"
  obtains r where "searchLayer vl h query cur ef 0 = Some r"
    and "results_ok h query ef (\<lambda>j. j < length (nodes h) \<and> (live h j \<or> j = cur)) r" and "sorted (map Distance r)"
    and "int (length (nodes h)) < ef \<Longrightarrow> cID ` set r = {i. reach h 0 cur i}"
proof -
  have g: "graph_ok h" using inv by (simp add: hnsw_inv_def)
  have "closed_under h 0 (\<lambda>j. j < length (nodes h) \<and> (live h j \<or> j = cur))"
    using links_bound [OF g] by (auto simp: closed_under_def)
  from searchLayer_ok [OF g this _ v, of cur query ef] c that show ?thesis by blast
qed

lemma rescore_ok:
  assumes s: "sorts srt" and r: "results_ok h query ef P r" "sorted (map Distance r)" and P: "\<And>j. P j \<Longrightarrow> j < length (nodes h)"
  obtains r' where "rescore srt h query r = Some r'" and "distinct (map cID r')" and "sorted (map Distance r')"
    and "\<forall>c \<in> set r'. P (cID c) \<and> Distance c = distCalc h query (Vector (nodes h ! cID c))"
    and "cID ` set r' = cID ` set r" and "length r' = length r"
proof (cases "hquantizer h")
  case None
  then have "dist_to h query i = distCalc h query (Vector (nodes h ! i))" for i by (simp add: dist_to_def)
  with None r that [of r] show ?thesis by (auto simp: rescore_def results_ok_def)
next
  case (Some qz)
  have "\<forall>i \<in> set (map cID r). i < length (nodes h)" using r(1) P by (auto simp: results_ok_def)
  from rank_ok [OF this, of query] obtain cs where
    cs: "rank h query (map cID r) = Some cs" "map cID cs = map cID r"
      "\<forall>c \<in> set cs. Distance c = distCalc h query (Vector (nodes h ! cID c))" by blast
  have m: "mset (srt cs) = mset cs" "sorted (map Distance (srt cs))" using s by (simp_all add: sorts_def)
  have st: "set (srt cs) = set cs" by (rule mset_eq_setD [OF m(1)])
  have mm: "mset (map cID (srt cs)) = mset (map cID r)" using m(1) cs(2) by (metis mset_map)
  have d: "distinct (map cID (srt cs))" "set (map cID (srt cs)) = set (map cID r)" "length (srt cs) = length r"
    using mset_eq_imp_distinct_iff [OF mm] r(1) mset_eq_setD [OF mm] mset_eq_length [OF mm] by (simp_all add: results_ok_def)
  have "\<forall>i \<in> set (map cID r). P i" using r(1) by (auto simp: results_ok_def)
  then have Pc: "P (cID c)" if "c \<in> set (srt cs)" for c
    using that d(2) by (metis image_eqI list.set_map)
  show ?thesis
  proof (rule that [of "srt cs"])
    show "rescore srt h query r = Some (srt cs)" using Some cs(1) by (simp add: rescore_def)
    show "\<forall>c \<in> set (srt cs). P (cID c) \<and> Distance c = distCalc h query (Vector (nodes h ! cID c))"
      using cs(3) st Pc by simp
  qed (use d m in simp_all)
qed

end
