(* ===== verification/Hnsw_Properties.thy ===== *)
theory Hnsw_Properties
  imports Hnsw_Insert
begin

text \<open>
  Properties of the HNSW index. The concrete instances use integer vectors with the Manhattan
  distance; \<open>h1\<close> is the index built from an empty one by a single insertion.
\<close>

definition manhattan :: "int list \<Rightarrow> int list \<Rightarrow> int" where
  "manhattan v w = sum_list (map (\<lambda>(x, y). \<bar>x - y\<bar>) (zip v w))"

definition cfg0 :: "(int, int) hnsw_config" where
  "cfg0 = \<lparr>cfgM = 2, cfgEfConstruction = 8, cfgEfSearch = 8, cfgDimension = 1, cfgDistance = manhattan, cfgQuantizer = None\<rparr>"

definition h0 :: "(int, int) hnsw" where
  "h0 = (case New cfg0 of Inr h \<Rightarrow> h | Inl e \<Rightarrow> undefined)"

definition pt :: "string \<Rightarrow> int \<Rightarrow> int point" where
  "pt i x = \<lparr>pID = i, pVector = [x], pPayload = None\<rparr>"

definition vl0 :: visited_list where
  "vl0 = NewVisitedList 4"

lemma h0_inv: "hnsw_inv h0"
proof -
  have "\<exists>h. New cfg0 = Inr h" by (simp add: New_def cfg0_def)
  then show ?thesis using New_inv by (auto simp: h0_def)
qed

lemma h0_fields: "dimension h0 = 1" "nodes h0 = []" "idToIndex h0 = []" "maxLevel h0 = -1"
  by (simp_all add: h0_def New_def cfg0_def)

lemma vl0_stamped: "vl_stamped vl0"
  by (simp add: vl0_def NewVisitedList_stamped)

lemma insert_first: "\<exists>h. Insert (sort_key Distance) vl0 0 (pt ''a'' 3) h0 = Ok h \<and> hnsw_inv h \<and> nodes h \<noteq> []
    \<and> dimension h = 1 \<and> map_of (idToIndex h) ''a'' = Some 0 \<and> length (nodes h) = 1"
proof -
  have p: "int (length (pVector (pt ''a'' 3))) = dimension h0" "map_of (idToIndex h0) (pID (pt ''a'' 3)) = None"
    "length (nodes h0) < MaxNodes" "pID (pt ''a'' 3) = ''a''" by (simp_all add: pt_def h0_fields MaxNodes_def)
  from Insert_inv [OF h0_inv sort_key_sorts vl0_stamped _ p(1-3), of 0] obtain h n where
    h: "Insert (sort_key Distance) vl0 0 (pt ''a'' 3) h0 = Ok h" "hnsw_inv h" "skeleton h = skeleton (added n h0)" "nodeID n = ''a''"
    using p(4) by (metis order_refl)
  then show ?thesis
    using skeleton_length [OF h(3)] skeleton_params(8,9) [OF h(3)] by (auto simp: added_def h0_fields)
qed

definition h1 :: "(int, int) hnsw" where
  "h1 = (case Insert (sort_key Distance) vl0 0 (pt ''a'' 3) h0 of Ok h \<Rightarrow> h | _ \<Rightarrow> undefined)"

lemma h1_facts: "hnsw_inv h1" "nodes h1 \<noteq> []" "dimension h1 = 1" "map_of (idToIndex h1) ''a'' = Some 0" "length (nodes h1) = 1"
  using insert_first by (auto simp: h1_def)

text \<open>C1: The invariant of the index (every link points to an existing other node of its layer, no
  list has repetitions or exceeds the layer's maximum, ids and node numbers correspond, the entry
  point has the highest level, the counters are right) is kept by an insertion, which neither
  panics nor fails on a fresh id of the right dimension; the new point and all others can then be
  looked up, and the size grows by one.\<close>

theorem hnsw_insert:
  assumes "hnsw_inv h" and "sorts srt" and "vl_stamped vl" and "0 \<le> level"
    and "int (length (pVector p)) = dimension h" and "GetNodeID h (pID p) = None" and "length (nodes h) < MaxNodes"
  shows "\<exists>h'. Insert srt vl level p h = Ok h' \<and> hnsw_inv h'
    \<and> (\<forall>q. Get q h' = (if q = pID p then Ok p else Get q h)) \<and> Size h' = Size h + 1"
proof -
  have fresh: "map_of (idToIndex h) (pID p) = None" using assms(6) by (simp add: GetNodeID_def)
  from Insert_inv [OF assms(1-5) fresh assms(7)] obtain h' n where
    h': "Insert srt vl level p h = Ok h'" "hnsw_inv h'" "skeleton h' = skeleton (added n h)"
    and n: "nodeID n = pID p" "Vector n = pVector p" "node_payload n = pPayload p" "\<not> deleted n" by blast
  have "Get q h' = (if q = pID p then Ok p else Get q h)" for q
    using Get_added [OF assms(1) _ n(4), of q] fresh n(1-3) unfolding Get_skeleton [OF h'(3)] by (cases p) simp
  moreover have "Size h' = Size h + 1"
    using skeleton_params(7,10) [OF h'(3)] by (simp add: Size_def added_def)
  ultimately show ?thesis using h' by blast
qed

theorem hnsw_insert_witness:
  "\<exists>h'. Insert (sort_key Distance) vl0 0 (pt ''a'' 3) h0 = Ok h' \<and> hnsw_inv h' \<and> Get ''a'' h' = Ok (pt ''a'' 3)"
proof -
  have "int (length (pVector (pt ''a'' 3))) = dimension h0" "GetNodeID h0 (pID (pt ''a'' 3)) = None"
    "length (nodes h0) < MaxNodes" by (simp_all add: pt_def h0_fields GetNodeID_def MaxNodes_def)
  from hnsw_insert [OF h0_inv sort_key_sorts vl0_stamped _ this, of 0] show ?thesis by (auto simp: pt_def)
qed

text \<open>A search of a well-formed index with a query of its dimension and a non-negative \<open>k\<close>
  neither panics nor fails: it returns at most \<open>k\<close> distinct existing nodes, in the order of
  their distance, each with the exact distance of the query to its vector; a node marked
  deleted can only be the one the layer-0 search started from.\<close>

theorem hnsw_search_sound:
  assumes "hnsw_inv h" and "sorts srt" and "vl_stamped vl" and "int (length query) = dimension h" and "0 \<le> k"
  shows "\<exists>res. SearchWithEf srt vl h query k ef = Ok res \<and> int (length res) \<le> k
    \<and> distinct (map cID res) \<and> sorted (map Distance res)
    \<and> (\<forall>c \<in> set res. cID c < length (nodes h) \<and> Distance c = distCalc h query (Vector (nodes h ! cID c))
         \<and> (live h (cID c) \<or> descend h query (maxLevel h) 0 (entryPoint h) = Some (cID c)))"
proof (cases "nodes h = []")
  case True
  then have "maxLevel h = -1" using assms(1) by (simp add: hnsw_inv_def top_ok_def)
  then show ?thesis using assms(4,5) by (auto simp: SearchWithEf_def)
next
  case False
  from search_start [OF assms(1) False, of query] obtain cur where
    cur: "descend h query (maxLevel h) 0 (entryPoint h) = Some cur" "cur < length (nodes h)" by blast
  let ?ef = "if ef < k then k else ef"
  let ?sef = "if hquantizer h \<noteq> None then ?ef * 2 else ?ef"
  let ?P = "\<lambda>j. j < length (nodes h) \<and> (live h j \<or> j = cur)"
  from searchLayer_from [OF assms(1,3) cur(2), of query ?sef] obtain r where
    r: "searchLayer vl h query cur ?sef 0 = Some r" "results_ok h query ?sef ?P r" "sorted (map Distance r)" by blast
  have "\<And>j. ?P j \<Longrightarrow> j < length (nodes h)" by simp
  then obtain r' where r': "rescore srt h query r = Some r'" "distinct (map cID r')" "sorted (map Distance r')"
      "\<forall>c \<in> set r'. ?P (cID c) \<and> Distance c = distCalc h query (Vector (nodes h ! cID c))"
      "cID ` set r' = cID ` set r" "length r' = length r" by (rule rescore_ok [OF assms(2) r(2,3)])
  have ml: "maxLevel h \<noteq> -1" using assms(1) False by (rule nonempty_level)
  have "SearchWithEf srt vl h query k ef = Ok (take (nat k) r')"
    using assms(4,5) ml cur(1) r(1) r'(1) by (auto simp: SearchWithEf_def Let_def top_k_def)
  moreover have "distinct (map cID (take (nat k) r'))" "sorted (map Distance (take (nat k) r'))"
    using r'(2,3) by (simp_all add: take_map [symmetric] sorted_wrt_take)
  moreover have "\<forall>c \<in> set (take (nat k) r'). cID c < length (nodes h) \<and> Distance c = distCalc h query (Vector (nodes h ! cID c))
      \<and> (live h (cID c) \<or> descend h query (maxLevel h) 0 (entryPoint h) = Some (cID c))"
    using r'(4) cur(1) by (auto dest: in_set_takeD)
  ultimately show ?thesis using assms(5) by auto
qed

theorem hnsw_search_sound_witness:
  "\<exists>res. SearchWithEf (sort_key Distance) vl0 h0 [5] 1 1 = Ok res \<and> int (length res) \<le> 1"
proof -
  have "int (length [5 :: int]) = dimension h0" by (simp add: h0_fields)
  from hnsw_search_sound [OF h0_inv sort_key_sorts vl0_stamped this, of 1 1] show ?thesis by auto
qed



text \<open>C23: The greedy walk of a layer ends, for every start, in a local minimum: no live neighbour on
  the layer is nearer to the query, and the node found is at least as near as the start.\<close>

theorem hnsw_greedy_minimum:
  assumes "hnsw_inv h" and "entry < length (nodes h)"
  shows "\<exists>c. greedySearchLayer h query entry layer = Some c \<and> c < length (nodes h)
    \<and> dist_to h query c \<le> dist_to h query entry
    \<and> (\<forall>j \<in> set (links h c layer). live h j \<longrightarrow> dist_to h query c \<le> dist_to h query j)"
proof -
  have g: "graph_ok h" using assms(1) by (simp add: hnsw_inv_def)
  have "closed_under h layer (\<lambda>j. j < length (nodes h))" using links_bound [OF g] by (auto simp: closed_under_def)
  from greedySearchLayer_ok [OF g this assms(2), of query] show ?thesis by blast
qed

theorem hnsw_greedy_minimum_witness: "\<exists>c. greedySearchLayer h1 [5] 0 0 = Some c \<and> c < 1"
  using hnsw_greedy_minimum [OF h1_facts(1), of 0 "[5]" 0] by (auto simp: h1_facts)



text \<open>Neighbour selection keeps exactly as many of the candidates as the layer admits, or all of
  them if there are fewer, and invents none; it needs no more of the sort than that it sorts.\<close>

theorem hnsw_select_neighbors:
  assumes "sorts srt" and "\<forall>c \<in> set cands. cID c < length (nodes h)" and "0 \<le> maxConn"
  shows "\<exists>sel. selectNeighborsHeuristic srt h cands maxConn = Some sel \<and> mset sel \<subseteq># mset cands
    \<and> int (length sel) = min (int (length cands)) maxConn"
  using selectNeighborsHeuristic_ok [OF assms] by metis

theorem hnsw_select_neighbors_witness:
  "\<exists>sel. selectNeighborsHeuristic (sort_key Distance) h1 [\<lparr>cID = 0, Distance = 4\<rparr>, \<lparr>cID = 0, Distance = 3\<rparr>] 1 = Some sel
     \<and> length sel = 1"
  using hnsw_select_neighbors [OF sort_key_sorts, of "[\<lparr>cID = 0, Distance = 4\<rparr>, \<lparr>cID = 0, Distance = 3\<rparr>]" h1 1]
  by (auto simp: h1_facts)

text \<open>A search of a non-empty index never comes back empty: when every point has been deleted it
  still returns a deleted one.\<close>

theorem hnsw_search_returns_deleted:
  assumes "hnsw_inv h" and "sorts srt" and "vl_stamped vl" and "int (length query) = dimension h" and "1 \<le> k"
    and "nodes h \<noteq> []" and "\<forall>n \<in> set (nodes h). deleted n"
  shows "\<exists>c cs. SearchWithEf srt vl h query k ef = Ok (c # cs) \<and> deleted (nodes h ! cID c)"
proof -
  from search_start [OF assms(1,6), of query] obtain cur where
    cur: "descend h query (maxLevel h) 0 (entryPoint h) = Some cur" "cur < length (nodes h)" by blast
  let ?ef = "if ef < k then k else ef"
  let ?sef = "if hquantizer h \<noteq> None then ?ef * 2 else ?ef"
  let ?P = "\<lambda>j. j < length (nodes h) \<and> (live h j \<or> j = cur)"
  from searchLayer_from [OF assms(1,3) cur(2), of query ?sef] obtain r where
    r: "searchLayer vl h query cur ?sef 0 = Some r" "results_ok h query ?sef ?P r" "sorted (map Distance r)" by blast
  have "\<And>j. ?P j \<Longrightarrow> j < length (nodes h)" by simp
  then obtain r' where r': "rescore srt h query r = Some r'" "distinct (map cID r')" "sorted (map Distance r')"
      "\<forall>c \<in> set r'. ?P (cID c) \<and> Distance c = distCalc h query (Vector (nodes h ! cID c))"
      "cID ` set r' = cID ` set r" "length r' = length r" by (rule rescore_ok [OF assms(2) r(2,3)])
  have ml: "maxLevel h \<noteq> -1" using assms(1,6) by (rule nonempty_level)
  have s: "SearchWithEf srt vl h query k ef = Ok (take (nat k) r')"
    using assms(4,5) ml cur(1) r(1) r'(1) by (auto simp: SearchWithEf_def Let_def top_k_def)
  have "r' \<noteq> []" using r(2) r'(6) by (auto simp: results_ok_def)
  then obtain c cs where c: "take (nat k) r' = c # cs" using assms(5) by (cases "take (nat k) r'") auto
  then have "c \<in> set r'" by (metis in_set_takeD list.set_intros(1))
  then have "nodes h ! cID c \<in> set (nodes h)" using r'(4) by simp
  with assms(7) s c show ?thesis by auto
qed

theorem hnsw_search_returns_deleted_witness:
  "\<exists>h' c cs. Delete ''a'' h1 = Ok h' \<and> SearchWithEf (sort_key Distance) vl0 h' [5] 1 1 = Ok (c # cs)"
proof -
  from Delete_inv [OF h1_facts(1,4)] obtain h' where h': "Delete ''a'' h1 = Ok h'" "hnsw_inv h'"
    "h' = h1 \<or> h' = h1\<lparr>nodes := (nodes h1)[0 := MarkDeleted (nodes h1 ! 0)], deletedCount := deletedCount h1 + 1\<rparr>"
    "deleted (nodes h' ! 0)" by blast
  have l: "length (nodes h') = 1" "dimension h' = 1" using h'(3) h1_facts by auto
  then have "nodes h' = [nodes h' ! 0]" by (cases "nodes h'") auto
  then have "\<forall>n \<in> set (nodes h'). deleted n" using h'(4) by (metis empty_iff empty_set set_ConsD)
  moreover have "nodes h' \<noteq> []" "int (length [5 :: int]) = dimension h'" using l by auto
  ultimately show ?thesis
    using hnsw_search_returns_deleted [OF h'(2) sort_key_sorts vl0_stamped, of "[5]" 1 1] h'(1) by auto
qed

text \<open>C15: A visited list taken from the pool behaves as a set, whatever generations it has been
  through, the wrap-around of the generation counter included: after the reset it contains exactly
  the ids added since, \<open>Add\<close> reports exactly the repeated ones, and the list can go back to the
  pool.\<close>

theorem visited_list_set:
  assumes "vl_stamped vl"
  shows "let vl' = fold (\<lambda>i v. snd (vl_Add i v)) ids (vl_Reset vl) in
    (\<forall>j. vl_Contains vl' j \<longleftrightarrow> j \<in> set ids) \<and> (\<forall>j. fst (vl_Add j vl') \<longleftrightarrow> j \<in> set ids) \<and> vl_stamped vl'"
proof -
  let ?vl = "fold (\<lambda>i v. snd (vl_Add i v)) ids (vl_Reset vl)"
  have r: "vl_ok (vl_Reset vl)" by (rule vl_Reset_ok [OF assms])
  have c: "vl_Contains ?vl j \<longleftrightarrow> j \<in> set ids" for j
    using vlist.fold_visit [OF r, of ids j] vl_Reset_empty [OF assms] by simp
  have "vl_ok ?vl" using vlist.fold_visit [OF r, of ids] by simp
  then have "fst (vl_Add j ?vl) \<longleftrightarrow> j \<in> set ids" "vl_stamped ?vl" for j
    using vl_Add_fst [of ?vl j] c by (simp_all add: vl_ok_def)
  with c show ?thesis by (simp add: Let_def)
qed

theorem visited_list_set_witness:
  "vl_Contains (fold (\<lambda>i v. snd (vl_Add i v)) [7, 2] (vl_Reset \<lparr>matches = [4294967295], match_gen = 4294967295\<rparr>)) 7"
proof -
  have "vl_stamped \<lparr>matches = [4294967295], match_gen = 4294967295\<rparr>" by (simp add: vl_stamped_def)
  from visited_list_set [OF this, of "[7, 2]"] show ?thesis unfolding Let_def by auto
qed

end
