(* ===== verification/Hnsw_Query.thy ===== *)
theory Hnsw_Query
  imports Hnsw_Insert
begin

text \<open>
  The queries of \<open>pkg/index/hnsw/search.go\<close> beyond plain k-NN search: filtered search with its
  adaptive beam, discovery, range search, recommendation, batches and the accessors of the graph. The
  filtered search and discovery run the same loop with different widths and distances, which is
  \<open>beam_loop\<close> here. As before, \<open>None\<close> is a run-time panic.
\<close>

section \<open>Parameters\<close>

record 'd search_params =
  prK :: int
  prEf :: int
  Radius :: "'d option"
  Filter :: "(string \<Rightarrow> go_map option \<Rightarrow> bool) option"
  EstimatedSelectivity :: f64

text \<open>\<open>Radius\<close> is \<open>Some r\<close> for a positive radius; zero and negative values switch the radius off.\<close>

definition passes_filter :: "(string \<Rightarrow> go_map option \<Rightarrow> bool) option \<Rightarrow> 'f hnode \<Rightarrow> bool" where
  "passes_filter flt n = (case flt of None \<Rightarrow> True | Some f \<Rightarrow> f (nodeID n) (GetPayload n))"

text \<open>
  The thresholds are the doubles nearest to 0.8, 0.2, 0.1 and 0.05. The product with the multiplier
  is exact below \<open>2 ^ 49\<close>, far above any beam width; the conversion to \<open>int\<close> drops the fraction.
\<close>

definition sel_multiplier :: "f64 \<Rightarrow> rat" where
  "sel_multiplier s = (if f64_le (Fin (3602879701896397 / 4503599627370496)) s then 3 / 2
     else if f64_le (Fin (1 / 2)) s then 2
     else if f64_le (Fin (3602879701896397 / 18014398509481984)) s then 3
     else if f64_le (Fin (3602879701896397 / 36028797018963968)) s then 5
     else if f64_le (Fin (3602879701896397 / 72057594037927936)) s then 7
     else 10)"

definition trunc_rat :: "rat \<Rightarrow> int" where
  "trunc_rat x = (if x < 0 then \<lceil>x\<rceil> else \<lfloor>x\<rfloor>)"

definition calculateAdaptiveEf :: "int \<Rightarrow> f64 \<Rightarrow> int" where
  "calculateAdaptiveEf ef sel =
    (let s = (if f64_le sel (Fin 0) \<or> f64_lt (Fin 1) sel then Fin (1 / 2) else sel);
         adaptiveEf = trunc_rat (of_int ef * sel_multiplier s);
         maxEf = ef * 15
     in if adaptiveEf > maxEf then maxEf else adaptiveEf)"

section \<open>The beam search with acceptance\<close>

text \<open>\<open>for results.Len() > ef { heap.Pop(results) }\<close>; popping an empty heap panics.\<close>

function trim_all :: "int \<Rightarrow> ('d :: linorder) candidate list \<Rightarrow> 'd candidate list option" where
  "trim_all ef results = (if int (length results) > ef
     then (case heap_pop farther results of None \<Rightarrow> None | Some (x, r) \<Rightarrow> trim_all ef r) else Some results)"
  by auto
termination by (relation "measure (\<lambda>(ef, r). length r)") (auto dest!: heap_pop_length)

declare trim_all.simps [simp del]

record 'd beam =
  stopEf :: int
  candEf :: int
  resEf :: int
  metric :: "nat \<Rightarrow> 'd option"
  accept :: "nat \<Rightarrow> 'd \<Rightarrow> bool"

definition beam_one :: "('f, 'd :: linorder) hnsw \<Rightarrow> 'd beam \<Rightarrow> nat \<Rightarrow> 'd search_state \<Rightarrow> 'd search_state option" where
  "beam_one h B nb st = (case st of (vl, cands, results) \<Rightarrow>
    (case vl_Add nb vl of (seen, vl') \<Rightarrow>
     if seen then Some (vl', cands, results)
     else case go_index (nodes h) nb of None \<Rightarrow> None
      | Some n \<Rightarrow> if deleted n then Some (vl', cands, results)
          else (case metric B nb of None \<Rightarrow> None
           | Some d \<Rightarrow> let c = \<lparr>cID = nb, Distance = d\<rparr> in
             (case better (candEf B) d results of None \<Rightarrow> None
              | Some push \<Rightarrow> let cands' = (if push then heap_push nearer cands c else cands) in
                 if \<not> accept B nb d then Some (vl', cands', results)
                 else (case better (resEf B) d results of None \<Rightarrow> None
                   | Some False \<Rightarrow> Some (vl', cands', results)
                   | Some True \<Rightarrow> (case trim_all (resEf B) (heap_push farther results c) of None \<Rightarrow> None
                      | Some results' \<Rightarrow> Some (vl', cands', results')))))))"

fun beam_all :: "('f, 'd :: linorder) hnsw \<Rightarrow> 'd beam \<Rightarrow> nat list \<Rightarrow> 'd search_state \<Rightarrow> 'd search_state option" where
  "beam_all h B [] st = Some st"
| "beam_all h B (nb # nbs) st = (case beam_one h B nb st of None \<Rightarrow> None | Some st' \<Rightarrow> beam_all h B nbs st')"

lemma beam_one_visited:
  assumes "beam_one h B nb st = Some st'"
  shows "fst st' = snd (vl_Add nb (fst st))" and "fst (vl_Add nb (fst st)) \<Longrightarrow> snd st' = snd st"
    and "\<not> fst (vl_Add nb (fst st)) \<Longrightarrow> nb < length (nodes h)"
  using assms by (auto simp: beam_one_def Let_def go_index_def split: prod.splits option.splits if_splits bool.splits)

lemma beam_one_shrinks: "beam_one h B nb st = Some st' \<Longrightarrow> shrinks h st st'"
proof -
  assume e: "beam_one h B nb st = Some st'"
  let ?vl = "fst st" and ?v = "snd (vl_Add nb (fst st))"
  have sub: "unvisited h ?v \<subseteq> unvisited h ?vl" using vl_Add_Contains(2) by (auto simp: unvisited_def)
  show ?thesis
  proof (cases "fst (vl_Add nb ?vl)")
    case True
    with beam_one_visited [OF e] sub show ?thesis by (auto simp: shrinks_def)
  next
    case False
    then have "nb \<in> unvisited h ?vl" "nb \<notin> unvisited h ?v"
      using beam_one_visited(3) [OF e] vl_Add_unseen [of nb ?vl] vl_Add_Contains(1) [of nb ?vl] by (auto simp: unvisited_def)
    with sub beam_one_visited(1) [OF e] show ?thesis by (auto simp: shrinks_def)
  qed
qed

lemma beam_all_shrinks: "beam_all h B nbs st = Some st' \<Longrightarrow> shrinks h st st'"
proof (induction nbs arbitrary: st)
  case Nil
  then show ?case by (simp add: shrinks_def)
next
  case (Cons nb nbs)
  then show ?case by (auto split: option.splits intro: shrinks_trans beam_one_shrinks)
qed

function beam_loop :: "('f, 'd :: linorder) hnsw \<Rightarrow> 'd beam \<Rightarrow> int \<Rightarrow> 'd search_state \<Rightarrow> 'd candidate list option" where
  "beam_loop h B layer (vl, cands, results) =
    (case heap_pop nearer cands of None \<Rightarrow> Some results
     | Some (cnd, cands') \<Rightarrow> (case stop_at (stopEf B) cnd results of None \<Rightarrow> None
       | Some True \<Rightarrow> Some results
       | Some False \<Rightarrow> (case getConnections h (cID cnd) layer of None \<Rightarrow> None
         | Some nbs \<Rightarrow> (case beam_all h B nbs (vl, cands', results) of None \<Rightarrow> None
           | Some st \<Rightarrow> beam_loop h B layer st))))"
  by pat_completeness auto

definition shrink_order :: "(('f, 'd :: linorder) hnsw \<times> 'd search_state) rel" where
  "shrink_order = inv_image (less_than <*lex*> less_than) (\<lambda>(h, vl, cands, results). (card (unvisited h vl), length cands))"

lemma shrink_order_step:
  assumes "shrinks h (vl, cands', results) st" and "length cands = Suc (length cands')"
  shows "((h, st), h, vl, cands, results) \<in> shrink_order"
proof -
  obtain v c r where st: "st = (v, c, r)" by (cases st)
  show ?thesis
  proof (cases "unvisited h v = unvisited h vl")
    case True
    with assms show ?thesis by (simp add: shrink_order_def shrinks_def st)
  next
    case False
    with assms(1) have "card (unvisited h v) < card (unvisited h vl)"
      by (intro psubset_card_mono) (auto simp: shrinks_def st)
    then show ?thesis by (simp add: shrink_order_def st)
  qed
qed

termination beam_loop
proof (relation "inv_image shrink_order (\<lambda>(h, B, layer, st). (h, st))")
  show "wf (inv_image shrink_order (\<lambda>(h :: ('f, 'd :: linorder) hnsw, B :: 'd beam, layer :: int, st). (h, st)))"
    by (auto simp: shrink_order_def)
qed (auto intro!: shrink_order_step dest: beam_all_shrinks heap_pop_length)

declare beam_loop.simps [simp del]

definition beam_search :: "visited_list \<Rightarrow> ('f, 'd :: linorder) hnsw \<Rightarrow> 'd beam \<Rightarrow> (nat \<Rightarrow> bool) \<Rightarrow> nat \<Rightarrow> int \<Rightarrow> 'd candidate list option" where
  "beam_search vl h B entry_ok entryID layer =
    (let vl = snd (vl_Add entryID (vl_Reset vl)) in
     case metric B entryID of None \<Rightarrow> None
     | Some d \<Rightarrow> (case go_index (nodes h) entryID of None \<Rightarrow> None
       | Some n \<Rightarrow>
         let c = \<lparr>cID = entryID, Distance = d\<rparr>;
             results = (if entry_ok entryID \<and> \<not> deleted n then heap_push farther [] c else []) in
         (case beam_loop h B layer (vl, heap_push nearer [] c, results) of None \<Rightarrow> None
          | Some r \<Rightarrow> Some (rev (pop_all (heap_pop farther) (length r) r)))))"

section \<open>Filtered search\<close>

definition in_radius :: "'d :: linorder option \<Rightarrow> 'd \<Rightarrow> bool" where
  "in_radius radius d = (case radius of None \<Rightarrow> True | Some r \<Rightarrow> \<not> d > r)"

definition filter_beam :: "('f, 'd :: linorder) hnsw \<Rightarrow> 'f list \<Rightarrow> int \<Rightarrow> 'd search_params \<Rightarrow> 'd beam" where
  "filter_beam h query ef ps =
    (let sel = (if f64_le (EstimatedSelectivity ps) (Fin 0) then Fin (5944751508129055 / 18014398509481984) else EstimatedSelectivity ps)
     in \<lparr>stopEf = ef, candEf = calculateAdaptiveEf ef sel, resEf = ef, metric = node_distance h query,
         accept = (\<lambda>i d. passes_filter (Filter ps) (nodes h ! i) \<and> in_radius (Radius ps) d)\<rparr>)"

definition searchLayerWithFilter :: "visited_list \<Rightarrow> ('f, 'd :: linorder) hnsw \<Rightarrow> 'f list \<Rightarrow> nat \<Rightarrow> int \<Rightarrow> int \<Rightarrow> 'd search_params
    \<Rightarrow> 'd candidate list option" where
  "searchLayerWithFilter vl h query entryID ef layer ps =
     beam_search vl h (filter_beam h query ef ps) (\<lambda>i. passes_filter (Filter ps) (nodes h ! i)) entryID layer"

definition SearchWithFilter :: "('d candidate list \<Rightarrow> 'd candidate list) \<Rightarrow> visited_list \<Rightarrow> ('f, 'd :: linorder) hnsw
    \<Rightarrow> 'f list \<Rightarrow> 'd search_params \<Rightarrow> (hnsw_error, 'd candidate list) outcome" where
  "SearchWithFilter srt vl h query ps =
    (if int (length query) \<noteq> dimension h then Err ErrDimensionMismatch
     else if maxLevel h = -1 then Ok []
     else let ef = (if prEf ps < prK ps then prK ps else prEf ps);
              searchEf = (if hquantizer h \<noteq> None then ef * 2 else ef)
          in (case descend h query (maxLevel h) 0 (entryPoint h) of None \<Rightarrow> Panic
            | Some cur \<Rightarrow> (case searchLayerWithFilter vl h query cur searchEf 0 ps of None \<Rightarrow> Panic
              | Some candidates \<Rightarrow> (case rescore srt h query candidates of None \<Rightarrow> Panic
                | Some candidates \<Rightarrow> of_option_panic (top_k (prK ps) candidates)))))"

section \<open>Discovery\<close>

text \<open>The float32 arithmetic of the penalty.\<close>

record 'd dist_ops =
  d_zero :: 'd
  d_tenth :: 'd
  d_add :: "'d \<Rightarrow> 'd \<Rightarrow> 'd"
  d_sub :: "'d \<Rightarrow> 'd \<Rightarrow> 'd"
  d_mul :: "'d \<Rightarrow> 'd \<Rightarrow> 'd"
  d_div :: "'d \<Rightarrow> 'd \<Rightarrow> 'd"
  d_of_nat :: "nat \<Rightarrow> 'd"

record 'f context_pair =
  Positive :: "'f list"
  Negative :: "'f list"

record 'f discover_params =
  Target :: "'f list"
  Context :: "'f context_pair list"
  dK :: int
  dEf :: int
  dFilter :: "(string \<Rightarrow> go_map option \<Rightarrow> bool) option"

definition penalty :: "'d dist_ops \<Rightarrow> ('f list \<Rightarrow> 'f list \<Rightarrow> 'd :: linorder) \<Rightarrow> 'f list \<Rightarrow> 'f context_pair list \<Rightarrow> 'd" where
  "penalty D dc vec ctx = foldl (\<lambda>t p. let pd = dc vec (Positive p); nd = dc vec (Negative p) in
     if pd > nd then d_add D t (d_sub D pd nd) else t) (d_zero D) ctx"

definition contextDistance :: "'d dist_ops \<Rightarrow> ('f, 'd :: linorder) hnsw \<Rightarrow> 'f list \<Rightarrow> 'f list \<Rightarrow> 'f context_pair list \<Rightarrow> 'd" where
  "contextDistance D h vec target ctx =
    (let t = penalty D (distCalc h) vec ctx in
     if length target > 0 then d_add D t (distCalc h vec target)
     else let reg = (if length ctx > 0
          then d_div D (foldl (\<lambda>r p. d_add D r (distCalc h vec (Positive p))) (d_zero D) ctx) (d_of_nat D (length ctx))
          else d_zero D)
       in d_add D t (d_mul D (d_tenth D) reg))"

definition discover_beam :: "'d dist_ops \<Rightarrow> ('f, 'd :: linorder) hnsw \<Rightarrow> int \<Rightarrow> 'f discover_params \<Rightarrow> 'd beam" where
  "discover_beam D h ef ps =
    \<lparr>stopEf = ef * 3, candEf = ef * 3, resEf = ef,
     metric = (\<lambda>i. map_option (\<lambda>v. contextDistance D h v (Target ps) (Context ps)) (getVector h i)),
     accept = (\<lambda>i d. passes_filter (dFilter ps) (nodes h ! i))\<rparr>"

definition discoverLayer0 :: "'d dist_ops \<Rightarrow> visited_list \<Rightarrow> ('f, 'd :: linorder) hnsw \<Rightarrow> nat \<Rightarrow> int \<Rightarrow> 'f discover_params
    \<Rightarrow> 'd candidate list option" where
  "discoverLayer0 D vl h entryID ef ps =
     beam_search vl h (discover_beam D h ef ps) (\<lambda>i. passes_filter (dFilter ps) (nodes h ! i)) entryID 0"

definition DiscoverWithFilter :: "'d dist_ops \<Rightarrow> visited_list \<Rightarrow> ('f, 'd :: linorder) hnsw \<Rightarrow> 'f discover_params
    \<Rightarrow> (hnsw_error, 'd candidate list) outcome" where
  "DiscoverWithFilter D vl h ps =
    (if maxLevel h = -1 then Ok []
     else let ef = (if dEf ps < dK ps then dK ps else dEf ps)
          in (case discoverLayer0 D vl h (entryPoint h) ef ps of None \<Rightarrow> Panic
            | Some candidates \<Rightarrow> of_option_panic (top_k (dK ps) candidates)))"

end
