(* ===== verification/Hnsw_Range.thy ===== *)
theory Hnsw_Range
  imports Hnsw_Query
begin

text \<open>
  Range search of \<open>pkg/index/hnsw/search.go\<close>, a breadth-first traversal of layer 0, with the proof
  that it finds every live point in range that the start node reaches; and the queries built on k-NN search:
  recommendation, batches and the accessors of the graph.
\<close>

section \<open>Range search\<close>

fun range_scan :: "nat list \<Rightarrow> visited_list \<times> nat list \<Rightarrow> visited_list \<times> nat list" where
  "range_scan [] st = st"
| "range_scan (nb # nbs) (vl, queue) = (case vl_Add nb vl of (seen, vl') \<Rightarrow>
     range_scan nbs (vl', if seen then queue else queue @ [nb]))"

text \<open>Every number that is a node or occurs in a link list: what the traversal can enqueue.\<close>

definition mentioned :: "('f, 'd) hnsw \<Rightarrow> nat set" where
  "mentioned h = {..<length (nodes h)} \<union> (\<Union>n \<in> set (nodes h). \<Union>cs \<in> set (Connections n). set cs)"

lemma finite_mentioned [simp]: "finite (mentioned h)"
  by (simp add: mentioned_def)

lemma getConnections_mentioned: "getConnections h i l = Some nbs \<Longrightarrow> set nbs \<subseteq> mentioned h"
proof -
  assume "getConnections h i l = Some nbs"
  then have "nbs = [] \<or> (i < length (nodes h) \<and> nat l < length (Connections (nodes h ! i)) \<and> nbs = Connections (nodes h ! i) ! nat l)"
    by (auto simp: getConnections_def GetConnections_def go_index_def split: if_splits)
  then show ?thesis
  proof
    assume n: "i < length (nodes h) \<and> nat l < length (Connections (nodes h ! i)) \<and> nbs = Connections (nodes h ! i) ! nat l"
    then have "nodes h ! i \<in> set (nodes h)" "nbs \<in> set (Connections (nodes h ! i))" by simp_all
    then show ?thesis unfolding mentioned_def by blast
  qed simp
qed

definition pending :: "('f, 'd) hnsw \<Rightarrow> visited_list \<Rightarrow> nat set" where
  "pending h vl = {i \<in> mentioned h. \<not> vl_Contains vl i}"

lemma range_scan_pending:
  assumes "range_scan nbs (vl, q) = (vl', q')" and "set nbs \<subseteq> mentioned h"
  shows "pending h vl' \<subseteq> pending h vl \<and> (pending h vl' = pending h vl \<longrightarrow> q' = q)"
  using assms
proof (induction nbs arbitrary: vl q)
  case (Cons nb nbs)
  obtain seen v where v: "vl_Add nb vl = (seen, v)" by (cases "vl_Add nb vl")
  let ?q = "if seen then q else q @ [nb]"
  have r: "range_scan nbs (v, ?q) = (vl', q')" using Cons.prems(1) v by simp
  have IH: "pending h vl' \<subseteq> pending h v" "pending h vl' = pending h v \<longrightarrow> q' = ?q" using Cons.IH [OF r] Cons.prems(2) by auto
  have sub: "pending h v \<subseteq> pending h vl" using vl_Add_Contains(2) [where i = nb and vl = vl] v by (auto simp: pending_def)
  show ?case
  proof (cases seen)
    case False
    then have "nb \<in> pending h vl" "nb \<notin> pending h v"
      using vl_Add_unseen [of nb vl] vl_Add_Contains(1) [of nb vl] v Cons.prems(2) by (auto simp: pending_def)
    with IH sub show ?thesis by blast
  qed (use IH sub in auto)
qed simp

function range_loop :: "('f, 'd :: linorder) hnsw \<Rightarrow> 'f list \<Rightarrow> 'd \<Rightarrow> visited_list \<Rightarrow> nat list \<Rightarrow> 'd candidate list \<Rightarrow> 'd candidate list option" where
  "range_loop h query radius vl [] results = Some results"
| "range_loop h query radius vl (cur # queue) results =
    (case go_index (nodes h) cur of None \<Rightarrow> None
     | Some n \<Rightarrow> if deleted n then range_loop h query radius vl queue results
         else (let d = distCalc h query (Vector n);
                   results' = (if d \<le> radius then results @ [\<lparr>cID = cur, Distance = d\<rparr>] else results)
               in case getConnections h cur 0 of None \<Rightarrow> None
                | Some nbs \<Rightarrow> (case range_scan nbs (vl, queue) of (vl', queue') \<Rightarrow>
                    range_loop h query radius vl' queue' results')))"
  by pat_completeness auto
termination
proof (relation "inv_image (less_than <*lex*> less_than) (\<lambda>(h, query, radius, vl, queue, results). (card (pending h vl), length queue))")
  fix h :: "('f, 'd :: linorder) hnsw" and query radius vl cur queue results results' nbs vl' queue'
  assume c: "getConnections h cur 0 = Some nbs" and s: "(vl', queue') = range_scan nbs (vl, queue)"
  have p: "pending h vl' \<subseteq> pending h vl" "pending h vl' = pending h vl \<longrightarrow> queue' = queue"
    using range_scan_pending [of nbs vl queue vl' queue' h] s getConnections_mentioned [OF c] by auto
  have "finite (pending h vl)" by (simp add: pending_def)
  with p have "card (pending h vl') < card (pending h vl) \<or> card (pending h vl') = card (pending h vl) \<and> queue' = queue"
    by (metis psubset_card_mono psubsetI)
  then show "((h, query, radius, vl', queue', results'), h, query, radius, vl, cur # queue, results)
    \<in> inv_image (less_than <*lex*> less_than) (\<lambda>(h, query, radius, vl, queue, results). (card (pending h vl), length queue))"
    by auto
qed auto

declare range_loop.simps(2) [simp del]

definition rangeSearchLayer0 :: "visited_list \<Rightarrow> ('f, 'd :: linorder) hnsw \<Rightarrow> 'f list \<Rightarrow> nat \<Rightarrow> 'd \<Rightarrow> 'd candidate list option" where
  "rangeSearchLayer0 vl h query entryID radius =
     range_loop h query radius (snd (vl_Add entryID (vl_Reset vl))) [entryID] []"

definition RangeSearch :: "visited_list \<Rightarrow> ('f, 'd :: linorder) hnsw \<Rightarrow> 'f list \<Rightarrow> 'd \<Rightarrow> (hnsw_error, 'd candidate list) outcome" where
  "RangeSearch vl h query radius =
    (if int (length query) \<noteq> dimension h then Err ErrDimensionMismatch
     else if maxLevel h = -1 then Ok []
     else case descend h query (maxLevel h) 0 (entryPoint h) of None \<Rightarrow> Panic
       | Some cur \<Rightarrow> of_option_panic (rangeSearchLayer0 vl h query cur radius))"

section \<open>Batches, recommendation, accessors\<close>

text \<open>
  Each query of a batch runs in a goroutine that writes only its own slot and reads the index under
  its lock, so the result is that of the sequential map; a panic in a goroutine ends the program.
\<close>

definition BatchSearchWithEf :: "('d candidate list \<Rightarrow> 'd candidate list) \<Rightarrow> visited_list \<Rightarrow> ('f, 'd :: linorder) hnsw
    \<Rightarrow> 'f list list \<Rightarrow> int \<Rightarrow> int \<Rightarrow> (hnsw_error option \<times> 'd candidate list list) option" where
  "BatchSearchWithEf srt vl h queries k ef =
    (let rs = map (\<lambda>q. SearchWithEf srt vl h q k ef) queries in
     if Panic \<in> set rs then None
     else Some (case find (\<lambda>r. case r of Err e \<Rightarrow> True | _ \<Rightarrow> False) rs of Some (Err e) \<Rightarrow> Some e | _ \<Rightarrow> None,
        map (\<lambda>r. case r of Ok cs \<Rightarrow> cs | _ \<Rightarrow> []) rs))"

definition BatchSearch :: "('d candidate list \<Rightarrow> 'd candidate list) \<Rightarrow> visited_list \<Rightarrow> ('f, 'd :: linorder) hnsw
    \<Rightarrow> 'f list list \<Rightarrow> int \<Rightarrow> (hnsw_error option \<times> 'd candidate list list) option" where
  "BatchSearch srt vl h queries k = BatchSearchWithEf srt vl h queries k (efSearch h)"

fun drop_self :: "('f, 'd) hnsw \<Rightarrow> string \<Rightarrow> 'd candidate list \<Rightarrow> 'd candidate list option" where
  "drop_self h i [] = Some []"
| "drop_self h i (c # cs) = (case go_index (nodes h) (cID c) of None \<Rightarrow> None
     | Some n \<Rightarrow> (case drop_self h i cs of None \<Rightarrow> None
       | Some r \<Rightarrow> Some (if nodeID n \<noteq> i then c # r else r)))"

definition Recommend :: "('d candidate list \<Rightarrow> 'd candidate list) \<Rightarrow> visited_list \<Rightarrow> ('f, 'd :: linorder) hnsw
    \<Rightarrow> string \<Rightarrow> int \<Rightarrow> (hnsw_error, 'd candidate list) outcome" where
  "Recommend srt vl h i k = bind_outcome (Get i h) (\<lambda>p. bind_outcome (Search srt vl h (pVector p) (k + 1)) (\<lambda>results.
     bind_outcome (of_option_panic (drop_self h i results)) (\<lambda>filtered. of_option_panic (top_k k filtered))))"

fun node_ids :: "('f, 'd) hnsw \<Rightarrow> nat list \<Rightarrow> string list option" where
  "node_ids h [] = Some []"
| "node_ids h (i # is) = (case go_index (nodes h) i of None \<Rightarrow> None | Some n \<Rightarrow> map_option ((#) (nodeID n)) (node_ids h is))"

definition GetNeighbors :: "('f, 'd) hnsw \<Rightarrow> string \<Rightarrow> int \<Rightarrow> (hnsw_error, string list) outcome" where
  "GetNeighbors h i layer = (case map_of (idToIndex h) i of None \<Rightarrow> Err ErrPointNotFound
     | Some k \<Rightarrow> (case getConnections h k layer of None \<Rightarrow> Panic
       | Some cs \<Rightarrow> of_option_panic (node_ids h cs)))"

definition GetLevel :: "('f, 'd) hnsw \<Rightarrow> string \<Rightarrow> (hnsw_error, int) outcome" where
  "GetLevel h i = (case map_of (idToIndex h) i of None \<Rightarrow> Err ErrPointNotFound
     | Some k \<Rightarrow> of_option_panic (map_option Level (go_index (nodes h) k)))"

section \<open>The traversal is exact\<close>

lemma range_scan_spec:
  assumes "vl_ok vl" and "range_scan nbs (vl, q) = (vl', q')"
  shows "vl_ok vl' \<and> (\<forall>j. vl_Contains vl' j \<longleftrightarrow> vl_Contains vl j \<or> j \<in> set nbs)
    \<and> set q' = set q \<union> {j \<in> set nbs. \<not> vl_Contains vl j} \<and> (distinct q \<and> (\<forall>i \<in> set q. vl_Contains vl i) \<longrightarrow> distinct q')"
  using assms
proof (induction nbs arbitrary: vl q)
  case (Cons nb nbs)
  obtain seen v where v: "vl_Add nb vl = (seen, v)" by (cases "vl_Add nb vl")
  have vk: "vl_ok v" using vl_ok_Add [OF Cons.prems(1), of nb] v by simp
  have vc: "vl_Contains v j \<longleftrightarrow> j = nb \<or> vl_Contains vl j" for j using vl_Contains_Add [OF Cons.prems(1), of nb j] v by simp
  have sn: "seen \<longleftrightarrow> vl_Contains vl nb" using vl_Add_fst [OF Cons.prems(1), of nb] v by simp
  have r: "range_scan nbs (v, if seen then q else q @ [nb]) = (vl', q')" using Cons.prems(2) v by simp
  from Cons.IH [OF vk r] show ?case using vc sn by (auto split: if_splits)
qed simp

definition hit :: "('f, 'd) hnsw \<Rightarrow> 'f list \<Rightarrow> nat \<Rightarrow> 'd candidate" where
  "hit h query i = \<lparr>cID = i, Distance = distCalc h query (Vector (nodes h ! i))\<rparr>"

definition range_inv :: "('f, 'd :: linorder) hnsw \<Rightarrow> 'f list \<Rightarrow> 'd \<Rightarrow> nat \<Rightarrow> visited_list \<Rightarrow> nat list \<Rightarrow> 'd candidate list \<Rightarrow> bool" where
  "range_inv h query radius start vl queue results \<longleftrightarrow>
     vl_ok vl \<and> distinct queue \<and> vl_Contains vl start
     \<and> (\<forall>i \<in> set queue. vl_Contains vl i)
     \<and> (\<forall>i. vl_Contains vl i \<longrightarrow> i < length (nodes h) \<and> (live h i \<longrightarrow> reach h 0 start i))
     \<and> (\<forall>i. vl_Contains vl i \<and> live h i \<and> i \<notin> set queue \<longrightarrow> (\<forall>j \<in> set (links h i 0). vl_Contains vl j))
     \<and> distinct (map cID results)
     \<and> set results = hit h query ` {i. vl_Contains vl i \<and> live h i \<and> i \<notin> set queue \<and> Distance (hit h query i) \<le> radius}"

lemma range_inv_step:
  assumes g: "graph_ok h" and inv: "range_inv h query radius start vl (cur # queue) results" and l: "live h cur"
    and s: "range_scan (links h cur 0) (vl, queue) = (vl', queue')"
  shows "range_inv h query radius start vl' queue'
    (if Distance (hit h query cur) \<le> radius then results @ [hit h query cur] else results)"
proof -
  let ?d = "\<lambda>i. Distance (hit h query i)"
  from inv have vk: "vl_ok vl" and q: "distinct (cur # queue)" "\<forall>i \<in> set (cur # queue). vl_Contains vl i"
    and st: "vl_Contains vl start"
    and bd: "\<And>i. vl_Contains vl i \<Longrightarrow> i < length (nodes h) \<and> (live h i \<longrightarrow> reach h 0 start i)"
    and ex: "\<And>i j. vl_Contains vl i \<Longrightarrow> live h i \<Longrightarrow> i \<notin> set (cur # queue) \<Longrightarrow> j \<in> set (links h i 0) \<Longrightarrow> vl_Contains vl j"
    and dr: "distinct (map cID results)"
    and rs: "set results = hit h query ` {i. vl_Contains vl i \<and> live h i \<and> i \<notin> set (cur # queue) \<and> ?d i \<le> radius}"
    unfolding range_inv_def by blast+
  from range_scan_spec [OF vk s] have vk': "vl_ok vl'"
    and vc: "\<And>j. vl_Contains vl' j \<longleftrightarrow> vl_Contains vl j \<or> j \<in> set (links h cur 0)"
    and sq: "set queue' = set queue \<union> {j \<in> set (links h cur 0). \<not> vl_Contains vl j}" and dq: "distinct queue'"
    using q by auto
  have cur: "vl_Contains vl cur" "cur < length (nodes h)" "reach h 0 start cur" using q bd [of cur] l by auto
  have nq: "vl_Contains vl' i \<and> i \<notin> set queue' \<longleftrightarrow> vl_Contains vl i \<and> (i = cur \<or> i \<notin> set (cur # queue))" for i
    using vc [of i] sq q cur(1) by auto
  have bd': "i < length (nodes h) \<and> (live h i \<longrightarrow> reach h 0 start i)" if "vl_Contains vl' i" for i
    using that vc [of i] bd [of i] links_bound [OF g cur(2), of i 0] reach.step [OF cur(3), of i] by blast
  have ex': "vl_Contains vl' j" if "vl_Contains vl' i \<and> live h i \<and> i \<notin> set queue'" "j \<in> set (links h i 0)" for i j
    using that nq [of i] vc [of j] ex [of i j] by blast
  have ncur: "cur \<notin> cID ` set results" unfolding rs by (auto simp: hit_def)
  have "{i. vl_Contains vl' i \<and> live h i \<and> i \<notin> set queue' \<and> ?d i \<le> radius}
      = {i. vl_Contains vl i \<and> live h i \<and> i \<notin> set (cur # queue) \<and> ?d i \<le> radius} \<union> (if ?d cur \<le> radius then {cur} else {})" (is "?A = ?B")
  proof (rule set_eqI)
    fix i show "i \<in> ?A \<longleftrightarrow> i \<in> ?B" using nq [of i] l cur(1) by (cases "i = cur") auto
  qed
  then have set': "set (if ?d cur \<le> radius then results @ [hit h query cur] else results) = hit h query ` ?A"
    using rs by (cases "?d cur \<le> radius") auto
  have d': "distinct (map cID (if ?d cur \<le> radius then results @ [hit h query cur] else results))"
    using dr ncur by (auto simp: hit_def)
  have "\<forall>i \<in> set queue'. vl_Contains vl' i" using sq vc q by auto
  then show ?thesis unfolding range_inv_def using vk' dq st vc bd' ex' d' set' by blast
qed

lemma range_loop_ok:
  "graph_ok h \<Longrightarrow> range_inv h query radius start vl queue results \<Longrightarrow>
    \<exists>r vl'. range_loop h query radius vl queue results = Some r \<and> range_inv h query radius start vl' [] r"
proof (induction h query radius vl queue results rule: range_loop.induct)
  case (1 h query radius vl results)
  then show ?case by auto
next
  case (2 h query radius vl cur queue results)
  note g = "2.prems"(1) and inv = "2.prems"(2)
  have cur: "cur < length (nodes h)" using inv by (auto simp: range_inv_def)
  show ?case
  proof (cases "deleted (nodes h ! cur)")
    case True
    have "range_inv h query radius start vl queue results" using inv True unfolding range_inv_def by auto
    with "2.IH"(1) [OF _ True g] cur True show ?thesis by (simp add: range_loop.simps(2))
  next
    case False
    obtain vl' queue' where s: "range_scan (links h cur 0) (vl, queue) = (vl', queue')" by (cases "range_scan (links h cur 0) (vl, queue)")
    note n = range_inv_step [OF g inv False s, unfolded hit_def candidate.simps]
    from "2.IH"(2) [OF _ False refl refl getConnections_ok [OF g cur] s [symmetric] g n] cur False s
    show ?thesis by (simp add: range_loop.simps(2) getConnections_ok [OF g cur] Let_def hit_def)
  qed
qed

lemma range_start:
  assumes g: "graph_ok h" and v: "vl_stamped vl" and s: "start < length (nodes h)"
  shows "\<exists>r. rangeSearchLayer0 vl h query start radius = Some r \<and> distinct (map cID r)
    \<and> set r = hit h query ` {i. live h start \<and> reach h 0 start i \<and> Distance (hit h query i) \<le> radius}"
proof -
  let ?vl = "snd (vl_Add start (vl_Reset vl))"
  have vk: "vl_ok (vl_Reset vl)" by (rule vl_Reset_ok [OF v])
  have vc: "vl_Contains ?vl j \<longleftrightarrow> j = start" for j
    using vl_Contains_Add [OF vk, of start j] vl_Reset_empty [OF v] by simp
  have "range_inv h query radius start ?vl [start] []"
    using vl_ok_Add [OF vk, of start] vc s by (auto simp: range_inv_def intro: reach.start)
  from range_loop_ok [OF g this] obtain r vl' where r: "rangeSearchLayer0 vl h query start radius = Some r"
    and inv: "range_inv h query radius start vl' [] r" by (auto simp: rangeSearchLayer0_def)
  show ?thesis
  proof (cases "live h start")
    case True
    have "reach h 0 start i \<Longrightarrow> vl_Contains vl' i \<and> live h i" for i
      by (induction rule: reach.induct) (use inv True in \<open>auto simp: range_inv_def\<close>)
    moreover have "vl_Contains vl' i \<Longrightarrow> live h i \<Longrightarrow> reach h 0 start i" for i using inv by (simp add: range_inv_def)
    ultimately have "{i. vl_Contains vl' i \<and> live h i \<and> i \<notin> set [] \<and> Distance (hit h query i) \<le> radius}
        = {i. live h start \<and> reach h 0 start i \<and> Distance (hit h query i) \<le> radius}" using True by auto
    moreover have "distinct (map cID r)" "set r = hit h query ` {i. vl_Contains vl' i \<and> live h i \<and> i \<notin> set [] \<and> Distance (hit h query i) \<le> radius}"
      using inv unfolding range_inv_def by blast+
    ultimately show ?thesis using r by simp
  next
    case False
    then have "rangeSearchLayer0 vl h query start radius = Some []"
      using s by (simp add: rangeSearchLayer0_def range_loop.simps(2))
    with False show ?thesis by simp
  qed
qed

end
