(* ===== verification/Hnsw_Query_Facts.thy ===== *)
theory Hnsw_Query_Facts
  imports Hnsw_Range
begin

text \<open>
  The accepting beam search of a well-formed graph: it never panics, returns distinct live accepted
  nodes in order of distance, and with a beam wider than the graph every accepted node that can be reached.
\<close>

section \<open>Widths\<close>

definition beam_ok :: "('f, 'd) hnsw \<Rightarrow> 'd beam \<Rightarrow> bool" where
  "beam_ok h B \<longleftrightarrow> 1 \<le> resEf B \<and> 1 \<le> candEf B \<and> 1 \<le> stopEf B \<and> (\<forall>i < length (nodes h). metric B i \<noteq> None)"

definition wide :: "('f, 'd) hnsw \<Rightarrow> 'd beam \<Rightarrow> bool" where
  "wide h B \<longleftrightarrow> int (length (nodes h)) < resEf B \<and> int (length (nodes h)) < candEf B \<and> int (length (nodes h)) < stopEf B"

lemma heap_push_single [simp]: "heap_push lt [] c = [c]"
  by (simp add: heap_push_def heap_up.simps)

lemma trim_all_push:
  assumes "is_heap farther results" and "int (length results) \<le> ef" and "1 \<le> ef"
  obtains r where "trim_all ef (heap_push farther results c) = Some r" and "is_heap farther r"
    and "set r \<subseteq> insert c (set results)" and "int (length r) \<le> ef"
    and "distinct (map cID (c # results)) \<Longrightarrow> distinct (map cID r)"
    and "int (length results) < ef \<Longrightarrow> set r = insert c (set results)"
proof (cases "results = []")
  case True
  show ?thesis by (rule that [of "[c]"])
      (use True assms(3) in \<open>simp_all add: trim_all.simps is_heap_def heap_upto_def\<close>)
next
  case False
  have "int (length results) \<le> max ef 1" using assms(2) by simp
  from trim_push [OF assms(1) False this] obtain r where r: "trim ef (heap_push farther results c) = Some r" "is_heap farther r"
    "set r \<subseteq> insert c (set results)" "int (length r) \<le> max ef 1"
    "distinct (map cID (c # results)) \<Longrightarrow> distinct (map cID r)" "int (length results) < ef \<Longrightarrow> set r = insert c (set results)"
    by blast
  have l: "int (length r) \<le> ef" using r(4) assms(3) by simp
  have "trim_all ef (heap_push farther results c) = Some r"
  proof (cases "int (length (heap_push farther results c)) > ef")
    case True
    with r(1) obtain x where "heap_pop farther (heap_push farther results c) = Some (x, r)" by (auto simp: trim_def)
    with True l show ?thesis by (subst trim_all.simps) (simp add: trim_all.simps)
  next
    case False
    with r(1) show ?thesis by (subst trim_all.simps) (auto simp: trim_def)
  qed
  with r l that show ?thesis by blast
qed

section \<open>Invariant\<close>

fun beam_inv :: "('f, 'd :: linorder) hnsw \<Rightarrow> 'd beam \<Rightarrow> int \<Rightarrow> (nat \<Rightarrow> bool) \<Rightarrow> nat \<Rightarrow> 'd search_state \<Rightarrow> bool" where
  "beam_inv h B layer okS s (vl, cands, results) \<longleftrightarrow>
     vl_ok vl \<and> vl_Contains vl s \<and> is_heap nearer cands \<and> is_heap farther results
     \<and> int (length results) \<le> resEf B \<and> distinct (map cID results)
     \<and> (\<forall>c \<in> set cands \<union> set results. reach h layer s (cID c) \<and> vl_Contains vl (cID c) \<and> metric B (cID c) = Some (Distance c))
     \<and> (\<forall>c \<in> set results. live h (cID c) \<and> (accept B (cID c) (Distance c) \<or> cID c = s \<and> okS s))"

text \<open>What one pass over a list of neighbours adds when nothing is cut off.\<close>

definition takes_in :: "('f, 'd) hnsw \<Rightarrow> 'd beam \<Rightarrow> nat list \<Rightarrow> 'd search_state \<Rightarrow> 'd search_state \<Rightarrow> bool" where
  "takes_in h B nbs st st' \<longleftrightarrow> (case st of (vl, cands, results) \<Rightarrow> case st' of (vl', cands', results') \<Rightarrow>
     (\<forall>i. vl_Contains vl' i \<longleftrightarrow> vl_Contains vl i \<or> i \<in> set nbs)
     \<and> set cands \<subseteq> set cands' \<and> set results \<subseteq> set results'
     \<and> (\<forall>i \<in> set nbs. live h i \<longrightarrow> vl_Contains vl i \<or>
          i \<in> cID ` set cands' \<and> (accept B i (the (metric B i)) \<longrightarrow> i \<in> cID ` set results')))"

lemma takes_in_refl: "takes_in h B [] st st"
  by (auto simp: takes_in_def split: prod.split)

lemma takes_in_trans: "takes_in h B [nb] st st' \<Longrightarrow> takes_in h B nbs st' st'' \<Longrightarrow> takes_in h B (nb # nbs) st st''"
  unfolding takes_in_def by (cases st; cases st'; cases st'') (simp, blast)

lemma reach_bound: "graph_ok h \<Longrightarrow> s < length (nodes h) \<Longrightarrow> reach h layer s i \<Longrightarrow> i < length (nodes h)"
  using closed_underD(1) [OF reach_closed] by blast

lemma results_bound:
  assumes g: "graph_ok h" and s: "s < length (nodes h)" and i: "beam_inv h B layer okS s (vl, cands, results)"
  shows "length results \<le> length (nodes h)"
proof -
  have "set (map cID results) \<subseteq> {..<length (nodes h)}" using i reach_bound [OF g s] by auto
  from card_mono [OF _ this] have "card (set (map cID results)) \<le> length (nodes h)" by simp
  moreover have "distinct (map cID results)" using i by simp
  ultimately show ?thesis using distinct_card [of "map cID results"] by simp
qed

lemma better_total: "1 \<le> ef \<Longrightarrow> \<exists>b. better ef d results = Some b \<and> (int (length results) < ef \<longrightarrow> b)"
  by (cases results) (auto simp: better_def)

lemma stop_total: "1 \<le> ef \<Longrightarrow> \<exists>b. stop_at ef c results = Some b \<and> (int (length results) < ef \<longrightarrow> \<not> b)"
  by (cases results) (auto simp: stop_at_def)

lemma beam_one_ok:
  assumes g: "graph_ok h" "s < length (nodes h)" and B: "beam_ok h B" and i: "beam_inv h B layer okS s st"
    and nb: "nb < length (nodes h)" and P: "live h nb \<Longrightarrow> reach h layer s nb"
  obtains st' where "beam_one h B nb st = Some st'" and "beam_inv h B layer okS s st'"
    and "wide h B \<Longrightarrow> takes_in h B [nb] st st'"
proof -
  obtain vl cands results where st: "st = (vl, cands, results)" by (cases st)
  from i st have vl: "vl_ok vl" and far: "is_heap farther results" and near: "is_heap nearer cands"
    and len: "int (length results) \<le> resEf B" and dr: "distinct (map cID results)" by simp_all
  obtain seen v where v: "vl_Add nb vl = (seen, v)" by (cases "vl_Add nb vl")
  have seen: "seen \<longleftrightarrow> vl_Contains vl nb" using vl_Add_fst [OF vl, of nb] v by simp
  have vok: "vl_ok v" using vl_ok_Add [OF vl, of nb] v by simp
  have vc: "vl_Contains v j \<longleftrightarrow> j = nb \<or> vl_Contains vl j" for j using vl_Contains_Add [OF vl, of nb j] v by simp
  have same: "beam_inv h B layer okS s (v, cands, results)" using i st vok vc by auto
  show ?thesis
  proof (cases "seen \<or> deleted (nodes h ! nb)")
    case True
    show ?thesis by (rule that [of "(v, cands, results)"])
        (use True same st v nb vc seen in \<open>auto simp: beam_one_def takes_in_def\<close>)
  next
    case False
    then have new: "\<not> vl_Contains vl nb" and lv: "live h nb" using seen by auto
    obtain d where d: "metric B nb = Some d" using B nb by (auto simp: beam_ok_def)
    let ?c = "\<lparr>cID = nb, Distance = d\<rparr>"
    obtain b where b: "better (candEf B) d results = Some b" "int (length results) < candEf B \<longrightarrow> b"
      using better_total [of "candEf B" d results] B by (auto simp: beam_ok_def)
    let ?cands = "if b then heap_push nearer cands ?c else cands"
    have near': "is_heap nearer ?cands" using near near_order.heap_push_ok by auto
    have cs: "set ?cands \<subseteq> insert ?c (set cands)" "set cands \<subseteq> set ?cands" by auto
    have mid: "beam_inv h B layer okS s (v, ?cands, results)"
      using same near' cs P [OF lv] d vc by (auto split: if_splits)
    have wb: "wide h B \<Longrightarrow> b" and wl: "wide h B \<Longrightarrow> int (length results) < resEf B"
      using b(2) results_bound [OF g, of B layer okS vl cands results] i st by (auto simp: wide_def)
    obtain b2 where b2: "better (resEf B) d results = Some b2" "int (length results) < resEf B \<longrightarrow> b2"
      using better_total [of "resEf B" d results] B by (auto simp: beam_ok_def)
    consider "\<not> accept B nb d" | "accept B nb d" "\<not> b2" | "accept B nb d" b2 by blast
    then show ?thesis
    proof cases
      case 1
      show ?thesis by (rule that [of "(v, ?cands, results)"])
          (use 1 mid st v nb vc False lv d b wb in \<open>auto simp: beam_one_def takes_in_def Let_def\<close>)
    next
      case 2
      show ?thesis by (rule that [of "(v, ?cands, results)"])
          (use 2 mid st v nb False lv d b b2 wl in \<open>auto simp: beam_one_def Let_def\<close>)
    next
      case 3
      have r1: "1 \<le> resEf B" using B by (simp add: beam_ok_def)
      from trim_all_push [OF far len r1, of ?c] obtain r where r: "trim_all (resEf B) (heap_push farther results ?c) = Some r"
        "is_heap farther r" "set r \<subseteq> insert ?c (set results)" "int (length r) \<le> resEf B"
        "distinct (map cID (?c # results)) \<Longrightarrow> distinct (map cID r)"
        "int (length results) < resEf B \<Longrightarrow> set r = insert ?c (set results)" by blast
      have "nb \<notin> cID ` set results" using i st new by auto
      then have "distinct (map cID r)" using r(5) dr by simp
      then have "beam_inv h B layer okS s (v, ?cands, r)" using mid r(2-4) P [OF lv] d vc lv 3(1) by auto
      moreover have "beam_one h B nb st = Some (v, ?cands, r)"
        using 3 st v nb False lv d b b2 r(1) by (auto simp: beam_one_def Let_def)
      moreover have "takes_in h B [nb] st (v, ?cands, r)" if "wide h B"
        using r(6) [OF wl [OF that]] wb [OF that] st vc by (auto simp: takes_in_def)
      ultimately show ?thesis using that by blast
    qed
  qed
qed

lemma beam_all_ok:
  assumes g: "graph_ok h" "s < length (nodes h)" and B: "beam_ok h B"
  shows "beam_inv h B layer okS s st \<Longrightarrow> \<forall>nb \<in> set nbs. nb < length (nodes h) \<and> (live h nb \<longrightarrow> reach h layer s nb) \<Longrightarrow>
    \<exists>st'. beam_all h B nbs st = Some st' \<and> beam_inv h B layer okS s st' \<and> (wide h B \<longrightarrow> takes_in h B nbs st st')"
proof (induction nbs arbitrary: st)
  case Nil
  then show ?case by (simp add: takes_in_refl)
next
  case (Cons nb nbs)
  have nb: "nb < length (nodes h)" "live h nb \<Longrightarrow> reach h layer s nb" using Cons.prems(2) by auto
  from beam_one_ok [OF g B Cons.prems(1) nb] obtain st1 where
    s1: "beam_one h B nb st = Some st1" "beam_inv h B layer okS s st1" "wide h B \<Longrightarrow> takes_in h B [nb] st st1" by metis
  from Cons.IH [OF s1(2)] Cons.prems(2) obtain st2 where
    "beam_all h B nbs st1 = Some st2" "beam_inv h B layer okS s st2" "wide h B \<longrightarrow> takes_in h B nbs st1 st2" by auto
  with s1 show ?case by (auto intro: takes_in_trans)
qed

text \<open>Every visited node has been expanded or waits to be, and every accepted one is among the results.\<close>

definition covered :: "('f, 'd) hnsw \<Rightarrow> 'd beam \<Rightarrow> int \<Rightarrow> (nat \<Rightarrow> bool) \<Rightarrow> nat \<Rightarrow> 'd search_state \<Rightarrow> bool" where
  "covered h B layer okS s st \<longleftrightarrow> (case st of (vl, cands, results) \<Rightarrow>
     (\<forall>i. vl_Contains vl i \<and> (live h i \<or> i = s) \<longrightarrow> i \<in> cID ` set cands \<or> (\<forall>j \<in> set (links h i layer). vl_Contains vl j))
     \<and> (\<forall>i. vl_Contains vl i \<and> live h i \<and> i \<noteq> s \<and> accept B i (the (metric B i)) \<longrightarrow> i \<in> cID ` set results)
     \<and> (live h s \<and> okS s \<longrightarrow> s \<in> cID ` set results))"

lemma covered_step:
  assumes c: "covered h B layer okS s (vl, cands, results)" and p: "heap_pop nearer cands = Some (cnd, cands')"
    and t: "takes_in h B (links h (cID cnd) layer) (vl, cands', results) st'" and sv: "vl_Contains vl s"
  shows "covered h B layer okS s st'"
proof -
  obtain vl' cs' rs' where st': "st' = (vl', cs', rs')" by (cases st')
  have m: "set cands = insert cnd (set cands')"
    using heap_pop_elems [OF p] by (metis set_mset_add_mset_insert set_mset_mset)
  let ?L = "set (links h (cID cnd) layer)"
  have vc: "\<forall>i. vl_Contains vl' i \<longleftrightarrow> vl_Contains vl i \<or> i \<in> ?L"
    and sub: "set cands' \<subseteq> set cs'" "set results \<subseteq> set rs'"
    and new: "\<forall>i \<in> ?L. live h i \<longrightarrow> vl_Contains vl i \<or> i \<in> cID ` set cs' \<and> (accept B i (the (metric B i)) \<longrightarrow> i \<in> cID ` set rs')"
    using t by (simp_all add: takes_in_def st')
  have old: "\<forall>i. vl_Contains vl i \<and> (live h i \<or> i = s) \<longrightarrow> i \<in> cID ` set cands \<or> (\<forall>j \<in> set (links h i layer). vl_Contains vl j)"
    and acc: "\<forall>i. vl_Contains vl i \<and> live h i \<and> i \<noteq> s \<and> accept B i (the (metric B i)) \<longrightarrow> i \<in> cID ` set results"
    and st: "live h s \<and> okS s \<longrightarrow> s \<in> cID ` set results"
    using c by (simp_all add: covered_def)
  have ids: "cID ` set cands' \<subseteq> cID ` set cs'" "cID ` set results \<subseteq> cID ` set rs'" "cID ` set cands = insert (cID cnd) (cID ` set cands')"
    using sub m by auto
  have "i \<in> cID ` set cs' \<or> (\<forall>j \<in> set (links h i layer). vl_Contains vl' j)" if "vl_Contains vl' i" "live h i \<or> i = s" for i
  proof (cases "vl_Contains vl i")
    case True
    with old that(2) consider "i = cID cnd" | "i \<in> cID ` set cands'" | "\<forall>j \<in> set (links h i layer). vl_Contains vl j"
      using ids(3) by blast
    then show ?thesis using vc ids(1) by cases auto
  next
    case False
    then have "i \<noteq> s" using sv by auto
    with False that vc new show ?thesis by metis
  qed
  moreover have "i \<in> cID ` set rs'" if "vl_Contains vl' i" "live h i" "i \<noteq> s" "accept B i (the (metric B i))" for i
    using that vc new acc ids(2) by (metis subsetD)
  ultimately show ?thesis using st ids(2) by (simp add: covered_def st') blast
qed

definition beam_result :: "('f, 'd :: linorder) hnsw \<Rightarrow> 'd beam \<Rightarrow> int \<Rightarrow> (nat \<Rightarrow> bool) \<Rightarrow> nat \<Rightarrow> 'd candidate list \<Rightarrow> bool" where
  "beam_result h B layer okS s r \<longleftrightarrow> int (length r) \<le> resEf B \<and> distinct (map cID r)
     \<and> (\<forall>c \<in> set r. reach h layer s (cID c) \<and> live h (cID c) \<and> metric B (cID c) = Some (Distance c)
          \<and> (accept B (cID c) (Distance c) \<or> cID c = s \<and> okS s))"

definition beam_complete :: "('f, 'd :: linorder) hnsw \<Rightarrow> 'd beam \<Rightarrow> int \<Rightarrow> (nat \<Rightarrow> bool) \<Rightarrow> nat \<Rightarrow> 'd candidate list \<Rightarrow> bool" where
  "beam_complete h B layer okS s r \<longleftrightarrow> (\<forall>i. reach h layer s i \<and> live h i \<and>
     (if i = s then okS s else accept B i (the (metric B i))) \<longrightarrow> i \<in> cID ` set r)"

lemma covered_complete:
  assumes c: "covered h B layer okS s (vl, [], results)" and s: "vl_Contains vl s"
  shows "beam_complete h B layer okS s results"
proof -
  have "vl_Contains vl i \<and> (live h i \<or> i = s)" if "reach h layer s i" for i
    using that by induction (use c s in \<open>auto simp: covered_def\<close>)
  then show ?thesis using c by (auto simp: beam_complete_def covered_def)
qed

lemma beam_loop_ok:
  assumes "graph_ok h" and "s < length (nodes h)" and "beam_ok h B"
  shows "beam_inv h B layer okS s st \<Longrightarrow> (wide h B \<longrightarrow> covered h B layer okS s st) \<Longrightarrow>
    \<exists>r. beam_loop h B layer st = Some r \<and> is_heap farther r \<and> beam_result h B layer okS s r
      \<and> (wide h B \<longrightarrow> beam_complete h B layer okS s r)"
  using assms
proof (induction h B layer st rule: beam_loop.induct)
  case (1 h B layer vl cands results)
  note inv = "1.prems"(1) and cov = "1.prems"(2) and g = "1.prems"(3,4) and B = "1.prems"(5)
  have res: "is_heap farther results \<and> beam_result h B layer okS s results" using inv by (simp add: beam_result_def)
  show ?case
  proof (cases "heap_pop nearer cands")
    case None
    then have "cands = []" by (simp add: heap_pop_None)
    with None res cov inv covered_complete [of h B layer okS s vl results] show ?thesis by (subst beam_loop.simps) auto
  next
    case (Some p)
    obtain cnd cands' where p: "heap_pop nearer cands = Some (cnd, cands')" using Some by (cases p) auto
    have m: "set cands = insert cnd (set cands')"
      using heap_pop_elems [OF p] by (metis set_mset_add_mset_insert set_mset_mset)
    have "is_heap nearer cands" using inv by simp
    from near_order.heap_pop_ok(1) [OF this p] have near: "is_heap nearer cands'" .
    have rc: "reach h layer s (cID cnd)" using inv m by auto
    have b: "cID cnd < length (nodes h)" by (rule reach_bound [OF g rc])
    obtain sb where sb: "stop_at (stopEf B) cnd results = Some sb" "wide h B \<Longrightarrow> \<not> sb"
      using stop_total [of "stopEf B" cnd results] B results_bound [OF g inv] by (auto simp: beam_ok_def wide_def)
    show ?thesis
    proof (cases sb)
      case True
      with p sb res show ?thesis by (subst beam_loop.simps) auto
    next
      case False
      have inv': "beam_inv h B layer okS s (vl, cands', results)" using inv near m by auto
      have nbs: "\<forall>nb \<in> set (links h (cID cnd) layer). nb < length (nodes h) \<and> (live h nb \<longrightarrow> reach h layer s nb)"
        using links_bound [OF g(1) b] reach.step [OF rc] by blast
      from beam_all_ok [OF g B inv' nbs] obtain st' where
        s': "beam_all h B (links h (cID cnd) layer) (vl, cands', results) = Some st'" "beam_inv h B layer okS s st'"
          "wide h B \<longrightarrow> takes_in h B (links h (cID cnd) layer) (vl, cands', results) st'" by blast
      have "wide h B \<longrightarrow> covered h B layer okS s st'"
        using cov covered_step [OF _ p, of h B layer okS s vl results st'] s'(3) inv by simp
      from "1.IH" [OF p refl sb(1) _ getConnections_ok [OF g(1) b] s'(1,2) this g B] False
      obtain r where "beam_loop h B layer st' = Some r" "is_heap farther r" "beam_result h B layer okS s r"
          "wide h B \<longrightarrow> beam_complete h B layer okS s r" by blast
      with p sb False s'(1) show ?thesis
        by (subst beam_loop.simps) (simp add: getConnections_ok [OF g(1) b])
    qed
  qed
qed

lemma beam_search_ok:
  assumes g: "graph_ok h" and s: "s < length (nodes h)" and B: "beam_ok h B" and v: "vl_stamped vl"
  obtains r where "beam_search vl h B okS s layer = Some r" and "beam_result h B layer okS s r"
    and "sorted (map Distance r)" and "wide h B \<Longrightarrow> beam_complete h B layer okS s r"
proof -
  let ?vl = "snd (vl_Add s (vl_Reset vl))"
  obtain d where d: "metric B s = Some d" using B s by (auto simp: beam_ok_def)
  let ?c = "\<lparr>cID = s, Distance = d\<rparr>"
  let ?r0 = "if okS s \<and> \<not> deleted (nodes h ! s) then heap_push farther [] ?c else []"
  have vk: "vl_ok (vl_Reset vl)" by (rule vl_Reset_ok [OF v])
  have vc: "vl_Contains ?vl j \<longleftrightarrow> j = s" for j
    using vl_Contains_Add [OF vk, of s j] vl_Reset_empty [OF v] by simp
  have inv: "beam_inv h B layer okS s (?vl, heap_push nearer [] ?c, ?r0)"
    using vl_ok_Add [OF vk, of s] vc d B by (simp add: is_heap_def heap_upto_def reach.start beam_ok_def)
  have cov: "covered h B layer okS s (?vl, heap_push nearer [] ?c, ?r0)" by (simp add: covered_def vc)
  from beam_loop_ok [OF g s B inv] cov obtain r where r: "beam_loop h B layer (?vl, heap_push nearer [] ?c, ?r0) = Some r"
    "is_heap farther r" "beam_result h B layer okS s r" "wide h B \<longrightarrow> beam_complete h B layer okS s r" by blast
  let ?out = "rev (pop_all (heap_pop farther) (length r) r)"
  have m: "mset ?out = mset r" using far.pop_all_elems [of r "length r"] by simp
  have srt: "sorted (map Distance ?out)"
    using far.pop_all_sorted [OF r(2), of "length r"] by (simp add: sorted_wrt_rev sorted_wrt_map farther_def not_less)
  have so: "set ?out = set r" using m by (rule mset_eq_setD)
  have "mset (map cID ?out) = mset (map cID r)" using m by (metis mset_map)
  from mset_eq_imp_distinct_iff [OF this] r(3) have "distinct (map cID ?out)" by (simp add: beam_result_def)
  moreover have "length ?out = length r" using m by (metis size_mset)
  ultimately have "beam_result h B layer okS s ?out" using r(3) so by (simp add: beam_result_def)
  moreover have "beam_search vl h B okS s layer = Some ?out" using r(1) d s by (simp add: beam_search_def Let_def)
  moreover have "wide h B \<Longrightarrow> beam_complete h B layer okS s ?out" using r(4) so by (simp add: beam_complete_def)
  ultimately show ?thesis using srt that by blast
qed

end
