(* ===== verification/Hnsw_Query_Properties.thy ===== *)
theory Hnsw_Query_Properties
  imports Hnsw_Query_Facts Hnsw_Properties
begin

text \<open>The properties of the queries of \<open>pkg/index/hnsw/search.go\<close>.\<close>

section \<open>The width of the beam\<close>

lemma sel_multiplier_bounds: "3 / 2 \<le> sel_multiplier s \<and> sel_multiplier s \<le> 10"
  by (simp add: sel_multiplier_def)

lemma adaptive_bounds:
  assumes "0 \<le> ef" shows "ef \<le> calculateAdaptiveEf ef s \<and> calculateAdaptiveEf ef s \<le> 10 * ef"
proof -
  have b: "ef \<le> trunc_rat (of_int ef * sel_multiplier t) \<and> trunc_rat (of_int ef * sel_multiplier t) \<le> 10 * ef" for t
  proof -
    let ?x = "of_int ef * sel_multiplier t"
    have e: "(0 :: rat) \<le> of_int ef" using assms by simp
    have "of_int ef * 1 \<le> ?x" by (rule mult_left_mono) (use sel_multiplier_bounds [of t] e in auto)
    moreover have "?x \<le> of_int ef * 10" by (rule mult_left_mono) (use sel_multiplier_bounds [of t] e in auto)
    ultimately have l: "of_int ef \<le> ?x" and u: "?x \<le> of_int (10 * ef)" by simp_all
    have "\<not> ?x < 0" using l e by linarith
    moreover have "ef \<le> \<lfloor>?x\<rfloor>" using l by (simp add: le_floor_iff)
    moreover have "\<lfloor>?x\<rfloor> \<le> 10 * ef" using floor_mono [OF u] by (simp only: floor_of_int)
    ultimately show ?thesis by (simp add: trunc_rat_def)
  qed
  obtain t where "calculateAdaptiveEf ef s = (let a = trunc_rat (of_int ef * sel_multiplier t) in if a > ef * 15 then ef * 15 else a)"
    by (simp add: calculateAdaptiveEf_def Let_def)
  with b [of t] assms show ?thesis by (auto simp: Let_def)
qed

lemma filter_beam_sel [simp]:
  "accept (filter_beam h query ef ps) i d \<longleftrightarrow> passes_filter (Filter ps) (nodes h ! i) \<and> in_radius (Radius ps) d"
  "metric (filter_beam h query ef ps) = node_distance h query"
  by (simp_all add: filter_beam_def Let_def)

lemma filter_beam_ok:
  assumes "1 \<le> ef"
  shows "beam_ok h (filter_beam h query ef ps)"
    and "int (length (nodes h)) < ef \<Longrightarrow> wide h (filter_beam h query ef ps)"
  using assms adaptive_bounds [of ef]
  by (auto simp: beam_ok_def wide_def filter_beam_def Let_def intro: order_trans order_less_le_trans)

lemma rescore_any:
  assumes s: "sorts srt" and d: "distinct (map cID r)" "sorted (map Distance r)"
    and P: "\<And>c. c \<in> set r \<Longrightarrow> P (cID c) \<and> Distance c = dist_to h query (cID c)" "\<And>j. P j \<Longrightarrow> j < length (nodes h)"
  obtains r' where "rescore srt h query r = Some r'" and "distinct (map cID r')" and "sorted (map Distance r')"
    and "\<forall>c \<in> set r'. P (cID c) \<and> Distance c = distCalc h query (Vector (nodes h ! cID c))"
    and "cID ` set r' = cID ` set r" and "length r' = length r"
proof (cases "r = []")
  case True
  have "srt [] = []" using s by (simp add: sorts_def) (metis mset_zero_iff_right)
  with True have "rescore srt h query r = Some []" by (simp add: rescore_def)
  with True show ?thesis by (intro that [of "[]"]) simp_all
next
  case False
  then have "results_ok h query (int (length r)) P r" using d(1) P(1) by (auto simp: results_ok_def)
  from rescore_ok [OF s this d(2) P(2)] that show ?thesis by blast
qed

lemma sorted_take_rest:
  assumes "sorted (map f xs)" and "x \<in> set xs" and "x \<notin> set (take n xs)"
  shows "\<forall>y \<in> set (take n xs). f y \<le> f x"
proof -
  have "x \<in> set (drop n xs)" using assms(2,3) by (metis Un_iff append_take_drop_id set_append)
  moreover have "sorted (map f (take n xs) @ map f (drop n xs))" using assms(1) by (simp flip: map_append)
  ultimately show ?thesis by (simp add: sorted_append)
qed

section \<open>Filtered search\<close>

lemma SearchWithFilter_eval:
  assumes "int (length query) = dimension h" and "maxLevel h \<noteq> -1" and "descend h query (maxLevel h) 0 (entryPoint h) = Some cur"
    and "ef = (if prEf ps < prK ps then prK ps else prEf ps)" and "sef = (if hquantizer h \<noteq> None then ef * 2 else ef)"
    and "searchLayerWithFilter vl h query cur sef 0 ps = Some r" and "rescore srt h query r = Some r'" and "top_k (prK ps) r' = Some res"
  shows "SearchWithFilter srt vl h query ps = Ok res"
proof -
  have "SearchWithFilter srt vl h query ps = (case searchLayerWithFilter vl h query cur sef 0 ps of None \<Rightarrow> Panic
      | Some candidates \<Rightarrow> (case rescore srt h query candidates of None \<Rightarrow> Panic
        | Some candidates \<Rightarrow> of_option_panic (top_k (prK ps) candidates)))"
    unfolding SearchWithFilter_def Let_def assms(4,5) using assms(1-3) by simp
  then show ?thesis by (simp add: assms(6-8))
qed


definition ps0 :: "int search_params" where
  "ps0 = \<lparr>prK = 1, prEf = 2, Radius = None, Filter = Some (\<lambda>i p. i = ''a''), EstimatedSelectivity = Fin 0\<rparr>"


section \<open>Range search\<close>

text \<open>C14: A range search returns exactly the live points at a distance of at most the radius that can be reached on
  layer 0, through live nodes, from the node where the descent ended, each once and with its exact distance. If that
  node is marked deleted, which the descent does not prevent for the entry point, it returns nothing at all.\<close>

theorem hnsw_range_search:
  assumes inv: "hnsw_inv h" and v: "vl_stamped vl" and "int (length query) = dimension h" and ne: "nodes h \<noteq> []"
  shows "\<exists>start res. descend h query (maxLevel h) 0 (entryPoint h) = Some start \<and> RangeSearch vl h query radius = Ok res
    \<and> distinct (map cID res) \<and> (\<forall>c \<in> set res. Distance c = distCalc h query (Vector (nodes h ! cID c)))
    \<and> cID ` set res = {i. live h start \<and> reach h 0 start i \<and> distCalc h query (Vector (nodes h ! i)) \<le> radius}"
proof -
  have g: "graph_ok h" using inv by (simp add: hnsw_inv_def)
  from search_start [OF inv ne, of query] obtain cur where
    cur: "descend h query (maxLevel h) 0 (entryPoint h) = Some cur" "cur < length (nodes h)" by blast
  from range_start [OF g v cur(2), of query radius] obtain r where
    r: "rangeSearchLayer0 vl h query cur radius = Some r" "distinct (map cID r)"
      "set r = hit h query ` {i. live h cur \<and> reach h 0 cur i \<and> Distance (hit h query i) \<le> radius}" by blast
  have "RangeSearch vl h query radius = Ok r"
    using assms(3) nonempty_level [OF inv ne] cur(1) r(1) by (simp add: RangeSearch_def)
  moreover have "cID ` set r = {i. live h cur \<and> reach h 0 cur i \<and> distCalc h query (Vector (nodes h ! i)) \<le> radius}"
    unfolding r(3) by (simp add: image_image hit_def)
  moreover have "\<forall>c \<in> set r. Distance c = distCalc h query (Vector (nodes h ! cID c))" unfolding r(3) by (auto simp: hit_def)
  ultimately show ?thesis using cur(1) r(2) by blast
qed

theorem hnsw_range_search_witness:
  "\<exists>start res. RangeSearch vl0 h1 [5] 4 = Ok res
     \<and> cID ` set res = {i. live h1 start \<and> reach h1 0 start i \<and> distCalc h1 [5] (Vector (nodes h1 ! i)) \<le> 4}"
proof -
  have "int (length [5 :: int]) = dimension h1" by (simp add: h1_facts)
  from hnsw_range_search [OF h1_facts(1) vl0_stamped this h1_facts(2), of 4] show ?thesis by blast
qed

end
