(* ===== verification/Point_Codec.thy ===== *)
theory Point_Codec
  imports Bytes Go_Values
begin

text \<open>
  Points and their binary format (\<open>pkg/point/point.go\<close>). A float32 is its 32 bits, a string its
  bytes, a map an association list in the order the encoder's loop visits it. JSON encoding and
  decoding of the payload are the arguments \<open>marshal\<close> and \<open>unmarshal\<close>.
\<close>

section \<open>Points\<close>

type_synonym vec = "u32 list"

record sparse_vector =
  Indices :: "u32 list"
  SValues :: "u32 list"

record pt =
  ptID :: string
  ptVector :: vec
  ptPayload :: "go_map option"
  NamedVectors :: "(string \<times> vec) list"
  ptSparse :: "sparse_vector option"
  MultiVectors :: "(string \<times> vec list) list"
  Version :: u64

definition zero_point :: pt where
  "zero_point = \<lparr>ptID = [], ptVector = [], ptPayload = None, NamedVectors = [], ptSparse = None, MultiVectors = [], Version = 0\<rparr>"

definition NewPointWithID :: "string \<Rightarrow> vec \<Rightarrow> go_map option \<Rightarrow> pt" where
  "NewPointWithID i v p = zero_point\<lparr>ptID := i, ptVector := v, ptPayload := p, Version := 1\<rparr>"

definition Dimension :: "pt \<Rightarrow> nat" where
  "Dimension p = length (ptVector p)"

definition Clone :: "pt \<Rightarrow> pt" where
  "Clone p = zero_point\<lparr>ptID := ptID p, ptVector := ptVector p, Version := Version p,
     ptPayload := ptPayload p, NamedVectors := NamedVectors p, ptSparse := ptSparse p\<rparr>"

section \<open>Validation\<close>

datatype point_error = ErrEmptyID | ErrEmptyVector | InvalidVectorError nat u32

text \<open>Not a number or infinite: all exponent bits set.\<close>

definition not_finite :: "u32 \<Rightarrow> bool" where
  "not_finite w \<longleftrightarrow> and w 0x7F800000 = 0x7F800000"

fun check_vector :: "nat \<Rightarrow> vec \<Rightarrow> point_error option" where
  "check_vector i [] = None"
| "check_vector i (v # vs) = (if not_finite v then Some (InvalidVectorError i v) else check_vector (Suc i) vs)"

fun check_named :: "(string \<times> vec) list \<Rightarrow> point_error option" where
  "check_named [] = None"
| "check_named ((n, v) # nvs) = (case check_vector 0 v of Some e \<Rightarrow> Some e | None \<Rightarrow> check_named nvs)"

definition Validate_point :: "pt \<Rightarrow> point_error option" where
  "Validate_point p = (if ptID p = [] then Some ErrEmptyID
     else if length (ptVector p) = 0 \<and> length (NamedVectors p) = 0 \<and> ptSparse p = None then Some ErrEmptyVector
     else case check_vector 0 (ptVector p) of Some e \<Rightarrow> Some e
       | None \<Rightarrow> check_named (NamedVectors p))"

section \<open>Encoding\<close>

datatype encode_error = IDTooLong | VectorTooLarge | NamedVectorTooLarge | MarshalError | PayloadTooLarge | TooManyNamed | NameTooLong | SparseTooLarge

definition fits16 :: "nat \<Rightarrow> u16 option" where
  "fits16 n = (if int n < 0 \<or> int n > MaxUint16 then None else Some (word_of_nat n))"

definition fits32 :: "nat \<Rightarrow> u32 option" where
  "fits32 n = (if int n < 0 \<or> int n > MaxUint32 then None else Some (word_of_nat n))"

definition str_bytes :: "string \<Rightarrow> byte list" where
  "str_bytes s = map (\<lambda>c. word_of_nat (of_char c)) s"

definition bytes_str :: "byte list \<Rightarrow> string" where
  "bytes_str bs = map (\<lambda>b. char_of (unat b)) bs"

definition encode_str :: "encode_error \<Rightarrow> string \<Rightarrow> encode_error + byte list" where
  "encode_str e s = (case fits16 (length (str_bytes s)) of None \<Rightarrow> Inl e
     | Some n \<Rightarrow> Inr (put_u16 n @ str_bytes s))"

definition encode_vec :: "encode_error \<Rightarrow> vec \<Rightarrow> encode_error + byte list" where
  "encode_vec e v = (case fits32 (length v) of None \<Rightarrow> Inl e
     | Some n \<Rightarrow> Inr (put_u32 n @ concat (map put_u32 v)))"

fun encode_named :: "(string \<times> vec) list \<Rightarrow> encode_error + byte list" where
  "encode_named [] = Inr []"
| "encode_named ((n, v) # nvs) = (case encode_str NameTooLong n of Inl e \<Rightarrow> Inl e
     | Inr a \<Rightarrow> (case encode_vec NamedVectorTooLarge v of Inl e \<Rightarrow> Inl e
       | Inr b \<Rightarrow> (case encode_named nvs of Inl e \<Rightarrow> Inl e
         | Inr c \<Rightarrow> Inr (a @ b @ c))))"

definition encode_sparse :: "sparse_vector option \<Rightarrow> encode_error + byte list" where
  "encode_sparse sp = (case sp of None \<Rightarrow> Inr [0]
     | Some s \<Rightarrow> (case fits32 (length (Indices s)) of None \<Rightarrow> Inl SparseTooLarge
       | Some n \<Rightarrow> Inr ([1] @ put_u32 n @ concat (map put_u32 (Indices s)) @ concat (map put_u32 (SValues s)))))"

definition Encode :: "(go_map option \<Rightarrow> byte list option) \<Rightarrow> pt \<Rightarrow> encode_error + byte list" where
  "Encode marshal p =
    (case encode_str IDTooLong (ptID p) of Inl e \<Rightarrow> Inl e
     | Inr a \<Rightarrow> (case encode_vec VectorTooLarge (ptVector p) of Inl e \<Rightarrow> Inl e
     | Inr b \<Rightarrow> (case marshal (ptPayload p) of None \<Rightarrow> Inl MarshalError
     | Some j \<Rightarrow> (case fits32 (length j) of None \<Rightarrow> Inl PayloadTooLarge
     | Some jn \<Rightarrow> (case fits16 (length (NamedVectors p)) of None \<Rightarrow> Inl TooManyNamed
     | Some nn \<Rightarrow> (case encode_named (NamedVectors p) of Inl e \<Rightarrow> Inl e
     | Inr c \<Rightarrow> (case encode_sparse (ptSparse p) of Inl e \<Rightarrow> Inl e
     | Inr d \<Rightarrow> Inr (a @ b @ put_u32 jn @ j @ put_u16 nn @ c @ put_u64 (Version p) @ d))))))))"

section \<open>Decoding\<close>

datatype decode_error = IO io_error | UnmarshalError

type_synonym 'a parser = "byte list \<Rightarrow> decode_error + ('a \<times> byte list)"

definition io :: "(byte list \<Rightarrow> io_error + ('a \<times> byte list)) \<Rightarrow> 'a parser" where
  "io rd s = (case rd s of Inl e \<Rightarrow> Inl (IO e) | Inr r \<Rightarrow> Inr r)"

definition pbind :: "'a parser \<Rightarrow> ('a \<Rightarrow> 'b parser) \<Rightarrow> 'b parser" where
  "pbind p f s = (case p s of Inl e \<Rightarrow> Inl e | Inr (x, s') \<Rightarrow> f x s')"

definition decode_str :: "string parser" where
  "decode_str = pbind (io read_u16) (\<lambda>n. pbind (io (read_full (unat n))) (\<lambda>bs s. Inr (bytes_str bs, s)))"

definition decode_vec :: "vec parser" where
  "decode_vec = pbind (io read_u32) (\<lambda>n. io (read_many read_u32 (unat n)))"

fun decode_named :: "nat \<Rightarrow> (string \<times> vec) list \<Rightarrow> (string \<times> vec) list parser" where
  "decode_named 0 m s = Inr (m, s)"
| "decode_named (Suc n) m s = pbind decode_str (\<lambda>name. pbind decode_vec (\<lambda>v. decode_named n (map_set name v m))) s"

definition decode_payload :: "(byte list \<Rightarrow> go_map option option) \<Rightarrow> go_map option parser" where
  "decode_payload unmarshal = pbind (io read_u32) (\<lambda>n s.
     if unat n > 0 then pbind (io (read_full (unat n)))
       (\<lambda>bs s. case unmarshal bs of None \<Rightarrow> Inl UnmarshalError | Some p \<Rightarrow> Inr (p, s)) s
     else Inr (None, s))"

definition decode_sparse :: "sparse_vector parser" where
  "decode_sparse = pbind (io read_u32) (\<lambda>n. pbind (io (read_many read_u32 (unat n)))
     (\<lambda>is. pbind (io (read_many read_u32 (unat n))) (\<lambda>vs s. Inr (\<lparr>Indices = is, SValues = vs\<rparr>, s))))"

definition read_byte :: "byte list \<Rightarrow> io_error + (byte \<times> byte list)" where
  "read_byte s = (case s of [] \<Rightarrow> Inl EOF | b # s' \<Rightarrow> Inr (b, s'))"

text \<open>The tail of the format: points written before a field was added end where it would start.\<close>

definition decode_tail :: "pt \<Rightarrow> pt parser" where
  "decode_tail p s = (case read_u64 s of
     Inl EOF \<Rightarrow> Inr (p\<lparr>Version := 1\<rparr>, s)
   | Inl e \<Rightarrow> Inl (IO e)
   | Inr (v, s1) \<Rightarrow> (case read_byte s1 of
       Inl e \<Rightarrow> Inr (p\<lparr>Version := v\<rparr>, s1)
     | Inr (b, s2) \<Rightarrow> if b \<noteq> 0
         then pbind decode_sparse (\<lambda>sp s. Inr (p\<lparr>Version := v, ptSparse := Some sp\<rparr>, s)) s2
         else Inr (p\<lparr>Version := v\<rparr>, s2)))"

definition Decode :: "(byte list \<Rightarrow> go_map option option) \<Rightarrow> pt parser" where
  "Decode unmarshal =
     pbind decode_str (\<lambda>i. pbind decode_vec (\<lambda>v. pbind (decode_payload unmarshal) (\<lambda>pl s.
       let p = zero_point\<lparr>ptID := i, ptVector := v, ptPayload := pl\<rparr> in
       case read_u16 s of
         Inl EOF \<Rightarrow> Inr (p\<lparr>Version := 1\<rparr>, s)
       | Inl e \<Rightarrow> Inl (IO e)
       | Inr (n, s1) \<Rightarrow> pbind (decode_named (unat n) []) (\<lambda>nvs. decode_tail (p\<lparr>NamedVectors := nvs\<rparr>)) s1)))"

section \<open>Round trips\<close>

lemma fits16_Some: "fits16 n = Some w \<longleftrightarrow> n < 65536 \<and> w = word_of_nat n"
  by (auto simp: fits16_def MaxUint16_def)

lemma fits32_Some: "fits32 n = Some w \<longleftrightarrow> n < 4294967296 \<and> w = word_of_nat n"
  by (auto simp: fits32_def MaxUint32_def)

lemma unat_fits16: "fits16 n = Some w \<Longrightarrow> unat w = n"
  by (simp add: fits16_Some unat_of_nat take_bit_nat_eq_self)

lemma unat_fits32: "fits32 n = Some w \<Longrightarrow> unat w = n"
  by (simp add: fits32_Some unat_of_nat take_bit_nat_eq_self)

lemma unat_char_byte [simp]: "unat (word_of_nat (of_char c) :: byte) = of_char c"
  using nat_of_char_less_256 [of c] by (simp add: unat_of_nat take_bit_nat_eq_self)

lemma bytes_str_str_bytes [simp]: "bytes_str (str_bytes s) = s"
  by (simp add: bytes_str_def str_bytes_def comp_def)

lemma pbind_Inr: "p s = Inr (x, s') \<Longrightarrow> pbind p f s = f x s'"
  by (simp add: pbind_def)

lemma io_Inr: "rd s = Inr r \<Longrightarrow> io rd s = Inr r"
  by (simp add: io_def)

lemma decode_encode_str: "encode_str e x = Inr bs \<Longrightarrow> decode_str (bs @ s) = Inr (x, s)"
  by (auto simp: encode_str_def decode_str_def pbind_def io_def read_u16_put unat_fits16 read_full_append
      split: option.splits)

lemma decode_encode_vec: "encode_vec e v = Inr bs \<Longrightarrow> decode_vec (bs @ s) = Inr (v, s)"
  by (auto simp: encode_vec_def decode_vec_def pbind_def io_def read_u32_put unat_fits32 c32.read_many_wr
      split: option.splits)

lemma pbind_str: "encode_str e x = Inr a \<Longrightarrow> pbind decode_str f (a @ s) = f x s"
  by (simp add: pbind_def decode_encode_str)

lemma pbind_vec: "encode_vec e v = Inr a \<Longrightarrow> pbind decode_vec f (a @ s) = f v s"
  by (simp add: pbind_def decode_encode_vec)

interpretation cvec: seq_codec "\<lambda>v. case encode_vec VectorTooLarge v of Inr bs \<Rightarrow> bs | Inl _ \<Rightarrow> []"
  "\<lambda>s. case decode_vec s of Inr r \<Rightarrow> Inr r | Inl _ \<Rightarrow> Inl EOF" "\<lambda>v. \<exists>bs. encode_vec VectorTooLarge v = Inr bs"
  by unfold_locales (auto simp: decode_encode_vec)

lemma decode_encode_named:
  "encode_named nvs = Inr bs \<Longrightarrow> distinct (map fst (m @ nvs)) \<Longrightarrow>
   decode_named (length nvs) m (bs @ s) = Inr (m @ nvs, s)"
proof (induction nvs arbitrary: m bs)
  case (Cons nv nvs)
  obtain n v where nv: "nv = (n, v)" by (cases nv)
  with Cons.prems obtain a b c where e: "encode_str NameTooLong n = Inr a" "encode_vec NamedVectorTooLarge v = Inr b"
    "encode_named nvs = Inr c" "bs = a @ b @ c" by (auto split: sum.splits)
  have "map_set n v m = m @ [(n, v)]" using Cons.prems(2) nv by (auto simp: map_set_def)
  with Cons.IH [OF e(3), of "m @ [(n, v)]"] Cons.prems(2) nv
  show ?case by (simp add: e(4) pbind_str [OF e(1)] pbind_vec [OF e(2)])
qed simp

lemma decode_encode_sparse:
  assumes "encode_sparse sp = Inr bs" and "\<forall>x. sp = Some x \<longrightarrow> length (Indices x) = length (SValues x)"
  shows "decode_tail p (put_u64 v @ bs @ s) = Inr (p\<lparr>Version := v, ptSparse := (case sp of None \<Rightarrow> ptSparse p | Some x \<Rightarrow> Some x)\<rparr>, s)"
proof (cases sp)
  case None
  then have "bs = [0]" using assms(1) by (simp add: encode_sparse_def)
  with None show ?thesis by (simp add: decode_tail_def read_u64_put read_byte_def)
next
  case (Some x)
  with assms(1) obtain n where n: "fits32 (length (Indices x)) = Some n"
    and bs: "bs = 1 # put_u32 n @ concat (map put_u32 (Indices x)) @ concat (map put_u32 (SValues x))"
    by (auto simp: encode_sparse_def split: option.splits)
  have l: "length (SValues x) = length (Indices x)" using assms(2) Some by simp
  have r: "read_many read_u32 (length (Indices x)) (concat (map put_u32 (SValues x)) @ s) = Inr (SValues x, s)"
    using c32.read_many_wr [of "SValues x" s] l by simp
  show ?thesis
    by (simp add: decode_tail_def read_u64_put read_byte_def bs decode_sparse_def pbind_def io_def read_u32_put
        unat_fits32 [OF n] c32.read_many_wr r Some)
qed

lemma Decode_Encode:
  assumes e: "Encode marshal p = Inr bs" and m: "marshal (ptPayload p) = Some j" and u: "unmarshal j = Some (ptPayload p)"
    and ne: "j \<noteq> []" and d: "distinct (map fst (NamedVectors p))"
    and sp: "\<forall>x. ptSparse p = Some x \<longrightarrow> length (Indices x) = length (SValues x)"
  shows "Decode unmarshal (bs @ s) = Inr (p\<lparr>MultiVectors := []\<rparr>, s)"
proof -
  from e m obtain a b jn nn c dd where x: "encode_str IDTooLong (ptID p) = Inr a" "encode_vec VectorTooLarge (ptVector p) = Inr b"
    "fits32 (length j) = Some jn" "fits16 (length (NamedVectors p)) = Some nn" "encode_named (NamedVectors p) = Inr c"
    "encode_sparse (ptSparse p) = Inr dd"
    and bs: "bs = a @ b @ put_u32 jn @ j @ put_u16 nn @ c @ put_u64 (Version p) @ dd"
    by (auto simp: Encode_def split: sum.splits option.splits)
  let ?rest = "put_u16 nn @ c @ put_u64 (Version p) @ dd @ s"
  have "unat jn = length j" by (rule unat_fits32 [OF x(3)])
  then have pl: "decode_payload unmarshal (put_u32 jn @ j @ ?rest) = Inr (ptPayload p, ?rest)"
    using ne u by (simp add: decode_payload_def pbind_def io_def read_u32_put read_full_append)
  have nv: "decode_named (unat nn) [] (c @ put_u64 (Version p) @ dd @ s) = Inr (NamedVectors p, put_u64 (Version p) @ dd @ s)"
    using decode_encode_named [OF x(5), of "[]" "put_u64 (Version p) @ dd @ s"] d unat_fits16 [OF x(4)] by simp
  show ?thesis
    by (simp add: bs Decode_def pbind_str [OF x(1)] pbind_vec [OF x(2)]
        pbind_Inr [of "decode_payload unmarshal", OF pl] read_u16_put Let_def pbind_Inr [of "decode_named (unat nn) []", OF nv] decode_encode_sparse [OF x(6) sp] zero_point_def
        split: option.split)
qed

text \<open>A point written before named vectors existed ends after its payload.\<close>

lemma Decode_legacy:
  assumes "encode_str e i = Inr a" and "encode_vec e' v = Inr b" and "fits32 (length j) = Some jn" and "j \<noteq> []"
    and "unmarshal j = Some pl"
  shows "Decode unmarshal (a @ b @ put_u32 jn @ j) = Inr (NewPointWithID i v pl, [])"
proof -
  have "unat jn = length j" by (rule unat_fits32 [OF assms(3)])
  then have pl: "decode_payload unmarshal (put_u32 jn @ j) = Inr (pl, [])"
    using assms(4,5) read_full_append [of "length j" j "[]"]
    by (simp add: decode_payload_def pbind_def io_def read_u32_put)
  show ?thesis
    by (simp add: Decode_def pbind_str [OF assms(1)] pbind_vec [OF assms(2)]
        pbind_Inr [of "decode_payload unmarshal", OF pl] read_u16_def read_full_def Let_def NewPointWithID_def)
qed

lemma check_vector_None: "check_vector i v = None \<longleftrightarrow> list_all (\<lambda>w. \<not> not_finite w) v"
  by (induction v arbitrary: i) auto

lemma check_vector_first:
  "i < length v \<Longrightarrow> not_finite (v ! i) \<Longrightarrow> \<forall>j < i. \<not> not_finite (v ! j) \<Longrightarrow> check_vector k v = Some (InvalidVectorError (k + i) (v ! i))"
proof (induction v arbitrary: i k)
  case (Cons w v)
  show ?case
  proof (cases i)
    case (Suc m)
    have "\<forall>j < m. \<not> not_finite (v ! j)" using Cons.prems(3) Suc by auto
    moreover have "\<not> not_finite w" using Cons.prems(3) Suc by fastforce
    ultimately show ?thesis using Cons.IH [of m "Suc k"] Cons.prems(1,2) Suc by simp
  qed (use Cons.prems in simp)
qed simp

lemma check_named_None: "check_named nvs = None \<longleftrightarrow> (\<forall>(n, v) \<in> set nvs. list_all (\<lambda>w. \<not> not_finite w) v)"
  by (induction nvs rule: check_named.induct) (auto simp flip: check_vector_None [of 0] split: option.splits)

end
