(* ===== verification/Point_Properties.thy ===== *)
theory Point_Properties
  imports Point_Codec
begin

text \<open>The properties of the point format of \<open>pkg/point/point.go\<close>.\<close>

section \<open>A JSON codec of two documents\<close>

text \<open>The empty and the absent payload as \<open>json.Marshal\<close> writes them, for the witnesses.\<close>

definition json_marshal :: "go_map option \<Rightarrow> byte list option" where
  "json_marshal p = (case p of None \<Rightarrow> Some (str_bytes ''null'') | Some [] \<Rightarrow> Some (str_bytes ''{}'') | Some _ \<Rightarrow> None)"

definition json_unmarshal :: "byte list \<Rightarrow> go_map option option" where
  "json_unmarshal bs = (if bs = str_bytes ''null'' then Some None else if bs = str_bytes ''{}'' then Some (Some []) else None)"

lemma json_law: "json_marshal x = Some j \<Longrightarrow> j \<noteq> [] \<and> json_unmarshal j = Some x"
  by (auto simp: json_marshal_def json_unmarshal_def str_bytes_def split: option.splits list.splits)

text \<open>C11: Whatever follows it in the stream, decoding what \<open>Encode\<close> wrote gives back the point, except
  for its multi-vectors, which the format (like \<open>Clone\<close>) drops, and consumes exactly the bytes
  written; this needs the indices and values of the sparse part to have the same length and JSON
  to read back the payload it wrote. A point that was written before the named vectors were added to the
  format, and so ends after its payload, decodes to the point \<open>NewPointWithID\<close> builds, at version 1.\<close>

theorem point_roundtrip:
  assumes json: "\<And>x j. marshal x = Some j \<Longrightarrow> j \<noteq> [] \<and> unmarshal j = Some x"
    and e: "Encode marshal p = Inr bs"
    and d: "distinct (map fst (NamedVectors p))"
    and sp: "\<forall>x. ptSparse p = Some x \<longrightarrow> length (Indices x) = length (SValues x)"
  shows "Decode unmarshal (bs @ s) = Inr (p\<lparr>MultiVectors := []\<rparr>, s)
    \<and> Clone p = p\<lparr>MultiVectors := []\<rparr>
    \<and> (\<exists>n < length bs. Decode unmarshal (take n bs) = Inr (NewPointWithID (ptID p) (ptVector p) (ptPayload p), []))"
proof (intro conjI)
  from e obtain j where m: "marshal (ptPayload p) = Some j" by (auto simp: Encode_def split: sum.splits option.splits)
  show "Decode unmarshal (bs @ s) = Inr (p\<lparr>MultiVectors := []\<rparr>, s)"
    using Decode_Encode [OF e m] json [OF m] d sp by blast
  show "Clone p = p\<lparr>MultiVectors := []\<rparr>" by (simp add: Clone_def zero_point_def)
  from e m obtain a b jn nn c dd where x: "encode_str IDTooLong (ptID p) = Inr a" "encode_vec VectorTooLarge (ptVector p) = Inr b"
    "fits32 (length j) = Some jn"
    and bs: "bs = (a @ b @ put_u32 jn @ j) @ put_u16 nn @ c @ put_u64 (Version p) @ dd"
    by (auto simp: Encode_def split: sum.splits option.splits)
  have "take (length (a @ b @ put_u32 jn @ j)) bs = a @ b @ put_u32 jn @ j" by (simp add: bs)
  moreover have "length (a @ b @ put_u32 jn @ j) < length bs" by (simp add: bs put_u16_def)
  ultimately show "\<exists>n < length bs. Decode unmarshal (take n bs) = Inr (NewPointWithID (ptID p) (ptVector p) (ptPayload p), [])"
    using Decode_legacy [OF x] json [OF m] by metis
qed

definition sample_point :: pt where
  "sample_point = zero_point\<lparr>ptID := ''a'', ptVector := [0x3F800000], NamedVectors := [(''t'', [1, 2])],
     ptSparse := Some \<lparr>Indices = [7], SValues = [8]\<rparr>, MultiVectors := [(''m'', [[1]])], Version := 3\<rparr>"

theorem point_roundtrip_witness:
  "\<exists>bs. Encode json_marshal sample_point = Inr bs
     \<and> Decode json_unmarshal (bs @ [9]) = Inr (sample_point\<lparr>MultiVectors := []\<rparr>, [9])"
proof -
  obtain bs where "Encode json_marshal sample_point = Inr bs"
    by (simp add: sample_point_def zero_point_def Encode_def json_marshal_def encode_str_def encode_vec_def
        fits16_def fits32_def MaxUint16_def MaxUint32_def str_bytes_def encode_sparse_def)
  then show ?thesis
    using point_roundtrip [of json_marshal json_unmarshal sample_point bs "[9]"] json_law
    by (simp add: sample_point_def zero_point_def)
qed

text \<open>\<open>Validate\<close> accepts a point exactly when it has an id, carries at least one of a vector, a named
  vector and a sparse vector, and no component of its vector or of a named vector has the exponent of
  an infinity or NaN; an error about the vector names the first such component.\<close>

theorem point_validate:
  "(Validate_point p = None \<longleftrightarrow> ptID p \<noteq> [] \<and> (ptVector p \<noteq> [] \<or> NamedVectors p \<noteq> [] \<or> ptSparse p \<noteq> None)
     \<and> (\<forall>w \<in> set (ptVector p). \<not> not_finite w) \<and> (\<forall>(n, v) \<in> set (NamedVectors p). \<forall>w \<in> set v. \<not> not_finite w))
   \<and> (\<forall>i. ptID p \<noteq> [] \<longrightarrow> i < length (ptVector p) \<longrightarrow> not_finite (ptVector p ! i) \<longrightarrow> (\<forall>j < i. \<not> not_finite (ptVector p ! j))
     \<longrightarrow> Validate_point p = Some (InvalidVectorError i (ptVector p ! i)))"
proof (intro conjI allI impI)
  show "Validate_point p = None \<longleftrightarrow> ptID p \<noteq> [] \<and> (ptVector p \<noteq> [] \<or> NamedVectors p \<noteq> [] \<or> ptSparse p \<noteq> None)
     \<and> (\<forall>w \<in> set (ptVector p). \<not> not_finite w) \<and> (\<forall>(n, v) \<in> set (NamedVectors p). \<forall>w \<in> set v. \<not> not_finite w)"
    using check_vector_None [of 0 "ptVector p"] check_named_None [of "NamedVectors p"]
    by (auto simp: Validate_point_def list_all_iff split: option.splits)
next
  fix i
  assume i: "i < length (ptVector p)" and n: "not_finite (ptVector p ! i)" "\<forall>j < i. \<not> not_finite (ptVector p ! j)"
    and id: "ptID p \<noteq> []"
  have "check_vector 0 (ptVector p) = Some (InvalidVectorError i (ptVector p ! i))"
    using check_vector_first [OF i n, of 0] by simp
  with id i show "Validate_point p = Some (InvalidVectorError i (ptVector p ! i))" by (auto simp: Validate_point_def)
qed

theorem point_validate_witness:
  "Validate_point (sample_point\<lparr>ptVector := [5, 0x7F800000]\<rparr>) = Some (InvalidVectorError 1 0x7F800000)"
  using point_validate [THEN conjunct2, THEN spec [of _ 1], of "sample_point\<lparr>ptVector := [5, 0x7F800000]\<rparr>"]
  by (simp add: sample_point_def not_finite_def)

end
