(* ===== verification/Cache.thy ===== *)
theory Cache
  imports Prelude
begin

text \<open>
  The query caches of \<open>pkg/cache/cache.go\<close>. The elements of the list of package
  \<open>container/list\<close> are cells of a store: \<open>order\<close> holds their addresses from front to back,
  \<open>items\<close> the address of each key. Times are nanoseconds, and \<open>now\<close> is the value \<open>time.Now\<close>
  returns. An operation that does not return is \<open>None\<close>.
\<close>

section \<open>The LRU cache\<close>

record 'v cache_entry =
  eKey :: string
  eValue :: 'v
  ExpiresAt :: int

record 'v cache =
  capacity :: int
  ttl :: int
  items :: "string \<rightharpoonup> nat"
  order :: "nat list"
  elems :: "nat \<rightharpoonup> 'v cache_entry"
  next_elem :: nat
  hits :: int
  misses :: int

definition NewCache :: "int \<Rightarrow> int \<Rightarrow> 'v cache" where
  "NewCache n t = \<lparr>capacity = n, ttl = t, items = Map.empty, order = [], elems = Map.empty, next_elem = 0, hits = 0, misses = 0\<rparr>"

text \<open>\<open>container/list\<close>: \<open>MoveToFront\<close>, \<open>PushFront\<close>, \<open>Remove\<close>, \<open>Back\<close>.\<close>

definition MoveToFront :: "nat \<Rightarrow> 'v cache \<Rightarrow> 'v cache" where
  "MoveToFront e c = c\<lparr>order := e # filter (\<lambda>x. x \<noteq> e) (order c)\<rparr>"

definition PushFront :: "'v cache_entry \<Rightarrow> 'v cache \<Rightarrow> nat \<times> 'v cache" where
  "PushFront en c = (let e = next_elem c in
     (e, c\<lparr>order := e # order c, elems := (elems c)(e \<mapsto> en), next_elem := Suc e\<rparr>))"

definition Back :: "'v cache \<Rightarrow> nat option" where
  "Back c = (if order c = [] then None else Some (last (order c)))"

definition removeElement :: "nat \<Rightarrow> 'v cache \<Rightarrow> 'v cache" where
  "removeElement e c = (let c1 = c\<lparr>order := filter (\<lambda>x. x \<noteq> e) (order c)\<rparr> in
     case elems c1 e of None \<Rightarrow> c1
     | Some en \<Rightarrow> c1\<lparr>items := (items c1)(eKey en := None)\<rparr>)"

definition removeOldest :: "'v cache \<Rightarrow> 'v cache" where
  "removeOldest c = (case Back c of None \<Rightarrow> c | Some e \<Rightarrow> removeElement e c)"

definition count_miss :: "'v cache \<Rightarrow> 'v option \<times> 'v cache" where
  "count_miss c = (None, c\<lparr>misses := misses c + 1\<rparr>)"

definition Get_cache :: "int \<Rightarrow> string \<Rightarrow> 'v cache \<Rightarrow> 'v option \<times> 'v cache" where
  "Get_cache now key c = (case items c key of
     None \<Rightarrow> count_miss c
   | Some e \<Rightarrow> (case elems c e of
       None \<Rightarrow> count_miss c
     | Some en \<Rightarrow> if now < ExpiresAt en
         then (Some (eValue en), (MoveToFront e c)\<lparr>hits := hits c + 1\<rparr>)
         else count_miss (removeElement e c)))"

text \<open>The eviction loop; with no capacity it never ends.\<close>

partial_function (option) evict :: "'v cache \<Rightarrow> 'v cache option" where
  "evict c = (if int (length (order c)) \<ge> capacity c then evict (removeOldest c) else Some c)"

definition Set_cache :: "int \<Rightarrow> string \<Rightarrow> 'v \<Rightarrow> 'v cache \<Rightarrow> 'v cache option" where
  "Set_cache now key v c = (case items c key of
     Some e \<Rightarrow> (let c1 = MoveToFront e c in case elems c1 e of
         None \<Rightarrow> Some c1
       | Some en \<Rightarrow> Some (c1\<lparr>elems := (elems c1)(e \<mapsto> en\<lparr>eValue := v, ExpiresAt := now + ttl c\<rparr>)\<rparr>))
   | None \<Rightarrow> (case evict c of None \<Rightarrow> None
     | Some c1 \<Rightarrow> (let (e, c2) = PushFront \<lparr>eKey = key, eValue = v, ExpiresAt = now + ttl c1\<rparr> c1
         in Some (c2\<lparr>items := (items c2)(key \<mapsto> e)\<rparr>))))"

definition Delete_cache :: "string \<Rightarrow> 'v cache \<Rightarrow> 'v cache" where
  "Delete_cache key c = (case items c key of None \<Rightarrow> c | Some e \<Rightarrow> removeElement e c)"

definition Clear_cache :: "'v cache \<Rightarrow> 'v cache" where
  "Clear_cache c = c\<lparr>items := Map.empty, order := []\<rparr>"

record cache_stats =
  stSize :: nat
  stHits :: int
  stMisses :: int

definition Stats_cache :: "'v cache \<Rightarrow> cache_stats" where
  "Stats_cache c = \<lparr>stSize = length (order c), stHits = hits c, stMisses = misses c\<rparr>"

text \<open>\<open>SearchCache\<close> forwards to its cache and drops everything to invalidate one collection.\<close>

definition InvalidateCollection :: "string \<Rightarrow> 'v cache \<Rightarrow> 'v cache" where
  "InvalidateCollection coll c = Clear_cache c"

section \<open>The semantic cache\<close>

text \<open>The float32 operations the similarity uses.\<close>

record 'f f32_ops =
  fzero :: 'f
  ftwo :: 'f
  fadd :: "'f \<Rightarrow> 'f \<Rightarrow> 'f"
  fmul :: "'f \<Rightarrow> 'f \<Rightarrow> 'f"
  fdiv :: "'f \<Rightarrow> 'f \<Rightarrow> 'f"
  feq :: "'f \<Rightarrow> 'f \<Rightarrow> bool"
  fle :: "'f \<Rightarrow> 'f \<Rightarrow> bool"

definition sqrt_step :: "'f f32_ops \<Rightarrow> 'f \<Rightarrow> 'f \<Rightarrow> 'f" where
  "sqrt_step F x z = fdiv F (fadd F z (fdiv F x z)) (ftwo F)"

definition sqrt32 :: "'f f32_ops \<Rightarrow> 'f \<Rightarrow> 'f" where
  "sqrt32 F x = (if fle F x (fzero F) then fzero F else (sqrt_step F x ^^ 10) x)"

fun cosine_sums :: "'f f32_ops \<Rightarrow> 'f list \<Rightarrow> 'f list \<Rightarrow> 'f \<times> 'f \<times> 'f \<Rightarrow> 'f \<times> 'f \<times> 'f" where
  "cosine_sums F (x # a) (y # b) (d, na, nb) =
     cosine_sums F a b (fadd F d (fmul F x y), fadd F na (fmul F x x), fadd F nb (fmul F y y))"
| "cosine_sums F _ _ s = s"

definition cosineSimilarity :: "'f f32_ops \<Rightarrow> 'f list \<Rightarrow> 'f list \<Rightarrow> 'f" where
  "cosineSimilarity F a b = (if length a \<noteq> length b then fzero F
     else let (d, na, nb) = cosine_sums F a b (fzero F, fzero F, fzero F) in
       if feq F na (fzero F) \<or> feq F nb (fzero F) then fzero F
       else fdiv F d (fmul F (sqrt32 F na) (sqrt32 F nb)))"

record ('f, 'v) semantic_cache =
  sc_cache :: "'v cache"
  similarityThreshold :: 'f
  vectors :: "(string \<times> 'f list) list"

definition NewSemanticCache :: "int \<Rightarrow> int \<Rightarrow> 'f \<Rightarrow> ('f, 'v) semantic_cache" where
  "NewSemanticCache n t th = \<lparr>sc_cache = NewCache n t, similarityThreshold = th, vectors = []\<rparr>"

fun find_loop :: "'f f32_ops \<Rightarrow> int \<Rightarrow> 'f \<Rightarrow> 'f list \<Rightarrow> (string \<times> 'f list) list \<Rightarrow> 'v cache
    \<Rightarrow> (string \<times> 'v) option \<times> 'v cache" where
  "find_loop F now th v [] c = (None, c)"
| "find_loop F now th v ((k, w) # cs) c =
     (if fle F th (cosineSimilarity F v w)
      then (case Get_cache now k c of
          (Some r, c1) \<Rightarrow> (Some (k, r), c1)
        | (None, c1) \<Rightarrow> find_loop F now th v cs c1)
      else find_loop F now th v cs c)"

definition FindSimilar :: "'f f32_ops \<Rightarrow> int \<Rightarrow> 'f list \<Rightarrow> ('f, 'v) semantic_cache
    \<Rightarrow> (string \<times> 'v) option \<times> ('f, 'v) semantic_cache" where
  "FindSimilar F now v sc = (let (r, c) = find_loop F now (similarityThreshold sc) v (vectors sc) (sc_cache sc)
     in (r, sc\<lparr>sc_cache := c\<rparr>))"

definition Set_semantic :: "int \<Rightarrow> string \<Rightarrow> 'f list \<Rightarrow> 'v \<Rightarrow> ('f, 'v) semantic_cache \<Rightarrow> ('f, 'v) semantic_cache option" where
  "Set_semantic now key v r sc = (let sc1 = sc\<lparr>vectors := map_set key v (vectors sc)\<rparr> in
     case Set_cache now key r (sc_cache sc1) of None \<Rightarrow> None | Some c \<Rightarrow> Some (sc1\<lparr>sc_cache := c\<rparr>))"

end
