(* ===== verification/Cache_Facts.thy ===== *)
theory Cache_Facts
  imports Cache
begin

text \<open>
  The cache as a list of entries, most recently used first: the representation invariant, the
  effect of every operation on that list, and the eviction loop.
\<close>

section \<open>Representation\<close>

definition cache_ok :: "'v cache \<Rightarrow> bool" where
  "cache_ok c \<longleftrightarrow> distinct (order c) \<and> (\<forall>e \<in> set (order c). e < next_elem c)
     \<and> (\<forall>e \<in> set (order c). \<exists>en. elems c e = Some en \<and> items c (eKey en) = Some e)
     \<and> (\<forall>k e. items c k = Some e \<longrightarrow> e \<in> set (order c) \<and> (\<exists>en. elems c e = Some en \<and> eKey en = k))"

definition view :: "'v cache \<Rightarrow> 'v cache_entry list" where
  "view c = map (\<lambda>e. the (elems c e)) (order c)"

definition fixed_part :: "'v cache \<Rightarrow> int \<times> int \<times> int \<times> int" where
  "fixed_part c = (capacity c, ttl c, hits c, misses c)"

lemma cache_ok_New [simp]: "cache_ok (NewCache n t)" and view_New [simp]: "view (NewCache n t) = []"
  by (simp_all add: cache_ok_def NewCache_def view_def)

lemma length_view [simp]: "length (view c) = length (order c)"
  by (simp add: view_def)

lemma ok_elem: "cache_ok c \<Longrightarrow> e \<in> set (order c) \<Longrightarrow> \<exists>en. elems c e = Some en \<and> items c (eKey en) = Some e"
  by (simp add: cache_ok_def)

lemma ok_item: "cache_ok c \<Longrightarrow> items c k = Some e \<Longrightarrow> e \<in> set (order c) \<and> (\<exists>en. elems c e = Some en \<and> eKey en = k)"
  by (simp add: cache_ok_def)

text \<open>Two elements with the same key are the same element.\<close>

lemma ok_key_inj:
  assumes "cache_ok c" and "e \<in> set (order c)" and "e' \<in> set (order c)" and "eKey (the (elems c e)) = eKey (the (elems c e'))"
  shows "e = e'"
  using ok_elem [OF assms(1,2)] ok_elem [OF assms(1,3)] assms(4) by auto

lemma view_distinct: assumes "cache_ok c" shows "distinct (map eKey (view c))"
proof -
  have "inj_on (\<lambda>e. eKey (the (elems c e))) (set (order c))" using ok_key_inj [OF assms] by (auto intro: inj_onI)
  then show ?thesis using assms by (simp add: view_def comp_def distinct_map cache_ok_def)
qed

text \<open>Without the element of a key the list is the list without the key.\<close>

lemma filter_elem_view:
  assumes ok: "cache_ok c" and e: "elems c e = Some en" "e \<in> set (order c)"
  shows "map (\<lambda>x. the (elems c x)) (filter (\<lambda>x. x \<noteq> e) (order c)) = filter (\<lambda>x. eKey x \<noteq> eKey en) (view c)"
proof -
  have "filter (\<lambda>x. x \<noteq> e) (order c) = filter (\<lambda>x. eKey (the (elems c x)) \<noteq> eKey en) (order c)"
  proof (intro filter_cong refl)
    fix x assume "x \<in> set (order c)"
    from ok_key_inj [OF ok this e(2)] e(1) show "(x \<noteq> e) = (eKey (the (elems c x)) \<noteq> eKey en)" by auto
  qed
  then show ?thesis by (simp add: view_def filter_map comp_def)
qed

lemma item_view: assumes "cache_ok c" and "items c k = Some e"
  shows "\<exists>en. elems c e = Some en \<and> eKey en = k \<and> en \<in> set (view c)"
proof -
  obtain en where "e \<in> set (order c)" "elems c e = Some en" "eKey en = k" using ok_item [OF assms] by blast
  moreover have "the (elems c e) \<in> set (view c)" using calculation(1) by (simp add: view_def)
  ultimately show ?thesis by simp
qed

lemma item_iff_view: assumes "cache_ok c" shows "items c k = None \<longleftrightarrow> k \<notin> eKey ` set (view c)"
proof
  assume n: "items c k = None"
  show "k \<notin> eKey ` set (view c)"
  proof
    assume "k \<in> eKey ` set (view c)"
    then obtain e where "e \<in> set (order c)" "k = eKey (the (elems c e))" by (auto simp: view_def)
    with ok_elem [OF assms] n show False by fastforce
  qed
next
  assume "k \<notin> eKey ` set (view c)"
  then show "items c k = None" using item_view [OF assms, of k] by (cases "items c k") auto
qed

section \<open>Operations\<close>

lemma removeElement_ok:
  assumes ok: "cache_ok c" and e: "elems c e = Some en" "e \<in> set (order c)"
  shows "cache_ok (removeElement e c)" and "view (removeElement e c) = filter (\<lambda>x. eKey x \<noteq> eKey en) (view c)"
    and "fixed_part (removeElement e c) = fixed_part c"
proof -
  have i: "items c (eKey en) = Some e" using ok_elem [OF ok e(2)] e(1) by auto
  have r: "removeElement e c = c\<lparr>order := filter (\<lambda>x. x \<noteq> e) (order c), items := (items c)(eKey en := None)\<rparr>"
    using e(1) by (simp add: removeElement_def Let_def)
  have k: "eKey en' \<noteq> eKey en" if "x \<in> set (order c)" "x \<noteq> e" "elems c x = Some en'" for x en'
    using ok_key_inj [OF ok that(1) e(2)] that e(1) by auto
  show "cache_ok (removeElement e c)"
    unfolding r cache_ok_def using ok i k by (auto simp: cache_ok_def) (metis option.inject)+
  show "view (removeElement e c) = filter (\<lambda>x. eKey x \<noteq> eKey en) (view c)"
    using filter_elem_view [OF ok e] by (simp add: r view_def)
  show "fixed_part (removeElement e c) = fixed_part c" by (simp add: r fixed_part_def)
qed

lemma MoveToFront_ok:
  assumes ok: "cache_ok c" and e: "elems c e = Some en" "e \<in> set (order c)"
  shows "cache_ok (MoveToFront e c)" and "view (MoveToFront e c) = en # filter (\<lambda>x. eKey x \<noteq> eKey en) (view c)"
proof -
  have s: "set (order (MoveToFront e c)) = set (order c)" using e(2) by (auto simp: MoveToFront_def)
  have "distinct (order (MoveToFront e c))" using ok by (simp add: MoveToFront_def cache_ok_def)
  with ok s show "cache_ok (MoveToFront e c)" by (simp add: cache_ok_def MoveToFront_def)
  show "view (MoveToFront e c) = en # filter (\<lambda>x. eKey x \<noteq> eKey en) (view c)"
    using filter_elem_view [OF ok e] e(1) by (simp add: MoveToFront_def view_def)
qed

lemma removeOldest_ok:
  assumes ok: "cache_ok c" and ne: "order c \<noteq> []"
  shows "cache_ok (removeOldest c)" and "view (removeOldest c) = butlast (view c)"
    and "fixed_part (removeOldest c) = fixed_part c"
proof -
  let ?e = "last (order c)"
  have m: "?e \<in> set (order c)" using ne by simp
  then obtain en where en: "elems c ?e = Some en" using ok_elem [OF ok] by blast
  have r: "removeOldest c = removeElement ?e c" using ne by (simp add: removeOldest_def Back_def)
  show "cache_ok (removeOldest c)" and "fixed_part (removeOldest c) = fixed_part c"
    unfolding r by (fact removeElement_ok [OF ok en m])+
  have "view c \<noteq> []" and "last (view c) = en" using ne en by (simp_all add: view_def last_map)
  then have v: "view c = butlast (view c) @ [en]" by (metis append_butlast_last_id)
  have "distinct (map eKey (butlast (view c) @ [en]))" using view_distinct [OF ok] v by metis
  then have "\<forall>x \<in> set (butlast (view c)). eKey x \<noteq> eKey en" by (simp add: image_iff) metis
  then have "filter (\<lambda>x. eKey x \<noteq> eKey en) (butlast (view c)) = butlast (view c)" by (simp add: filter_id_conv)
  then have "filter (\<lambda>x. eKey x \<noteq> eKey en) (view c) = butlast (view c)" by (subst v) simp
  then show "view (removeOldest c) = butlast (view c)" unfolding r using removeElement_ok(2) [OF ok en m] by simp
qed

lemma evict_ok:
  assumes "cache_ok c" and "0 < capacity c"
  shows "\<exists>c'. evict c = Some c' \<and> cache_ok c' \<and> view c' = take (nat (capacity c) - 1) (view c) \<and> fixed_part c' = fixed_part c"
  using assms
proof (induction "length (order c)" arbitrary: c rule: less_induct)
  case less
  show ?case
  proof (cases "int (length (order c)) \<ge> capacity c")
    case True
    with less.prems have ne: "order c \<noteq> []" by auto
    note r = removeOldest_ok [OF less.prems(1) ne]
    have l: "length (order (removeOldest c)) = length (order c) - 1"
      using arg_cong [OF r(2), of length] by simp
    have cap: "capacity (removeOldest c) = capacity c" using r(3) by (simp add: fixed_part_def)
    have "length (order (removeOldest c)) < length (order c)" using l ne by (cases "order c") auto
    from less.hyps [OF this r(1)] cap less.prems(2) obtain c' where
      c': "evict (removeOldest c) = Some c'" "cache_ok c'" "view c' = take (nat (capacity c) - 1) (butlast (view c))"
      "fixed_part c' = fixed_part c" using r by auto
    have "take (nat (capacity c) - 1) (butlast (view c)) = take (nat (capacity c) - 1) (view c)"
      using True by (simp add: butlast_conv_take take_take min_def)
    with c' True show ?thesis by (subst evict.simps) simp
  next
    case False
    then have "take (nat (capacity c) - 1) (view c) = view c" by simp
    with False less.prems(1) show ?thesis by (subst evict.simps) simp
  qed
qed

text \<open>With no capacity the loop does not end: there is no element to remove that would make room.\<close>

lemma evict_diverges: assumes "capacity c \<le> 0" shows "evict c = None"
proof -
  have "capacity c \<le> 0 \<longrightarrow> False" if "evict c = Some c'" for c c' :: "'a cache"
  proof (rule evict.raw_induct [OF _ that])
    fix ev and c c' :: "'a cache"
    assume IH: "\<And>c c'. ev c = Some c' \<Longrightarrow> capacity c \<le> 0 \<longrightarrow> False"
      and b: "(if capacity c \<le> int (length (order c)) then ev (removeOldest c) else Some c) = Some c'"
    have "capacity (removeOldest c) = capacity c"
      by (auto simp: removeOldest_def removeElement_def Let_def split: option.split)
    with b IH [of "removeOldest c" c'] show "capacity c \<le> 0 \<longrightarrow> False" by (auto split: if_splits)
  qed
  with assms show ?thesis by (cases "evict c") blast+
qed

section \<open>The least-recently-used specification\<close>

definition lru_set :: "nat \<Rightarrow> 'v cache_entry \<Rightarrow> 'v cache_entry list \<Rightarrow> 'v cache_entry list" where
  "lru_set n en xs = take n (en # filter (\<lambda>x. eKey x \<noteq> eKey en) xs)"

definition cache_inv :: "'v cache \<Rightarrow> bool" where
  "cache_inv c \<longleftrightarrow> cache_ok c \<and> 0 < capacity c \<and> int (length (order c)) \<le> capacity c"

lemma length_remove_key:
  assumes "en \<in> set xs" shows "length (filter (\<lambda>x. eKey x \<noteq> eKey en) xs) < length xs"
  using assms by (induction xs) (auto simp: less_Suc_eq_le)

lemma cache_invI:
  assumes "cache_ok c'" and "view c' = lru_set (nat (capacity c)) en xs" and "0 < capacity c" and "capacity c' = capacity c"
  shows "cache_inv c'"
proof -
  have "length (view c') \<le> nat (capacity c)" unfolding assms(2) lru_set_def by simp
  then show ?thesis using assms(1,3,4) by (simp add: cache_inv_def)
qed

lemma update_elem_ok:
  assumes ok: "cache_ok c" and e: "elems c e = Some en" "eKey en' = eKey en"
  shows "cache_ok (c\<lparr>elems := (elems c)(e \<mapsto> en')\<rparr>)"
  using ok e unfolding cache_ok_def by (simp, metis option.inject)

lemma Set_present:
  assumes inv: "cache_inv c" and e: "items c k = Some e"
  shows "\<exists>c'. Set_cache now k v c = Some c' \<and> cache_ok c' \<and> fixed_part c' = fixed_part c
    \<and> view c' = lru_set (nat (capacity c)) \<lparr>eKey = k, eValue = v, ExpiresAt = now + ttl c\<rparr> (view c)"
proof -
  have ok: "cache_ok c" and len: "length (view c) \<le> nat (capacity c)" using inv by (auto simp: cache_inv_def)
  obtain en where en: "elems c e = Some en" "eKey en = k" and m: "e \<in> set (order c)"
    using ok_item [OF ok e] by blast
  have v: "en \<in> set (view c)" using m en(1) by (force simp: view_def)
  let ?en = "\<lparr>eKey = k, eValue = v, ExpiresAt = now + ttl c\<rparr>"
  let ?c = "(MoveToFront e c)\<lparr>elems := (elems c)(e \<mapsto> ?en)\<rparr>"
  have q: "en\<lparr>eValue := v, ExpiresAt := now + ttl c\<rparr> = ?en" using en(2) by (cases en) simp
  have "Set_cache now k v c = Some ((MoveToFront e c)\<lparr>elems := (elems c)(e \<mapsto> en\<lparr>eValue := v, ExpiresAt := now + ttl c\<rparr>)\<rparr>)"
    using e en by (simp add: Set_cache_def MoveToFront_def Let_def)
  then have s: "Set_cache now k v c = Some ?c" unfolding q .
  have "cache_ok ((MoveToFront e c)\<lparr>elems := (elems (MoveToFront e c))(e \<mapsto> ?en)\<rparr>)"
    using MoveToFront_ok(1) [OF ok en(1) m] en by (intro update_elem_ok [where en = en]) (simp_all add: MoveToFront_def)
  then have o: "cache_ok ?c" by (simp add: MoveToFront_def)
  have "view ?c = ?en # map (\<lambda>x. the (elems c x)) (filter (\<lambda>x. x \<noteq> e) (order c))"
    by (simp add: view_def MoveToFront_def)
  also have "\<dots> = ?en # filter (\<lambda>x. eKey x \<noteq> k) (view c)" using filter_elem_view [OF ok en(1) m] en(2) by simp
  finally have w: "view ?c = lru_set (nat (capacity c)) ?en (view c)"
    using length_remove_key [OF v] len en(2) by (simp add: lru_set_def)
  show ?thesis using s o w by (auto simp: fixed_part_def MoveToFront_def)
qed

lemma Set_absent:
  assumes inv: "cache_inv c" and n: "items c k = None"
  shows "\<exists>c'. Set_cache now k v c = Some c' \<and> cache_ok c' \<and> fixed_part c' = fixed_part c
    \<and> view c' = lru_set (nat (capacity c)) \<lparr>eKey = k, eValue = v, ExpiresAt = now + ttl c\<rparr> (view c)"
proof -
  have ok: "cache_ok c" and pos: "0 < capacity c" using inv by (auto simp: cache_inv_def)
  obtain d where d: "evict c = Some d" "cache_ok d" "view d = take (nat (capacity c) - 1) (view c)" "fixed_part d = fixed_part c"
    using evict_ok [OF ok pos] by blast
  let ?en = "\<lparr>eKey = k, eValue = v, ExpiresAt = now + ttl c\<rparr>" and ?e = "next_elem d"
  let ?c = "d\<lparr>order := ?e # order d, elems := (elems d)(?e \<mapsto> ?en), next_elem := Suc ?e, items := (items d)(k \<mapsto> ?e)\<rparr>"
  have t: "ttl d = ttl c" using d(4) by (simp add: fixed_part_def)
  have s: "Set_cache now k v c = Some ?c" using n d(1) t by (simp add: Set_cache_def PushFront_def Let_def)
  have kc: "k \<notin> eKey ` set (view c)" using n item_iff_view [OF ok] by blast
  then have "k \<notin> eKey ` set (view d)" using d(3) by (auto dest: in_set_takeD)
  then have nd: "items d k = None" using item_iff_view [OF d(2)] by blast
  have f: "\<forall>e \<in> set (order d). e \<noteq> ?e" using d(2) by (auto simp: cache_ok_def)
  have o: "cache_ok ?c" using d(2) nd f unfolding cache_ok_def
    by (simp add: less_Suc_eq) (metis option.distinct(1))
  have "view ?c = ?en # view d" using f by (auto simp: view_def)
  moreover have "filter (\<lambda>x. eKey x \<noteq> k) (view c) = view c" using kc by (auto simp: filter_id_conv)
  ultimately have "view ?c = lru_set (nat (capacity c)) ?en (view c)"
    using pos d(3) by (simp add: lru_set_def take_Cons')
  with s o d(4) show ?thesis by (auto simp: fixed_part_def)
qed

lemma Set_lru:
  assumes inv: "cache_inv c"
  shows "\<exists>c'. Set_cache now k v c = Some c' \<and> cache_inv c' \<and> fixed_part c' = fixed_part c
    \<and> view c' = lru_set (nat (capacity c)) \<lparr>eKey = k, eValue = v, ExpiresAt = now + ttl c\<rparr> (view c)"
proof -
  obtain c' where c': "Set_cache now k v c = Some c'" "cache_ok c'" "fixed_part c' = fixed_part c"
    "view c' = lru_set (nat (capacity c)) \<lparr>eKey = k, eValue = v, ExpiresAt = now + ttl c\<rparr> (view c)"
    using Set_present [OF inv, of k] Set_absent [OF inv, of k] by (cases "items c k") blast+
  have "cache_inv c'" by (rule cache_invI [OF c'(2,4)]) (use inv c'(3) in \<open>simp_all add: cache_inv_def fixed_part_def\<close>)
  with c' show ?thesis by blast
qed

section \<open>Lookups\<close>

lemma Get_hit:
  assumes ok: "cache_ok c" and en: "en \<in> set (view c)" "eKey en = k" "now < ExpiresAt en"
  shows "\<exists>c'. Get_cache now k c = (Some (eValue en), c') \<and> cache_ok c' \<and> view c' = en # filter (\<lambda>x. eKey x \<noteq> k) (view c)
    \<and> fixed_part c' = (capacity c, ttl c, hits c + 1, misses c)"
proof -
  obtain e where e: "e \<in> set (order c)" "en = the (elems c e)" using en(1) by (auto simp: view_def)
  with ok_elem [OF ok e(1)] en(2) have x: "elems c e = Some en" "items c k = Some e" by auto
  note m = MoveToFront_ok [OF ok x(1) e(1)]
  have g: "Get_cache now k c = (Some (eValue en), (MoveToFront e c)\<lparr>hits := hits c + 1\<rparr>)"
    using x en(3) by (simp add: Get_cache_def)
  have "cache_ok ((MoveToFront e c)\<lparr>hits := hits c + 1\<rparr>)" using m(1) by (simp add: cache_ok_def)
  moreover have "view ((MoveToFront e c)\<lparr>hits := hits c + 1\<rparr>) = view (MoveToFront e c)" by (simp add: view_def)
  ultimately show ?thesis using g m(2) en(2) by (auto simp: fixed_part_def MoveToFront_def)
qed

lemma Get_miss:
  assumes ok: "cache_ok c" and en: "\<forall>en \<in> set (view c). eKey en = k \<longrightarrow> ExpiresAt en \<le> now"
  shows "\<exists>c'. Get_cache now k c = (None, c') \<and> cache_ok c' \<and> view c' = filter (\<lambda>x. eKey x \<noteq> k) (view c)
    \<and> fixed_part c' = (capacity c, ttl c, hits c, misses c + 1)"
proof (cases "items c k")
  case None
  then have "filter (\<lambda>x. eKey x \<noteq> k) (view c) = view c" using item_iff_view [OF ok] by (auto simp: filter_id_conv)
  with None ok show ?thesis by (auto simp: Get_cache_def count_miss_def cache_ok_def view_def fixed_part_def)
next
  case (Some e)
  obtain en' where x: "elems c e = Some en'" "eKey en' = k" "en' \<in> set (view c)" using item_view [OF ok Some] by blast
  have m: "e \<in> set (order c)" using ok_item [OF ok Some] by blast
  note r = removeElement_ok [OF ok x(1) m]
  have g: "Get_cache now k c = (None, (removeElement e c)\<lparr>misses := misses (removeElement e c) + 1\<rparr>)"
    using Some x en by (auto simp: Get_cache_def count_miss_def)
  have "cache_ok ((removeElement e c)\<lparr>misses := misses (removeElement e c) + 1\<rparr>)" using r(1) by (simp add: cache_ok_def)
  moreover have "view ((removeElement e c)\<lparr>misses := misses (removeElement e c) + 1\<rparr>) = view (removeElement e c)" by (simp add: view_def)
  ultimately show ?thesis using g r(2,3) x(2) by (auto simp: fixed_part_def)
qed

lemma Delete_lru:
  assumes ok: "cache_ok c"
  shows "cache_ok (Delete_cache k c) \<and> view (Delete_cache k c) = filter (\<lambda>x. eKey x \<noteq> k) (view c)"
proof (cases "items c k")
  case None
  then have "filter (\<lambda>x. eKey x \<noteq> k) (view c) = view c" using item_iff_view [OF ok] by (auto simp: filter_id_conv)
  with None ok show ?thesis by (simp add: Delete_cache_def)
next
  case (Some e)
  with item_view [OF ok Some] ok_item [OF ok Some] removeElement_ok [OF ok] show ?thesis by (auto simp: Delete_cache_def)
qed

section \<open>Recency\<close>

text \<open>Removing a key from the first \<open>n\<close> keys and from all of them agree on what stays in front of it.\<close>

lemma take_filter_take: "distinct xs \<Longrightarrow> take n (filter (\<lambda>x. x \<noteq> k) (take (Suc n) xs)) = take n (filter (\<lambda>x. x \<noteq> k) xs)"
proof (induction xs arbitrary: n)
  case (Cons x xs)
  show ?case
  proof (cases "x = k")
    case True
    then have "filter (\<lambda>x. x \<noteq> k) xs = xs" using Cons.prems by (auto simp: filter_id_conv)
    moreover have "filter (\<lambda>x. x \<noteq> k) (take n xs) = take n xs"
      using True Cons.prems by (auto simp: filter_id_conv dest: in_set_takeD)
    ultimately show ?thesis using True by simp
  next
    case False
    with Cons show ?thesis by (cases n) auto
  qed
qed simp

lemma remdups_snoc: "remdups (xs @ [k]) = filter (\<lambda>x. x \<noteq> k) (remdups xs) @ [k]"
  by (induction xs) auto

lemma lru_keys:
  assumes "map eKey xs = take (Suc n) (rev (remdups ks))"
  shows "map eKey (lru_set (Suc n) en xs) = take (Suc n) (rev (remdups (ks @ [eKey en])))"
proof -
  let ?R = "rev (remdups ks)"
  have "map eKey (lru_set (Suc n) en xs) = eKey en # take n (filter (\<lambda>x. x \<noteq> eKey en) (map eKey xs))"
    by (simp add: lru_set_def take_map filter_map comp_def)
  also have "\<dots> = eKey en # take n (filter (\<lambda>x. x \<noteq> eKey en) ?R)" using assms take_filter_take [of ?R n "eKey en"] by simp
  finally show ?thesis by (simp add: remdups_snoc rev_filter)
qed

fun set_all :: "(int \<times> string \<times> 'v) list \<Rightarrow> 'v cache \<Rightarrow> 'v cache option" where
  "set_all [] c = Some c"
| "set_all ((now, k, v) # ops) c = (case Set_cache now k v c of None \<Rightarrow> None | Some c' \<Rightarrow> set_all ops c')"

lemma set_all_keys:
  assumes "cache_inv c" and "map eKey (view c) = take (nat (capacity c)) (rev (remdups ks))"
  shows "\<exists>c'. set_all ops c = Some c' \<and> cache_inv c'
    \<and> map eKey (view c') = take (nat (capacity c)) (rev (remdups (ks @ map (\<lambda>(now, k, v). k) ops)))"
  using assms
proof (induction ops arbitrary: c ks)
  case (Cons op ops)
  obtain now k v where op: "op = (now, k, v)" by (metis prod_cases3)
  obtain d where d: "Set_cache now k v c = Some d" "cache_inv d" "fixed_part d = fixed_part c"
    "view d = lru_set (nat (capacity c)) \<lparr>eKey = k, eValue = v, ExpiresAt = now + ttl c\<rparr> (view c)"
    using Set_lru [OF Cons.prems(1)] by blast
  obtain n where n: "nat (capacity c) = Suc n" using Cons.prems(1) by (metis cache_inv_def gr0_implies_Suc zero_less_nat_eq)
  have "map eKey (view d) = take (nat (capacity d)) (rev (remdups (ks @ [k])))"
    using lru_keys [of "view c" n ks "\<lparr>eKey = k, eValue = v, ExpiresAt = now + ttl c\<rparr>"] Cons.prems(2) d(3,4) n
    by (simp add: fixed_part_def)
  from Cons.IH [OF d(2) this] d(1,3) op show ?case by (simp add: fixed_part_def)
qed simp

section \<open>The semantic cache\<close>

lemma find_loop_sound:
  assumes "cache_ok c" and "find_loop F now th v cs c = (Some (k, r), c')"
  shows "\<exists>w en. (k, w) \<in> set cs \<and> fle F th (cosineSimilarity F v w) \<and> en \<in> set (view c) \<and> eKey en = k \<and> now < ExpiresAt en
    \<and> r = eValue en"
  using assms
proof (induction cs arbitrary: c)
  case (Cons x cs)
  obtain k0 w0 where x: "x = (k0, w0)" by (cases x)
  show ?case
  proof (cases "fle F th (cosineSimilarity F v w0)")
    case False
    then have "find_loop F now th v cs c = (Some (k, r), c')" using Cons.prems(2) x by simp
    with Cons.IH [OF Cons.prems(1)] show ?thesis by fastforce
  next
    case True
    show ?thesis
    proof (cases "\<exists>en \<in> set (view c). eKey en = k0 \<and> now < ExpiresAt en")
      case hit: True
      then obtain en where en: "en \<in> set (view c)" "eKey en = k0" "now < ExpiresAt en" by blast
      from Get_hit [OF Cons.prems(1) en] True Cons.prems(2) x have "k = k0 \<and> r = eValue en" by auto
      with en True x show ?thesis by auto
    next
      case False
      then have "\<forall>en \<in> set (view c). eKey en = k0 \<longrightarrow> ExpiresAt en \<le> now" by (auto simp: not_less)
      from Get_miss [OF Cons.prems(1) this] obtain d where d: "Get_cache now k0 c = (None, d)" "cache_ok d"
        "view d = filter (\<lambda>x. eKey x \<noteq> k0) (view c)" by blast
      with True Cons.prems(2) x have "find_loop F now th v cs d = (Some (k, r), c')" by simp
      from Cons.IH [OF d(2) this] show ?thesis unfolding d(3) by fastforce
    qed
  qed
qed simp

lemma find_loop_complete:
  assumes "cache_ok c" and "fst (find_loop F now th v cs c) = None" and "(k, w) \<in> set cs" and "fle F th (cosineSimilarity F v w)"
    and "en \<in> set (view c)" and "eKey en = k"
  shows "ExpiresAt en \<le> now"
  using assms
proof (induction cs arbitrary: c)
  case (Cons x cs)
  obtain k0 w0 where x: "x = (k0, w0)" by (cases x)
  show ?case
  proof (cases "fle F th (cosineSimilarity F v w0)")
    case False
    then have "fst (find_loop F now th v cs c) = None" "(k, w) \<in> set cs" using Cons.prems x by auto
    with Cons.IH [OF Cons.prems(1)] Cons.prems show ?thesis by blast
  next
    case True
    show ?thesis
    proof (cases "\<exists>en \<in> set (view c). eKey en = k0 \<and> now < ExpiresAt en")
      case hit: True
      then obtain en where en: "en \<in> set (view c)" "eKey en = k0" "now < ExpiresAt en" by blast
      from Get_hit [OF Cons.prems(1) en] True Cons.prems(2) x show ?thesis by auto
    next
      case False
      then have e: "\<forall>en \<in> set (view c). eKey en = k0 \<longrightarrow> ExpiresAt en \<le> now" by (auto simp: not_less)
      from Get_miss [OF Cons.prems(1) e] obtain d where d: "Get_cache now k0 c = (None, d)" "cache_ok d"
        "view d = filter (\<lambda>x. eKey x \<noteq> k0) (view c)" by blast
      with True Cons.prems(2) x have f: "fst (find_loop F now th v cs d) = None" by simp
      show ?thesis
      proof (cases "k = k0")
        case True
        with e Cons.prems show ?thesis by blast
      next
        case False
        with Cons.IH [OF d(2) f] Cons.prems d(3) x show ?thesis by auto
      qed
    qed
  qed
qed simp

end
