(* ===== verification/Cache_Properties.thy ===== *)
theory Cache_Properties
  imports Cache_Facts
begin

text \<open>The properties of the caches of \<open>pkg/cache/cache.go\<close>.\<close>

text \<open>C6: After any sequence of \<open>Set\<close> calls on a new cache of positive capacity, every one of which
  returns, the cache holds exactly the \<open>capacity\<close> keys that were set last, in the order of their
  last \<open>Set\<close>, most recent first, however often a key was set; so it never holds more than its capacity,
  and the entry it evicts is always the least recently used one.\<close>

theorem cache_lru:
  assumes "0 < n"
  shows "\<exists>c. set_all ops (NewCache n t) = Some c
    \<and> map eKey (view c) = take (nat n) (rev (remdups (map (\<lambda>(now, k, v). k) ops)))
    \<and> int (stSize (Stats_cache c)) \<le> n"
proof -
  let ?c = "NewCache n t :: 'a cache"
  have inv: "cache_inv ?c" and "capacity ?c = n" "map eKey (view ?c) = take (nat n) (rev (remdups []))"
    using assms cache_ok_New [of n t] by (simp_all add: cache_inv_def) (simp_all add: NewCache_def)
  with set_all_keys [OF inv, of "[]" ops] obtain c where c: "set_all ops ?c = Some c" "cache_inv c"
    "map eKey (view c) = take (nat n) (rev (remdups (map (\<lambda>(now, k, v). k) ops)))" by auto
  have "length (map eKey (view c)) \<le> nat n" unfolding c(3) by simp
  then have "int (stSize (Stats_cache c)) \<le> n" using assms by (simp add: Stats_cache_def)
  with c show ?thesis by blast
qed

theorem cache_lru_witness:
  "\<exists>c. set_all [(0, ''a'', 5 :: nat), (1, ''b'', 2), (2, ''a'', 3), (3, ''c'', 4)] (NewCache 2 10) = Some c
    \<and> map eKey (view c) = [''c'', ''a'']"
proof -
  let ?ops = "[(0, ''a'', 5 :: nat), (1, ''b'', 2), (2, ''a'', 3), (3, ''c'', 4)]"
  have "take (nat 2) (rev (remdups (map (\<lambda>(now, k, v). k) ?ops))) = [''c'', ''a'']" by simp
  then show ?thesis using cache_lru [of 2 ?ops 10] by (metis zero_less_numeral)
qed

text \<open>In every cache that satisfies the invariant, \<open>Set\<close> returns and keeps the invariant; until the
  time to live has passed \<open>Get\<close> of that key returns the value that was set, from then on it returns nothing
  and drops the entry; every lookup is counted once, as a hit or as a miss; and a deleted key is not found.\<close>

theorem cache_set_get:
  assumes inv: "cache_inv c"
  shows "\<exists>c'. Set_cache now k v c = Some c' \<and> cache_inv c'
    \<and> (\<forall>now' < now + ttl c. \<exists>d. Get_cache now' k c' = (Some v, d) \<and> cache_ok d \<and> hits d = hits c + 1 \<and> misses d = misses c)
    \<and> (\<forall>now' \<ge> now + ttl c. \<exists>d. Get_cache now' k c' = (None, d) \<and> k \<notin> eKey ` set (view d) \<and> hits d = hits c \<and> misses d = misses c + 1)
    \<and> fst (Get_cache now' k (Delete_cache k c')) = None"
proof -
  let ?en = "\<lparr>eKey = k, eValue = v, ExpiresAt = now + ttl c\<rparr>"
  obtain d where d: "Set_cache now k v c = Some d" "cache_inv d" "fixed_part d = fixed_part c" "view d = lru_set (nat (capacity c)) ?en (view c)"
    using Set_lru [OF inv] by blast
  have ok: "cache_ok d" using d(2) by (simp add: cache_inv_def)
  have "0 < capacity c" using inv by (simp add: cache_inv_def)
  then have m: "?en \<in> set (view d)" unfolding d(4) lru_set_def by (cases "nat (capacity c)") auto
  have u: "en = ?en" if "en \<in> set (view d)" "eKey en = k" for en
    using that view_distinct [OF ok] m by (metis cache_entry.select_convs(1) eq_key_imp_eq_value distinct_map inj_onD)
  have hit: "\<exists>e. Get_cache now' k d = (Some v, e) \<and> cache_ok e \<and> hits e = hits c + 1 \<and> misses e = misses c" if "now' < now + ttl c" for now'
    using Get_hit [OF ok m, of k now'] that d(3) by (auto simp: fixed_part_def)
  have miss: "\<exists>e. Get_cache now' k d = (None, e) \<and> k \<notin> eKey ` set (view e) \<and> hits e = hits c \<and> misses e = misses c + 1"
    if "now' \<ge> now + ttl c" for now'
  proof -
    have "\<forall>en \<in> set (view d). eKey en = k \<longrightarrow> ExpiresAt en \<le> now'"
    proof (intro ballI impI)
      fix en assume "en \<in> set (view d)" "eKey en = k"
      from u [OF this] that show "ExpiresAt en \<le> now'" by simp
    qed
    from Get_miss [OF ok this] show ?thesis using d(3) by (auto simp: fixed_part_def)
  qed
  have "\<forall>en \<in> set (view (Delete_cache k d)). eKey en = k \<longrightarrow> ExpiresAt en \<le> now'"
    using Delete_lru [OF ok, of k] by auto
  then have "fst (Get_cache now' k (Delete_cache k d)) = None"
    using Get_miss [of "Delete_cache k d" k now'] Delete_lru [OF ok, of k] by auto
  with d(1,2) hit miss show ?thesis by blast
qed

theorem cache_set_get_witness:
  "\<exists>c'. Set_cache 5 ''a'' (7 :: nat) (NewCache 1 10) = Some c' \<and> fst (Get_cache 14 ''a'' c') = Some 7 \<and> fst (Get_cache 15 ''a'' c') = None"
proof -
  have "cache_inv (NewCache 1 10 :: nat cache)" by (simp add: cache_inv_def) (simp add: NewCache_def)
  moreover have "ttl (NewCache 1 10 :: nat cache) = 10" by (simp add: NewCache_def)
  ultimately obtain c' where c: "Set_cache 5 ''a'' (7 :: nat) (NewCache 1 10) = Some c'"
    and h: "\<forall>now' < 15. \<exists>d. Get_cache now' ''a'' c' = (Some 7, d)" and m: "\<forall>now' \<ge> 15. \<exists>d. Get_cache now' ''a'' c' = (None, d)"
    using cache_set_get [of "NewCache 1 10" 5 "''a''" "7 :: nat"] by force
  obtain d e where "Get_cache 14 ''a'' c' = (Some 7, d)" "Get_cache 15 ''a'' c' = (None, e)"
    using h [rule_format, of 14] m [rule_format, of 15] by auto
  with c show ?thesis by simp
qed

text \<open>A \<open>Set\<close> runs forever (holding the lock of the cache) exactly when the key is not cached and the
  capacity is zero or negative: the loop that makes room then never has enough of it.\<close>

theorem cache_set_returns:
  assumes "cache_ok c"
  shows "Set_cache now k v c = None \<longleftrightarrow> items c k = None \<and> capacity c \<le> 0"
proof (cases "items c k")
  case None
  show ?thesis
  proof (cases "capacity c \<le> 0")
    case True
    with None show ?thesis by (simp add: Set_cache_def evict_diverges)
  next
    case False
    with evict_ok [OF assms] None show ?thesis by (auto simp: Set_cache_def PushFront_def Let_def)
  qed
next
  case (Some e)
  then show ?thesis by (auto simp: Set_cache_def Let_def split: option.split)
qed

theorem cache_set_returns_witness: "Set_cache 0 ''a'' (7 :: nat) (NewCache 0 10) = None"
  using cache_set_returns [of "NewCache 0 10" 0 "''a''" 7] by (simp add: cache_ok_New) (simp add: NewCache_def)

text \<open>\<open>FindSimilar\<close> returns a result only for a stored query vector whose similarity reaches the
  threshold and whose entry is still cached and not expired, and then that entry's value; it returns nothing only
  if no such entry exists. \<open>Set\<close> of the semantic cache keeps the vectors of the evicted entries: the vector
  table has an entry for every key ever set, whatever the capacity.\<close>

theorem semantic_find:
  assumes ok: "cache_ok (sc_cache sc)"
  shows "(\<forall>k r. fst (FindSimilar F now v sc) = Some (k, r) \<longrightarrow>
       (\<exists>w en. (k, w) \<in> set (vectors sc) \<and> fle F (similarityThreshold sc) (cosineSimilarity F v w)
          \<and> en \<in> set (view (sc_cache sc)) \<and> eKey en = k \<and> now < ExpiresAt en \<and> r = eValue en))
    \<and> (fst (FindSimilar F now v sc) = None \<longrightarrow>
       (\<forall>(k, w) \<in> set (vectors sc). \<forall>en \<in> set (view (sc_cache sc)).
          eKey en = k \<and> fle F (similarityThreshold sc) (cosineSimilarity F v w) \<longrightarrow> ExpiresAt en \<le> now))
    \<and> (\<forall>sc'. Set_semantic now k v r sc = Some sc' \<longrightarrow> fst ` set (vectors sc') = insert k (fst ` set (vectors sc)))"
proof (intro conjI allI impI)
  fix k r
  assume "fst (FindSimilar F now v sc) = Some (k, r)"
  then obtain c' where "find_loop F now (similarityThreshold sc) v (vectors sc) (sc_cache sc) = (Some (k, r), c')"
    by (auto simp: FindSimilar_def Let_def split: prod.splits)
  from find_loop_sound [OF ok this] show "\<exists>w en. (k, w) \<in> set (vectors sc) \<and> fle F (similarityThreshold sc) (cosineSimilarity F v w)
          \<and> en \<in> set (view (sc_cache sc)) \<and> eKey en = k \<and> now < ExpiresAt en \<and> r = eValue en" .
next
  assume "fst (FindSimilar F now v sc) = None"
  then have n: "fst (find_loop F now (similarityThreshold sc) v (vectors sc) (sc_cache sc)) = None"
    by (auto simp: FindSimilar_def Let_def split: prod.splits)
  show "\<forall>(k, w) \<in> set (vectors sc). \<forall>en \<in> set (view (sc_cache sc)).
          eKey en = k \<and> fle F (similarityThreshold sc) (cosineSimilarity F v w) \<longrightarrow> ExpiresAt en \<le> now"
    using find_loop_complete [OF ok n] by blast
next
  fix sc'
  assume "Set_semantic now k v r sc = Some sc'"
  then have "vectors sc' = map_set k v (vectors sc)" by (auto simp: Set_semantic_def Let_def split: option.splits)
  then show "fst ` set (vectors sc') = insert k (fst ` set (vectors sc))" by simp
qed

definition int_ops :: "int f32_ops" where
  "int_ops = \<lparr>fzero = 0, ftwo = 2, fadd = (+), fmul = (*), fdiv = (div), feq = (=), fle = (\<le>)\<rparr>"

theorem semantic_find_witness:
  "\<exists>sc. Set_semantic 3 ''k'' [1] (7 :: nat) (NewSemanticCache 1 10 (1 :: int)) = Some sc \<and> fst ` set (vectors sc) = {''k''}"
proof -
  have "cache_inv (NewCache 1 10 :: nat cache)" by (simp add: cache_inv_def) (simp add: NewCache_def)
  from Set_lru [OF this, of 3 "''k''" 7] obtain c where "Set_cache 3 ''k'' (7 :: nat) (NewCache 1 10) = Some c" by blast
  then obtain sc where sc: "Set_semantic 3 ''k'' [1] (7 :: nat) (NewSemanticCache 1 10 (1 :: int)) = Some sc"
    by (simp add: Set_semantic_def NewSemanticCache_def Let_def)
  have "cache_ok (sc_cache (NewSemanticCache 1 10 (1 :: int) :: (int, nat) semantic_cache))" by (simp add: NewSemanticCache_def)
  from semantic_find [OF this, of int_ops 3 "[1]" "''k''" 7] sc have "fst ` set (vectors sc) = insert ''k'' (fst ` set (vectors (NewSemanticCache 1 10 (1 :: int) :: (int, nat) semantic_cache)))"
    by blast
  with sc show ?thesis by (simp add: NewSemanticCache_def)
qed

end
