(* ===== verification/Aliases.thy ===== *)
theory Aliases
  imports Prelude
begin

text \<open>
  The alias table of \<open>pkg/collection/aliases.go\<close> and its file. The map is an association list in
  the order a loop over it would see. \<open>marshal\<close> and \<open>unmarshal\<close> are the JSON functions; what
  the operating system answers to the calls of \<open>save\<close> is the argument of type \<open>fs_answer\<close>.
\<close>

section \<open>State\<close>

type_synonym alias_map = "(string \<times> string) list"

datatype alias_error = ErrAliasExists | ErrAliasNotFound | FsError string | JsonError

record alias_manager =
  aliases :: alias_map
  alias_file :: "byte list option"

text \<open>The answer to \<open>os.MkdirAll\<close> and \<open>os.WriteFile\<close>; a failed write leaves some content behind.\<close>

datatype fs_answer = FsOk | MkdirFails string | WriteFails string "byte list option"

text \<open>
  \<open>os.ReadFile\<close> answers with an error, with the one that says the file does not exist (\<open>Inr None\<close>), or with
  the content. JSON objects are decoded into the map that is there.
\<close>

type_synonym read_answer = "string + byte list option"

definition load :: "(byte list \<Rightarrow> alias_map option) \<Rightarrow> read_answer \<Rightarrow> alias_map \<Rightarrow> (alias_error + alias_map) option" where
  "load unmarshal rd m = (case rd of Inl e \<Rightarrow> Some (Inl (FsError e))
     | Inr None \<Rightarrow> None
     | Inr (Some bs) \<Rightarrow> Some (case unmarshal bs of None \<Rightarrow> Inl JsonError | Some m' \<Rightarrow> Inr (fold (\<lambda>(k, v). map_set k v) m' m)))"

definition NewAliasManager :: "(byte list \<Rightarrow> alias_map option) \<Rightarrow> read_answer \<Rightarrow> alias_error + alias_manager" where
  "NewAliasManager unmarshal rd = (case load unmarshal rd [] of
     None \<Rightarrow> Inr \<lparr>aliases = [], alias_file = None\<rparr>
   | Some (Inl e) \<Rightarrow> Inl e
   | Some (Inr m) \<Rightarrow> Inr \<lparr>aliases = m, alias_file = (case rd of Inr f \<Rightarrow> f | Inl _ \<Rightarrow> None)\<rparr>)"

definition save :: "(alias_map \<Rightarrow> byte list) \<Rightarrow> fs_answer \<Rightarrow> alias_manager \<Rightarrow> alias_error option \<times> alias_manager" where
  "save marshal ans am = (case ans of
     MkdirFails e \<Rightarrow> (Some (FsError e), am)
   | WriteFails e left \<Rightarrow> (Some (FsError e), am\<lparr>alias_file := left\<rparr>)
   | FsOk \<Rightarrow> (None, am\<lparr>alias_file := Some (marshal (aliases am))\<rparr>))"

section \<open>Operations\<close>

definition Create_alias :: "(alias_map \<Rightarrow> byte list) \<Rightarrow> fs_answer \<Rightarrow> string \<Rightarrow> string \<Rightarrow> alias_manager \<Rightarrow> alias_error option \<times> alias_manager" where
  "Create_alias marshal ans a coll am =
    (case map_of (aliases am) a of
       Some existing \<Rightarrow> if existing \<noteq> coll then (Some ErrAliasExists, am)
         else save marshal ans (am\<lparr>aliases := map_set a coll (aliases am)\<rparr>)
     | None \<Rightarrow> save marshal ans (am\<lparr>aliases := map_set a coll (aliases am)\<rparr>))"

definition Delete_alias :: "(alias_map \<Rightarrow> byte list) \<Rightarrow> fs_answer \<Rightarrow> string \<Rightarrow> alias_manager \<Rightarrow> alias_error option \<times> alias_manager" where
  "Delete_alias marshal ans a am =
    (case map_of (aliases am) a of
       None \<Rightarrow> (Some ErrAliasNotFound, am)
     | Some _ \<Rightarrow> save marshal ans (am\<lparr>aliases := map_del a (aliases am)\<rparr>))"

definition Resolve :: "string \<Rightarrow> alias_manager \<Rightarrow> string" where
  "Resolve n am = (case map_of (aliases am) n of Some c \<Rightarrow> c | None \<Rightarrow> n)"

definition Get_alias :: "alias_manager \<Rightarrow> string \<Rightarrow> string option" where
  "Get_alias am a = map_of (aliases am) a"

definition List_aliases :: "alias_manager \<Rightarrow> alias_map" where
  "List_aliases am = fold (\<lambda>(k, v). map_set k v) (aliases am) []"

definition ListForCollection :: "string \<Rightarrow> alias_manager \<Rightarrow> string list" where
  "ListForCollection coll am = map fst (filter (\<lambda>(a, n). n = coll) (aliases am))"

text \<open>The loops of \<open>Rename\<close> and \<open>DeleteForCollection\<close> visit every entry once and change the map in place.\<close>

fun rename_loop :: "string \<Rightarrow> string \<Rightarrow> alias_map \<Rightarrow> bool \<times> alias_map \<Rightarrow> bool \<times> alias_map" where
  "rename_loop old new [] s = s"
| "rename_loop old new ((a, n) # es) (changed, m) =
     rename_loop old new es (if n = old then (True, map_set a new m) else (changed, m))"

definition Rename :: "(alias_map \<Rightarrow> byte list) \<Rightarrow> fs_answer \<Rightarrow> string \<Rightarrow> string \<Rightarrow> alias_manager \<Rightarrow> alias_error option \<times> alias_manager" where
  "Rename marshal ans old new am =
    (let (changed, m) = rename_loop old new (aliases am) (False, aliases am); am1 = am\<lparr>aliases := m\<rparr> in
     if changed then save marshal ans am1 else (None, am1))"

fun delete_loop :: "string \<Rightarrow> alias_map \<Rightarrow> bool \<times> alias_map \<Rightarrow> bool \<times> alias_map" where
  "delete_loop coll [] s = s"
| "delete_loop coll ((a, n) # es) (changed, m) =
     delete_loop coll es (if n = coll then (True, map_del a m) else (changed, m))"

definition DeleteForCollection :: "(alias_map \<Rightarrow> byte list) \<Rightarrow> fs_answer \<Rightarrow> string \<Rightarrow> alias_manager \<Rightarrow> alias_error option \<times> alias_manager" where
  "DeleteForCollection marshal ans coll am =
    (let (changed, m) = delete_loop coll (aliases am) (False, aliases am); am1 = am\<lparr>aliases := m\<rparr> in
     if changed then save marshal ans am1 else (None, am1))"

definition Switch :: "(alias_map \<Rightarrow> byte list) \<Rightarrow> fs_answer \<Rightarrow> string \<Rightarrow> string \<Rightarrow> alias_manager \<Rightarrow> alias_error option \<times> alias_manager" where
  "Switch marshal ans a coll am = save marshal ans (am\<lparr>aliases := map_set a coll (aliases am)\<rparr>)"

section \<open>Laws\<close>

definition alias_inv :: "alias_manager \<Rightarrow> bool" where
  "alias_inv am \<longleftrightarrow> distinct (map fst (aliases am))"

lemma aliases_save [simp]: "aliases (snd (save marshal ans am)) = aliases am"
  by (simp add: save_def split: fs_answer.split)

lemma save_ok [simp]: "fst (save marshal ans am) = None \<longleftrightarrow> ans = FsOk"
  by (simp add: save_def split: fs_answer.split)

lemma file_save: "alias_file (snd (save marshal FsOk am)) = Some (marshal (aliases am))"
  by (simp add: save_def)

text \<open>Whatever the file system answers, switching and deleting act on the table like a map's update and removal.\<close>

interpretation alias_kv: kv_store Get_alias "\<lambda>a c am. snd (Switch marshal ans a c am)" "\<lambda>a am. snd (Delete_alias marshal ans a am)" alias_inv
  by unfold_locales (auto simp: Get_alias_def Switch_def Delete_alias_def alias_inv_def split: option.split)

lemma map_of_fold_set: "map_of (fold (\<lambda>(k, v). map_set k v) es m) = map_of m ++ map_of (rev es)"
proof (induction es arbitrary: m)
  case (Cons e es)
  obtain k v where "e = (k, v)" by (cases e)
  with Cons.IH [of "map_set k v m"] show ?case by (auto simp: map_add_def fun_eq_iff split: option.split)
qed simp

lemma map_of_rev: "distinct (map fst es) \<Longrightarrow> map_of (rev es) = map_of es"
proof (induction es)
  case (Cons e es)
  obtain k v where e: "e = (k, v)" by (cases e)
  with Cons have n: "map_of es k = None" by (auto simp: map_of_eq_None_iff)
  show ?case
  proof
    fix x
    show "map_of (rev (e # es)) x = map_of (e # es) x"
      using Cons e n by (cases "map_of es x") (auto simp: map_add_def)
  qed
qed simp

lemma rename_loop_spec:
  "rename_loop old new es (b, m) =
     (b \<or> (\<exists>(a, n) \<in> set es. n = old), fold (\<lambda>(a, n) m. if n = old then map_set a new m else m) es m)"
  by (induction es arbitrary: b m) auto

lemma map_of_rename_fold:
  assumes "distinct (map fst es)"
  shows "map_of (fold (\<lambda>(a, n) m. if n = old then map_set a new m else m) es m) x
    = (if map_of es x = Some old then Some new else map_of m x)"
  using assms
proof (induction es arbitrary: m)
  case (Cons e es)
  obtain a n where e: "e = (a, n)" by (cases e)
  with Cons.prems have "map_of es a = None" by (auto simp: map_of_eq_None_iff)
  with Cons e show ?case by auto
qed simp

lemma delete_loop_spec:
  "delete_loop coll es (b, m) =
     (b \<or> (\<exists>(a, n) \<in> set es. n = coll), fold (\<lambda>(a, n) m. if n = coll then map_del a m else m) es m)"
  by (induction es arbitrary: b m) auto

lemma map_of_delete_fold:
  assumes "distinct (map fst es)"
  shows "map_of (fold (\<lambda>(a, n) m. if n = coll then map_del a m else m) es m) x
    = (if map_of es x = Some coll then None else map_of m x)"
  using assms
proof (induction es arbitrary: m)
  case (Cons e es)
  obtain a n where e: "e = (a, n)" by (cases e)
  with Cons.prems have "map_of es a = None" by (auto simp: map_of_eq_None_iff)
  with Cons e show ?case by auto
qed simp

lemma Rename_lookup:
  assumes "alias_inv am"
  shows "Get_alias (snd (Rename marshal ans old new am)) x = (if Get_alias am x = Some old then Some new else Get_alias am x)"
  using assms map_of_rename_fold [of "aliases am" old new "aliases am" x]
  by (auto simp: Rename_def Get_alias_def alias_inv_def rename_loop_spec Let_def)

lemma DeleteForCollection_lookup:
  assumes "alias_inv am"
  shows "Get_alias (snd (DeleteForCollection marshal ans coll am)) x = (if Get_alias am x = Some coll then None else Get_alias am x)"
  using assms map_of_delete_fold [of "aliases am" coll "aliases am" x]
  by (auto simp: DeleteForCollection_def Get_alias_def alias_inv_def delete_loop_spec Let_def)

lemma ListForCollection_iff:
  "alias_inv am \<Longrightarrow> set (ListForCollection coll am) = {a. Get_alias am a = Some coll}"
  by (force simp: ListForCollection_def Get_alias_def alias_inv_def)

lemma Create_lookup:
  "Get_alias am a = Some c' \<Longrightarrow> c' \<noteq> coll \<Longrightarrow> Create_alias marshal ans a coll am = (Some ErrAliasExists, am)"
  "Get_alias am a = None \<or> Get_alias am a = Some coll \<Longrightarrow> Create_alias marshal ans a coll am = Switch marshal ans a coll am"
  by (auto simp: Create_alias_def Get_alias_def Switch_def)

text \<open>An operation that reports success has written the table, or left everything as it was.\<close>

lemma save_success: "save marshal ans b = (None, am') \<Longrightarrow> alias_file am' = Some (marshal (aliases am'))"
  by (auto simp: save_def split: fs_answer.splits)

lemma loops_unchanged:
  "rename_loop coll new es (False, m) = (False, m') \<Longrightarrow> m' = m"
  "delete_loop coll es (False, m) = (False, m') \<Longrightarrow> m' = m"
proof -
  have f: "fold (\<lambda>(a, n) m. if n = coll then f a m else m) es m = m" if "\<not> (\<exists>(a, n) \<in> set es. n = coll)"
    for es m and f :: "string \<Rightarrow> alias_map \<Rightarrow> alias_map"
    using that by (induction es) auto
  show "rename_loop coll new es (False, m) = (False, m') \<Longrightarrow> m' = m" using f [of es] by (auto simp: rename_loop_spec)
  show "delete_loop coll es (False, m) = (False, m') \<Longrightarrow> m' = m" using f [of es] by (auto simp: delete_loop_spec)
qed

lemma op_success:
  assumes "(None, am') \<in> {Create_alias marshal ans a coll am, Delete_alias marshal ans a am, Switch marshal ans a coll am,
    Rename marshal ans coll new am, DeleteForCollection marshal ans coll am}"
  shows "alias_file am' = Some (marshal (aliases am')) \<or> am' = am"
proof -
  note sv = save_success [of marshal ans _ am']
  have "alias_file am' = Some (marshal (aliases am'))" if "Create_alias marshal ans a coll am = (None, am')"
    using that sv by (auto simp: Create_alias_def split: option.splits if_splits)
  moreover have "alias_file am' = Some (marshal (aliases am'))" if "Delete_alias marshal ans a am = (None, am')"
    using that sv by (auto simp: Delete_alias_def split: option.splits)
  moreover have "alias_file am' = Some (marshal (aliases am'))" if "Switch marshal ans a coll am = (None, am')"
    using that sv by (auto simp: Switch_def)
  moreover have "alias_file am' = Some (marshal (aliases am')) \<or> am' = am" if "Rename marshal ans coll new am = (None, am')"
    using that sv by (auto simp: Rename_def Let_def dest!: loops_unchanged split: prod.splits if_splits)
  moreover have "alias_file am' = Some (marshal (aliases am')) \<or> am' = am" if "DeleteForCollection marshal ans coll am = (None, am')"
    using that sv by (auto simp: DeleteForCollection_def Let_def dest!: loops_unchanged split: prod.splits if_splits)
  ultimately show ?thesis using assms by (simp only: insert_iff empty_iff) metis
qed

lemma load_saved:
  assumes "unmarshal bs = Some m'" and "distinct (map fst m')"
  shows "\<exists>am'. NewAliasManager unmarshal (Inr (Some bs)) = Inr am' \<and> Get_alias am' = map_of m'"
  using assms by (auto simp: NewAliasManager_def load_def Get_alias_def map_of_fold_set map_of_rev fun_eq_iff)

end
