(* ===== verification/Aliases_Properties.thy ===== *)
theory Aliases_Properties
  imports Aliases
begin

text \<open>The properties of the alias table of \<open>pkg/collection/aliases.go\<close>.\<close>



text \<open>After a \<open>Create\<close>, \<open>Delete\<close>, \<open>Switch\<close>, \<open>Rename\<close> or \<open>DeleteForCollection\<close> that reported no
  error, a manager opened on the same directory resolves every name as the running one does, provided the running one
  agreed with the file before; this needs JSON to read back the map it wrote.\<close>

theorem alias_reopen:
  assumes before: "\<exists>am0. NewAliasManager unmarshal (Inr (alias_file am)) = Inr am0 \<and> Get_alias am0 = Get_alias am"
    and step: "(None, am') \<in> {Create_alias marshal ans a coll am, Delete_alias marshal ans a am, Switch marshal ans a coll am,
        Rename marshal ans coll new am, DeleteForCollection marshal ans coll am}"
    and json: "\<exists>m. unmarshal (marshal (aliases am')) = Some m \<and> distinct (map fst m) \<and> map_of m = map_of (aliases am')"
  shows "\<exists>am1. NewAliasManager unmarshal (Inr (alias_file am')) = Inr am1 \<and> (\<forall>x. Resolve x am1 = Resolve x am')"
proof -
  have res: "Resolve y m = (case Get_alias m y of Some c \<Rightarrow> c | None \<Rightarrow> y)" for y m by (simp add: Resolve_def Get_alias_def)
  from op_success [OF step] show ?thesis
  proof
    assume f: "alias_file am' = Some (marshal (aliases am'))"
    from json obtain m where m: "unmarshal (marshal (aliases am')) = Some m" "distinct (map fst m)" "map_of m = map_of (aliases am')" by blast
    have g: "Get_alias am' = map_of (aliases am')" by (simp add: Get_alias_def fun_eq_iff)
    from load_saved [of unmarshal, OF m(1,2)] f m(3) show ?thesis by (auto simp: res g)
  next
    assume "am' = am"
    with before show ?thesis by (auto simp: res)
  qed
qed

text \<open>A JSON codec that knows one document, for the witness.\<close>

definition one_unmarshal :: "byte list \<Rightarrow> alias_map option" where
  "one_unmarshal bs = (if bs = [1] then Some [(''a'', ''b'')] else None)"

theorem alias_reopen_witness:
  "\<exists>am1. NewAliasManager one_unmarshal (Inr (alias_file (snd (Switch (\<lambda>m. [1]) FsOk ''a'' ''b'' \<lparr>aliases = [], alias_file = None\<rparr>)))) = Inr am1
     \<and> Resolve ''a'' am1 = ''b''"
  using alias_reopen [of one_unmarshal "\<lparr>aliases = [], alias_file = None\<rparr>" "\<lparr>aliases = [(''a'', ''b'')], alias_file = Some [1]\<rparr>"
      "\<lambda>m. [1]" FsOk "''a''" "''b''" "''b''"]
  by (auto simp: Switch_def save_def map_set_def NewAliasManager_def load_def one_unmarshal_def Get_alias_def Resolve_def)

end
