(* ===== verification/Auth.thy ===== *)
theory Auth
  imports Go_Strings
begin

text \<open>
  The access checks of the token claims (\<open>pkg/auth/rbac.go\<close>, \<open>pkg/auth/context.go\<close>) and the
  screening of webhook addresses (\<open>pkg/cdc/ssrf.go\<close>).
\<close>

section \<open>Permissions\<close>

record permissions =
  GlobalAdmin :: bool
  Collections :: "string \<rightharpoonup> string list"

definition CanRead :: "permissions \<Rightarrow> string \<Rightarrow> bool" where
  "CanRead c coll = (if GlobalAdmin c then True else case Collections c coll of None \<Rightarrow> False
     | Some perms \<Rightarrow> list_ex (\<lambda>p. p = ''READ_ONLY'' \<or> p = ''COLLECTION_ADMIN'' \<or> p = ''READ_WRITE'') perms)"

definition CanWrite :: "permissions \<Rightarrow> string \<Rightarrow> bool" where
  "CanWrite c coll = (if GlobalAdmin c then True else case Collections c coll of None \<Rightarrow> False
     | Some perms \<Rightarrow> list_ex (\<lambda>p. EqualFold p ''COLLECTION_ADMIN'' \<or> EqualFold p ''READ_WRITE'') perms)"

definition CanAdmin :: "permissions \<Rightarrow> string \<Rightarrow> bool" where
  "CanAdmin c coll = (if GlobalAdmin c then True else case Collections c coll of None \<Rightarrow> False
     | Some perms \<Rightarrow> list_ex (\<lambda>p. EqualFold p ''COLLECTION_ADMIN'') perms)"

text \<open>
  A context is a chain of key-value pairs. The key type of the package is not exported, so its
  only value is the key of the claims; keys of other packages are \<open>Other\<close>.
\<close>

datatype ctx_key = claimsKey | Other string

datatype 'o ctx_value = Claims permissions | OtherValue 'o

type_synonym 'o ctx = "(ctx_key \<times> 'o ctx_value) list"

definition ctx_Value :: "'o ctx \<Rightarrow> ctx_key \<Rightarrow> 'o ctx_value option" where
  "ctx_Value ctx k = map_of ctx k"

definition WithClaims :: "'o ctx \<Rightarrow> permissions \<Rightarrow> 'o ctx" where
  "WithClaims ctx c = (claimsKey, Claims c) # ctx"

definition ClaimsFromContext :: "'o ctx \<Rightarrow> permissions option" where
  "ClaimsFromContext ctx = (case ctx_Value ctx claimsKey of None \<Rightarrow> None
     | Some (Claims c) \<Rightarrow> Some c
     | Some (OtherValue _) \<Rightarrow> None)"

section \<open>IP addresses\<close>

text \<open>
  A \<open>net.IP\<close> is a byte slice of length 4 or 16; IPv4 addresses also come as 16 bytes with the
  prefix of mapped addresses. \<open>To4\<close>, \<open>Contains\<close> and the predicates are those of package \<open>net\<close>.
\<close>

type_synonym ip = "byte list"

record ip_net =
  net_ip :: ip
  net_mask :: "byte list"

definition To4 :: "ip \<Rightarrow> ip option" where
  "To4 x = (if length x = 4 then Some x
     else if length x = 16 \<and> take 12 x = replicate 10 0 @ [0xFF, 0xFF] then Some (drop 12 x) else None)"

definition norm_ip :: "ip \<Rightarrow> ip" where
  "norm_ip x = (case To4 x of Some y \<Rightarrow> y | None \<Rightarrow> x)"

definition net_Contains :: "ip_net \<Rightarrow> ip \<Rightarrow> bool" where
  "net_Contains n x = (let y = norm_ip x in length y = length (net_ip n)
     \<and> list_all (\<lambda>i. and (net_ip n ! i) (net_mask n ! i) = and (y ! i) (net_mask n ! i)) [0..<length y])"

text \<open>\<open>net.CIDRMask\<close>: the bytes of a mask with the given number of leading ones.\<close>

fun cidr_mask :: "nat \<Rightarrow> nat \<Rightarrow> byte list" where
  "cidr_mask ones 0 = []"
| "cidr_mask ones (Suc n) = (if ones \<ge> 8 then 0xFF # cidr_mask (ones - 8) n
     else word_of_nat (256 - 2 ^ (8 - ones)) # cidr_mask 0 n)"

definition privateRanges :: "ip_net list" where
  "privateRanges =
    [\<lparr>net_ip = [127, 0, 0, 0], net_mask = cidr_mask 8 4\<rparr>,
     \<lparr>net_ip = [10, 0, 0, 0], net_mask = cidr_mask 8 4\<rparr>,
     \<lparr>net_ip = [172, 16, 0, 0], net_mask = cidr_mask 12 4\<rparr>,
     \<lparr>net_ip = [192, 168, 0, 0], net_mask = cidr_mask 16 4\<rparr>,
     \<lparr>net_ip = [169, 254, 0, 0], net_mask = cidr_mask 16 4\<rparr>,
     \<lparr>net_ip = replicate 15 0 @ [1], net_mask = cidr_mask 128 16\<rparr>,
     \<lparr>net_ip = 0xFC # replicate 15 0, net_mask = cidr_mask 7 16\<rparr>,
     \<lparr>net_ip = 0xFE # 0x80 # replicate 14 0, net_mask = cidr_mask 10 16\<rparr>]"

definition IsLoopback :: "ip \<Rightarrow> bool" where
  "IsLoopback x = (case To4 x of Some y \<Rightarrow> y ! 0 = 127 | None \<Rightarrow> x = replicate 15 0 @ [1])"

definition IsLinkLocalUnicast :: "ip \<Rightarrow> bool" where
  "IsLinkLocalUnicast x = (case To4 x of Some y \<Rightarrow> y ! 0 = 169 \<and> y ! 1 = 254
     | None \<Rightarrow> length x = 16 \<and> x ! 0 = 0xFE \<and> and (x ! 1) 0xC0 = 0x80)"

definition IsLinkLocalMulticast :: "ip \<Rightarrow> bool" where
  "IsLinkLocalMulticast x = (case To4 x of Some y \<Rightarrow> y ! 0 = 224 \<and> y ! 1 = 0 \<and> y ! 2 = 0
     | None \<Rightarrow> length x = 16 \<and> x ! 0 = 0xFF \<and> and (x ! 1) 0x0F = 0x02)"

definition IsUnspecified :: "ip \<Rightarrow> bool" where
  "IsUnspecified x \<longleftrightarrow> norm_ip x = [0, 0, 0, 0] \<or> x = replicate 16 0"

definition isPrivateIP :: "ip \<Rightarrow> bool" where
  "isPrivateIP x = (if list_ex (\<lambda>n. net_Contains n x) privateRanges then True
     else IsLoopback x \<or> IsLinkLocalUnicast x \<or> IsLinkLocalMulticast x \<or> IsUnspecified x)"

section \<open>Webhook addresses\<close>

text \<open>\<open>net/url\<close> and the resolver are arguments: parsing gives the scheme and the host name.\<close>

datatype url_error = EmptyURL | InvalidURL | BadScheme string | NoHost | LocalhostTarget | CannotResolve string | PrivateTarget ip

record webhook_env =
  url_Parse :: "string \<Rightarrow> (string \<times> string) option"
  LookupIP :: "string \<Rightarrow> ip list option"
  ParseIP :: "string \<Rightarrow> ip option"

definition validateSubscriptionURL :: "webhook_env \<Rightarrow> string \<Rightarrow> url_error option" where
  "validateSubscriptionURL env rawURL =
    (if rawURL = [] then Some EmptyURL
     else case url_Parse env rawURL of None \<Rightarrow> Some InvalidURL
     | Some (Scheme, host) \<Rightarrow>
       let scheme = ToLower Scheme in
       if scheme \<noteq> ''http'' \<and> scheme \<noteq> ''https'' then Some (BadScheme Scheme)
       else if host = [] then Some NoHost
       else let lower = ToLower host in
         if lower = ''localhost'' \<or> lower = ''ip6-localhost'' \<or> lower = ''ip6-loopback'' then Some LocalhostTarget
         else case (case LookupIP env host of Some ips \<Rightarrow> Some ips
             | None \<Rightarrow> map_option (\<lambda>x. [x]) (ParseIP env host)) of
             None \<Rightarrow> Some (CannotResolve host)
           | Some ips \<Rightarrow> map_option PrivateTarget (find isPrivateIP ips))"

section \<open>Facts\<close>

lemma admin_write: "CanAdmin c coll \<Longrightarrow> CanWrite c coll"
  by (cases "GlobalAdmin c") (auto simp: CanAdmin_def CanWrite_def list_ex_iff split: option.splits)

lemma write_read:
  assumes w: "CanWrite c coll" and u: "\<And>ps p. Collections c coll = Some ps \<Longrightarrow> p \<in> set ps \<Longrightarrow> p = ToUpper p"
  shows "CanRead c coll"
proof (cases "GlobalAdmin c")
  case False
  with w obtain ps p where ps: "Collections c coll = Some ps" "p \<in> set ps"
    and p: "EqualFold p ''COLLECTION_ADMIN'' \<or> EqualFold p ''READ_WRITE''"
    by (auto simp: CanWrite_def list_ex_iff split: option.splits)
  have e: "ToUpper (ToLower s) = ToUpper s" for s
    by (simp add: ToUpper_def ToLower_def upper_lower_char)
  have "ToUpper p = ToUpper ''COLLECTION_ADMIN'' \<or> ToUpper p = ToUpper ''READ_WRITE''"
    using p e unfolding EqualFold_def by metis
  then have "p = ''COLLECTION_ADMIN'' \<or> p = ''READ_WRITE''" using u [OF ps] by (auto simp: ToUpper_def upper_char_def)
  with False ps show ?thesis by (auto simp: CanRead_def list_ex_iff)
qed (simp add: CanRead_def)

text \<open>The bit tests on bytes, by inspection of every byte.\<close>

lemma byte_cases: "list_all P (map word_of_nat [0..<256]) \<Longrightarrow> P (b :: byte)"
proof -
  assume "list_all P (map word_of_nat [0..<256])"
  moreover have "unat b < 256" using unsigned_less [where 'a = nat, of b] by simp
  then have "word_of_nat (unat b) \<in> set (map word_of_nat [0..<256] :: byte list)" 
    unfolding set_map by (intro imageI) simp
  then have "b \<in> set (map word_of_nat [0..<256])" by simp
  ultimately show "P b" by (auto simp: list_all_iff)
qed

lemma mask_F0: "(and (b :: byte) 0xF0 = 0x10) = (16 \<le> b \<and> b \<le> 31)"
  by (rule byte_cases) code_simp

lemma mask_FE: "(and (b :: byte) 0xFE = 0xFC) = (b = 0xFC \<or> b = 0xFD)"
  by (rule byte_cases) code_simp

lemma mask_C0: "(and (b :: byte) 0xC0 = 0x80) = (0x80 \<le> b \<and> b \<le> 0xBF)"
  by (rule byte_cases) code_simp

lemma mask_FF [simp]: "and (b :: byte) 0xFF = b"
  by (rule byte_cases) code_simp

lemma cidr_masks [simp]:
  "cidr_mask 8 4 = [0xFF, 0, 0, 0]" "cidr_mask 12 4 = [0xFF, 0xF0, 0, 0]" "cidr_mask 16 4 = [0xFF, 0xFF, 0, 0]"
  "cidr_mask 128 16 = replicate 16 0xFF" "cidr_mask 7 16 = 0xFE # replicate 15 0" "cidr_mask 10 16 = 0xFF # 0xC0 # replicate 14 0"
  by (simp_all add: numeral_eq_Suc)

lemma upt_4: "[0..<4] = [0, 1, 2, 3 :: nat]"
  by (simp add: upt_rec)

lemma To4_v4 [simp]: "To4 [a, b, c, d] = Some [a, b, c, d]"
  by (simp add: To4_def)

lemma net_v4: "net_Contains \<lparr>net_ip = [p, q, r, s], net_mask = [m, n, k, l]\<rparr> [a, b, c, d]
    \<longleftrightarrow> and p m = and a m \<and> and q n = and b n \<and> and r k = and c k \<and> and s l = and d l"
  by (simp add: net_Contains_def norm_ip_def Let_def upt_4)

lemma net_v6: "length x = 16 \<Longrightarrow> \<not> net_Contains \<lparr>net_ip = x, net_mask = m\<rparr> [a, b, c, d]"
  by (simp add: net_Contains_def norm_ip_def Let_def)

lemma private_ranges_v4:
  "list_ex (\<lambda>n. net_Contains n [a, b, c, d]) privateRanges \<longleftrightarrow>
     a = 127 \<or> a = 10 \<or> a = 172 \<and> 16 \<le> b \<and> b \<le> 31 \<or> a = 192 \<and> b = 168 \<or> a = 169 \<and> b = 254"
  using mask_F0 [of b] by (simp add: privateRanges_def net_v4 net_v6)

lemma isPrivateIP_v4:
  "isPrivateIP [a, b, c, d] \<longleftrightarrow> a = 127 \<or> a = 10 \<or> a = 172 \<and> 16 \<le> b \<and> b \<le> 31 \<or> a = 192 \<and> b = 168 \<or> a = 169 \<and> b = 254
     \<or> a = 224 \<and> b = 0 \<and> c = 0 \<or> a = 0 \<and> b = 0 \<and> c = 0 \<and> d = 0"
proof -
  have "length [a, b, c, d] \<noteq> length (replicate 16 (0 :: byte))" by simp
  then have "[a, b, c, d] \<noteq> replicate 16 0" by metis
  then show ?thesis unfolding isPrivateIP_def private_ranges_v4
    by (simp add: norm_ip_def IsLoopback_def IsLinkLocalUnicast_def IsLinkLocalMulticast_def IsUnspecified_def) blast
qed

text \<open>An IPv4 address mapped into IPv6 is judged as the IPv4 address.\<close>

lemma isPrivateIP_mapped:
  assumes "length x = 4" shows "isPrivateIP (replicate 10 0 @ [0xFF, 0xFF] @ x) = isPrivateIP x"
proof -
  define m where "m = replicate 10 0 @ [0xFF, 0xFF] @ x"
  have t: "To4 m = Some x" "To4 x = Some x" using assms by (simp_all add: To4_def m_def)
  have "m ! 10 = 0xFF" by (simp add: m_def nth_append)
  then have "m \<noteq> replicate 16 0" by auto
  moreover have "x \<noteq> replicate 16 0" using assms by auto
  ultimately have "isPrivateIP m = isPrivateIP x"
    by (simp add: isPrivateIP_def net_Contains_def norm_ip_def t IsLoopback_def IsLinkLocalUnicast_def IsLinkLocalMulticast_def IsUnspecified_def)
  then show ?thesis by (simp add: m_def)
qed

lemma accepted_URL:
  assumes "validateSubscriptionURL env raw = None"
  shows "\<exists>Scheme host ips. url_Parse env raw = Some (Scheme, host) \<and> ToLower Scheme \<in> {''http'', ''https''} \<and> host \<noteq> []
    \<and> ToLower host \<notin> {''localhost'', ''ip6-localhost'', ''ip6-loopback''}
    \<and> (LookupIP env host = Some ips \<or> LookupIP env host = None \<and> (\<exists>x. ParseIP env host = Some x \<and> ips = [x]))
    \<and> (\<forall>x \<in> set ips. \<not> isPrivateIP x)"
  using assms
  by (auto simp: validateSubscriptionURL_def Let_def find_None_iff split: if_splits option.splits prod.splits)

end
