(* ===== verification/Auth_Properties.thy ===== *)
theory Auth_Properties
  imports Auth
begin

text \<open>The properties of the access checks and of the webhook screening.\<close>

lemma case_facts: "EqualFold ''read_write'' ''READ_WRITE''" "ToLower ''HTTP'' = ''http''" "ToLower ''h'' = ''h''"
  by code_simp+

text \<open>Administrators may write, and whoever may write may read if the permissions are spelled in upper case;
  without a grant for the collection and without the global flag nothing is allowed; a grant for one collection says nothing
  about another. The comparison ignores case for writing and administration but not for reading, so a permission in
  lower case allows to write a collection and not to read it. The claims stored in a context are the ones found there.\<close>

theorem rbac_levels:
  "(CanAdmin c coll \<longrightarrow> CanWrite c coll)
   \<and> (CanWrite c coll \<and> (\<forall>ps. Collections c coll = Some ps \<longrightarrow> (\<forall>p \<in> set ps. p = ToUpper p)) \<longrightarrow> CanRead c coll)
   \<and> (\<not> GlobalAdmin c \<and> Collections c coll = None \<longrightarrow> \<not> CanRead c coll \<and> \<not> CanWrite c coll \<and> \<not> CanAdmin c coll)
   \<and> (other \<noteq> coll \<longrightarrow> CanRead (c\<lparr>Collections := (Collections c)(coll \<mapsto> ps)\<rparr>) other = CanRead c other
        \<and> CanWrite (c\<lparr>Collections := (Collections c)(coll \<mapsto> ps)\<rparr>) other = CanWrite c other)
   \<and> (\<not> GlobalAdmin c \<longrightarrow> CanWrite (c\<lparr>Collections := (Collections c)(coll \<mapsto> [''read_write''])\<rparr>) coll
        \<and> \<not> CanRead (c\<lparr>Collections := (Collections c)(coll \<mapsto> [''read_write''])\<rparr>) coll)
   \<and> ClaimsFromContext (WithClaims ctx c) = Some c"
proof (intro conjI impI)
  show "CanAdmin c coll \<Longrightarrow> CanWrite c coll" by (rule admin_write)
  show "CanRead c coll" if "CanWrite c coll \<and> (\<forall>ps. Collections c coll = Some ps \<longrightarrow> (\<forall>p \<in> set ps. p = ToUpper p))"
    using that by (intro write_read) auto
qed (auto simp: CanRead_def CanWrite_def CanAdmin_def ClaimsFromContext_def WithClaims_def ctx_Value_def case_facts)

theorem rbac_levels_witness:
  "CanRead \<lparr>GlobalAdmin = False, Collections = [''c'' \<mapsto> [''READ_WRITE'']]\<rparr> ''c''
   \<and> \<not> CanRead \<lparr>GlobalAdmin = False, Collections = [''c'' \<mapsto> [''read_write'']]\<rparr> ''c''"
  using rbac_levels [of "\<lparr>GlobalAdmin = False, Collections = [''c'' \<mapsto> [''READ_WRITE'']]\<rparr>" "''c''" "''d''" "[]" "[] :: unit ctx"]
  by (simp add: CanWrite_def ToUpper_def upper_char_def case_facts)


definition sample_env :: webhook_env where
  "sample_env = \<lparr>url_Parse = (\<lambda>_. Some (''HTTP'', ''h'')), LookupIP = (\<lambda>_. Some [[8, 8, 8, 8]]), ParseIP = (\<lambda>_. None)\<rparr>"


end
