(* ===== verification/Sql_Parser.thy ===== *)
theory Sql_Parser
  imports Point_Codec
begin

text \<open>
  The SQL front end (\<open>pkg/query/sql_parser.go\<close>) on ASCII text. The regular expressions are the argument
  \<open>rx\<close>: it gives the groups \<open>FindStringSubmatch\<close> returns for the named expression, the whole match first
  and an empty string for a group that did not take part. \<open>strconv.ParseFloat\<close> is the argument \<open>pf\<close> (64 bit)
  and \<open>pf32\<close> (32 bit, converted). \<open>NewSQLParser\<close> builds a struct without fields.
\<close>

section \<open>Queries\<close>

datatype query_type = QuerySelect | QueryInsert | QueryUpdate | QueryDelete | QueryCreateTable | QueryDropTable
  | QueryDescribe | QueryShowTables | QueryVectorSearch

datatype filter_expr = FilterExpr (feField: string) (feOperator: string) (feValue: go_value)
  (feAnd: "filter_expr list") (feOr: "filter_expr list") (feNot: "filter_expr option")

record collection_config_sql =
  ccName :: string
  ccDimension :: int
  ccMetric :: string
  ccVectorType :: string

record 'f sql_query =
  qType :: query_type
  qCollection :: string
  qColumns :: "string list"
  qVector :: "'f list"
  qVectorName :: string
  qLimit :: int
  qOffset :: int
  qFilter :: "filter_expr option"
  qOrderBy :: string
  qOrderDesc :: bool
  qPoints :: "pt list"
  qConfig :: "collection_config_sql option"

definition new_query :: "query_type \<Rightarrow> 'f sql_query" where
  "new_query t = \<lparr>qType = t, qCollection = [], qColumns = [], qVector = [], qVectorName = [], qLimit = 0, qOffset = 0,
     qFilter = None, qOrderBy = [], qOrderDesc = False, qPoints = [], qConfig = None\<rparr>"

datatype sql_error = EmptyQuery | UnsupportedQuery string | InvalidSyntax query_type | InvalidLimit | InvalidOffset
  | InvalidDimension | InvalidVector nat string | CannotParse string | ErrNullValue

section \<open>Numbers\<close>

fun digits_val :: "nat \<Rightarrow> string \<Rightarrow> nat option" where
  "digits_val acc [] = Some acc"
| "digits_val acc (c # s) = (let n = (of_char c :: nat) in
     if 48 \<le> n \<and> n \<le> 57 then digits_val (10 * acc + (n - 48)) s else None)"

text \<open>\<open>strconv.ParseInt(s, 10, 64)\<close>: an optional sign, at least one digit, in range.\<close>

definition ParseInt :: "string \<Rightarrow> int option" where
  "ParseInt s = (let (neg, ds) = (case s of c # t \<Rightarrow> if c = CHR ''-'' then (True, t) else if c = CHR ''+'' then (False, t) else (False, s)
       | [] \<Rightarrow> (False, [])) in
     if ds = [] then None
     else case digits_val 0 ds of None \<Rightarrow> None
      | Some n \<Rightarrow> let v = (if neg then - int n else int n) in if int64_range v then Some v else None)"

section \<open>Splitting at a keyword\<close>

definition isWordChar :: "char \<Rightarrow> bool" where
  "isWordChar c = (let n = (of_char c :: nat) in 65 \<le> n \<and> n \<le> 90 \<or> 97 \<le> n \<and> n \<le> 122 \<or> 48 \<le> n \<and> n \<le> 57 \<or> n = 95)"

definition is_quote :: "char \<Rightarrow> bool" where
  "is_quote c \<longleftrightarrow> c = CHR 0x22 \<or> c = CHR 0x27"

definition flush :: "string \<Rightarrow> string list" where
  "flush cur = (let part = TrimSpace cur in if part \<noteq> [] then [part] else [])"

text \<open>Whether the text ahead is the keyword as a whole word, given the character before it.\<close>

definition at_keyword :: "string \<Rightarrow> char option \<Rightarrow> string \<Rightarrow> bool" where
  "at_keyword keyword prev s \<longleftrightarrow> length keyword \<le> length s \<and> ToUpper (take (length keyword) s) = keyword
     \<and> (case prev of None \<Rightarrow> True | Some p \<Rightarrow> \<not> isWordChar p)
     \<and> (length keyword \<ge> length s \<or> \<not> isWordChar (s ! length keyword))"

definition depth_after :: "char \<Rightarrow> int \<Rightarrow> int" where
  "depth_after c depth = (if c = CHR ''('' then depth + 1 else if c = CHR '')'' then depth - 1 else depth)"

text \<open>The loop over the text: the character before, the depth of parentheses, the open quote, the current part.\<close>

function split_loop :: "string \<Rightarrow> char option \<Rightarrow> int \<Rightarrow> char option \<Rightarrow> string \<Rightarrow> string \<Rightarrow> string list" where
  "split_loop keyword prev depth quote cur [] = flush cur"
| "split_loop keyword prev depth quote cur (c # s) =
    (if quote = None \<and> is_quote c then split_loop keyword (Some c) depth (Some c) (cur @ [c]) s
     else if quote = Some c then split_loop keyword (Some c) depth None (cur @ [c]) s
     else let depth' = (if quote = None then depth_after c depth else depth) in
       if depth' = 0 \<and> quote = None \<and> at_keyword keyword prev (c # s)
       then flush cur @ split_loop keyword (Some (last (c # take (length keyword - 1) s))) depth' None [] (drop (length keyword - 1) s)
       else split_loop keyword (Some c) depth' quote (cur @ [c]) s)"
  by pat_completeness auto
termination by (relation "measure (\<lambda>(keyword, prev, depth, quote, cur, s). length s)") auto

definition splitByKeyword :: "string \<Rightarrow> string \<Rightarrow> string list" where
  "splitByKeyword s keyword = split_loop keyword None 0 None [] s"

section \<open>Values and conditions\<close>

definition quoted_by :: "char \<Rightarrow> string \<Rightarrow> bool" where
  "quoted_by q s \<longleftrightarrow> HasPrefix s [q] \<and> HasSuffix s [q]"

definition strip_ends :: "string \<Rightarrow> string" where
  "strip_ends s = butlast (drop 1 s)"

lemma Split_length: "w \<in> set (Split d s) \<Longrightarrow> length w \<le> length s"
proof (induction s arbitrary: w)
  case (Cons c s)
  show ?case
  proof (cases "c = d")
    case True
    with Cons show ?thesis by (auto intro: le_SucI)
  next
    case False
    obtain v ws where v: "Split d s = v # ws" by (meson Split_not_Nil neq_Nil_conv)
    with Cons.prems False have "w = c # v \<or> w \<in> set ws" by auto
    with Cons.IH [of v] Cons.IH [of w] v show ?thesis by (auto intro: le_SucI)
  qed
qed simp

lemma paren_inner_shorter: "HasPrefix (TrimSpace s) ''('' \<Longrightarrow> length (strip_ends (TrimSpace s)) < length s"
proof -
  assume "HasPrefix (TrimSpace s) ''(''"
  then have "TrimSpace s \<noteq> []" by (auto simp: HasPrefix_def)
  then have "length (strip_ends (TrimSpace s)) < length (TrimSpace s)" by (cases "TrimSpace s") (auto simp: strip_ends_def)
  with TrimSpace_length [of s] show ?thesis by linarith
qed

lemma parts_shorter:
  "w \<in> set (Split d (strip_ends (TrimSpace s))) \<Longrightarrow> HasPrefix (TrimSpace s) ''('' \<Longrightarrow> length (TrimSpace w) < length s"
  using Split_length [of w d "strip_ends (TrimSpace s)"] paren_inner_shorter [of s] TrimSpace_length [of w] by linarith

text \<open>The loop over the elements of a list: the first error stops it.\<close>

fun map_err :: "('a \<Rightarrow> 'e + 'b) \<Rightarrow> 'a list \<Rightarrow> 'e + 'b list" where
  "map_err f [] = Inr []"
| "map_err f (x # xs) = (case f x of Inl e \<Rightarrow> Inl e
     | Inr y \<Rightarrow> (case map_err f xs of Inl e \<Rightarrow> Inl e | Inr ys \<Rightarrow> Inr (y # ys)))"

lemma map_err_cong [fundef_cong]: "xs = ys \<Longrightarrow> (\<And>x. x \<in> set ys \<Longrightarrow> f x = g x) \<Longrightarrow> map_err f xs = map_err g ys"
  by (induction ys arbitrary: xs) (auto split: sum.split)

function parseValue :: "(string \<Rightarrow> f64 option) \<Rightarrow> string \<Rightarrow> sql_error + go_value" where
  "parseValue pf s0 =
    (let s = TrimSpace s0 in
     if length s \<ge> 2 \<and> (quoted_by (CHR 0x27) s \<or> quoted_by (CHR 0x22) s) then Inr (VString (strip_ends s))
     else if ToUpper s = ''NULL'' then Inl ErrNullValue
     else if ToUpper s = ''TRUE'' then Inr (VBool True)
     else if ToUpper s = ''FALSE'' then Inr (VBool False)
     else if HasPrefix s ''('' \<and> HasSuffix s '')'' then
       (case map_err (\<lambda>part. parseValue pf (TrimSpace part)) (Split (CHR '','') (strip_ends s)) of Inl e \<Rightarrow> Inl e
        | Inr vs \<Rightarrow> Inr (VList vs))
     else case ParseInt s of Some i \<Rightarrow> Inr (VInt64 i)
       | None \<Rightarrow> (case pf s of Some f \<Rightarrow> Inr (VFloat64 f) | None \<Rightarrow> Inr (VString s)))"
  by auto
termination by (relation "measure (\<lambda>(pf, s). length s)") (auto intro: parts_shorter)

declare parseValue.simps [simp del]

definition sql_operators :: "(string \<times> string) list" where
  "sql_operators = [(''<>'', ''ne''), (''!='', ''ne''), (''<='', ''lte''), (''>='', ''gte''), (''<'', ''lt''), (''>'', ''gt''), (''='', ''eq''),
     ('' LIKE '', ''like''), ('' IN '', ''in''), ('' IS NOT NULL'', ''is_not_null''), ('' IS NULL'', ''is_null''), ('' BETWEEN '', ''between'')]"

function strip_parens :: "string \<Rightarrow> string" where
  "strip_parens cond = (if HasPrefix cond ''('' \<and> HasSuffix cond '')''
     then strip_parens (TrimSpace (strip_ends cond)) else cond)"
  by auto
termination
proof (relation "measure length")
  fix cond assume "HasPrefix cond ''('' \<and> HasSuffix cond '')''"
  then have "cond \<noteq> []" by (auto simp: HasPrefix_def)
  then have "length (strip_ends cond) < length cond" by (cases cond) (auto simp: strip_ends_def)
  then show "(TrimSpace (strip_ends cond), cond) \<in> measure length" using TrimSpace_length [of "strip_ends cond"] by simp
qed simp

declare strip_parens.simps [simp del]

definition leaf :: "string \<Rightarrow> string \<Rightarrow> go_value \<Rightarrow> filter_expr" where
  "leaf field op v = FilterExpr field op v [] [] None"

fun try_operators :: "(string \<Rightarrow> f64 option) \<Rightarrow> string \<Rightarrow> (string \<times> string) list \<Rightarrow> sql_error + filter_expr" where
  "try_operators pf cond [] = Inl (CannotParse cond)"
| "try_operators pf cond ((sql, op) # ops) =
    (case Index (if HasPrefix sql '' '' then ToUpper cond else cond) sql of
       None \<Rightarrow> try_operators pf cond ops
     | Some idx \<Rightarrow>
         let field = TrimSpace (take idx cond); valueStr = TrimSpace (drop (idx + length sql) cond) in
         if op = ''is_null'' \<or> op = ''is_not_null'' then Inr (leaf field op VNil)
         else (case parseValue pf valueStr of Inl e \<Rightarrow> Inl e | Inr v \<Rightarrow> Inr (leaf field op v)))"

definition parseSingleCondition :: "(string \<Rightarrow> f64 option) \<Rightarrow> string \<Rightarrow> sql_error + filter_expr" where
  "parseSingleCondition pf cond = try_operators pf (strip_parens (TrimSpace cond)) sql_operators"

section \<open>WHERE clauses\<close>

text \<open>What is found between keywords is shorter than the whole.\<close>

lemma length_flush: "p \<in> set (flush cur) \<Longrightarrow> length p \<le> length cur"
  using TrimSpace_length [of cur] by (auto simp: flush_def Let_def split: if_splits)

declare split_loop.simps(2) [simp del]

definition after_kw :: "string \<Rightarrow> char \<Rightarrow> string \<Rightarrow> char option" where
  "after_kw keyword c s = Some (last (c # take (length keyword - 1) s))"

text \<open>The four ways the loop goes on.\<close>

lemma split_loop_cases:
  "is_quote c \<Longrightarrow> split_loop keyword prev depth None cur (c # s) = split_loop keyword (Some c) depth (Some c) (cur @ [c]) s"
  "split_loop keyword prev depth (Some c) cur (c # s) = split_loop keyword (Some c) depth None (cur @ [c]) s"
  "q \<noteq> c \<Longrightarrow> split_loop keyword prev depth (Some q) cur (c # s) = split_loop keyword (Some c) depth (Some q) (cur @ [c]) s"
  "\<not> is_quote c \<Longrightarrow> \<not> (depth_after c depth = 0 \<and> at_keyword keyword prev (c # s)) \<Longrightarrow>
     split_loop keyword prev depth None cur (c # s) = split_loop keyword (Some c) (depth_after c depth) None (cur @ [c]) s"
  "\<not> is_quote c \<Longrightarrow> depth_after c depth = 0 \<Longrightarrow> at_keyword keyword prev (c # s) \<Longrightarrow>
     split_loop keyword prev depth None cur (c # s) = flush cur @ split_loop keyword (after_kw keyword c s) 0 None [] (drop (length keyword - 1) s)"
  by (auto simp: split_loop.simps(2) Let_def after_kw_def simp del: last.simps)

lemma split_loop_step:
  obtains (move) prev' depth' quote' where "split_loop keyword prev depth quote cur (c # s) = split_loop keyword prev' depth' quote' (cur @ [c]) s"
    | (cut) prev' depth' where "split_loop keyword prev depth quote cur (c # s) = flush cur @ split_loop keyword prev' depth' None [] (drop (length keyword - 1) s)"
proof (cases quote)
  case None
  consider "is_quote c" | "\<not> is_quote c" "depth_after c depth = 0" "at_keyword keyword prev (c # s)"
    | "\<not> is_quote c" "\<not> (depth_after c depth = 0 \<and> at_keyword keyword prev (c # s))" by blast
  then show ?thesis
  proof cases
    case 1
    show ?thesis using None split_loop_cases(1) [OF 1] by (intro move) simp
  next
    case 2
    show ?thesis using None split_loop_cases(5) [OF 2] by (intro cut) simp
  next
    case 3
    show ?thesis using None split_loop_cases(4) [OF 3] by (intro move) simp
  qed
next
  case (Some q)
  show ?thesis using Some split_loop_cases(2,3) by (cases "q = c") (auto intro: move)
qed

lemma split_loop_length:
  "p \<in> set (split_loop keyword prev depth quote cur s) \<Longrightarrow> length p \<le> length cur + length s"
proof (induction "length s" arbitrary: prev depth quote cur s rule: less_induct)
  case less
  show ?case
  proof (cases s)
    case Nil
    with less.prems show ?thesis by (simp add: length_flush)
  next
    case (Cons c t)
    show ?thesis
    proof (rule split_loop_step [of keyword prev depth quote cur c t])
      fix prev' depth' quote'
      assume "split_loop keyword prev depth quote cur (c # t) = split_loop keyword prev' depth' quote' (cur @ [c]) t"
      then show ?thesis using less.hyps [of t prev' depth' quote' "cur @ [c]"] less.prems Cons by simp
    next
      fix prev' depth'
      assume e: "split_loop keyword prev depth quote cur (c # t) = flush cur @ split_loop keyword prev' depth' None [] (drop (length keyword - 1) t)"
      show ?thesis using less.hyps [of "drop (length keyword - 1) t" prev' depth' None "[]"] less.prems Cons e length_flush [of p cur] by fastforce
    qed
  qed
qed

lemma split_loop_shorter:
  assumes "length (split_loop keyword prev depth quote cur s) > 1" and "p \<in> set (split_loop keyword prev depth quote cur s)"
  shows "length p < length cur + length s"
  using assms
proof (induction "length s" arbitrary: prev depth quote cur s rule: less_induct)
  case less
  show ?case
  proof (cases s)
    case Nil
    with less.prems(1) show ?thesis by (simp add: flush_def Let_def split: if_splits)
  next
    case (Cons c t)
    show ?thesis
    proof (rule split_loop_step [of keyword prev depth quote cur c t])
      fix prev' depth' quote'
      assume "split_loop keyword prev depth quote cur (c # t) = split_loop keyword prev' depth' quote' (cur @ [c]) t"
      then show ?thesis using less.hyps [of t prev' depth' quote' "cur @ [c]"] less.prems Cons by simp
    next
      fix prev' depth'
      assume e: "split_loop keyword prev depth quote cur (c # t) = flush cur @ split_loop keyword prev' depth' None [] (drop (length keyword - 1) t)"
      show ?thesis using split_loop_length [of p keyword prev' depth' None "[]" "drop (length keyword - 1) t"]
          less.prems(2) Cons e length_flush [of p cur] by fastforce
    qed
  qed
qed

lemma splitByKeyword_shorter:
  "length (splitByKeyword (TrimSpace s) keyword) > 1 \<Longrightarrow> p \<in> set (splitByKeyword (TrimSpace s) keyword) \<Longrightarrow> length p < length s"
  using split_loop_shorter [of keyword None 0 None "[]" "TrimSpace s" p] TrimSpace_length [of s] by (simp add: splitByKeyword_def)

function parseWhereClause :: "(string \<Rightarrow> f64 option) \<Rightarrow> string \<Rightarrow> sql_error + filter_expr" where
  "parseWhereClause pf clause0 =
    (let clause = TrimSpace clause0; orParts = splitByKeyword clause ''OR''; andParts = splitByKeyword clause ''AND'' in
     if length orParts > 1 then
       (case map_err (parseWhereClause pf) orParts of Inl e \<Rightarrow> Inl e | Inr fs \<Rightarrow> Inr (FilterExpr [] [] VNil [] fs None))
     else if length andParts > 1 then
       (case map_err (parseWhereClause pf) andParts of Inl e \<Rightarrow> Inl e | Inr fs \<Rightarrow> Inr (FilterExpr [] [] VNil fs [] None))
     else if HasPrefix (ToUpper clause) ''NOT '' then
       (case parseWhereClause pf (drop 4 clause) of Inl e \<Rightarrow> Inl e | Inr f \<Rightarrow> Inr (FilterExpr [] [] VNil [] [] (Some f)))
     else parseSingleCondition pf clause)"
  by auto
termination
proof (relation "measure (\<lambda>(pf, s). length s)")
  fix pf and s :: string and x xa xb z
  assume "x = TrimSpace s" "xa = splitByKeyword x ''OR''" "1 < length xa" "z \<in> set xa"
  then show "((pf, z), pf, s) \<in> measure (\<lambda>(pf, s). length s)" using splitByKeyword_shorter [of s "''OR''" z] by simp
next
  fix pf and s :: string and x xa xb z
  assume "x = TrimSpace s" "xb = splitByKeyword x ''AND''" "1 < length xb" "z \<in> set xb"
  then show "((pf, z), pf, s) \<in> measure (\<lambda>(pf, s). length s)" using splitByKeyword_shorter [of s "''AND''" z] by simp
next
  fix pf and s :: string and x xa xb
  assume x: "x = TrimSpace s" "HasPrefix (ToUpper x) ''NOT ''"
  then obtain t where "ToUpper x = ''NOT '' @ t" by (auto simp: HasPrefix_iff)
  then have "length (ToUpper x) = length (''NOT '' @ t)" by (rule arg_cong)
  then have "4 \<le> length x" by simp
  with x TrimSpace_length [of s] show "((pf, drop 4 x), pf, s) \<in> measure (\<lambda>(pf, s). length s)" by simp
qed simp

declare parseWhereClause.simps [simp del]

end
