(* ===== verification/Sql_Query.thy ===== *)
theory Sql_Query
  imports Sql_Parser
begin

text \<open>
  The statements of \<open>pkg/query/sql_parser.go\<close>: dispatch, the parsers of the statements over the groups of their
  regular expressions, and the translation of filter expressions to payload filters.
\<close>

section \<open>Groups of a match\<close>

datatype regex_name = SelectRe | NearestRe | SearchRe | InsertRe | UpdateRe | DeleteRe | CreateRe | DropRe | DescribeRe

type_synonym regex_engine = "regex_name \<Rightarrow> string \<Rightarrow> string list option"

text \<open>The number of groups of each expression, the whole match included.\<close>

definition group_count :: "regex_name \<Rightarrow> nat" where
  "group_count r = (case r of SelectRe \<Rightarrow> 8 | NearestRe \<Rightarrow> 7 | SearchRe \<Rightarrow> 6 | InsertRe \<Rightarrow> 2 | UpdateRe \<Rightarrow> 2 | DeleteRe \<Rightarrow> 3
     | CreateRe \<Rightarrow> 4 | DropRe \<Rightarrow> 2 | DescribeRe \<Rightarrow> 2)"

definition grp :: "string list \<Rightarrow> nat \<Rightarrow> ('e, string) outcome" where
  "grp m i = of_option_panic (go_index m i)"

fun of_sum :: "'e + 'a \<Rightarrow> ('e, 'a) outcome" where
  "of_sum (Inl e) = Err e"
| "of_sum (Inr x) = Ok x"

definition matched :: "regex_engine \<Rightarrow> regex_name \<Rightarrow> query_type \<Rightarrow> string
    \<Rightarrow> (string list \<Rightarrow> (sql_error, 'a) outcome) \<Rightarrow> (sql_error, 'a) outcome" where
  "matched rx r t query k = (case rx r query of None \<Rightarrow> Err (InvalidSyntax t) | Some m \<Rightarrow> k m)"

section \<open>Clauses\<close>

definition parse_columns :: "string \<Rightarrow> string list" where
  "parse_columns g = (let s = TrimSpace g in if s = ''*'' then [''*''] else map TrimSpace (Split (CHR '','') s))"

definition with_where :: "(string \<Rightarrow> f64 option) \<Rightarrow> string \<Rightarrow> 'f sql_query \<Rightarrow> (sql_error, 'f sql_query) outcome" where
  "with_where pf g q = (if g \<noteq> [] then bind_outcome (of_sum (parseWhereClause pf g)) (\<lambda>f. Ok (q\<lparr>qFilter := Some f\<rparr>)) else Ok q)"

definition with_limit :: "string \<Rightarrow> 'f sql_query \<Rightarrow> (sql_error, 'f sql_query) outcome" where
  "with_limit g q = (if g \<noteq> [] then (case ParseInt g of None \<Rightarrow> Err InvalidLimit | Some n \<Rightarrow> Ok (q\<lparr>qLimit := n\<rparr>)) else Ok q)"

definition with_offset :: "string \<Rightarrow> 'f sql_query \<Rightarrow> (sql_error, 'f sql_query) outcome" where
  "with_offset g q = (if g \<noteq> [] then (case ParseInt g of None \<Rightarrow> Err InvalidOffset | Some n \<Rightarrow> Ok (q\<lparr>qOffset := n\<rparr>)) else Ok q)"

definition default_limit :: "'f sql_query \<Rightarrow> 'f sql_query" where
  "default_limit q = (if qLimit q = 0 then q\<lparr>qLimit := 10\<rparr> else q)"

fun parse_elements :: "(string \<Rightarrow> 'f option) \<Rightarrow> nat \<Rightarrow> string list \<Rightarrow> sql_error + 'f list" where
  "parse_elements pf32 i [] = Inr []"
| "parse_elements pf32 i (part # parts) = (case pf32 (TrimSpace part) of
     None \<Rightarrow> Inl (InvalidVector i (TrimSpace part))
   | Some v \<Rightarrow> (case parse_elements pf32 (Suc i) parts of Inl e \<Rightarrow> Inl e | Inr vs \<Rightarrow> Inr (v # vs)))"

definition parseVector :: "(string \<Rightarrow> 'f option) \<Rightarrow> string \<Rightarrow> sql_error + 'f list" where
  "parseVector pf32 s = parse_elements pf32 0 (Split (CHR '','') s)"

section \<open>Statements\<close>

definition parseVectorSelectSearch :: "regex_engine \<Rightarrow> (string \<Rightarrow> f64 option) \<Rightarrow> (string \<Rightarrow> 'f option) \<Rightarrow> string
    \<Rightarrow> (sql_error, 'f sql_query) outcome" where
  "parseVectorSelectSearch rx pf pf32 query = matched rx NearestRe QueryVectorSearch query (\<lambda>m.
     bind_outcome (grp m 1) (\<lambda>g1. bind_outcome (grp m 2) (\<lambda>g2. bind_outcome (grp m 3) (\<lambda>g3.
     bind_outcome (of_sum (parseVector pf32 (TrimSpace g3))) (\<lambda>vec.
     bind_outcome (grp m 4) (\<lambda>g4. bind_outcome (grp m 5) (\<lambda>g5.
     bind_outcome (with_where pf g5 ((new_query QueryVectorSearch)\<lparr>qColumns := parse_columns g1, qCollection := TrimSpace g2,
        qVector := vec, qVectorName := g4\<rparr>)) (\<lambda>q. bind_outcome (grp m 6) (\<lambda>g6.
     bind_outcome (with_limit g6 q) (\<lambda>q. Ok (default_limit q)))))))))))"

definition parseVectorSearch :: "regex_engine \<Rightarrow> (string \<Rightarrow> f64 option) \<Rightarrow> (string \<Rightarrow> 'f option) \<Rightarrow> string
    \<Rightarrow> (sql_error, 'f sql_query) outcome" where
  "parseVectorSearch rx pf pf32 query = matched rx SearchRe QueryVectorSearch query (\<lambda>m.
     bind_outcome (grp m 1) (\<lambda>g1. bind_outcome (grp m 2) (\<lambda>g2.
     bind_outcome (of_sum (parseVector pf32 g2)) (\<lambda>vec.
     bind_outcome (grp m 3) (\<lambda>g3. bind_outcome (grp m 4) (\<lambda>g4.
     bind_outcome (with_where pf g4 ((new_query QueryVectorSearch)\<lparr>qCollection := TrimSpace g1, qColumns := [''*''],
        qVector := vec, qVectorName := g3\<rparr>)) (\<lambda>q. bind_outcome (grp m 5) (\<lambda>g5.
     bind_outcome (with_limit g5 q) (\<lambda>q. Ok (default_limit q))))))))))"

definition parseSelect :: "regex_engine \<Rightarrow> (string \<Rightarrow> f64 option) \<Rightarrow> (string \<Rightarrow> 'f option) \<Rightarrow> string
    \<Rightarrow> (sql_error, 'f sql_query) outcome" where
  "parseSelect rx pf pf32 query =
    (if Contains_str (ToUpper query) ''NEAREST TO'' \<or> Contains_str (ToUpper query) ''SIMILAR TO''
     then parseVectorSelectSearch rx pf pf32 query
     else matched rx SelectRe QuerySelect query (\<lambda>m.
       bind_outcome (grp m 1) (\<lambda>g1. bind_outcome (grp m 2) (\<lambda>g2. bind_outcome (grp m 3) (\<lambda>g3.
       bind_outcome (with_where pf g3 ((new_query QuerySelect)\<lparr>qColumns := parse_columns g1, qCollection := TrimSpace g2\<rparr>)) (\<lambda>q.
       bind_outcome (grp m 4) (\<lambda>g4. bind_outcome (grp m 5) (\<lambda>g5.
       bind_outcome (grp m 6) (\<lambda>g6.
       bind_outcome (with_limit g6 (if g4 \<noteq> [] then q\<lparr>qOrderBy := g4, qOrderDesc := ToUpper g5 = ''DESC''\<rparr> else q)) (\<lambda>q.
       bind_outcome (grp m 7) (\<lambda>g7. with_offset g7 q)))))))))))"

definition name_only :: "regex_engine \<Rightarrow> regex_name \<Rightarrow> query_type \<Rightarrow> string \<Rightarrow> (sql_error, 'f sql_query) outcome" where
  "name_only rx r t query = matched rx r t query (\<lambda>m. bind_outcome (grp m 1) (\<lambda>g. Ok ((new_query t)\<lparr>qCollection := TrimSpace g\<rparr>)))"

definition parseInsert :: "regex_engine \<Rightarrow> string \<Rightarrow> (sql_error, 'f sql_query) outcome" where
  "parseInsert rx query = name_only rx InsertRe QueryInsert query"

definition parseUpdate :: "regex_engine \<Rightarrow> string \<Rightarrow> (sql_error, 'f sql_query) outcome" where
  "parseUpdate rx query = name_only rx UpdateRe QueryUpdate query"

definition parseDropTable :: "regex_engine \<Rightarrow> string \<Rightarrow> (sql_error, 'f sql_query) outcome" where
  "parseDropTable rx query = name_only rx DropRe QueryDropTable query"

definition parseDescribe :: "regex_engine \<Rightarrow> string \<Rightarrow> (sql_error, 'f sql_query) outcome" where
  "parseDescribe rx query = name_only rx DescribeRe QueryDescribe query"

definition parseShowTables :: "string \<Rightarrow> (sql_error, 'f sql_query) outcome" where
  "parseShowTables query = Ok (new_query QueryShowTables)"

definition parseDelete :: "regex_engine \<Rightarrow> (string \<Rightarrow> f64 option) \<Rightarrow> string \<Rightarrow> (sql_error, 'f sql_query) outcome" where
  "parseDelete rx pf query = matched rx DeleteRe QueryDelete query (\<lambda>m. bind_outcome (grp m 1) (\<lambda>g1. bind_outcome (grp m 2) (\<lambda>g2.
     with_where pf g2 ((new_query QueryDelete)\<lparr>qCollection := TrimSpace g1\<rparr>))))"

text \<open>\<open>strings.SplitN(pair, "=", 2)\<close> with two parts, and \<open>strings.Trim\<close> of quotes.\<close>

definition split_pair :: "string \<Rightarrow> (string \<times> string) option" where
  "split_pair pair = map_option (\<lambda>i. (take i pair, drop (Suc i) pair)) (Index pair ''='')"

definition trim_quotes :: "string \<Rightarrow> string" where
  "trim_quotes s = rev (dropWhile is_quote (rev (dropWhile is_quote s)))"

fun table_options :: "string list \<Rightarrow> collection_config_sql \<Rightarrow> sql_error + collection_config_sql" where
  "table_options [] cfg = Inr cfg"
| "table_options (pair # pairs) cfg = (case split_pair pair of None \<Rightarrow> table_options pairs cfg
     | Some (k, v) \<Rightarrow> let key = TrimSpace (ToLower k); val = trim_quotes (TrimSpace v) in
         if key = ''dimension'' then (case ParseInt val of None \<Rightarrow> Inl InvalidDimension | Some d \<Rightarrow> table_options pairs (cfg\<lparr>ccDimension := d\<rparr>))
         else if key = ''metric'' then table_options pairs (cfg\<lparr>ccMetric := val\<rparr>)
         else if key = ''vector_type'' then table_options pairs (cfg\<lparr>ccVectorType := val\<rparr>)
         else table_options pairs cfg)"

definition parseCreateTable :: "regex_engine \<Rightarrow> string \<Rightarrow> (sql_error, 'f sql_query) outcome" where
  "parseCreateTable rx query = matched rx CreateRe QueryCreateTable query (\<lambda>m.
     bind_outcome (grp m 1) (\<lambda>g1. bind_outcome (grp m 2) (\<lambda>g2.
     bind_outcome (if g2 = [] then grp m 3 else Ok g2) (\<lambda>options.
     let cfg = \<lparr>ccName = TrimSpace g1, ccDimension = 0, ccMetric = [], ccVectorType = []\<rparr> in
     bind_outcome (if options \<noteq> [] then of_sum (table_options (Split (CHR '','') options) cfg) else Ok cfg)
       (\<lambda>cfg. Ok ((new_query QueryCreateTable)\<lparr>qConfig := Some cfg, qCollection := ccName cfg\<rparr>))))))"

section \<open>Dispatch\<close>

text \<open>The regular expression for white space: tab, line feed, form feed, carriage return and space.\<close>

definition rx_space :: "char \<Rightarrow> bool" where
  "rx_space c \<longleftrightarrow> (of_char c :: nat) \<in> {9, 10, 12, 13, 32}"

fun normalize :: "bool \<Rightarrow> string \<Rightarrow> string" where
  "normalize inrun [] = []"
| "normalize inrun (c # s) = (if rx_space c then (if inrun then normalize True s else CHR '' '' # normalize True s)
     else c # normalize False s)"

definition Parse :: "regex_engine \<Rightarrow> (string \<Rightarrow> f64 option) \<Rightarrow> (string \<Rightarrow> 'f option) \<Rightarrow> string \<Rightarrow> (sql_error, 'f sql_query) outcome" where
  "Parse rx pf pf32 query0 =
    (if TrimSpace query0 = [] then Err EmptyQuery
     else let query = normalize False (TrimSpace query0); upper = ToUpper query in
       if HasPrefix upper ''SELECT'' then parseSelect rx pf pf32 query
       else if HasPrefix upper ''INSERT'' then parseInsert rx query
       else if HasPrefix upper ''UPDATE'' then parseUpdate rx query
       else if HasPrefix upper ''DELETE'' then parseDelete rx pf query
       else if HasPrefix upper ''CREATE TABLE'' then parseCreateTable rx query
       else if HasPrefix upper ''DROP TABLE'' then parseDropTable rx query
       else if HasPrefix upper ''DESCRIBE'' \<or> HasPrefix upper ''DESC '' then parseDescribe rx query
       else if HasPrefix upper ''SHOW TABLES'' then parseShowTables query
       else if HasPrefix upper ''SEARCH'' then parseVectorSearch rx pf pf32 query
       else Err (UnsupportedQuery (hd (Split (CHR '' '') query))))"

section \<open>Payload filters\<close>

fun ToPayloadFilter :: "filter_expr \<Rightarrow> go_map" where
  "ToPayloadFilter (FilterExpr field op v ands ors nt) =
    (if ands \<noteq> [] then [(''must'', VList (map (\<lambda>f. VMap (ToPayloadFilter f)) ands))]
     else if ors \<noteq> [] then [(''should'', VList (map (\<lambda>f. VMap (ToPayloadFilter f)) ors))]
     else case nt of Some f \<Rightarrow> [(''must_not'', VList [VMap (ToPayloadFilter f)])]
     | None \<Rightarrow>
       let must = (\<lambda>c. [(''must'', VList [VMap ((''key'', VString field) # c)])]) in
       if op = ''eq'' then must [(''match'', VMap [(''value'', v)])]
       else if op = ''ne'' then [(''must_not'', VList [VMap [(''key'', VString field), (''match'', VMap [(''value'', v)])]])]
       else if op \<in> {''lt'', ''gt'', ''lte'', ''gte''} then must [(''range'', VMap [(op, v)])]
       else if op = ''in'' then must [(''match'', VMap [(''any'', v)])]
       else if op = ''like'' then must [(''match'', VMap [(''text'', v)])]
       else if op = ''is_null'' then must [(''is_null'', VBool True)]
       else if op = ''is_not_null'' then must [(''is_null'', VBool False)]
       else must [])"

end
