(* ===== verification/Sql_Facts.thy ===== *)
theory Sql_Facts
  imports Sql_Query
begin

text \<open>
  WHERE clauses in disjunctive form, as text and as the tree the parser should build, and the proof that it
  does: the splitter cuts at the keywords between the comparisons and nowhere inside them.
\<close>

section \<open>Characters\<close>

lemma isWordChar_upper [simp]: "isWordChar (upper_char c) = isWordChar c"
proof -
  have "(of_char c :: nat) < 256" by (rule nat_of_char_less_256)
  then show ?thesis by (auto simp: isWordChar_def upper_char_def Let_def)
qed

lemma word_plain:
  assumes "isWordChar c"
  shows "\<not> is_quote c" "depth_after c d = d" "\<not> is_space c" "c \<notin> set ''<>=!''" "c \<noteq> CHR ''(''" "c \<noteq> CHR '' ''"
  using assms by (auto simp: isWordChar_def is_quote_def depth_after_def is_space_def Let_def)

lemma TrimSpace_pad:
  assumes "t \<noteq> []" and "\<not> is_space (hd t)" and "\<not> is_space (last t)" and "list_all is_space u" and "list_all is_space v"
  shows "TrimSpace (u @ t @ v) = t"
proof -
  have d: "dropWhile is_space (u @ t) = t" if "list_all is_space u" "t \<noteq> []" "\<not> is_space (hd t)" for u t
    using that by (induction u) (auto simp: dropWhile_eq_self_iff)
  have "dropWhile is_space (u @ t @ v) = t @ v" using d [of u "t @ v"] assms(1,2,4) by simp
  moreover have "dropWhile is_space (rev v @ rev t) = rev t"
    using d [of "rev v" "rev t"] assms(1,3,5) by (simp add: hd_rev list_all_iff)
  ultimately show ?thesis by (simp add: TrimSpace_def)
qed

section \<open>The splitter on sealed text\<close>

text \<open>A keyword: upper case letters.\<close>

definition keyword_ok :: "string \<Rightarrow> bool" where
  "keyword_ok kw \<longleftrightarrow> kw \<noteq> [] \<and> list_all isWordChar kw \<and> list_all (\<lambda>c. upper_char c = c) kw"

definition boundary :: "char option \<Rightarrow> bool" where
  "boundary prev \<longleftrightarrow> (case prev of None \<Rightarrow> True | Some c \<Rightarrow> \<not> isWordChar c)"

definition stops :: "string \<Rightarrow> bool" where
  "stops rest \<longleftrightarrow> rest = [] \<or> \<not> isWordChar (hd rest)"

definition sealed :: "string \<Rightarrow> string \<Rightarrow> bool" where
  "sealed kw t \<longleftrightarrow> (\<forall>prev cur rest. boundary prev \<longrightarrow> stops rest \<longrightarrow>
     (\<exists>p. split_loop kw prev 0 None cur (t @ rest) = split_loop kw p 0 None (cur @ t) rest))"

lemma kw_nth_word: "keyword_ok kw \<Longrightarrow> i < length kw \<Longrightarrow> isWordChar (kw ! i)"
  by (simp add: keyword_ok_def list_all_length)

lemma at_keyword_other:
  assumes "keyword_ok kw" and "\<not> isWordChar c"
  shows "\<not> at_keyword kw prev (c # s)"
proof
  assume "at_keyword kw prev (c # s)"
  then have "ToUpper (take (length kw) (c # s)) = kw" by (simp add: at_keyword_def)
  moreover obtain k ks where "kw = k # ks" using assms(1) by (cases kw) (auto simp: keyword_ok_def)
  ultimately have "upper_char c = k" by (simp add: ToUpper_def)
  with \<open>kw = k # ks\<close> assms show False using isWordChar_upper [of c] by (simp add: keyword_ok_def)
qed

lemma split_plain:
  assumes "keyword_ok kw" and "\<not> isWordChar c" and "\<not> is_quote c" and "depth_after c 0 = 0"
  shows "split_loop kw prev 0 None cur (c # s) = split_loop kw (Some c) 0 None (cur @ [c]) s"
  using split_loop_cases(4) [OF assms(3), of 0 kw prev s cur] at_keyword_other [OF assms(1,2)] assms(4) by simp

lemma split_word_tail:
  "list_all isWordChar w \<Longrightarrow> isWordChar p \<Longrightarrow>
   split_loop kw (Some p) 0 None cur (w @ rest) = split_loop kw (Some (last (p # w))) 0 None (cur @ w) rest"
proof (induction w arbitrary: p cur)
  case (Cons c w)
  have "\<not> at_keyword kw (Some p) (c # w @ rest)" using Cons.prems by (simp add: at_keyword_def)
  then have "split_loop kw (Some p) 0 None cur (c # w @ rest) = split_loop kw (Some c) 0 None (cur @ [c]) (w @ rest)"
    using split_loop_cases(4) [of c 0 kw "Some p" "w @ rest" cur] word_plain [of c] Cons.prems by simp
  with Cons.IH [of c "cur @ [c]"] Cons.prems show ?case by simp
qed simp

lemma at_keyword_word:
  assumes kw: "keyword_ok kw" and w: "list_all isWordChar w" "ToUpper w \<noteq> kw" and r: "stops rest"
  shows "\<not> at_keyword kw prev (w @ rest)"
proof
  assume a: "at_keyword kw prev (w @ rest)"
  then have e: "ToUpper (take (length kw) (w @ rest)) = kw" and l: "length kw \<le> length (w @ rest)" by (simp_all add: at_keyword_def)
  consider "length w = length kw" | "length kw < length w" | "length w < length kw" by linarith
  then show False
  proof cases
    case 1
    with e w(2) show False by simp
  next
    case 2
    then have "isWordChar ((w @ rest) ! length kw)" using w(1) by (simp add: nth_append list_all_length)
    with a 2 show False by (auto simp: at_keyword_def)
  next
    case 3
    then have ne: "rest \<noteq> []" using l by auto
    have "length w < length (take (length kw) (w @ rest))" using 3 l by simp
    then have "ToUpper (take (length kw) (w @ rest)) ! length w = upper_char (take (length kw) (w @ rest) ! length w)"
      unfolding ToUpper_def by (rule nth_map)
    also have "take (length kw) (w @ rest) ! length w = (w @ rest) ! length w" using 3 by (rule nth_take)
    finally have "ToUpper (take (length kw) (w @ rest)) ! length w = upper_char ((w @ rest) ! length w)" .
    then have "kw ! length w = upper_char (hd rest)" using e ne by (simp add: nth_append hd_conv_nth)
    with kw_nth_word [OF kw 3] r ne show False by (simp add: stops_def)
  qed
qed

lemma sealed_word:
  assumes "keyword_ok kw" and "w \<noteq> []" and "list_all isWordChar w" and "ToUpper w \<noteq> kw"
  shows "sealed kw w"
  unfolding sealed_def
proof (intro allI impI)
  fix prev cur rest
  assume s: "stops rest"
  obtain c v where w: "w = c # v" using assms(2) by (cases w) auto
  have "\<not> at_keyword kw prev (c # v @ rest)" using at_keyword_word [OF assms(1,3,4) s, of prev] w by simp
  then have "split_loop kw prev 0 None cur (w @ rest) = split_loop kw (Some c) 0 None (cur @ [c]) (v @ rest)"
    using split_loop_cases(4) [of c 0 kw prev "v @ rest" cur] word_plain [of c] assms(3) w by simp
  also have "\<dots> = split_loop kw (Some (last (c # v))) 0 None (cur @ w) rest"
    using split_word_tail [of v c kw "cur @ [c]" rest] assms(3) w by simp
  finally show "\<exists>p. split_loop kw prev 0 None cur (w @ rest) = split_loop kw p 0 None (cur @ w) rest" by blast
qed

lemma split_quoted:
  "q \<notin> set s \<Longrightarrow> split_loop kw prev 0 (Some q) cur (s @ q # rest) = split_loop kw (Some q) 0 None (cur @ s @ [q]) rest"
proof (induction s arbitrary: prev cur)
  case Nil
  then show ?case by (simp add: split_loop_cases(2))
next
  case (Cons c s)
  then have "split_loop kw prev 0 (Some q) cur ((c # s) @ q # rest) = split_loop kw (Some c) 0 (Some q) (cur @ [c]) (s @ q # rest)"
    using split_loop_cases(3) [of q c kw prev 0 cur "s @ q # rest"] by auto
  with Cons show ?case by simp
qed

lemma sealed_quoted: "is_quote q \<Longrightarrow> q \<notin> set s \<Longrightarrow> sealed kw (q # s @ [q])"
  unfolding sealed_def using split_loop_cases(1) [of q kw] split_quoted [of q s kw] by auto

text \<open>A separator of one plain character joins sealed texts.\<close>

definition plain :: "char \<Rightarrow> bool" where
  "plain c \<longleftrightarrow> \<not> isWordChar c \<and> \<not> is_quote c \<and> depth_after c 0 = 0"

lemma plain_chars: "plain (CHR '' '')" "plain (CHR ''<'')" "plain (CHR ''>'')" "plain (CHR ''='')" "plain (CHR ''!'')" "plain (CHR ''-'')"
  by (simp_all add: plain_def isWordChar_def is_quote_def depth_after_def)

lemma sealed_plain:
  assumes kw: "keyword_ok kw" and c: "plain c" and u: "sealed kw u"
  shows "sealed kw (c # u)"
  unfolding sealed_def
proof (intro allI impI)
  fix prev cur rest assume r: "stops rest"
  have "split_loop kw prev 0 None cur ((c # u) @ rest) = split_loop kw (Some c) 0 None (cur @ [c]) (u @ rest)"
    using split_plain [OF kw, of c prev cur "u @ rest"] c by (simp add: plain_def)
  moreover have "boundary (Some c)" using c by (simp add: boundary_def plain_def)
  ultimately show "\<exists>p. split_loop kw prev 0 None cur ((c # u) @ rest) = split_loop kw p 0 None (cur @ c # u) rest"
    using u r unfolding sealed_def by (metis append.assoc append_Cons append_Nil)
qed

lemma sealed_Nil: "sealed kw []"
  by (auto simp: sealed_def)

lemma sealed_join:
  assumes kw: "keyword_ok kw" and t: "sealed kw t" and c: "plain c" and u: "sealed kw u"
  shows "sealed kw (t @ c # u)"
  unfolding sealed_def
proof (intro allI impI)
  fix prev cur rest assume p: "boundary prev" and r: "stops rest"
  have "stops (c # u @ rest)" using c by (simp add: stops_def plain_def)
  with t p obtain q where q: "split_loop kw prev 0 None cur (t @ c # u @ rest) = split_loop kw q 0 None (cur @ t) (c # u @ rest)"
    unfolding sealed_def by blast
  have s: "split_loop kw q 0 None (cur @ t) (c # u @ rest) = split_loop kw (Some c) 0 None (cur @ t @ [c]) (u @ rest)"
    using split_plain [OF kw, of c q "cur @ t" "u @ rest"] c by (simp add: plain_def)
  have "boundary (Some c)" using c by (simp add: boundary_def plain_def)
  with u r obtain p' where "split_loop kw (Some c) 0 None (cur @ t @ [c]) (u @ rest) = split_loop kw p' 0 None ((cur @ t @ [c]) @ u) rest"
    unfolding sealed_def by blast
  with q s show "\<exists>p. split_loop kw prev 0 None cur ((t @ c # u) @ rest) = split_loop kw p 0 None (cur @ t @ c # u) rest" by auto
qed

text \<open>Texts without blanks at their ends.\<close>

definition trimmed :: "string \<Rightarrow> bool" where
  "trimmed t \<longleftrightarrow> t \<noteq> [] \<and> \<not> is_space (hd t) \<and> \<not> is_space (last t)"

lemma flush_pad: "trimmed t \<Longrightarrow> list_all is_space u \<Longrightarrow> list_all is_space v \<Longrightarrow> flush (u @ t @ v) = [t]"
  using TrimSpace_pad [of t u v] by (simp add: flush_def trimmed_def)

lemma TrimSpace_trimmed: "trimmed t \<Longrightarrow> TrimSpace t = t"
  using TrimSpace_pad [of t "[]" "[]"] by (simp add: trimmed_def)

lemma at_keyword_self:
  assumes "keyword_ok kw" shows "at_keyword kw (Some (CHR '' '')) (kw @ CHR '' '' # s)"
proof -
  have "ToUpper kw = kw" using assms by (induction kw) (auto simp: keyword_ok_def ToUpper_def list_all_iff map_idI)
  then show ?thesis by (simp add: at_keyword_def nth_append isWordChar_def)
qed

lemma split_at_keyword:
  assumes kw: "keyword_ok kw"
  shows "split_loop kw p 0 None cur (CHR '' '' # kw @ CHR '' '' # s)
    = flush (cur @ '' '') @ split_loop kw (Some (CHR '' '')) 0 None '' '' s"
proof -
  obtain k ks where k: "kw = k # ks" using kw by (cases kw) (auto simp: keyword_ok_def)
  have w: "isWordChar k" using kw k by (simp add: keyword_ok_def)
  have sp: "plain (CHR '' '')" by (rule plain_chars)
  have "split_loop kw p 0 None cur (CHR '' '' # kw @ CHR '' '' # s) = split_loop kw (Some (CHR '' '')) 0 None (cur @ '' '') (kw @ CHR '' '' # s)"
    using split_plain [OF kw, of "CHR '' ''" p cur "kw @ CHR '' '' # s"] sp by (simp add: plain_def)
  also have "\<dots> = flush (cur @ '' '') @ split_loop kw (after_kw kw k (ks @ CHR '' '' # s)) 0 None [] (CHR '' '' # s)"
    using split_loop_cases(5) [of k 0 kw "Some (CHR '' '')" "ks @ CHR '' '' # s" "cur @ '' ''"] at_keyword_self [OF kw, of s] word_plain [OF w] k by simp
  also have "split_loop kw (after_kw kw k (ks @ CHR '' '' # s)) 0 None [] (CHR '' '' # s) = split_loop kw (Some (CHR '' '')) 0 None '' '' s"
    using split_plain [OF kw, of "CHR '' ''" _ "[]" s] sp by (simp add: plain_def)
  finally show ?thesis .
qed

lemma split_joined:
  assumes kw: "keyword_ok kw"
  shows "ts \<noteq> [] \<Longrightarrow> \<forall>t \<in> set ts. sealed kw t \<and> trimmed t \<Longrightarrow> boundary prev \<Longrightarrow> list_all is_space u \<Longrightarrow>
    split_loop kw prev 0 None u (Join ts ('' '' @ kw @ '' '')) = ts"
proof (induction ts arbitrary: prev u rule: induct_list012)
  case (2 t)
  then have "sealed kw t" "trimmed t" by simp_all
  then obtain p where "split_loop kw prev 0 None u (t @ []) = split_loop kw p 0 None (u @ t) []"
    using 2(3) unfolding sealed_def stops_def by blast
  then show ?case using flush_pad [OF \<open>trimmed t\<close> 2(4), of "[]"] by simp
next
  case (3 t v ts)
  let ?sep = "'' '' @ kw @ '' ''" and ?rest = "Join (v # ts) ('' '' @ kw @ '' '')"
  have t: "sealed kw t" "trimmed t" using 3 by simp_all
  have "stops (CHR '' '' # kw @ CHR '' '' # ?rest)" by (simp add: stops_def isWordChar_def)
  with t(1) 3(5) obtain p where p: "split_loop kw prev 0 None u (t @ CHR '' '' # kw @ CHR '' '' # ?rest)
      = split_loop kw p 0 None (u @ t) (CHR '' '' # kw @ CHR '' '' # ?rest)" unfolding sealed_def by blast
  have "split_loop kw (Some (CHR '' '')) 0 None '' '' ?rest = v # ts"
    using 3 by (intro "3.IH"(2)) (auto simp: boundary_def isWordChar_def is_space_def)
  moreover have "flush (u @ t @ '' '') = [t]" by (rule flush_pad [OF t(2) 3(6)]) (simp add: is_space_def)
  ultimately show ?case using p split_at_keyword [OF kw, of p "u @ t" ?rest] by simp
qed simp

lemma splitByKeyword_joined:
  assumes "keyword_ok kw" and "ts \<noteq> []" and "\<forall>t \<in> set ts. sealed kw t \<and> trimmed t"
  shows "splitByKeyword (Join ts ('' '' @ kw @ '' '')) kw = ts"
  unfolding splitByKeyword_def using split_joined [OF assms, of None "[]"] by (simp add: boundary_def)

lemma keyword_words: "keyword_ok ''OR''" "keyword_ok ''AND''"
  by (simp_all add: keyword_ok_def isWordChar_def upper_char_def)

section \<open>Comparisons\<close>

datatype sql_lit = LInt int | LStr string

type_synonym comparison = "string \<times> (string \<times> string) \<times> sql_lit"

fun lit_text :: "sql_lit \<Rightarrow> string" where
  "lit_text (LInt n) = show_int n"
| "lit_text (LStr s) = CHR 0x27 # s @ [CHR 0x27]"

fun lit_val :: "sql_lit \<Rightarrow> go_value" where
  "lit_val (LInt n) = VInt64 n"
| "lit_val (LStr s) = VString s"

text \<open>A string literal may hold anything but its quote and the characters of the comparison operators.\<close>

definition op_char :: "char \<Rightarrow> bool" where
  "op_char c \<longleftrightarrow> c \<in> set ''<>=!''"

fun lit_ok :: "sql_lit \<Rightarrow> bool" where
  "lit_ok (LInt n) = int64_range n"
| "lit_ok (LStr s) = list_all (\<lambda>c. c \<noteq> CHR 0x27 \<and> \<not> op_char c) s"

definition comparison_ops :: "(string \<times> string) list" where
  "comparison_ops = take 7 sql_operators"

fun comparison_ok :: "comparison \<Rightarrow> bool" where
  "comparison_ok (f, so, l) \<longleftrightarrow> f \<noteq> [] \<and> list_all isWordChar f \<and> ToUpper f \<notin> {''OR'', ''AND'', ''NOT''}
     \<and> so \<in> set comparison_ops \<and> lit_ok l"

fun comparison_text :: "comparison \<Rightarrow> string" where
  "comparison_text (f, (sql, op), l) = f @ CHR '' '' # sql @ CHR '' '' # lit_text l"

fun comparison_tree :: "comparison \<Rightarrow> filter_expr" where
  "comparison_tree (f, (sql, op), l) = leaf f op (lit_val l)"

definition and_text :: "comparison list \<Rightarrow> string" where
  "and_text cs = Join (map comparison_text cs) '' AND ''"

definition where_text :: "comparison list list \<Rightarrow> string" where
  "where_text ds = Join (map and_text ds) '' OR ''"

definition and_tree :: "comparison list \<Rightarrow> filter_expr" where
  "and_tree cs = (case cs of [c] \<Rightarrow> comparison_tree c | _ \<Rightarrow> FilterExpr [] [] VNil (map comparison_tree cs) [] None)"

definition where_tree :: "comparison list list \<Rightarrow> filter_expr" where
  "where_tree ds = (case ds of [cs] \<Rightarrow> and_tree cs | _ \<Rightarrow> FilterExpr [] [] VNil [] (map and_tree ds) None)"

section \<open>Integers\<close>

lemma digit_char_facts:
  assumes "d < 10"
  shows "isWordChar (digit_char d)" "\<not> op_char (digit_char d)" "upper_char (digit_char d) = digit_char d"
    "of_char (digit_char d) = 48 + d"
proof -
  show o: "of_char (digit_char d) = 48 + d" using assms by (simp add: digit_char_def)
  show "isWordChar (digit_char d)" using assms by (simp add: isWordChar_def o)
  then show "\<not> op_char (digit_char d)" using word_plain(4) by (simp add: op_char_def)
  show "upper_char (digit_char d) = digit_char d" using assms by (simp add: upper_char_def o)
qed

lemma digits_val_digits:
  "\<forall>d \<in> set ds. d < 10 \<Longrightarrow> digits_val acc (map digit_char ds) = Some (foldl (\<lambda>v d. 10 * v + d) acc ds)"
  by (induction ds arbitrary: acc) (simp_all add: digit_char_facts(4))

lemma dec_digits_ne: "dec_digits n \<noteq> []"
  by (cases "n < 10") (simp_all add: dec_digits.simps [of n])

lemma show_int_form:
  obtains ds where "show_int n = (if n < 0 then ''-'' else []) @ map digit_char ds" "ds \<noteq> []" "\<forall>d \<in> set ds. d < 10"
    "foldl (\<lambda>v d. 10 * v + d) 0 ds = nat \<bar>n\<bar>"
  using dec_digits_bound dec_digits_ne dec_digits_value by (auto simp: show_int_def)

lemma ParseInt_show: assumes "int64_range n" shows "ParseInt (show_int n) = Some n"
proof -
  obtain ds where ds: "show_int n = (if n < 0 then ''-'' else []) @ map digit_char ds" "ds \<noteq> []" "\<forall>d \<in> set ds. d < 10"
    "foldl (\<lambda>v d. 10 * v + d) 0 ds = nat \<bar>n\<bar>" by (rule show_int_form)
  have v: "digits_val 0 (map digit_char ds) = Some (nat \<bar>n\<bar>)" using digits_val_digits [OF ds(3), of 0] ds(4) by simp
  show ?thesis
  proof (cases "n < 0")
    case True
    then show ?thesis using ds(1,2) v assms by (simp add: ParseInt_def)
  next
    case False
    obtain d r where d: "ds = d # r" using ds(2) by (cases ds) auto
    then have w: "isWordChar (digit_char d)" using ds(3) digit_char_facts(1) by simp
    then have "digit_char d \<noteq> CHR ''-''" "digit_char d \<noteq> CHR ''+''" by (auto simp: isWordChar_def)
    then show ?thesis using False ds(1) v assms d by (simp add: ParseInt_def)
  qed
qed

lemma digits_word: "ds \<noteq> [] \<Longrightarrow> \<forall>d \<in> set ds. d < 10 \<Longrightarrow> map digit_char ds \<noteq> [] \<and> list_all isWordChar (map digit_char ds)
    \<and> ToUpper (map digit_char ds) = map digit_char ds"
  using digit_char_facts by (auto simp: list_all_iff ToUpper_def)

lemma digits_not_keyword:
  assumes "ds \<noteq> []" and "\<forall>d \<in> set ds. d < 10" and "kw = c # k" and "of_char c > (57 :: nat)"
  shows "map digit_char ds \<noteq> kw"
proof
  assume "map digit_char ds = kw"
  then obtain d r where "ds = d # r" "digit_char d = c" using assms(1,3) by (cases ds) auto
  with assms(2,4) digit_char_facts(4) [of d] show False by simp
qed

section \<open>Literals\<close>

lemma lit_sealed:
  assumes "lit_ok l" and kw: "keyword_ok kw" "kw = c # k" "of_char c > (57 :: nat)"
  shows "sealed kw (lit_text l)"
proof (cases l)
  case (LStr s)
  with assms(1) show ?thesis using sealed_quoted [of "CHR 0x27" s kw] by (auto simp: is_quote_def list_all_iff)
next
  case (LInt n)
  obtain ds where ds: "show_int n = (if n < 0 then ''-'' else []) @ map digit_char ds" "ds \<noteq> []" "\<forall>d \<in> set ds. d < 10"
    by (rule show_int_form)
  note w = digits_word [OF ds(2,3)]
  have "sealed kw (map digit_char ds)"
    using sealed_word [OF kw(1)] w digits_not_keyword [OF ds(2,3) kw(2,3)] by simp
  then show ?thesis using LInt ds(1) sealed_plain [OF kw(1) plain_chars(6)] by simp
qed

lemma lit_trimmed: "lit_ok l \<Longrightarrow> trimmed (lit_text l)"
proof (cases l)
  case (LInt n)
  obtain ds where ds: "show_int n = (if n < 0 then ''-'' else []) @ map digit_char ds" "ds \<noteq> []" "\<forall>d \<in> set ds. d < 10"
    by (rule show_int_form)
  have s: "\<not> is_space (digit_char d)" if "d < 10" for d using word_plain(3) digit_char_facts(1) [OF that] by blast
  have "\<not> is_space (hd (map digit_char ds))" "\<not> is_space (last (map digit_char ds))"
    using ds(2,3) s by (simp_all add: hd_map last_map)
  then show ?thesis using LInt ds(1,2) by (simp add: trimmed_def is_space_def)
qed (simp add: trimmed_def is_space_def)

lemma lit_no_op: "lit_ok l \<Longrightarrow> list_all (\<lambda>c. \<not> op_char c) (lit_text l)"
proof (cases l)
  case (LInt n)
  obtain ds where ds: "show_int n = (if n < 0 then ''-'' else []) @ map digit_char ds" "\<forall>d \<in> set ds. d < 10"
    by (rule show_int_form)
  have "list_all (\<lambda>c. \<not> op_char c) (map digit_char ds)" using ds(2) digit_char_facts(2) by (simp add: list_all_iff)
  with LInt ds(1) show ?thesis by (simp add: op_char_def)
qed (auto simp: op_char_def list_all_iff)

lemma parseValue_lit: assumes "lit_ok l" shows "parseValue pf (lit_text l) = Inr (lit_val l)"
proof (cases l)
  case (LStr s)
  have "quoted_by (CHR 0x27) (CHR 0x27 # s @ [CHR 0x27])" by (simp add: quoted_by_def HasPrefix_def HasSuffix_def)
  moreover have "strip_ends (CHR 0x27 # s @ [CHR 0x27]) = s" by (simp add: strip_ends_def)
  ultimately show ?thesis using LStr TrimSpace_trimmed [OF lit_trimmed [OF assms]] by (simp add: parseValue.simps)
next
  case (LInt n)
  obtain ds where ds: "show_int n = (if n < 0 then ''-'' else []) @ map digit_char ds" "ds \<noteq> []" "\<forall>d \<in> set ds. d < 10"
    by (rule show_int_form)
  obtain c r where c: "show_int n = c # r" "c = CHR ''-'' \<or> (\<exists>d < 10. c = digit_char d)"
  proof (cases "n < 0")
    case True
    with ds(1) that show ?thesis by simp
  next
    case False
    obtain d e where d: "ds = d # e" using ds(2) by (cases ds) auto
    show ?thesis by (rule that [of "digit_char d" "map digit_char e"]) (use False ds d in auto)
  qed
  have cn: "of_char c < (58 :: nat) \<and> of_char c > (44 :: nat)" using c(2) digit_char_facts(4) by auto
  then have cc: "of_char c < (58 :: nat)" "c \<noteq> CHR 0x27" "c \<noteq> CHR 0x22" "c \<noteq> CHR ''(''" by auto
  have "upper_char c = c" using cc(1) by (simp add: upper_char_def)
  then have "ToUpper (show_int n) \<notin> {''NULL'', ''TRUE'', ''FALSE''}" using c(1) cc(1) by (auto simp: ToUpper_def)
  moreover have "\<not> quoted_by (CHR 0x27) (show_int n)" "\<not> quoted_by (CHR 0x22) (show_int n)" "\<not> HasPrefix (show_int n) ''(''"
    using c(1) cc by (auto simp: quoted_by_def HasPrefix_def)
  moreover have "TrimSpace (show_int n) = show_int n" using TrimSpace_trimmed [OF lit_trimmed [OF assms]] LInt by simp
  ultimately show ?thesis using LInt ParseInt_show [of n] assms by (simp add: parseValue.simps)
qed

section \<open>The operator is found\<close>

text \<open>An operator that occurs in the text occurs in what is left of it when all other characters are removed.\<close>

lemma filter_ops:
  assumes "list_all (\<lambda>c. \<not> op_char c) u" and "list_all (\<lambda>c. \<not> op_char c) v" and "list_all op_char sql"
  shows "filter op_char (u @ sql @ v) = sql"
proof -
  have "filter op_char u = []" "filter op_char v = []" using assms(1,2) by (auto simp: list_all_iff filter_empty_conv)
  moreover have "filter op_char sql = sql" using assms(3) by (simp add: list_all_iff filter_id_conv)
  ultimately show ?thesis by simp
qed

lemma Index_other:
  assumes f: "filter op_char t = sql" and o: "list_all op_char o'" and n: "\<And>x y. sql \<noteq> x @ o' @ y"
  shows "Index t o' = None"
proof (rule ccontr)
  assume "Index t o' \<noteq> None"
  then obtain x y where "t = x @ o' @ y" using Contains_iff [of t o'] by (auto simp: Contains_str_def)
  then have "filter op_char t = filter op_char x @ o' @ filter op_char y" using o by (simp add: list_all_iff filter_id_conv)
  with f n show False by metis
qed

lemma Index_here:
  "list_all (\<lambda>c. \<not> op_char c) u \<Longrightarrow> sql \<noteq> [] \<Longrightarrow> op_char (hd sql) \<Longrightarrow> Index (u @ sql @ v) sql = Some (length u)"
proof (induction u)
  case Nil
  then show ?case by (cases sql) (simp_all add: HasPrefix_def)
next
  case (Cons c u)
  have "\<not> HasPrefix (c # u @ sql @ v) sql"
  proof
    assume "HasPrefix (c # u @ sql @ v) sql"
    then have "hd sql = c" using Cons.prems(2) by (cases sql) (auto simp: HasPrefix_iff)
    with Cons.prems show False by simp
  qed
  with Cons show ?case by simp
qed

lemma comparison_ops_list:
  "comparison_ops = [(''<>'', ''ne''), (''!='', ''ne''), (''<='', ''lte''), (''>='', ''gte''), (''<'', ''lt''), (''>'', ''gt''), (''='', ''eq'')]"
  by (simp add: comparison_ops_def sql_operators_def)

text \<open>The operators listed before a comparison are symbols that do not occur in it.\<close>

lemma earlier_operators:
  assumes "so \<in> set comparison_ops"
  obtains pre post where "sql_operators = pre @ so # post"
    "\<forall>o' \<in> fst ` set pre. list_all op_char o' \<and> \<not> sublist o' (fst so) \<and> \<not> HasPrefix o' '' ''"
proof
  have "so \<in> set sql_operators" using assms by (auto simp: comparison_ops_list sql_operators_def)
  then have "so \<in> set sql_operators \<and> hd (dropWhile (\<lambda>x. x \<noteq> so) sql_operators) = so \<and> dropWhile (\<lambda>x. x \<noteq> so) sql_operators \<noteq> []"
    using hd_dropWhile [of "\<lambda>x. x \<noteq> so" sql_operators] by (auto simp: dropWhile_eq_Nil_conv)
  then show "sql_operators = takeWhile (\<lambda>x. x \<noteq> so) sql_operators @ so # tl (dropWhile (\<lambda>x. x \<noteq> so) sql_operators)"
    by (metis hd_Cons_tl takeWhile_dropWhile_id)
  have "\<forall>so \<in> set comparison_ops. \<forall>o' \<in> fst ` set (takeWhile (\<lambda>x. x \<noteq> so) sql_operators).
      list_all op_char o' \<and> \<not> sublist o' (fst so) \<and> \<not> HasPrefix o' '' ''"
    by (auto simp: comparison_ops_list sql_operators_def sublist_code op_char_def HasPrefix_def)
  then show "\<forall>o' \<in> fst ` set (takeWhile (\<lambda>x. x \<noteq> so) sql_operators). list_all op_char o' \<and> \<not> sublist o' (fst so) \<and> \<not> HasPrefix o' '' ''"
    using assms by blast
qed

lemma try_comparison:
  assumes u: "list_all (\<lambda>c. \<not> op_char c) u" and v: "list_all (\<lambda>c. \<not> op_char c) v" and so: "(sql, op) \<in> set comparison_ops"
  shows "try_operators pf (u @ sql @ v) sql_operators
    = (case parseValue pf (TrimSpace v) of Inl e \<Rightarrow> Inl e | Inr w \<Rightarrow> Inr (leaf (TrimSpace u) op w))"
proof -
  have all: "list_all op_char sql" "sql \<noteq> []" "op_char (hd sql)" "\<not> HasPrefix sql '' ''" "op \<noteq> ''is_null''" "op \<noteq> ''is_not_null''"
    using so by (auto simp: comparison_ops_def sql_operators_def op_char_def HasPrefix_def)
  note here = Index_here [OF u all(2,3), of v] and flt = filter_ops [OF u v all(1)]
  have other: "Index (u @ sql @ v) o' = None" if "list_all op_char o'" "\<not> sublist o' sql" for o'
    using Index_other [OF flt that(1)] that(2) by (auto simp: sublist_def)
  have skip: "try_operators pf (u @ sql @ v) ((o', p) # ops) = try_operators pf (u @ sql @ v) ops"
    if "list_all op_char o'" "\<not> sublist o' sql" "\<not> HasPrefix o' '' ''" for o' p ops
    using other [OF that(1,2)] that(3) by simp
  have found: "try_operators pf (u @ sql @ v) ((sql, op) # ops)
    = (case parseValue pf (TrimSpace v) of Inl e \<Rightarrow> Inl e | Inr w \<Rightarrow> Inr (leaf (TrimSpace u) op w))" for ops
    using here all(4-6) by (simp add: Let_def)
  obtain pre post where ops: "sql_operators = pre @ (sql, op) # post"
    and pre: "\<forall>o' \<in> fst ` set pre. list_all op_char o' \<and> \<not> sublist o' sql \<and> \<not> HasPrefix o' '' ''"
    by (rule earlier_operators [OF so, unfolded fst_conv])
  have "try_operators pf (u @ sql @ v) (pre @ (sql, op) # post) = try_operators pf (u @ sql @ v) ((sql, op) # post)"
    using pre
  proof (induction pre)
    case (Cons x pre)
    then show ?case using skip [of "fst x" "snd x" "pre @ (sql, op) # post"] by (simp del: try_operators.simps)
  qed simp
  then show ?thesis unfolding ops using found by simp
qed

section \<open>The round trip\<close>

lemma comparison_first:
  assumes "comparison_ok c"
  obtains f r where "comparison_text c = f @ CHR '' '' # r" "f \<noteq> []" "list_all isWordChar f" "ToUpper f \<noteq> ''NOT''"
  using assms by (cases c rule: comparison_text.cases) auto

lemma comparison_trimmed: "comparison_ok c \<Longrightarrow> trimmed (comparison_text c)"
proof (cases c rule: comparison_text.cases)
  case (1 f sql op l)
  assume ok: "comparison_ok c"
  with 1 have f: "f \<noteq> []" "list_all isWordChar f" and l: "lit_ok l" by simp_all
  have "\<not> is_space (hd f)" using f by (cases f) (auto dest: word_plain(3))
  with f lit_trimmed [OF l] 1 show ?thesis by (simp add: trimmed_def)
qed

lemma op_sealed:
  assumes "keyword_ok kw" and "so \<in> set comparison_ops" and "sealed kw t"
  shows "sealed kw (fst so @ CHR '' '' # t)"
  using assms(2) sealed_plain [OF assms(1) plain_chars(1) assms(3)] sealed_plain [OF assms(1)] plain_chars(2-5)
  by (auto simp: comparison_ops_def sql_operators_def)

lemma comparison_sealed:
  assumes ok: "comparison_ok c" and kw: "kw \<in> {''OR'', ''AND''}"
  shows "sealed kw (comparison_text c)"
proof (cases c rule: comparison_text.cases)
  case (1 f sql op l)
  have k: "keyword_ok kw" using kw keyword_words by auto
  have "\<exists>d ks. kw = d # ks \<and> of_char d > (57 :: nat)" using kw by (elim insertE emptyE) simp_all
  then obtain d ks where d: "kw = d # ks" "of_char d > (57 :: nat)" by blast
  from ok 1 have f: "f \<noteq> []" "list_all isWordChar f" "ToUpper f \<noteq> kw" and so: "(sql, op) \<in> set comparison_ops" and l: "lit_ok l"
    using kw by auto
  have "sealed kw (sql @ CHR '' '' # lit_text l)" using op_sealed [OF k so lit_sealed [OF l k d]] by simp
  from sealed_join [OF k sealed_word [OF k f] plain_chars(1) this] show ?thesis using 1 by simp
qed

lemma and_sealed: "cs \<noteq> [] \<Longrightarrow> \<forall>c \<in> set cs. comparison_ok c \<Longrightarrow> sealed ''OR'' (and_text cs) \<and> trimmed (and_text cs)"
proof (induction cs rule: induct_list012)
  case (2 c)
  then show ?case using comparison_sealed [of c "''OR''"] comparison_trimmed [of c] by (simp add: and_text_def)
next
  case (3 c d cs)
  have IH: "sealed ''OR'' (and_text (d # cs))" "trimmed (and_text (d # cs))" using 3 by simp_all
  have c: "sealed ''OR'' (comparison_text c)" "trimmed (comparison_text c)" using 3 comparison_sealed [of c "''OR''"] comparison_trimmed [of c] by simp_all
  have w: "sealed ''OR'' ''AND''" by (rule sealed_word [OF keyword_words(1)]) (simp_all add: isWordChar_def ToUpper_def upper_char_def)
  have "sealed ''OR'' (''AND'' @ CHR '' '' # and_text (d # cs))" by (rule sealed_join [OF keyword_words(1) w plain_chars(1) IH(1)])
  from sealed_join [OF keyword_words(1) c(1) plain_chars(1) this]
  have "sealed ''OR'' (and_text (c # d # cs))" by (simp add: and_text_def)
  moreover have "trimmed (and_text (c # d # cs))" using c(2) IH(2) by (simp add: and_text_def trimmed_def)
  ultimately show ?case by blast
qed simp

lemma parse_comparison:
  assumes ok: "comparison_ok c" shows "parseSingleCondition pf (comparison_text c) = Inr (comparison_tree c)"
proof (cases c rule: comparison_text.cases)
  case (1 f sql op l)
  from ok 1 have f: "f \<noteq> []" "list_all isWordChar f" and so: "(sql, op) \<in> set comparison_ops" and l: "lit_ok l" by auto
  have np: "\<not> HasPrefix (comparison_text c) ''(''"
    using f 1 by (cases f) (auto simp: HasPrefix_def isWordChar_def)
  have fo: "list_all (\<lambda>c. \<not> op_char c) f" using f(2) word_plain(4) by (auto simp: list_all_iff op_char_def)
  have u: "list_all (\<lambda>c. \<not> op_char c) (f @ '' '')" using fo by (simp add: op_char_def)
  have v: "list_all (\<lambda>c. \<not> op_char c) (CHR '' '' # lit_text l)" using lit_no_op [OF l] by (simp add: op_char_def)
  have ends: "\<not> is_space (hd f)" "\<not> is_space (last f)" using f word_plain(3) by (auto simp: list_all_iff)
  have sp: "list_all is_space '' ''" by (simp add: is_space_def)
  have tu: "TrimSpace (f @ '' '') = f" using TrimSpace_pad [OF f(1) ends _ sp, of "[]"] by simp
  have lt: "trimmed (lit_text l)" by (rule lit_trimmed [OF l])
  have tv: "TrimSpace (CHR '' '' # lit_text l) = lit_text l" using TrimSpace_pad [of "lit_text l" "'' ''" "[]"] lt sp by (simp add: trimmed_def)
  have "parseSingleCondition pf (comparison_text c) = try_operators pf (comparison_text c) sql_operators"
    using TrimSpace_trimmed [OF comparison_trimmed [OF ok]] np by (simp add: parseSingleCondition_def strip_parens.simps)
  also have "comparison_text c = (f @ '' '') @ sql @ CHR '' '' # lit_text l" using 1 by simp
  finally show ?thesis unfolding try_comparison [OF u v so] tu tv parseValue_lit [OF l] using 1 by simp
qed

lemma not_prefix: assumes "comparison_ok c" shows "\<not> HasPrefix (ToUpper (comparison_text c)) ''NOT ''"
proof
  assume "HasPrefix (ToUpper (comparison_text c)) ''NOT ''"
  then obtain t where t: "ToUpper (comparison_text c) = ''NOT '' @ t" by (auto simp: HasPrefix_iff)
  obtain f r where f: "comparison_text c = f @ CHR '' '' # r" "list_all isWordChar f" "ToUpper f \<noteq> ''NOT''" by (rule comparison_first [OF assms])
  have w: "list_all isWordChar (ToUpper f)" using f(2) by (simp add: ToUpper_def list_all_iff)
  have sp: "upper_char (CHR '' '') = CHR '' ''" "\<not> isWordChar (CHR '' '')" by (simp_all add: upper_char_def isWordChar_def)
  have e: "ToUpper f @ CHR '' '' # ToUpper r = ''NOT '' @ t" using t f(1) sp(1) by (simp add: ToUpper_def)
  have "takeWhile isWordChar (ToUpper f @ CHR '' '' # ToUpper r) = ToUpper f" using w sp(2) by (simp add: list_all_iff takeWhile_tail)
  moreover have "takeWhile isWordChar (''NOT '' @ t) = ''NOT''" using sp(2) by (simp add: isWordChar_def)
  ultimately show False using e f(3) by simp
qed

lemma splitByKeyword_single: "keyword_ok kw \<Longrightarrow> sealed kw t \<Longrightarrow> trimmed t \<Longrightarrow> splitByKeyword t kw = [t]"
  using splitByKeyword_joined [of kw "[t]"] by simp

lemma parse_atom: assumes ok: "comparison_ok c" shows "parseWhereClause pf (comparison_text c) = Inr (comparison_tree c)"
  using TrimSpace_trimmed [OF comparison_trimmed [OF ok]] parse_comparison [OF ok] not_prefix [OF ok]
    splitByKeyword_single [OF keyword_words(1) comparison_sealed [OF ok] comparison_trimmed [OF ok]]
    splitByKeyword_single [OF keyword_words(2) comparison_sealed [OF ok] comparison_trimmed [OF ok]]
  by (simp add: parseWhereClause.simps)

lemma map_err_map: "\<forall>x \<in> set xs. f (g x) = Inr (h x) \<Longrightarrow> map_err f (map g xs) = Inr (map h xs)"
  by (induction xs) auto

lemma parse_and:
  assumes ne: "cs \<noteq> []" and ok: "\<forall>c \<in> set cs. comparison_ok c"
  shows "parseWhereClause pf (and_text cs) = Inr (and_tree cs)"
proof (cases "\<exists>c. cs = [c]")
  case True
  then show ?thesis using ok parse_atom by (auto simp: and_text_def and_tree_def)
next
  case False
  with ne have l: "length cs > 1" by (cases cs; cases "tl cs") auto
  note s = and_sealed [OF ne ok]
  have o: "splitByKeyword (and_text cs) ''OR'' = [and_text cs]" using splitByKeyword_single [OF keyword_words(1)] s by blast
  have a: "splitByKeyword (and_text cs) ''AND'' = map comparison_text cs"
    using splitByKeyword_joined [OF keyword_words(2), of "map comparison_text cs"] ne ok comparison_sealed comparison_trimmed
    by (simp add: and_text_def)
  have "map_err (parseWhereClause pf) (map comparison_text cs) = Inr (map comparison_tree cs)"
    by (rule map_err_map) (use ok parse_atom in auto)
  moreover have "and_tree cs = FilterExpr [] [] VNil (map comparison_tree cs) [] None"
    using l by (cases cs; cases "tl cs") (auto simp: and_tree_def)
  ultimately show ?thesis using TrimSpace_trimmed s o a l by (simp add: parseWhereClause.simps [of pf "and_text cs"])
qed

lemma parse_where:
  assumes ne: "ds \<noteq> []" and ok: "\<forall>cs \<in> set ds. cs \<noteq> [] \<and> (\<forall>c \<in> set cs. comparison_ok c)"
  shows "parseWhereClause pf (where_text ds) = Inr (where_tree ds)"
proof (cases "\<exists>cs. ds = [cs]")
  case True
  then show ?thesis using ok parse_and by (auto simp: where_text_def where_tree_def)
next
  case False
  with ne have l: "length ds > 1" by (cases ds; cases "tl ds") auto
  have s: "\<forall>t \<in> set (map and_text ds). sealed ''OR'' t \<and> trimmed t" using ok and_sealed by auto
  have o: "splitByKeyword (where_text ds) ''OR'' = map and_text ds"
    using splitByKeyword_joined [OF keyword_words(1) _ s] ne by (simp add: where_text_def)
  have trim: "trimmed (Join ts '' OR '')" if "ts \<noteq> []" "\<forall>t \<in> set ts. trimmed t" for ts
    using that by (induction ts rule: induct_list012) (auto simp: trimmed_def)
  have "trimmed (where_text ds)" unfolding where_text_def by (rule trim) (use ne s in auto)
  moreover have "map_err (parseWhereClause pf) (map and_text ds) = Inr (map and_tree ds)"
    by (rule map_err_map) (use ok parse_and in auto)
  moreover have "where_tree ds = FilterExpr [] [] VNil [] (map and_tree ds) None"
    using l by (cases ds; cases "tl ds") (auto simp: where_tree_def)
  ultimately show ?thesis using TrimSpace_trimmed o l by (simp add: parseWhereClause.simps [of pf "where_text ds"])
qed

end
