(* ===== verification/Sql_Executor.thy ===== *)
theory Sql_Executor
  imports Sql_Facts Payload_Facts
begin

text \<open>
  What \<open>pkg/query/executor.go\<close> does with a parsed query before and after it calls the collection: the payload
  filter it builds, the limits and the configuration it derives, the point a DELETE names and the rows it returns.
\<close>

section \<open>Filters\<close>

fun buildFilter :: "filter_expr \<Rightarrow> pfilter option" where
  "buildFilter (FilterExpr field op v ands ors nt) =
    (if ands \<noteq> [] then Some (And (filter (\<lambda>f. f \<noteq> None) (map buildFilter ands)))
     else if ors \<noteq> [] then Some (Or (filter (\<lambda>f. f \<noteq> None) (map buildFilter ors)))
     else case nt of
       Some f \<Rightarrow> (case buildFilter f of Some g \<Rightarrow> Some (Not_filter (Some g)) | None \<Rightarrow> None)
     | None \<Rightarrow>
       if op = ''ne'' then Some (Not_filter (Some (Field field (Some (Eq v)))))
       else Some (Field field
         (if op = ''eq'' then Some (Eq v)
          else if op = ''lt'' then Some (Lt v)
          else if op = ''lte'' then Some (Lte v)
          else if op = ''gt'' then Some (Gt v)
          else if op = ''gte'' then Some (Gte v)
          else if op = ''in'' then (case v of VList arr \<Rightarrow> Some (In arr) | _ \<Rightarrow> None)
          else if op = ''like'' then (case v of VString s \<Rightarrow> Some (Contains s) | _ \<Rightarrow> None)
          else if op = ''is_null'' then Some IsNull
          else if op = ''is_not_null'' then Some IsNotNull
          else Some (Eq v))))"

definition query_filter :: "'f sql_query \<Rightarrow> pfilter option" where
  "query_filter q = (case qFilter q of None \<Rightarrow> None | Some f \<Rightarrow> buildFilter f)"

section \<open>Limits, targets and configurations\<close>

definition select_limit :: "'f sql_query \<Rightarrow> int" where
  "select_limit q = (if qLimit q \<le> 0 then 100 else qLimit q)"

definition search_limit :: "'f sql_query \<Rightarrow> int" where
  "search_limit q = (if qLimit q \<le> 0 then 10 else qLimit q)"

datatype exec_error = NoPoints | DeleteNeedsWhere | IdMustBeString | DeleteOnlyById | MissingConfig

text \<open>The points \<open>executeInsert\<close> inserts.\<close>

definition insert_targets :: "'f sql_query \<Rightarrow> exec_error + pt list" where
  "insert_targets q = (if length (qPoints q) = 0 then Inl NoPoints else Inr (qPoints q))"

text \<open>The point \<open>executeDelete\<close> removes.\<close>

definition delete_target :: "'f sql_query \<Rightarrow> exec_error + string" where
  "delete_target q = (case qFilter q of None \<Rightarrow> Inl DeleteNeedsWhere
     | Some f \<Rightarrow> if feField f = ''id'' \<and> feOperator f = ''eq''
         then (case feValue f of VString i \<Rightarrow> Inr i | _ \<Rightarrow> Inl IdMustBeString)
         else Inl DeleteOnlyById)"

datatype metric_type = MetricCosine | MetricEuclidean | MetricDotProduct

text \<open>Name, dimension and metric of the collection \<open>executeCreateTable\<close> creates.\<close>

definition create_config :: "'f sql_query \<Rightarrow> exec_error + string \<times> int \<times> metric_type" where
  "create_config q = (case qConfig q of None \<Rightarrow> Inl MissingConfig
     | Some cfg \<Rightarrow> Inr (ccName cfg, if ccDimension cfg \<le> 0 then 128 else ccDimension cfg,
         if ccMetric cfg \<in> {''euclidean'', ''l2''} then MetricEuclidean
         else if ccMetric cfg \<in> {''dot'', ''dotproduct''} then MetricDotProduct else MetricCosine))"

section \<open>Rows\<close>

definition hasColumn :: "string list \<Rightarrow> string \<Rightarrow> bool" where
  "hasColumn columns col \<longleftrightarrow> list_ex (\<lambda>c. c = col \<or> c = ''*'') columns"

datatype 'f cell = CID string | CScore 'f | CVector "'f list" | CVal go_value

type_synonym 'f row = "string \<rightharpoonup> 'f cell"

definition add_payload :: "go_map \<Rightarrow> 'f row \<Rightarrow> 'f row" where
  "add_payload payload row = row ++ (\<lambda>k. map_option CVal (map_of payload k))"

fun add_columns :: "string list \<Rightarrow> 'f list \<Rightarrow> go_map \<Rightarrow> string list \<Rightarrow> 'f row \<Rightarrow> 'f row" where
  "add_columns skip vec payload [] row = row"
| "add_columns skip vec payload (col # cols) row =
    add_columns skip vec payload cols
      (if col \<in> set skip then row
       else if col = ''vector'' then row(''vector'' \<mapsto> CVector vec)
       else case map_of payload col of Some v \<Rightarrow> row(col \<mapsto> CVal v) | None \<Rightarrow> row)"

definition fill_row :: "string list \<Rightarrow> string list \<Rightarrow> 'f list \<Rightarrow> go_map \<Rightarrow> 'f row \<Rightarrow> 'f row" where
  "fill_row skip columns vec payload row =
    (if hasColumn columns ''*'' \<or> hasColumn columns ''payload'' then add_payload payload row
     else add_columns skip vec payload columns row)"

text \<open>The rows of \<open>executeSelect\<close> and of \<open>executeVectorSearch\<close>.\<close>

definition select_row :: "string list \<Rightarrow> string \<Rightarrow> 'f list \<Rightarrow> go_map \<Rightarrow> 'f row" where
  "select_row columns i vec payload = fill_row [''id''] columns vec payload [''id'' \<mapsto> CID i]"

definition search_row :: "string list \<Rightarrow> string \<Rightarrow> 'f \<Rightarrow> 'f list \<Rightarrow> go_map \<Rightarrow> 'f row" where
  "search_row columns i score vec payload = fill_row [''id'', ''_score''] columns vec payload [''id'' \<mapsto> CID i, ''_score'' \<mapsto> CScore score]"

section \<open>The meaning of a comparison\<close>

text \<open>What the WHERE clause should select: numbers are compared as float64 values, strings without case, and a field
  that is missing or of another type differs from the literal and is neither below nor above it.\<close>

definition ordering_holds :: "string \<Rightarrow> bool \<Rightarrow> bool \<Rightarrow> bool \<Rightarrow> bool" where
  "ordering_holds op same lower higher \<longleftrightarrow> (if op = ''eq'' then same else if op = ''ne'' then \<not> same
     else if op = ''lt'' then lower else if op = ''gt'' then higher else if op = ''lte'' then \<not> higher else \<not> lower)"

fun comparison_holds :: "go_map \<Rightarrow> comparison \<Rightarrow> bool" where
  "comparison_holds p (f, (sql, op), LInt n) = (case toFloat64 (map_get p f) of
     Some x \<Rightarrow> ordering_holds op (f64_eq x (int_to_f64 n)) (f64_lt x (int_to_f64 n)) (f64_lt (int_to_f64 n) x)
   | None \<Rightarrow> ordering_holds op False False False)"
| "comparison_holds p (f, (sql, op), LStr s) = (case map_get p f of
     VString t \<Rightarrow> ordering_holds op (EqualFold t s) False False
   | _ \<Rightarrow> ordering_holds op False False False)"

lemma getFieldValue_word: "f \<noteq> [] \<Longrightarrow> list_all isWordChar f \<Longrightarrow> getFieldValue f p = map_get p f"
proof -
  assume "list_all isWordChar f"
  then have "Split (CHR ''.'') f = [f]" by (induction f) (auto simp: isWordChar_def)
  then show ?thesis by (simp add: getFieldValue_def)
qed

lemma compareEqual_lit: "compareEqual a (lit_val l) = Some (case l of
    LInt n \<Rightarrow> (case toFloat64 a of Some x \<Rightarrow> f64_eq x (int_to_f64 n) | None \<Rightarrow> False)
  | LStr s \<Rightarrow> (case a of VString t \<Rightarrow> EqualFold t s | _ \<Rightarrow> False))"
  by (cases l; cases a) (simp_all add: compareEqual_def)

lemma compareNumeric_lit:
  "compareNumeric a (lit_val l) < 0 \<longleftrightarrow> (case l of LInt n \<Rightarrow> (case toFloat64 a of Some x \<Rightarrow> f64_lt x (int_to_f64 n) | None \<Rightarrow> False) | LStr s \<Rightarrow> False)"
  "compareNumeric a (lit_val l) > 0 \<longleftrightarrow> (case l of LInt n \<Rightarrow> (case toFloat64 a of Some x \<Rightarrow> f64_lt (int_to_f64 n) x | None \<Rightarrow> False) | LStr s \<Rightarrow> False)"
  by (cases l; auto simp: compareNumeric_def split: option.split dest: f64_lt_not_eq)+

lemma Evaluate_comparison:
  assumes "comparison_ok c"
  shows "\<exists>g. buildFilter (comparison_tree c) = Some g \<and> Evaluate (Some g) p = Some (comparison_holds p c)"
proof (cases c rule: comparison_text.cases)
  case (1 f sql op l)
  with assms have f: "f \<noteq> []" "list_all isWordChar f" and op: "(sql, op) \<in> set comparison_ops" by simp_all
  have ops: "op \<in> {''eq'', ''ne'', ''lt'', ''gt'', ''lte'', ''gte''}" using op by (auto simp: comparison_ops_list)
  define a where "a = map_get p f"
  have ge: "compareNumeric a b \<ge> 0 \<longleftrightarrow> \<not> compareNumeric a b < 0" "compareNumeric a b \<le> 0 \<longleftrightarrow> \<not> compareNumeric a b > 0" for b by auto
  have gv: "getFieldValue f p = a" using getFieldValue_word [OF f] a_def by simp
  have h: "comparison_holds p c = ordering_holds op (the (compareEqual a (lit_val l))) (compareNumeric a (lit_val l) < 0) (compareNumeric a (lit_val l) > 0)"
    unfolding compareEqual_lit compareNumeric_lit 1
    by (cases l) (simp_all add: a_def split: option.split go_value.split)
  have eq: "compareEqual a (lit_val l) = Some (the (compareEqual a (lit_val l)))" by (simp add: compareEqual_lit)
  show ?thesis unfolding h using ops
    by (elim insertE emptyE; simp add: 1 leaf_def evaluateCondition_def cond_defs gv ordering_holds_def ge)
      (use eq in \<open>simp_all add: compareEqual_lit\<close>)
qed

lemma Evaluate_and:
  assumes "cs \<noteq> []" and "\<forall>c \<in> set cs. comparison_ok c"
  shows "\<exists>g. buildFilter (and_tree cs) = Some g \<and> Evaluate (Some g) p = Some (\<forall>c \<in> set cs. comparison_holds p c)"
proof (cases "\<exists>c. cs = [c]")
  case True
  then show ?thesis using assms Evaluate_comparison [of _ p] by (auto simp: and_tree_def)
next
  case False
  with assms(1) have t: "and_tree cs = FilterExpr [] [] VNil (map comparison_tree cs) [] None"
    by (cases cs; cases "tl cs") (auto simp: and_tree_def)
  have each: "buildFilter (comparison_tree c) \<noteq> None \<and> Evaluate (buildFilter (comparison_tree c)) p = Some (comparison_holds p c)"
    if "c \<in> set cs" for c using Evaluate_comparison [of c p] assms(2) that by auto
  have "filter (\<lambda>f. f \<noteq> None) (map (buildFilter \<circ> comparison_tree) cs) = map (buildFilter \<circ> comparison_tree) cs"
    unfolding filter_id_conv using each by force
  moreover have "evaluateAnd (\<lambda>f. Evaluate f p) (map (buildFilter \<circ> comparison_tree) cs) = Some (\<forall>c \<in> set cs. comparison_holds p c)"
  proof (subst evaluateAnd_total)
    fix f assume "f \<in> set (map (buildFilter \<circ> comparison_tree) cs)"
    then obtain c where "c \<in> set cs" "f = buildFilter (comparison_tree c)" unfolding set_map comp_def by (rule imageE)
    with each show "Evaluate f p \<noteq> None" by simp
  next
    have "(Evaluate (buildFilter (comparison_tree c)) p = Some True) = comparison_holds p c" if "c \<in> set cs" for c using each [OF that] by simp
    then show "Some (\<forall>f \<in> set (map (buildFilter \<circ> comparison_tree) cs). Evaluate f p = Some True) = Some (\<forall>c \<in> set cs. comparison_holds p c)"
      unfolding set_map ball_simps comp_def by simp
  qed
  ultimately show ?thesis using t assms(1) by simp
qed

lemma Evaluate_where:
  assumes "ds \<noteq> []" and "\<forall>cs \<in> set ds. cs \<noteq> [] \<and> (\<forall>c \<in> set cs. comparison_ok c)"
  shows "\<exists>g. buildFilter (where_tree ds) = Some g \<and> Evaluate (Some g) p = Some (\<exists>cs \<in> set ds. \<forall>c \<in> set cs. comparison_holds p c)"
proof (cases "\<exists>cs. ds = [cs]")
  case True
  then show ?thesis using assms Evaluate_and [of _ p] by (auto simp: where_tree_def)
next
  case False
  with assms(1) have t: "where_tree ds = FilterExpr [] [] VNil [] (map and_tree ds) None"
    by (cases ds; cases "tl ds") (auto simp: where_tree_def)
  have each: "buildFilter (and_tree cs) \<noteq> None \<and> Evaluate (buildFilter (and_tree cs)) p = Some (\<forall>c \<in> set cs. comparison_holds p c)"
    if "cs \<in> set ds" for cs using Evaluate_and [of cs p] assms(2) that by auto
  have "filter (\<lambda>f. f \<noteq> None) (map (buildFilter \<circ> and_tree) ds) = map (buildFilter \<circ> and_tree) ds" using each by (auto simp: filter_id_conv)
  moreover have "evaluateOr (\<lambda>f. Evaluate f p) (map (buildFilter \<circ> and_tree) ds) = Some (\<exists>cs \<in> set ds. \<forall>c \<in> set cs. comparison_holds p c)"
    by (subst evaluateOr_total) (use each assms(1) in auto)
  ultimately show ?thesis using t assms(1) by simp
qed

end
