(* ===== verification/Sql_Properties.thy ===== *)
theory Sql_Properties
  imports Sql_Executor
begin

text \<open>
  Properties of the SQL front end: the clauses it parses to their meaning and the ones it does not, the statements
  and the rows.
\<close>

section \<open>WHERE clauses\<close>

definition sample_where :: "comparison list list" where
  "sample_where = [[(''age'', (''>='', ''gte''), LInt 18), (''name'', (''='', ''eq''), LStr ''Rose AND (co'')], [(''vip'', (''<>'', ''ne''), LInt (-1))]]"

definition sample_where_text :: string where
  "sample_where_text = ''age >= 18 AND name = '' @ [CHR 0x27] @ ''Rose AND (co'' @ [CHR 0x27] @ '' OR vip <> -1''"

lemma sample_where_ok:
  "sample_where \<noteq> []" "\<forall>cs \<in> set sample_where. cs \<noteq> [] \<and> (\<forall>c \<in> set cs. comparison_ok c)"
  "where_text sample_where = sample_where_text"
  by code_simp+





text \<open>Clauses outside that form are silently misread: a disjunction in parentheses becomes an equality with the rest
  of its text as a string, a comparison character inside a string literal is taken for the operator, and a BETWEEN
  condition is never accepted, because its AND is split first.\<close>

theorem sql_where_misread:
  "parseWhereClause (\<lambda>s. None) ''(a = 1 OR b = 2)'' = Inr (leaf ''a'' ''eq'' (VString ''1 OR b = 2''))
   \<and> parseWhereClause (\<lambda>s. None) (''name = '' @ [CHR 0x27] @ ''x<y'' @ [CHR 0x27])
      = Inr (leaf (''name = '' @ CHR 0x27 # ''x'') ''lt'' (VString (''y'' @ [CHR 0x27])))
   \<and> parseWhereClause (\<lambda>s. None) ''a BETWEEN 1 AND 2'' = Inl (CannotParse ''2'')"
  by (intro conjI; code_simp)

section \<open>Statements\<close>

lemma grp_Ok: "i < length m \<Longrightarrow> grp m i = Ok (m ! i)"
  by (simp add: grp_def go_index_def)

lemma of_sum_not_Panic [simp]: "of_sum x \<noteq> Panic"
  by (cases x) simp_all

lemma bind_Panic: "bind_outcome x f = Panic \<longleftrightarrow> x = Panic \<or> (\<exists>z. x = Ok z \<and> f z = Panic)"
  by (cases x) simp_all

lemma clause_not_Panic:
  "with_where pf g q \<noteq> Panic" "with_limit g q \<noteq> Panic" "with_offset g q \<noteq> Panic"
  by (auto simp: with_where_def with_limit_def with_offset_def bind_Panic split: option.splits)

lemma clause_Ok:
  "with_where pf g q = Ok r \<Longrightarrow> qType r = qType q \<and> qVector r = qVector q \<and> qLimit r = qLimit q \<and> qPoints r = qPoints q"
  "with_limit g q = Ok r \<Longrightarrow> qType r = qType q \<and> qVector r = qVector q \<and> qPoints r = qPoints q"
  "with_offset g q = Ok r \<Longrightarrow> qType r = qType q \<and> qVector r = qVector q \<and> qLimit r = qLimit q \<and> qPoints r = qPoints q"
  by (auto simp: with_where_def with_limit_def with_offset_def split: option.splits if_splits)

lemma of_sum_Ok [simp]: "of_sum x = Ok y \<longleftrightarrow> x = Inr y"
  by (cases x) simp_all

lemma parse_elements_length: "parse_elements pf32 i ps = Inr vs \<Longrightarrow> length vs = length ps"
  by (induction pf32 i ps arbitrary: vs rule: parse_elements.induct) (auto split: option.splits sum.splits)

lemma parseVector_nonempty: "parseVector pf32 s = Inr vs \<Longrightarrow> vs \<noteq> []"
  using parse_elements_length [of pf32 0 "Split (CHR '','') s" vs] by (auto simp: parseVector_def)

text \<open>Every group a statement reads exists when the engine returns one string per group.\<close>

definition groups_ok :: "regex_engine \<Rightarrow> bool" where
  "groups_ok rx \<longleftrightarrow> (\<forall>r s m. rx r s = Some m \<longrightarrow> length m = group_count r)"

lemma matched_Panic: "matched rx r t query k = Panic \<longleftrightarrow> (\<exists>m. rx r query = Some m \<and> k m = Panic)"
  by (simp add: matched_def split: option.split)

lemma matched_Ok: "matched rx r t query k = Ok q \<longleftrightarrow> (\<exists>m. rx r query = Some m \<and> k m = Ok q)"
  by (simp add: matched_def split: option.split)

lemma grp_not_Panic: "groups_ok rx \<Longrightarrow> rx r s = Some m \<Longrightarrow> i < group_count r \<Longrightarrow> grp m i \<noteq> Panic"
  by (simp add: groups_ok_def grp_Ok)

lemmas statement_panic = matched_Panic bind_Panic clause_not_Panic grp_not_Panic group_count_def

lemma statements_not_Panic:
  assumes "groups_ok rx"
  shows "parseVectorSelectSearch rx pf pf32 q \<noteq> Panic" "parseVectorSearch rx pf pf32 q \<noteq> Panic" "parseSelect rx pf pf32 q \<noteq> Panic"
    "parseDelete rx pf q \<noteq> Panic" "parseCreateTable rx q \<noteq> Panic"
    "r \<in> {InsertRe, UpdateRe, DropRe, DescribeRe} \<Longrightarrow> name_only rx r t q \<noteq> Panic"
proof -
  show v: "parseVectorSelectSearch rx pf pf32 q \<noteq> Panic"
    using assms by (auto simp: parseVectorSelectSearch_def statement_panic)
  show "parseVectorSearch rx pf pf32 q \<noteq> Panic"
    using assms by (auto simp: parseVectorSearch_def statement_panic)
  show "parseSelect rx pf pf32 q \<noteq> Panic"
    using assms v by (auto simp: parseSelect_def statement_panic)
  show "parseDelete rx pf q \<noteq> Panic" using assms by (auto simp: parseDelete_def statement_panic)
  show "parseCreateTable rx q \<noteq> Panic" using assms by (auto simp: parseCreateTable_def Let_def statement_panic split: if_splits)
  show "r \<in> {InsertRe, UpdateRe, DropRe, DescribeRe} \<Longrightarrow> name_only rx r t q \<noteq> Panic"
    using assms by (auto simp: name_only_def statement_panic)
qed

lemma names_not_Panic:
  assumes "groups_ok rx"
  shows "parseInsert rx q \<noteq> Panic" "parseUpdate rx q \<noteq> Panic" "parseDropTable rx q \<noteq> Panic" "parseDescribe rx q \<noteq> Panic"
    "parseShowTables q \<noteq> Panic"
  by (simp_all add: statements_not_Panic [OF assms] parseInsert_def parseUpdate_def parseDropTable_def parseDescribe_def parseShowTables_def)

text \<open>What every parsed statement satisfies: a vector search has a vector and does not ask for zero results, and no
  statement carries points.\<close>

definition statement_ok :: "'f sql_query \<Rightarrow> bool" where
  "statement_ok q \<longleftrightarrow> qPoints q = [] \<and> (qType q = QueryVectorSearch \<longrightarrow> qLimit q \<noteq> 0 \<and> qVector q \<noteq> [])"

lemma default_limit_ok: "qVector q \<noteq> [] \<Longrightarrow> qPoints q = [] \<Longrightarrow> statement_ok (default_limit q)"
  by (auto simp: statement_ok_def default_limit_def)

lemma statements_ok:
  "parseVectorSelectSearch rx pf pf32 q = Ok r \<Longrightarrow> statement_ok r" "parseVectorSearch rx pf pf32 q = Ok r \<Longrightarrow> statement_ok r"
  "parseSelect rx pf pf32 q = Ok r \<Longrightarrow> statement_ok r"
proof -
  show v: "parseVectorSelectSearch rx pf pf32 q = Ok r \<Longrightarrow> statement_ok r"
    by (auto simp: parseVectorSelectSearch_def matched_Ok new_query_def dest!: clause_Ok parseVector_nonempty intro!: default_limit_ok)
  show "parseVectorSearch rx pf pf32 q = Ok r \<Longrightarrow> statement_ok r"
    by (auto simp: parseVectorSearch_def matched_Ok new_query_def dest!: clause_Ok parseVector_nonempty intro!: default_limit_ok)
  show "parseSelect rx pf pf32 q = Ok r \<Longrightarrow> statement_ok r"
    using v by (auto simp: parseSelect_def matched_Ok statement_ok_def new_query_def dest!: clause_Ok split: if_splits)
qed

lemma other_statements_ok:
  fixes r :: "'f sql_query"
  shows "parseInsert rx s = Ok r \<Longrightarrow> statement_ok r" "parseUpdate rx s = Ok r \<Longrightarrow> statement_ok r" "parseDropTable rx s = Ok r \<Longrightarrow> statement_ok r"
    "parseDescribe rx s = Ok r \<Longrightarrow> statement_ok r" "parseShowTables s = Ok r \<Longrightarrow> statement_ok r"
    "parseDelete rx pf s = Ok r \<Longrightarrow> statement_ok r" "parseCreateTable rx s = Ok r \<Longrightarrow> statement_ok r"
proof -
  have n: "statement_ok r" if "qType r \<noteq> QueryVectorSearch" "qPoints r = []" for r :: "'f sql_query" using that by (simp add: statement_ok_def)
  show "parseInsert rx s = Ok r \<Longrightarrow> statement_ok r" "parseUpdate rx s = Ok r \<Longrightarrow> statement_ok r" "parseDropTable rx s = Ok r \<Longrightarrow> statement_ok r"
    "parseDescribe rx s = Ok r \<Longrightarrow> statement_ok r" "parseShowTables s = Ok r \<Longrightarrow> statement_ok r"
    by (auto intro!: n simp: parseInsert_def parseUpdate_def parseDropTable_def parseDescribe_def parseShowTables_def
        name_only_def matched_Ok new_query_def)
  show "parseDelete rx pf s = Ok r \<Longrightarrow> statement_ok r" "parseCreateTable rx s = Ok r \<Longrightarrow> statement_ok r"
    by (auto intro!: n simp: parseDelete_def parseCreateTable_def matched_Ok new_query_def Let_def dest!: clause_Ok)
qed

text \<open>The dispatch gives an error or what one of the statement parsers gives.\<close>

lemma Parse_dispatch:
  obtains (bad) e where "Parse rx pf pf32 q = Err e"
    | (stmt) s where "Parse rx pf pf32 q \<in> {parseSelect rx pf pf32 s, parseInsert rx s, parseUpdate rx s, parseDelete rx pf s,
        parseCreateTable rx s, parseDropTable rx s, parseDescribe rx s, parseShowTables s, parseVectorSearch rx pf pf32 s}"
proof (cases "Parse rx pf pf32 q \<in> {Err EmptyQuery, Err (UnsupportedQuery (hd (Split (CHR '' '') (normalize False (TrimSpace q)))))}")
  case False
  then show ?thesis by (intro stmt [of "normalize False (TrimSpace q)"]) (auto simp: Parse_def Let_def split: if_splits)
qed (auto intro: bad)

text \<open>No query text makes the parser panic, for every engine that returns one string per group of the matched
  expression; it gives an error or a statement, and a statement that is a vector search has a vector and a limit
  other than zero. No statement carries points: the executor refuses every INSERT that was parsed from text.\<close>

theorem sql_parse_total:
  assumes "groups_ok rx"
  shows "Parse rx pf pf32 q \<noteq> Panic \<and> (\<forall>r. Parse rx pf pf32 q = Ok r \<longrightarrow> statement_ok r \<and> insert_targets r = Inl NoPoints)"
proof (cases rule: Parse_dispatch [of rx pf pf32 q])
  case (stmt s)
  have "x \<noteq> Panic \<and> (\<forall>r. x = Ok r \<longrightarrow> statement_ok r)"
    if "x \<in> {parseSelect rx pf pf32 s, parseInsert rx s, parseUpdate rx s, parseDelete rx pf s,
        parseCreateTable rx s, parseDropTable rx s, parseDescribe rx s, parseShowTables s, parseVectorSearch rx pf pf32 s}" for x
    using that by (elim insertE emptyE)
      (simp_all add: statements_not_Panic [OF assms] statements_ok other_statements_ok
        names_not_Panic [OF assms])
  from this [OF stmt] show ?thesis by (simp add: statement_ok_def insert_targets_def)
qed simp

definition sample_rx :: regex_engine where
  "sample_rx r s = (if r = SearchRe then Some [s, ''docs'', ''1, 2'', [], [], []] else None)"

theorem sql_parse_total_witness:
  "Parse sample_rx (\<lambda>s. None) (\<lambda>s. Some (length s)) ''SEARCH docs FOR [1, 2]''
     = Ok ((new_query QueryVectorSearch)\<lparr>qCollection := ''docs'', qColumns := [''*''], qVector := [1, 1], qLimit := 10\<rparr>)
   \<and> statement_ok ((new_query QueryVectorSearch)\<lparr>qCollection := ''docs'', qColumns := [''*''], qVector := [1, 1 :: nat], qLimit := 10\<rparr>)"
proof -
  have "groups_ok sample_rx" by (simp add: groups_ok_def sample_rx_def group_count_def)
  moreover have "Parse sample_rx (\<lambda>s. None) (\<lambda>s. Some (length s)) ''SEARCH docs FOR [1, 2]''
     = Ok ((new_query QueryVectorSearch)\<lparr>qCollection := ''docs'', qColumns := [''*''], qVector := [1, 1], qLimit := 10\<rparr>)"
    by code_simp
  ultimately show ?thesis using sql_parse_total by blast
qed

section \<open>Rows\<close>

lemma add_columns_get:
  "add_columns skip vec payload cols row k =
    (if k \<in> set cols \<and> k \<notin> set skip then
       (if k = ''vector'' then Some (CVector vec) else case map_of payload k of Some v \<Rightarrow> Some (CVal v) | None \<Rightarrow> row k)
     else row k)"
  by (induction cols arbitrary: row) (auto split: option.split)

text \<open>The rows of a SELECT: with explicit columns the row holds the id and exactly the named columns the point has;
  with an asterisk it holds the whole payload, and a payload field called id replaces the id of the point.\<close>

theorem sql_select_rows:
  assumes "''payload'' \<notin> set cols" and "''*'' \<notin> set cols"
  shows "select_row cols i vec payload ''id'' = Some (CID i)
    \<and> (k \<noteq> ''id'' \<longrightarrow> select_row cols i vec payload k =
        (if k \<notin> set cols then None else if k = ''vector'' then Some (CVector vec) else map_option CVal (map_of payload k)))
    \<and> select_row [''*''] i vec payload ''id'' = (case map_of payload ''id'' of Some v \<Rightarrow> Some (CVal v) | None \<Rightarrow> Some (CID i))"
proof -
  have h: "\<not> hasColumn cols ''*''" "\<not> hasColumn cols ''payload''" using assms by (auto simp: hasColumn_def list_ex_iff)
  show ?thesis using h
    by (auto simp: select_row_def fill_row_def add_columns_get hasColumn_def add_payload_def map_add_def split: option.split)
qed

theorem sql_select_rows_witness:
  "select_row [''name'', ''vector''] ''p1'' [1 :: nat] [(''name'', VString ''x''), (''id'', VInt 7)] ''name'' = Some (CVal (VString ''x''))
   \<and> select_row [''*''] ''p1'' [1 :: nat] [(''name'', VString ''x''), (''id'', VInt 7)] ''id'' = Some (CVal (VInt 7))"
  using sql_select_rows [of "[''name'', ''vector'']" "''p1''" "[1 :: nat]" "[(''name'', VString ''x''), (''id'', VInt 7)]" "''name''"]
  by simp

end
