(* ===== verification/Cluster_Ring.thy ===== *)
theory Cluster_Ring
  imports Prelude "HOL-Library.Multiset"
begin

text \<open>
  Cluster nodes and the consistent-hashing ring of \<open>pkg/cluster/cluster.go\<close>. Nodes are shared by pointer between
  the ring, the shard manager and the coordinator: a pointer is an address, and operations that look at a node take
  the store \<open>hp\<close>. The hash function (the first four bytes of SHA-256) is the argument \<open>hk\<close>, \<open>sort.Slice\<close> the
  argument \<open>srt\<close>, and the order in which a loop visits the map of nodes the argument \<open>it\<close>.
\<close>

section \<open>Nodes\<close>

abbreviation NodeStateActive :: string where "NodeStateActive \<equiv> ''active''"
abbreviation NodeStateInactive :: string where "NodeStateInactive \<equiv> ''inactive''"
abbreviation NodeStateSuspect :: string where "NodeStateSuspect \<equiv> ''suspect''"
abbreviation NodeStateLeaving :: string where "NodeStateLeaving \<equiv> ''leaving''"

record cluster_node =
  cnID :: string
  cnAddress :: string
  cnState :: string
  LastHeartbeat :: int
  cnShards :: "u32 list"
  ReplicaShards :: "u32 list"
  cnMetadata :: "(string \<times> string) list"

type_synonym node_store = "nat \<Rightarrow> cluster_node"

definition IsHealthy :: "cluster_node \<Rightarrow> bool" where
  "IsHealthy n \<longleftrightarrow> cnState n = NodeStateActive"

section \<open>The ring\<close>

record hash_ring =
  hr_nodes :: "(string \<times> nat) list"
  ring :: "(u32 \<times> string) list"
  virtualNodes :: int

definition NewHashRing :: "int \<Rightarrow> hash_ring" where
  "NewHashRing v = \<lparr>hr_nodes = [], ring = [], virtualNodes = (if v < 1 then 150 else v)\<rparr>"

definition virtual_key :: "string \<Rightarrow> nat \<Rightarrow> string" where
  "virtual_key i k = i @ ''-'' @ show_int (int k)"

definition virtual_entries :: "(string \<Rightarrow> u32) \<Rightarrow> int \<Rightarrow> string \<Rightarrow> (u32 \<times> string) list" where
  "virtual_entries hk v i = map (\<lambda>k. (hk (virtual_key i k), i)) [0..<nat v]"

definition AddNode :: "(string \<Rightarrow> u32) \<Rightarrow> ((u32 \<times> string) list \<Rightarrow> (u32 \<times> string) list) \<Rightarrow> node_store \<Rightarrow> nat \<Rightarrow> hash_ring \<Rightarrow> hash_ring" where
  "AddNode hk srt hp r hr = (let i = cnID (hp r) in
     hr\<lparr>hr_nodes := map_set i r (hr_nodes hr), ring := srt (ring hr @ virtual_entries hk (virtualNodes hr) i)\<rparr>)"

definition RemoveNode :: "string \<Rightarrow> hash_ring \<Rightarrow> hash_ring" where
  "RemoveNode i hr = hr\<lparr>hr_nodes := map_del i (hr_nodes hr), ring := filter (\<lambda>e. snd e \<noteq> i) (ring hr)\<rparr>"

text \<open>\<open>sort.Search\<close>: bisection for the least index where the predicate holds.\<close>

function bisect :: "(nat \<Rightarrow> bool) \<Rightarrow> nat \<Rightarrow> nat \<Rightarrow> nat" where
  "bisect f i j = (if i < j then let h = (i + j) div 2 in if \<not> f h then bisect f (h + 1) j else bisect f i h else i)"
  by auto
termination by (relation "measure (\<lambda>(f, i, j). j - i)") auto

declare bisect.simps [simp del]

definition sort_Search :: "nat \<Rightarrow> (nat \<Rightarrow> bool) \<Rightarrow> nat" where
  "sort_Search n f = bisect f 0 n"

definition start_index :: "u32 \<Rightarrow> (u32 \<times> string) list \<Rightarrow> nat" where
  "start_index h es = (let idx = sort_Search (length es) (\<lambda>i. fst (es ! i) \<ge> h) in if idx \<ge> length es then 0 else idx)"

definition GetNode :: "(string \<Rightarrow> u32) \<Rightarrow> hash_ring \<Rightarrow> string \<Rightarrow> nat option" where
  "GetNode hk hr key = (if length (ring hr) = 0 then None
     else map_of (hr_nodes hr) (snd (ring hr ! start_index (hk key) (ring hr))))"

text \<open>The loop that collects healthy nodes: the steps still to go, the ids seen, the nodes found.\<close>

fun collect_nodes :: "node_store \<Rightarrow> hash_ring \<Rightarrow> nat \<Rightarrow> int \<Rightarrow> nat list \<Rightarrow> string list \<Rightarrow> nat list \<Rightarrow> nat list" where
  "collect_nodes hp hr idx n [] seen found = found"
| "collect_nodes hp hr idx n (i # is) seen found =
    (if int (length found) < n then
       let i' = snd (ring hr ! ((idx + i) mod length (ring hr))) in
       if i' \<in> set seen then collect_nodes hp hr idx n is seen found
       else collect_nodes hp hr idx n is (i' # seen)
         (case map_of (hr_nodes hr) i' of Some r \<Rightarrow> if IsHealthy (hp r) then found @ [r] else found | None \<Rightarrow> found)
     else found)"

definition GetNodes :: "(string \<Rightarrow> u32) \<Rightarrow> node_store \<Rightarrow> hash_ring \<Rightarrow> string \<Rightarrow> int \<Rightarrow> nat list" where
  "GetNodes hk hp hr key n = (if length (ring hr) = 0 \<or> n \<le> 0 then []
     else collect_nodes hp hr (start_index (hk key) (ring hr)) n [0..<length (ring hr)] [] [])"

definition GetAllNodes :: "(nat list \<Rightarrow> nat list) \<Rightarrow> node_store \<Rightarrow> hash_ring \<Rightarrow> cluster_node list" where
  "GetAllNodes it hp hr = map hp (it (map snd (hr_nodes hr)))"

section \<open>Shards\<close>

abbreviation ShardStateActive :: string where "ShardStateActive \<equiv> ''active''"

record shard =
  shID :: u32
  Primary :: string
  Replicas :: "string list"
  shState :: string

record shard_manager =
  shards :: "(u32 \<times> shard) list"
  shardCount :: u32
  replication :: int
  sm_ring :: hash_ring

definition u32s :: "u32 \<Rightarrow> u32 list" where
  "u32s n = map word_of_nat [0..<unat n]"

definition NewShardManager :: "int \<Rightarrow> int \<Rightarrow> shard_manager" where
  "NewShardManager cnt repl = (let n = word_of_int (if cnt < 0 then 16 else cnt) in
     \<lparr>shards = map (\<lambda>i. (i, \<lparr>shID = i, Primary = [], Replicas = [], shState = ShardStateActive\<rparr>)) (u32s n),
      shardCount = n, replication = repl, sm_ring = NewHashRing 150\<rparr>)"

text \<open>The remainder by a shard count of zero is a panic (\<open>None\<close>).\<close>

definition GetShardForKey :: "(string \<Rightarrow> u32) \<Rightarrow> shard_manager \<Rightarrow> string \<Rightarrow> u32 option" where
  "GetShardForKey hk sm key = (if shardCount sm = 0 then None else Some (hk key mod shardCount sm))"

definition GetNodesForKey :: "(string \<Rightarrow> u32) \<Rightarrow> node_store \<Rightarrow> shard_manager \<Rightarrow> string \<Rightarrow> nat list" where
  "GetNodesForKey hk hp sm key = GetNodes hk hp (sm_ring sm) key (replication sm)"

definition GetShard :: "shard_manager \<Rightarrow> u32 \<Rightarrow> shard option" where
  "GetShard sm i = map_of (shards sm) i"

text \<open>One round of the loop of \<open>rebalanceShards\<close>. A negative capacity for the replicas and a missing shard panic.\<close>

definition assign_shard :: "cluster_node list \<Rightarrow> u32 \<Rightarrow> shard_manager \<Rightarrow> shard_manager option" where
  "assign_shard nodes i sm = (case map_of (shards sm) i of None \<Rightarrow> None
     | Some sh \<Rightarrow> if replication sm - 1 < 0 then None
         else let p = unat i mod length nodes in
           Some (sm\<lparr>shards := map_set i (sh\<lparr>Primary := cnID (nodes ! p),
             Replicas := map (\<lambda>r. cnID (nodes ! ((p + r) mod length nodes))) [1..<min (nat (replication sm)) (length nodes)]\<rparr>) (shards sm)\<rparr>))"

fun assign_shards :: "cluster_node list \<Rightarrow> u32 list \<Rightarrow> shard_manager \<Rightarrow> shard_manager option" where
  "assign_shards nodes [] sm = Some sm"
| "assign_shards nodes (i # is) sm = (case assign_shard nodes i sm of None \<Rightarrow> None | Some sm' \<Rightarrow> assign_shards nodes is sm')"

definition rebalanceShards :: "(nat list \<Rightarrow> nat list) \<Rightarrow> node_store \<Rightarrow> shard_manager \<Rightarrow> shard_manager option" where
  "rebalanceShards it hp sm = (let nodes = GetAllNodes it hp (sm_ring sm) in
     if length nodes = 0 then Some sm else assign_shards nodes (u32s (shardCount sm)) sm)"

definition AddNode_shards :: "(string \<Rightarrow> u32) \<Rightarrow> ((u32 \<times> string) list \<Rightarrow> (u32 \<times> string) list) \<Rightarrow> (nat list \<Rightarrow> nat list)
    \<Rightarrow> node_store \<Rightarrow> nat \<Rightarrow> shard_manager \<Rightarrow> shard_manager option" where
  "AddNode_shards hk srt it hp r sm = rebalanceShards it hp (sm\<lparr>sm_ring := AddNode hk srt hp r (sm_ring sm)\<rparr>)"

definition RemoveNode_shards :: "(nat list \<Rightarrow> nat list) \<Rightarrow> node_store \<Rightarrow> string \<Rightarrow> shard_manager \<Rightarrow> shard_manager option" where
  "RemoveNode_shards it hp i sm = rebalanceShards it hp (sm\<lparr>sm_ring := RemoveNode i (sm_ring sm)\<rparr>)"

definition GetPrimaryNode :: "(nat list \<Rightarrow> nat list) \<Rightarrow> node_store \<Rightarrow> shard_manager \<Rightarrow> u32 \<Rightarrow> cluster_node option" where
  "GetPrimaryNode it hp sm i = (case map_of (shards sm) i of None \<Rightarrow> None
     | Some sh \<Rightarrow> find (\<lambda>n. cnID n = Primary sh) (GetAllNodes it hp (sm_ring sm)))"

end
