(* ===== verification/Cluster_Facts.thy ===== *)
theory Cluster_Facts
  imports Cluster_Ring
begin

text \<open>
  Facts about the ring: bisection finds the first entry at or after a hash, the ring read from there is a rotation,
  and the walk along it collects nodes in the order they are met.
\<close>

section \<open>Bisection\<close>

lemma bisect_least:
  assumes "\<And>a b. i \<le> a \<Longrightarrow> a \<le> b \<Longrightarrow> b < j \<Longrightarrow> f a \<Longrightarrow> f b" and "i \<le> j"
  shows "i \<le> bisect f i j \<and> bisect f i j \<le> j \<and> (\<forall>k. i \<le> k \<and> k < bisect f i j \<longrightarrow> \<not> f k) \<and> (bisect f i j < j \<longrightarrow> f (bisect f i j))"
  using assms
proof (induction f i j rule: bisect.induct)
  case (1 f i j)
  show ?case
  proof (cases "i < j")
    case True
    let ?h = "(i + j) div 2"
    have h: "i \<le> ?h" "?h < j" using True by auto
    show ?thesis
    proof (cases "f ?h")
      case False
      have e: "bisect f i j = bisect f (?h + 1) j" using True False by (simp add: bisect.simps [of f i j] Let_def)
      have below: "\<not> f k" if "i \<le> k" "k \<le> ?h" for k using 1(3) [of k ?h] that h False by blast
      have mono: "f b" if "?h + 1 \<le> a" "a \<le> b" "b < j" "f a" for a b using 1(3) [of a b] that h by linarith
      have "?h + 1 \<le> bisect f (?h + 1) j \<and> bisect f (?h + 1) j \<le> j \<and> (\<forall>k. ?h + 1 \<le> k \<and> k < bisect f (?h + 1) j \<longrightarrow> \<not> f k)
          \<and> (bisect f (?h + 1) j < j \<longrightarrow> f (bisect f (?h + 1) j))"
        by (rule 1(1) [OF True refl False mono]) (use h in auto)
      moreover have "\<not> f k" if "i \<le> k" "k < bisect f (?h + 1) j" for k
        using below [of k] calculation that by (cases "k \<le> ?h") auto
      ultimately show ?thesis unfolding e using h by (intro conjI allI impI) auto
    next
      case fh: True
      have e: "bisect f i j = bisect f i ?h" using True fh by (simp add: bisect.simps [of f i j] Let_def)
      have mono: "f b" if "i \<le> a" "a \<le> b" "b < ?h" "f a" for a b using 1(3) [of a b] that h by linarith
      have "i \<le> bisect f i ?h \<and> bisect f i ?h \<le> ?h \<and> (\<forall>k. i \<le> k \<and> k < bisect f i ?h \<longrightarrow> \<not> f k) \<and> (bisect f i ?h < ?h \<longrightarrow> f (bisect f i ?h))"
        by (rule 1(2) [OF True refl _ mono]) (use fh h in auto)
      then show ?thesis unfolding e using fh h by (cases "bisect f i ?h = ?h") auto
    qed
  next
    case False
    with 1(4) show ?thesis by (auto simp: bisect.simps)
  qed
qed

lemma sort_Search_sorted:
  assumes "sorted (map fst es)"
  shows "sort_Search (length es) (\<lambda>i. fst (es ! i) \<ge> h) = length (takeWhile (\<lambda>e. fst e < h) es)"
proof -
  let ?f = "\<lambda>i. fst (es ! i) \<ge> h" and ?b = "sort_Search (length es) (\<lambda>i. fst (es ! i) \<ge> h)"
  have mono: "?f b" if "a \<le> b" "b < length es" "?f a" for a b
    using sorted_nth_mono [OF assms, of a b] that by (auto intro: order_trans)
  have b: "?b \<le> length es" "\<forall>k < ?b. \<not> ?f k" "?b < length es \<longrightarrow> ?f ?b"
    using bisect_least [of 0 "length es" ?f] mono by (auto simp: sort_Search_def)
  have "takeWhile (\<lambda>e. fst e < h) es = take ?b es"
    by (rule takeWhile_eq_take_P_nth) (use b in auto)
  then show ?thesis using b(1) by simp
qed

section \<open>The walk\<close>

text \<open>The ring as a key with the given hash sees it.\<close>

definition clockwise :: "u32 \<Rightarrow> (u32 \<times> string) list \<Rightarrow> (u32 \<times> string) list" where
  "clockwise h es = dropWhile (\<lambda>e. fst e < h) es @ takeWhile (\<lambda>e. fst e < h) es"

lemma start_index_rotate:
  assumes "sorted (map fst es)" and "es \<noteq> []"
  shows "start_index h es < length es" "rotate (start_index h es) es = clockwise h es"
proof -
  let ?t = "takeWhile (\<lambda>e. fst e < h) es"
  have l: "length ?t \<le> length es" by (rule length_takeWhile_le)
  have s: "start_index h es = (if length ?t \<ge> length es then 0 else length ?t)"
    by (simp add: start_index_def sort_Search_sorted [OF assms(1)])
  then show "start_index h es < length es" using assms(2) l by (cases "length ?t = length es") auto
  show "rotate (start_index h es) es = clockwise h es"
  proof (cases "length ?t \<ge> length es")
    case True
    with l have "?t = es" using takeWhile_eq_all_conv takeWhile_eq_take [of "\<lambda>e. fst e < h" es] by (metis le_antisym take_all)
    then have "dropWhile (\<lambda>e. fst e < h) es = []" using takeWhile_dropWhile_id [of "\<lambda>e. fst e < h" es] by simp
    with s True have "start_index h es = 0" "clockwise h es = ?t" by (simp_all add: clockwise_def)
    then show ?thesis unfolding \<open>?t = es\<close> by simp
  next
    case False
    with s show ?thesis using rotate_append [of ?t "dropWhile (\<lambda>e. fst e < h) es"] by (simp add: clockwise_def)
  qed
qed

lemma clockwise_nth:
  assumes "sorted (map fst es)" and "i < length es"
  shows "es ! ((start_index h es + i) mod length es) = clockwise h es ! i"
  using nth_rotate [OF assms(2), of "start_index h es"] start_index_rotate(2) [OF assms(1), of h] assms(2) by (cases es) auto

lemma mset_clockwise: "mset (clockwise h es) = mset es"
  by (induction es) (auto simp: clockwise_def dropWhile_append)

lemma set_clockwise [simp]: "set (clockwise h es) = set es"
  by (rule mset_eq_setD [OF mset_clockwise])

lemma length_clockwise [simp]: "length (clockwise h es) = length es"
  by (rule mset_eq_length [OF mset_clockwise])

text \<open>Removing a node removes its entries from the walk and moves nothing else.\<close>

lemma clockwise_filter: "clockwise h (filter P es) = filter P (clockwise h es)" if "sorted (map fst es)"
proof -
  have "dropWhile (\<lambda>e. fst e < h) (filter P es) = filter P (dropWhile (\<lambda>e. fst e < h) es)
      \<and> takeWhile (\<lambda>e. fst e < h) (filter P es) = filter P (takeWhile (\<lambda>e. fst e < h) es)"
    using that
  proof (induction es)
    case (Cons e es)
    show ?case
    proof (cases "fst e < h")
      case True
      with Cons show ?thesis by simp
    next
      case False
      with Cons.prems have all: "\<forall>x \<in> set (e # es). \<not> fst x < h" by (auto simp: not_less intro: order_trans)
      have none: "takeWhile (\<lambda>e. fst e < h) xs = [] \<and> dropWhile (\<lambda>e. fst e < h) xs = xs" if "set xs \<subseteq> set (e # es)" for xs
        using all that by (cases xs) auto
      have "set (filter P (e # es)) \<subseteq> set (e # es)" by (rule filter_is_subset)
      from none [OF this] show ?thesis using False by simp
    qed
  qed simp
  then show ?thesis by (simp add: clockwise_def)
qed

section \<open>Collecting nodes\<close>

text \<open>The elements of a list at their first occurrence.\<close>

fun firsts :: "'a set \<Rightarrow> 'a list \<Rightarrow> 'a list" where
  "firsts seen [] = []"
| "firsts seen (x # xs) = (if x \<in> seen then firsts seen xs else x # firsts (insert x seen) xs)"

lemma set_firsts: "set (firsts seen xs) = set xs - seen"
  by (induction xs arbitrary: seen) auto

lemma distinct_firsts: "distinct (firsts seen xs)"
  by (induction xs arbitrary: seen) (auto simp: set_firsts)

definition healthy_refs :: "node_store \<Rightarrow> hash_ring \<Rightarrow> string list \<Rightarrow> nat list" where
  "healthy_refs hp hr is = filter (\<lambda>r. IsHealthy (hp r)) (List.map_filter (map_of (hr_nodes hr)) is)"

lemma collect_nodes_spec:
  assumes "sorted (map fst (ring hr))" and "\<forall>i \<in> set is. i < length (ring hr)"
  shows "collect_nodes hp hr (start_index h (ring hr)) n is seen found =
    (if n \<le> int (length found) then found
     else take (nat n) (found @ healthy_refs hp hr (firsts (set seen) (map (\<lambda>i. snd (clockwise h (ring hr) ! i)) is))))"
  using assms(2)
proof (induction "is" arbitrary: seen found)
  case Nil
  then show ?case by (simp add: healthy_refs_def)
next
  case (Cons i "is")
  let ?x = "snd (clockwise h (ring hr) ! i)"
  have e: "snd (ring hr ! ((start_index h (ring hr) + i) mod length (ring hr))) = ?x"
    using clockwise_nth [OF assms(1), of i h] Cons.prems by simp
  show ?case
  proof (cases "n \<le> int (length found)")
    case False
    have t: "take (nat n) (found @ [r] @ rs) = found @ [r]" if "n \<le> int (length (found @ [r]))" for r rs
    proof -
      have "nat n - length found = 1" using that False by simp
      then show ?thesis by simp
    qed
    have "collect_nodes hp hr (start_index h (ring hr)) n is (?x # seen) (found @ [r]) =
        take (nat n) (found @ r # healthy_refs hp hr (firsts (insert ?x (set seen)) (map (\<lambda>i. snd (clockwise h (ring hr) ! i)) is)))" for r
      using Cons.IH [of "?x # seen" "found @ [r]"] Cons.prems t [of r] by (cases "n \<le> int (length (found @ [r]))") auto
    moreover note Cons.IH [of "?x # seen" found] Cons.IH [of seen found] Cons.prems False
    ultimately show ?thesis
      by (auto simp: e Let_def healthy_refs_def List.map_filter_simps split: option.split)
  qed simp
qed

lemma GetNodes_spec:
  assumes "sorted (map fst (ring hr))"
  shows "GetNodes hk hp hr key n = take (nat n) (healthy_refs hp hr (firsts {} (map snd (clockwise (hk key) (ring hr)))))"
proof (cases "length (ring hr) = 0 \<or> n \<le> 0")
  case True
  then show ?thesis by (auto simp: GetNodes_def clockwise_def healthy_refs_def List.map_filter_simps)
next
  case False
  have "map (\<lambda>i. snd (clockwise (hk key) (ring hr) ! i)) [0..<length (ring hr)] = map snd (clockwise (hk key) (ring hr))"
    by (rule nth_equalityI) auto
  with False show ?thesis
    using collect_nodes_spec [OF assms, of "[0..<length (ring hr)]" hp "hk key" n "[]" "[]"] by (simp add: GetNodes_def)
qed

lemma GetNode_spec:
  assumes "sorted (map fst (ring hr))"
  shows "GetNode hk hr key = (case clockwise (hk key) (ring hr) of [] \<Rightarrow> None | e # es \<Rightarrow> map_of (hr_nodes hr) (snd e))"
proof (cases "ring hr")
  case Nil
  then show ?thesis by (simp add: GetNode_def clockwise_def)
next
  case (Cons x xs)
  have "ring hr ! start_index (hk key) (ring hr) = clockwise (hk key) (ring hr) ! 0"
    using clockwise_nth [OF assms, of 0 "hk key"] start_index_rotate(1) [OF assms, of "hk key"] Cons by simp
  moreover have "clockwise (hk key) (ring hr) \<noteq> []" using length_clockwise [of "hk key" "ring hr"] Cons by (metis length_0_conv list.discI)
  ultimately show ?thesis using Cons by (auto simp: GetNode_def split: list.split)
qed

end
