(* ===== verification/Cluster_Shards.thy ===== *)
theory Cluster_Shards
  imports Cluster_Facts
begin

text \<open>
  The invariant of the ring and what every operation keeps of it, the movement of keys when nodes come and go, and
  the distribution of shards over the nodes.
\<close>

section \<open>The invariant of the ring\<close>

definition sorts_entries :: "((u32 \<times> string) list \<Rightarrow> (u32 \<times> string) list) \<Rightarrow> bool" where
  "sorts_entries srt \<longleftrightarrow> (\<forall>es. mset (srt es) = mset es \<and> sorted (map fst (srt es)))"

definition visits_all :: "(nat list \<Rightarrow> nat list) \<Rightarrow> bool" where
  "visits_all it \<longleftrightarrow> (\<forall>xs. mset (it xs) = mset xs)"

definition ring_inv :: "node_store \<Rightarrow> hash_ring \<Rightarrow> bool" where
  "ring_inv hp hr \<longleftrightarrow> virtualNodes hr \<ge> 1 \<and> sorted (map fst (ring hr)) \<and> distinct (map fst (hr_nodes hr))
     \<and> snd ` set (ring hr) = fst ` set (hr_nodes hr) \<and> (\<forall>(i, r) \<in> set (hr_nodes hr). cnID (hp r) = i)"

lemma ring_inv_cong: "(\<And>r. cnID (hp r) = cnID (hp' r)) \<Longrightarrow> ring_inv hp hr = ring_inv hp' hr"
  by (simp add: ring_inv_def)

lemma ring_inv_New: "ring_inv hp (NewHashRing v)"
  by (simp add: ring_inv_def NewHashRing_def)

lemma set_map_set: "distinct (map fst m) \<Longrightarrow> set (map_set k v m) = insert (k, v) {x \<in> set m. fst x \<noteq> k}"
proof (cases "k \<in> fst ` set m")
  case True
  have "(\<lambda>(l, w). if l = k then (l, v) else (l, w)) = (\<lambda>x. if fst x = k then (k, v) else x)" by auto
  with True have "set (map_set k v m) = (\<lambda>x. if fst x = k then (k, v) else x) ` set m" by (simp add: map_set_def)
  with True show ?thesis by (auto simp: image_iff)
next
  case False
  then show ?thesis by (force simp: map_set_def)
qed

lemma virtual_entries_ids: "v \<ge> 1 \<Longrightarrow> snd ` set (virtual_entries hk v i) = {i}"
  by (simp add: virtual_entries_def image_image image_constant_conv)

lemma ring_inv_Add:
  assumes inv: "ring_inv hp hr" and srt: "sorts_entries srt"
  shows "ring_inv hp (AddNode hk srt hp r hr)"
proof -
  have s: "set (srt es) = set es" for es using srt by (metis sorts_entries_def mset_eq_setD)
  have "snd ` set (srt (ring hr @ virtual_entries hk (virtualNodes hr) (cnID (hp r)))) = insert (cnID (hp r)) (fst ` set (hr_nodes hr))"
    using inv virtual_entries_ids [of "virtualNodes hr" hk "cnID (hp r)"] by (auto simp: s ring_inv_def)
  then show ?thesis using inv srt
    by (auto simp: ring_inv_def AddNode_def Let_def sorts_entries_def set_map_set)
qed

lemma sorted_map_filter: "sorted (map f xs) \<Longrightarrow> sorted (map f (filter P xs))"
  by (induction xs) auto

lemma ring_inv_Remove: "ring_inv hp hr \<Longrightarrow> ring_inv hp (RemoveNode i hr)"
proof -
  assume inv: "ring_inv hp hr"
  have "snd ` set (filter (\<lambda>e. snd e \<noteq> i) (ring hr)) = snd ` set (ring hr) - {i}" by auto
  moreover have "set (map_del i (hr_nodes hr)) \<subseteq> set (hr_nodes hr)" by (auto simp: map_del_def)
  ultimately show ?thesis using inv by (auto simp: ring_inv_def RemoveNode_def sorted_map_filter)
qed

interpretation ring_kv: kv_store "\<lambda>hr. map_of (hr_nodes hr)" "\<lambda>k v hr. hr\<lparr>hr_nodes := map_set k v (hr_nodes hr)\<rparr>"
  "\<lambda>k hr. hr\<lparr>hr_nodes := map_del k (hr_nodes hr)\<rparr>" "\<lambda>hr. distinct (map fst (hr_nodes hr))"
  by unfold_locales auto

section \<open>Keys that move\<close>

lemma GetNode_owner:
  assumes "ring_inv hp hr" and "GetNode hk hr key = Some r"
  obtains e es where "clockwise (hk key) (ring hr) = e # es" "map_of (hr_nodes hr) (snd e) = Some r" "cnID (hp r) = snd e"
proof -
  from assms obtain e es where c: "clockwise (hk key) (ring hr) = e # es" "map_of (hr_nodes hr) (snd e) = Some r"
    by (auto simp: GetNode_spec ring_inv_def split: list.splits)
  moreover have "(snd e, r) \<in> set (hr_nodes hr)" using c(2) by (rule map_of_SomeD)
  ultimately show thesis using that assms(1) by (auto simp: ring_inv_def)
qed

lemma GetNode_total:
  assumes "ring_inv hp hr" shows "GetNode hk hr key = None \<longleftrightarrow> hr_nodes hr = []"
proof (cases "clockwise (hk key) (ring hr)")
  case Nil
  then have "ring hr = []" by (metis length_clockwise length_0_conv)
  with assms show ?thesis by (auto simp: GetNode_def ring_inv_def)
next
  case (Cons e es)
  then have "snd e \<in> fst ` set (hr_nodes hr)" using assms set_clockwise [of "hk key" "ring hr"] by (auto simp: ring_inv_def)
  then have "map_of (hr_nodes hr) (snd e) \<noteq> None" "hr_nodes hr \<noteq> []" by (auto simp: map_of_eq_None_iff)
  with Cons assms show ?thesis by (simp add: GetNode_spec ring_inv_def)
qed

lemma GetNode_Remove:
  assumes inv: "ring_inv hp hr" and g: "GetNode hk hr key = Some r" and ne: "cnID (hp r) \<noteq> i"
  shows "GetNode hk (RemoveNode i hr) key = Some r"
proof -
  obtain e es where c: "clockwise (hk key) (ring hr) = e # es" "map_of (hr_nodes hr) (snd e) = Some r" "cnID (hp r) = snd e"
    by (rule GetNode_owner [OF inv g])
  have s: "sorted (map fst (ring hr))" using inv by (simp add: ring_inv_def)
  have "clockwise (hk key) (ring (RemoveNode i hr)) = e # filter (\<lambda>e. snd e \<noteq> i) es"
    using c ne clockwise_filter [OF s, of "hk key" "\<lambda>e. snd e \<noteq> i"] by (simp add: RemoveNode_def)
  moreover have "sorted (map fst (ring (RemoveNode i hr)))" using ring_inv_Remove [OF inv] by (simp add: ring_inv_def)
  ultimately show ?thesis using c ne by (simp add: GetNode_spec RemoveNode_def)
qed

lemma sorted_keys_unique:
  assumes "mset xs = mset ys" and "sorted (map fst xs)" and "sorted (map fst ys)" and "distinct (map fst xs)"
  shows "xs = ys"
proof -
  have d: "distinct (map fst ys)" using assms(1,4) by (metis mset_map mset_eq_imp_distinct_iff)
  have "map fst xs = map fst ys"
    using sorted_distinct_set_unique [OF assms(2) assms(4) assms(3) d] assms(1) by (metis set_map mset_eq_setD)
  then have l: "length xs = length ys" by (metis length_map)
  show ?thesis
  proof (rule nth_equalityI [OF l])
    fix k assume k: "k < length xs"
    have "xs ! k \<in> set ys" using k assms(1) by (metis mset_eq_setD nth_mem)
    moreover have "ys ! k \<in> set ys" using k l by simp
    moreover have "fst (xs ! k) = fst (ys ! k)" using \<open>map fst xs = map fst ys\<close> k l by (metis nth_map)
    ultimately show "xs ! k = ys ! k" using d by (metis eq_key_imp_eq_value prod.collapse)
  qed
qed

lemma Add_then_Remove:
  assumes inv: "ring_inv hp hr" and srt: "sorts_entries srt" and fresh: "cnID (hp r) \<notin> fst ` set (hr_nodes hr)"
    and d: "distinct (map fst (ring (AddNode hk srt hp r hr)))"
  shows "ring (RemoveNode (cnID (hp r)) (AddNode hk srt hp r hr)) = ring hr"
    and "hr_nodes (RemoveNode (cnID (hp r)) (AddNode hk srt hp r hr)) = hr_nodes hr"
proof -
  let ?i = "cnID (hp r)" and ?new = "ring (AddNode hk srt hp r hr)"
  have m: "mset ?new = mset (ring hr) + mset (virtual_entries hk (virtualNodes hr) ?i)"
    using srt by (simp add: AddNode_def Let_def sorts_entries_def)
  have old: "filter (\<lambda>e. snd e \<noteq> ?i) (ring hr) = ring hr"
  proof (unfold filter_id_conv, intro ballI)
    fix e assume "e \<in> set (ring hr)"
    then have "snd e \<in> fst ` set (hr_nodes hr)" using inv by (auto simp: ring_inv_def)
    with fresh show "snd e \<noteq> ?i" by metis
  qed
  have gone: "filter (\<lambda>e. snd e \<noteq> ?i) (virtual_entries hk (virtualNodes hr) ?i) = []" by (simp add: virtual_entries_def)
  have "mset (filter (\<lambda>e. snd e \<noteq> ?i) ?new) = mset (ring hr)" 
    unfolding mset_filter m filter_union_mset unfolding mset_filter [symmetric] old gone by simp
  moreover have "sorted (map fst (filter (\<lambda>e. snd e \<noteq> ?i) ?new))" using srt by (simp add: sorted_map_filter AddNode_def Let_def sorts_entries_def)
  moreover have "distinct (map fst (filter (\<lambda>e. snd e \<noteq> ?i) ?new))" using d by (rule distinct_map_filter)
  ultimately show "ring (RemoveNode ?i (AddNode hk srt hp r hr)) = ring hr"
    using sorted_keys_unique [of "filter (\<lambda>e. snd e \<noteq> ?i) ?new" "ring hr"] inv by (simp add: RemoveNode_def ring_inv_def)
  show "hr_nodes (RemoveNode ?i (AddNode hk srt hp r hr)) = hr_nodes hr"
  proof -
    have "filter (\<lambda>(l, w). l \<noteq> ?i) (hr_nodes hr) = hr_nodes hr" using fresh by (auto simp: filter_id_conv image_iff)
    with fresh show ?thesis by (simp add: RemoveNode_def AddNode_def Let_def map_del_def map_set_def)
  qed
qed

lemma GetNode_Add:
  assumes inv: "ring_inv hp hr" and srt: "sorts_entries srt" and fresh: "cnID (hp r) \<notin> fst ` set (hr_nodes hr)"
    and d: "distinct (map fst (ring (AddNode hk srt hp r hr)))"
  shows "GetNode hk (AddNode hk srt hp r hr) key \<in> {GetNode hk hr key, Some r}"
proof -
  let ?hr = "AddNode hk srt hp r hr"
  note inv' = ring_inv_Add [OF inv srt, of hk r] and undo = Add_then_Remove [OF assms]
  have "hr_nodes ?hr \<noteq> []" by (auto simp: AddNode_def Let_def map_set_def)
  then obtain q where q: "GetNode hk ?hr key = Some q" using GetNode_total [OF inv', of hk key] by (cases "GetNode hk ?hr key") auto
  obtain e es where e: "clockwise (hk key) (ring ?hr) = e # es" "map_of (hr_nodes ?hr) (snd e) = Some q" "cnID (hp q) = snd e"
    by (rule GetNode_owner [OF inv' q])
  show ?thesis
  proof (cases "cnID (hp q) = cnID (hp r)")
    case True
    with e have "q = r" by (simp add: AddNode_def Let_def)
    with q show ?thesis by simp
  next
    case False
    then have "GetNode hk (RemoveNode (cnID (hp r)) ?hr) key = Some q" by (rule GetNode_Remove [OF inv' q])
    then have "GetNode hk hr key = Some q" unfolding GetNode_def undo .
    with q show ?thesis by simp
  qed
qed

section \<open>Replicas of a key\<close>

lemma map_filter_distinct:
  "distinct is \<Longrightarrow> (\<And>i j r. i \<in> set is \<Longrightarrow> j \<in> set is \<Longrightarrow> f i = Some r \<Longrightarrow> f j = Some r \<Longrightarrow> i = j) \<Longrightarrow> distinct (List.map_filter f is)"
proof (induction "is")
  case (Cons i "is")
  then have IH: "distinct (List.map_filter f is)" by auto
  have "r \<notin> set (List.map_filter f is)" if "f i = Some r" for r using Cons.prems that by (auto simp: set_map_filter)
  with IH show ?case by (auto simp: List.map_filter_simps split: option.split)
qed (simp add: List.map_filter_simps)

lemma GetNodes_healthy:
  assumes inv: "ring_inv hp hr"
  defines "H \<equiv> {r \<in> snd ` set (hr_nodes hr). IsHealthy (hp r)}"
  shows "distinct (GetNodes hk hp hr key n)" "set (GetNodes hk hp hr key n) \<subseteq> H"
    "length (GetNodes hk hp hr key n) = min (nat n) (card H)"
proof -
  let ?is = "firsts {} (map snd (clockwise (hk key) (ring hr)))"
  let ?rs = "healthy_refs hp hr ?is"
  have s: "sorted (map fst (ring hr))" and dk: "distinct (map fst (hr_nodes hr))"
    and ids: "snd ` set (ring hr) = fst ` set (hr_nodes hr)" and names: "\<forall>(i, r) \<in> set (hr_nodes hr). cnID (hp r) = i"
    using inv by (simp_all add: ring_inv_def)
  have is_ids: "set ?is = fst ` set (hr_nodes hr)" using ids by (simp add: set_firsts)
  have "distinct (List.map_filter (map_of (hr_nodes hr)) ?is)"
  proof (rule map_filter_distinct [OF distinct_firsts])
    fix i j r assume "map_of (hr_nodes hr) i = Some r" "map_of (hr_nodes hr) j = Some r"
    then have "(i, r) \<in> set (hr_nodes hr)" "(j, r) \<in> set (hr_nodes hr)" by (simp_all add: map_of_SomeD)
    from bspec [OF names this(1)] bspec [OF names this(2)] show "i = j" by simp
  qed
  then have d: "distinct ?rs" by (simp add: healthy_refs_def)
  have "set (List.map_filter (map_of (hr_nodes hr)) ?is) = snd ` set (hr_nodes hr)"
  proof -
    have "set (List.map_filter (map_of (hr_nodes hr)) ?is) = {r. \<exists>i \<in> set ?is. map_of (hr_nodes hr) i = Some r}"
      by (simp add: set_map_filter)
    also have "\<dots> = snd ` set (hr_nodes hr)" 

    proof (intro equalityI subsetI)
      fix r assume "r \<in> {r. \<exists>i \<in> set ?is. map_of (hr_nodes hr) i = Some r}"
      then obtain i where "map_of (hr_nodes hr) i = Some r" by blast
      from map_of_SomeD [OF this] show "r \<in> snd ` set (hr_nodes hr)" by (metis image_eqI snd_conv)
    next
      fix r assume "r \<in> snd ` set (hr_nodes hr)"
      then obtain i where i: "(i, r) \<in> set (hr_nodes hr)" by auto
      then have "i \<in> set ?is" unfolding is_ids by (metis image_eqI fst_conv)
      with i show "r \<in> {r. \<exists>i \<in> set ?is. map_of (hr_nodes hr) i = Some r}" using map_of_is_SomeI [OF dk] by blast
    qed
    finally show ?thesis .
  qed
  then have rs: "set ?rs = H" by (auto simp: healthy_refs_def H_def)
  note g = GetNodes_spec [OF s, of hk hp key n]
  show "distinct (GetNodes hk hp hr key n)" using d by (simp add: g)
  show "set (GetNodes hk hp hr key n) \<subseteq> H" using rs set_take_subset [of "nat n" ?rs] by (simp add: g)
  show "length (GetNodes hk hp hr key n) = min (nat n) (card H)" using d rs distinct_card [OF d] by (simp add: g min.commute)
qed

section \<open>Distribution of shards\<close>

definition shards_known :: "shard_manager \<Rightarrow> bool" where
  "shards_known sm \<longleftrightarrow> (\<forall>i < shardCount sm. map_of (shards sm) i \<noteq> None)"

lemma unat_small: "k < unat (n :: u32) \<Longrightarrow> unat (word_of_nat k :: u32) = k"
proof -
  assume "k < unat n"
  also have "unat n < 2 ^ LENGTH(32)" by (rule unsigned_less)
  finally show ?thesis by (simp add: unat_of_nat take_bit_nat_eq_self)
qed

lemma set_u32s: "set (u32s n) = {i. i < n}"
proof (intro equalityI subsetI)
  fix i :: u32 assume "i \<in> {i. i < n}"
  then have "unat i \<in> {0..<unat n}" "i = word_of_nat (unat i)" by (simp_all add: word_less_nat_alt)
  then show "i \<in> set (u32s n)" unfolding u32s_def set_map set_upt by (metis image_eqI)
next
  fix i assume "i \<in> set (u32s n)"
  then obtain k where k: "i = word_of_nat k" "k < unat n" by (auto simp: u32s_def)
  with unat_small [OF k(2)] show "i \<in> {i. i < n}" by (simp add: word_less_nat_alt)
qed

text \<open>What one round writes.\<close>

definition assigned :: "cluster_node list \<Rightarrow> int \<Rightarrow> u32 \<Rightarrow> shard \<Rightarrow> shard" where
  "assigned nodes repl i sh = (let p = unat i mod length nodes in
     sh\<lparr>Primary := cnID (nodes ! p),
        Replicas := map (\<lambda>r. cnID (nodes ! ((p + r) mod length nodes))) [1..<min (nat repl) (length nodes)]\<rparr>)"

lemma assign_shards_spec:
  assumes "replication sm \<ge> 1" and "\<forall>i \<in> set is. map_of (shards sm) i \<noteq> None" and "distinct is"
  shows "\<exists>sm'. assign_shards nodes is sm = Some sm' \<and> shardCount sm' = shardCount sm \<and> sm_ring sm' = sm_ring sm \<and> replication sm' = replication sm
    \<and> (\<forall>i. map_of (shards sm') i = (if i \<in> set is then map_option (assigned nodes (replication sm) i) (map_of (shards sm) i) else map_of (shards sm) i))"
  using assms
proof (induction "is" arbitrary: sm)
  case (Cons i "is")
  from Cons.prems obtain sh where sh: "map_of (shards sm) i = Some sh" by auto
  let ?sm = "sm\<lparr>shards := map_set i (assigned nodes (replication sm) i sh) (shards sm)\<rparr>"
  have step: "assign_shard nodes i sm = Some ?sm" using Cons.prems(1) by (simp add: assign_shard_def sh assigned_def Let_def)
  have prems: "replication ?sm \<ge> 1" "\<forall>j \<in> set is. map_of (shards ?sm) j \<noteq> None" "distinct is" using Cons.prems by auto
  from Cons.IH [OF prems] Cons.prems(3) sh step show ?case by fastforce
qed simp

lemma distinct_u32s: "distinct (u32s n)"
  unfolding u32s_def distinct_map
proof (intro conjI inj_onI)
  fix a b assume ab: "a \<in> set [0..<unat n]" "b \<in> set [0..<unat n]" "word_of_nat a = (word_of_nat b :: u32)"
  have "unat (word_of_nat a :: u32) = a" by (rule unat_small [of _ n]) (use ab in simp)
  moreover have "unat (word_of_nat b :: u32) = b" by (rule unat_small [of _ n]) (use ab in simp)
  ultimately show "a = b" using ab(3) by metis
qed simp

lemma rebalance_run:
  assumes "shards_known sm" and "replication sm \<ge> 1"
  shows "\<exists>sm'. rebalanceShards it hp sm = Some sm' \<and> shardCount sm' = shardCount sm \<and> sm_ring sm' = sm_ring sm
    \<and> replication sm' = replication sm \<and> shards_known sm'
    \<and> (GetAllNodes it hp (sm_ring sm) \<noteq> [] \<longrightarrow> (\<forall>i < shardCount sm. map_of (shards sm') i =
         map_option (assigned (GetAllNodes it hp (sm_ring sm)) (replication sm) i) (map_of (shards sm) i)))"
proof -
  let ?nodes = "GetAllNodes it hp (sm_ring sm)"
  have "\<forall>i \<in> set (u32s (shardCount sm)). map_of (shards sm) i \<noteq> None" using assms(1) by (simp add: shards_known_def set_u32s)
  from assign_shards_spec [OF assms(2) this distinct_u32s, of ?nodes] show ?thesis
    using assms(1) by (cases "?nodes = []") (fastforce simp: rebalanceShards_def set_u32s shards_known_def)+
qed

text \<open>Nodes have distinct ids.\<close>

lemma GetAllNodes_ids:
  assumes "ring_inv hp hr" and "visits_all it"
  shows "distinct (map cnID (GetAllNodes it hp hr))" "set (map cnID (GetAllNodes it hp hr)) = fst ` set (hr_nodes hr)"
proof -
  have names: "map (cnID \<circ> hp) (map snd (hr_nodes hr)) = map fst (hr_nodes hr)" using assms(1) by (auto simp: ring_inv_def)
  have "mset (map (cnID \<circ> hp) (it (map snd (hr_nodes hr)))) = mset (map fst (hr_nodes hr))"
    using assms(2) by (metis names mset_map visits_all_def)
  then have m: "mset (map cnID (GetAllNodes it hp hr)) = mset (map fst (hr_nodes hr))" by (simp add: GetAllNodes_def comp_def)
  show "distinct (map cnID (GetAllNodes it hp hr))" using mset_eq_imp_distinct_iff [OF m] assms(1) by (simp add: ring_inv_def)
  show "set (map cnID (GetAllNodes it hp hr)) = fst ` set (hr_nodes hr)" using mset_eq_setD [OF m] by simp
qed

lemma replicas_ok:
  fixes i :: u32 and sh :: shard
  assumes d: "distinct (map cnID nodes)" and ne: "nodes \<noteq> []" and r: "repl \<ge> 1"
  defines "sh' \<equiv> assigned nodes repl i sh"
  shows "Primary sh' \<in> set (map cnID nodes)" "distinct (Primary sh' # Replicas sh')" "set (Replicas sh') \<subseteq> set (map cnID nodes)"
    "length (Replicas sh') = min (nat repl) (length nodes) - 1"
proof -
  let ?n = "length nodes" and ?m = "min (nat repl) (length nodes)" and ?p = "unat i mod length nodes"
  let ?id = "\<lambda>k. cnID (nodes ! ((?p + k) mod length nodes))"
  have n: "?n > 0" using ne by simp
  have m: "?m > 0" using n r by simp
  have all: "Primary sh' # Replicas sh' = map ?id [0..<?m]"
    using n m by (simp add: sh'_def assigned_def Let_def upt_conv_Cons)
  have inj: "a = b" if "a < ?n" "b < ?n" "?id a = ?id b" for a b
  proof -
    have "(?p + a) mod ?n = (?p + b) mod ?n"
      using that(3) nth_eq_iff_index_eq [OF d, of "(?p + a) mod ?n" "(?p + b) mod ?n"] n by simp
    moreover have "(p + k) mod n = (if p + k < n then p + k else p + k - n)" if "p < n" "k < n" for p k n :: nat
      using that by (simp add: mod_if)
    ultimately show ?thesis using that(1,2) mod_less_divisor [OF n, of "unat i"] by (auto split: if_splits)
  qed
  show "distinct (Primary sh' # Replicas sh')" unfolding all by (auto simp: distinct_map inj_on_def intro: inj)
  have "set (Primary sh' # Replicas sh') \<subseteq> set (map cnID nodes)" unfolding all using n by auto
  then show "Primary sh' \<in> set (map cnID nodes)" "set (Replicas sh') \<subseteq> set (map cnID nodes)" by auto
  show "length (Replicas sh') = ?m - 1" by (simp add: sh'_def assigned_def Let_def)
qed

text \<open>Of the numbers below a bound, each residue is taken equally often, up to one.\<close>

lemma card_residue: "p < n \<Longrightarrow> card {k. k < N \<and> k mod n = p} = (N + n - 1 - p) div (n :: nat)"
proof (induction N)
  case 0
  then show ?case by simp
next
  case (Suc N)
  have s: "{k. k < Suc N \<and> k mod n = p} = (if N mod n = p then insert N {k. k < N \<and> k mod n = p} else {k. k < N \<and> k mod n = p})"
    by (auto simp: less_Suc_eq)
  have q: "N + n - 1 - p = n - 1 - p + N" "Suc N + n - 1 - p = Suc (n - 1 - p + N)" using Suc.prems by simp_all
  have "Suc (n - 1 - p + N) mod n = 0 \<longleftrightarrow> N mod n = p"
  proof -
    have "Suc (n - 1 - p + N) = N + (n - p)" using Suc.prems by simp
    then have "Suc (n - 1 - p + N) mod n = (N mod n + (n - p)) mod n" by (simp only: mod_add_left_eq)
    also have "\<dots> = (if N mod n < p then N mod n + (n - p) else N mod n - p)"
    proof (cases "N mod n < p")
      case False
      then have e: "N mod n + (n - p) = N mod n - p + n" using Suc.prems by simp
      have "N mod n - p < n" using Suc.prems mod_less_divisor [of n N] by linarith
      then have "(N mod n - p + n) mod n = N mod n - p" by (simp only: mod_add_self2 mod_less)
      then show ?thesis unfolding e using False by simp
    qed (use Suc.prems in simp)
    finally show ?thesis using Suc.prems by (auto split: if_splits)
  qed
  then show ?case unfolding s q div_Suc using Suc q(1) by (auto simp: card_insert_if)
qed

lemma card_residue_balanced:
  fixes n N :: nat
  assumes "p < n" and "q < n"
  shows "card {k. k < N \<and> k mod n = p} \<le> card {k. k < N \<and> k mod n = q} + 1"
proof -
  have "N + n - 1 - p \<le> N + n - 1 - q + n" using assms by simp
  then have "(N + n - 1 - p) div n \<le> (N + n - 1 - q + n) div n" by (rule div_le_mono)
  also have "\<dots> = (N + n - 1 - q) div n + 1" using assms by (intro div_add_self2) simp
  finally show ?thesis by (simp add: card_residue assms)
qed

end
