(* ===== verification/Gossip.thy ===== *)
theory Gossip
  imports Cluster_Ring "HOL-Library.Product_Lexorder" "HOL-Library.Option_ord"
begin

text \<open>
  The gossip protocol of \<open>pkg/cluster/gossip.go\<close>. The map of states holds pointers, and the local state is shared
  with it: states live in a store of cells. The read-write lock \<open>mu\<close> is part of the state, because methods that hold it
  call methods that take it; \<open>sync.RWMutex\<close> is not reentrant, so such a call never returns (\<open>Blocked\<close>, with the
  state it leaves behind). Times are arguments, as are the answers of the transport and the random draws; a map is
  visited in the order of its list. Callbacks are recorded as events.
\<close>

section \<open>Calls that may block\<close>

datatype ('a, 's) run = Returned 'a 's | Blocked 's

fun bind_run :: "('a, 's) run \<Rightarrow> ('a \<Rightarrow> 's \<Rightarrow> ('b, 's) run) \<Rightarrow> ('b, 's) run" where
  "bind_run (Returned x s) f = f x s"
| "bind_run (Blocked s) f = Blocked s"

section \<open>State\<close>

record gossip_state =
  gsNodeID :: string
  gsAddress :: string
  gsState :: string
  Incarnation :: u64
  LastUpdated :: int
  gsMetadata :: "(string \<times> string) list"

datatype gossip_type = GossipTypePush | GossipTypePull | GossipTypePushPull | GossipTypeProbe | GossipTypeProbeAck
  | GossipTypeAlive | GossipTypeSuspect | GossipTypeDead | GossipTypeOther string

record gossip_message =
  gmType :: gossip_type
  gmStates :: "gossip_state list"
  gmFrom :: string
  gmSeqNo :: u64

record suspicion_timer =
  stNode :: string
  startTime :: int
  stTimeout :: int

datatype member_event = OnJoin string string | OnLeave string | OnFail string

record gossiper =
  GossipFanout :: int
  SuspicionMult :: int
  ProbeInterval :: int
  cells :: "nat \<Rightarrow> gossip_state"
  next_cell :: nat
  localState :: nat
  gstates :: "(string \<times> nat) list"
  g_incarnation :: u64
  seqNo :: u64
  suspicions :: "(string \<times> suspicion_timer) list"
  broadcasts :: "gossip_message list"
  onJoin :: bool
  onLeave :: bool
  onFail :: bool
  events :: "member_event list"
  mu :: bool

definition NewGossiper :: "string \<Rightarrow> string \<Rightarrow> int \<Rightarrow> int \<Rightarrow> int \<Rightarrow> int \<Rightarrow> gossiper" where
  "NewGossiper nodeID addr fanout smult interval now =
    (let s = \<lparr>gsNodeID = nodeID, gsAddress = addr, gsState = NodeStateActive, Incarnation = 1, LastUpdated = now, gsMetadata = []\<rparr> in
     \<lparr>GossipFanout = fanout, SuspicionMult = smult, ProbeInterval = interval, cells = (\<lambda>_. s), next_cell = 1, localState = 0,
      gstates = [(nodeID, 0)], g_incarnation = 1, seqNo = 0, suspicions = [], broadcasts = [],
      onJoin = False, onLeave = False, onFail = False, events = [], mu = False\<rparr>)"

definition own :: "gossiper \<Rightarrow> gossip_state" where
  "own g = cells g (localState g)"

definition upd_cell :: "nat \<Rightarrow> (gossip_state \<Rightarrow> gossip_state) \<Rightarrow> gossiper \<Rightarrow> gossiper" where
  "upd_cell r f g = g\<lparr>cells := (cells g)(r := f (cells g r))\<rparr>"

section \<open>Locking\<close>

text \<open>A method body between \<open>Lock\<close> (or \<open>RLock\<close>) and the deferred unlock.\<close>

definition locked :: "(gossiper \<Rightarrow> ('a, gossiper) run) \<Rightarrow> gossiper \<Rightarrow> ('a, gossiper) run" where
  "locked body g = (if mu g then Blocked g
     else case body (g\<lparr>mu := True\<rparr>) of Returned x g' \<Rightarrow> Returned x (g'\<lparr>mu := False\<rparr>) | Blocked g' \<Rightarrow> Blocked g')"

definition nextSeqNo :: "gossiper \<Rightarrow> (u64, gossiper) run" where
  "nextSeqNo = locked (\<lambda>g. Returned (seqNo g + 1) (g\<lparr>seqNo := seqNo g + 1\<rparr>))"

definition getAllStates :: "gossiper \<Rightarrow> (gossip_state list, gossiper) run" where
  "getAllStates = locked (\<lambda>g. Returned (map (\<lambda>(i, r). cells g r) (gstates g)) g)"

definition GetMembers :: "gossiper \<Rightarrow> (gossip_state list, gossiper) run" where
  "GetMembers = getAllStates"

definition GetHealthyMembers :: "gossiper \<Rightarrow> (gossip_state list, gossiper) run" where
  "GetHealthyMembers = locked (\<lambda>g. Returned (filter (\<lambda>s. gsState s = NodeStateActive) (map (\<lambda>(i, r). cells g r) (gstates g))) g)"

definition set_OnJoin :: "bool \<Rightarrow> gossiper \<Rightarrow> (unit, gossiper) run" where
  "set_OnJoin f = locked (\<lambda>g. Returned () (g\<lparr>onJoin := f\<rparr>))"

definition set_OnLeave :: "bool \<Rightarrow> gossiper \<Rightarrow> (unit, gossiper) run" where
  "set_OnLeave f = locked (\<lambda>g. Returned () (g\<lparr>onLeave := f\<rparr>))"

definition set_OnFail :: "bool \<Rightarrow> gossiper \<Rightarrow> (unit, gossiper) run" where
  "set_OnFail f = locked (\<lambda>g. Returned () (g\<lparr>onFail := f\<rparr>))"

definition bump :: "int \<Rightarrow> gossiper \<Rightarrow> gossiper" where
  "bump now g = (let n = g_incarnation g + 1 in
     upd_cell (localState g) (\<lambda>s. s\<lparr>Incarnation := n, LastUpdated := now\<rparr>) (g\<lparr>g_incarnation := n\<rparr>))"

definition SetMetadata :: "string \<Rightarrow> string \<Rightarrow> int \<Rightarrow> gossiper \<Rightarrow> (unit, gossiper) run" where
  "SetMetadata key val now = locked (\<lambda>g. Returned ()
     (bump now (upd_cell (localState g) (\<lambda>s. s\<lparr>gsMetadata := map_set key val (gsMetadata s)\<rparr>) g)))"

section \<open>Broadcasts\<close>

definition queueBroadcast :: "gossip_message \<Rightarrow> gossiper \<Rightarrow> gossiper" where
  "queueBroadcast msg g = (let bs = broadcasts g @ [msg] in g\<lparr>broadcasts := if length bs > 100 then tl bs else bs\<rparr>)"

definition broadcast :: "gossip_type \<Rightarrow> nat \<Rightarrow> gossiper \<Rightarrow> (unit, gossiper) run" where
  "broadcast ty r g = bind_run (nextSeqNo g) (\<lambda>n g. Returned ()
     (queueBroadcast \<lparr>gmType = ty, gmStates = [cells g r], gmFrom = gsNodeID (own g), gmSeqNo = n\<rparr> g))"

definition broadcastState :: "nat \<Rightarrow> gossiper \<Rightarrow> (unit, gossiper) run" where
  "broadcastState r = locked (broadcast GossipTypeAlive r)"

definition Leave :: "int \<Rightarrow> gossiper \<Rightarrow> (unit, gossiper) run" where
  "Leave now g = bind_run
     (locked (\<lambda>g. Returned () (bump now (upd_cell (localState g) (\<lambda>s. s\<lparr>gsState := NodeStateLeaving\<rparr>) g))) g)
     (\<lambda>_ g. broadcastState (localState g) g)"

section \<open>Suspicion\<close>

definition startSuspicion :: "string \<Rightarrow> int \<Rightarrow> int \<Rightarrow> gossiper \<Rightarrow> (unit, gossiper) run" where
  "startSuspicion i t1 t2 = locked (\<lambda>g.
     if map_of (suspicions g) i \<noteq> None then Returned () g
     else case map_of (gstates g) i of None \<Rightarrow> Returned () g
      | Some r \<Rightarrow> if gsState (cells g r) \<noteq> NodeStateActive then Returned () g
          else let timeout = SuspicionMult g * ProbeInterval g * int (length (gstates g));
                   g1 = upd_cell r (\<lambda>s. s\<lparr>gsState := NodeStateSuspect, LastUpdated := t1\<rparr>) g
               in broadcast GossipTypeSuspect r
                    (g1\<lparr>suspicions := map_set i \<lparr>stNode = i, startTime = t2, stTimeout = timeout\<rparr> (suspicions g1)\<rparr>))"

definition clearSuspicion :: "string \<Rightarrow> int \<Rightarrow> gossiper \<Rightarrow> (unit, gossiper) run" where
  "clearSuspicion i now = locked (\<lambda>g. let g1 = g\<lparr>suspicions := map_del i (suspicions g)\<rparr> in
     Returned () (case map_of (gstates g1) i of None \<Rightarrow> g1
       | Some r \<Rightarrow> if gsState (cells g1 r) = NodeStateSuspect
           then upd_cell r (\<lambda>s. s\<lparr>gsState := NodeStateActive, LastUpdated := now\<rparr>) g1 else g1))"

fun check_loop :: "int \<Rightarrow> (string \<times> suspicion_timer) list \<Rightarrow> gossiper \<Rightarrow> (unit, gossiper) run" where
  "check_loop now [] g = Returned () g"
| "check_loop now ((i, tm) # rest) g =
    (if now - startTime tm > stTimeout tm then
       bind_run (case map_of (gstates g) i of None \<Rightarrow> Returned () g
         | Some r \<Rightarrow> let g1 = upd_cell r (\<lambda>s. s\<lparr>gsState := NodeStateInactive, LastUpdated := now\<rparr>) g;
                         g2 = (if onFail g1 then g1\<lparr>events := events g1 @ [OnFail i]\<rparr> else g1)
                     in broadcast GossipTypeDead r g2)
        (\<lambda>_ g. check_loop now rest (g\<lparr>suspicions := map_del i (suspicions g)\<rparr>))
     else check_loop now rest g)"

definition checkSuspicions :: "int \<Rightarrow> gossiper \<Rightarrow> (unit, gossiper) run" where
  "checkSuspicions now = locked (\<lambda>g. check_loop now (suspicions g) g)"

section \<open>Merging\<close>

definition statePriority :: "string \<Rightarrow> int" where
  "statePriority s = (if s = NodeStateActive then 0 else if s = NodeStateSuspect then 1 else if s = NodeStateLeaving then 2
     else if s = NodeStateInactive then 3 else -1)"

definition merge_one :: "gossip_state \<Rightarrow> gossiper \<Rightarrow> gossiper" where
  "merge_one incoming g = (case map_of (gstates g) (gsNodeID incoming) of
     None \<Rightarrow>
       let r = next_cell g;
           g1 = g\<lparr>cells := (cells g)(r := incoming), next_cell := r + 1, gstates := map_set (gsNodeID incoming) r (gstates g)\<rparr>
       in if gsState incoming = NodeStateActive \<and> onJoin g1
          then g1\<lparr>events := events g1 @ [OnJoin (gsNodeID incoming) (gsAddress incoming)]\<rparr> else g1
   | Some r \<Rightarrow>
       let existing = cells g r in
       if Incarnation incoming < Incarnation existing then g
       else if Incarnation incoming = Incarnation existing \<and> statePriority (gsState incoming) \<le> statePriority (gsState existing) then g
       else let oldState = gsState existing; g1 = upd_cell r (\<lambda>_. incoming) g;
                g2 = (if oldState = NodeStateActive \<and> gsState incoming = NodeStateInactive \<and> onFail g1
                      then g1\<lparr>events := events g1 @ [OnFail (gsNodeID incoming)]\<rparr> else g1)
            in if oldState = NodeStateActive \<and> gsState incoming = NodeStateLeaving \<and> onLeave g2
               then g2\<lparr>events := events g2 @ [OnLeave (gsNodeID incoming)]\<rparr> else g2)"

definition mergeStates :: "gossip_state list \<Rightarrow> gossiper \<Rightarrow> (unit, gossiper) run" where
  "mergeStates states = locked (\<lambda>g. Returned () (fold merge_one states g))"

section \<open>Messages\<close>

definition push_message :: "gossiper \<Rightarrow> (gossip_message, gossiper) run" where
  "push_message g = bind_run (getAllStates g) (\<lambda>ss g. bind_run (nextSeqNo g) (\<lambda>n g.
     Returned \<lparr>gmType = GossipTypePush, gmStates = ss, gmFrom = gsNodeID (own g), gmSeqNo = n\<rparr> g))"

definition HandleMessage :: "gossip_message \<Rightarrow> gossiper \<Rightarrow> (gossip_message option, gossiper) run" where
  "HandleMessage msg g = (case gmType msg of
     GossipTypePush \<Rightarrow> bind_run (mergeStates (gmStates msg) g) (\<lambda>_ g. Returned None g)
   | GossipTypePull \<Rightarrow> bind_run (push_message g) (\<lambda>m g. Returned (Some m) g)
   | GossipTypePushPull \<Rightarrow> bind_run (mergeStates (gmStates msg) g) (\<lambda>_ g. bind_run (push_message g) (\<lambda>m g. Returned (Some m) g))
   | GossipTypeProbe \<Rightarrow> Returned (Some \<lparr>gmType = GossipTypeProbeAck, gmStates = [], gmFrom = gsNodeID (own g), gmSeqNo = 0\<rparr>) g
   | GossipTypeAlive \<Rightarrow> bind_run (mergeStates (gmStates msg) g) (\<lambda>_ g. Returned None g)
   | GossipTypeSuspect \<Rightarrow> bind_run (mergeStates (gmStates msg) g) (\<lambda>_ g. Returned None g)
   | GossipTypeDead \<Rightarrow> bind_run (mergeStates (gmStates msg) g) (\<lambda>_ g. Returned None g)
   | _ \<Rightarrow> Returned None g)"

text \<open>The transport \<open>send\<close> gives the decoded answer, or nothing on an error.\<close>

definition Join :: "(string \<Rightarrow> gossip_message \<Rightarrow> gossip_message option) \<Rightarrow> string \<Rightarrow> gossiper \<Rightarrow> (bool, gossiper) run" where
  "Join send seed g = bind_run (push_message g) (\<lambda>m g.
     case send seed (m\<lparr>gmType := GossipTypePushPull\<rparr>) of None \<Rightarrow> Returned False g
     | Some resp \<Rightarrow> bind_run (mergeStates (gmStates resp) g) (\<lambda>_ g. Returned True g))"

section \<open>Rounds\<close>

definition cryptoRandIntn :: "int option \<Rightarrow> int \<Rightarrow> int" where
  "cryptoRandIntn draw n = (if n \<le> 0 then 0 else case draw of None \<Rightarrow> 0 | Some v \<Rightarrow> v)"

definition swap :: "nat \<Rightarrow> nat \<Rightarrow> 'a list \<Rightarrow> 'a list" where
  "swap i j xs = xs[i := xs ! j, j := xs ! i]"

fun shuffle :: "(nat \<Rightarrow> int option) \<Rightarrow> nat \<Rightarrow> 'a list \<Rightarrow> 'a list" where
  "shuffle draws 0 xs = xs"
| "shuffle draws (Suc i) xs = shuffle draws i (swap (Suc i) (nat (cryptoRandIntn (draws (Suc i)) (int (Suc i) + 1))) xs)"

definition candidates :: "gossiper \<Rightarrow> gossip_state list" where
  "candidates g = map (\<lambda>(i, r). cells g r)
     (filter (\<lambda>(i, r). i \<noteq> gsNodeID (own g) \<and> gsState (cells g r) = NodeStateActive) (gstates g))"

text \<open>The targets; a negative fanout is a panic (\<open>None\<close>).\<close>

definition selectGossipTargets :: "(nat \<Rightarrow> int option) \<Rightarrow> gossiper \<Rightarrow> (string list option, gossiper) run" where
  "selectGossipTargets draws = locked (\<lambda>g. let cs = map gsAddress (candidates g) in
     if cs = [] then Returned (Some []) g
     else let fanout = (if GossipFanout g > int (length cs) then int (length cs) else GossipFanout g);
              cs' = shuffle draws (length cs - 1) cs
          in Returned (if fanout < 0 then None else go_slice cs' 0 (nat fanout)) g)"

fun gossip_round :: "(string \<Rightarrow> gossip_message \<Rightarrow> gossip_message option) \<Rightarrow> gossip_message \<Rightarrow> string list \<Rightarrow> gossiper \<Rightarrow> (unit, gossiper) run" where
  "gossip_round send m [] g = Returned () g"
| "gossip_round send m (addr # addrs) g = (case send addr m of None \<Rightarrow> gossip_round send m addrs g
     | Some resp \<Rightarrow> bind_run (mergeStates (gmStates resp) g) (\<lambda>_ g. gossip_round send m addrs g))"

definition doGossip :: "(nat \<Rightarrow> int option) \<Rightarrow> (string \<Rightarrow> gossip_message \<Rightarrow> gossip_message option) \<Rightarrow> gossiper \<Rightarrow> (unit option, gossiper) run" where
  "doGossip draws send g = bind_run (selectGossipTargets draws g) (\<lambda>t g. case t of None \<Rightarrow> Returned None g
     | Some targets \<Rightarrow> if targets = [] then Returned (Some ()) g
         else bind_run (push_message g) (\<lambda>m g. bind_run (gossip_round send m targets g) (\<lambda>u g. Returned (Some u) g)))"

definition selectProbeTarget :: "int option \<Rightarrow> gossiper \<Rightarrow> (gossip_state option, gossiper) run" where
  "selectProbeTarget draw = locked (\<lambda>g. let cs = candidates g in
     Returned (if cs = [] then None else Some (cs ! nat (cryptoRandIntn draw (int (length cs))))) g)"

definition doProbe :: "int option \<Rightarrow> (string \<Rightarrow> gossip_message \<Rightarrow> bool) \<Rightarrow> int \<Rightarrow> int \<Rightarrow> gossiper \<Rightarrow> (unit, gossiper) run" where
  "doProbe draw reaches t1 t2 g = bind_run (selectProbeTarget draw g) (\<lambda>t g. case t of None \<Rightarrow> Returned () g
     | Some target \<Rightarrow> bind_run (nextSeqNo g) (\<lambda>n g.
         if reaches (gsAddress target) \<lparr>gmType = GossipTypeProbe, gmStates = [], gmFrom = gsNodeID (own g), gmSeqNo = n\<rparr>
         then clearSuspicion (gsNodeID target) t1 g
         else startSuspicion (gsNodeID target) t1 t2 g))"

end
