(* ===== verification/Cluster_Coordinator.thy ===== *)
theory Cluster_Coordinator
  imports Cluster_Shards Gossip
begin

text \<open>
  The coordinator of \<open>pkg/cluster/cluster.go\<close>: membership, the failure detector, distributed search, replication and the
  snapshot of the cluster state. Nodes are shared by reference between the members, the two rings and the caller, so
  they live in a store; the reference 0 is the local node. The channel of member events holds one hundred events, and a send
  to the full channel blocks. A panic is \<open>None\<close>. The order in which maps are visited and in which the searches of the
  shards answer are arguments, as are the times.
\<close>

section \<open>Configuration and state\<close>

record cluster_config =
  cfgNodeID :: string
  ListenAddr :: string
  AdvertiseAddr :: string
  SeedNodes :: "string list"
  ReplicationFactor :: int
  cfgShardCount :: int
  HeartbeatInterval :: int
  FailureTimeout :: int

definition DefaultConfig_cluster :: cluster_config where
  "DefaultConfig_cluster = \<lparr>cfgNodeID = [], ListenAddr = [], AdvertiseAddr = [], SeedNodes = [], ReplicationFactor = 2,
     cfgShardCount = 16, HeartbeatInterval = 1000000000, FailureTimeout = 5000000000\<rparr>"

datatype member_event_type = MemberEventJoin | MemberEventLeave | MemberEventFailed

record member_notice =
  meType :: member_event_type
  meNode :: nat
  meTime :: int

record coordinator =
  co_config :: cluster_config
  co_store :: node_store
  shardManager :: shard_manager
  hashRing :: hash_ring
  members :: "(string \<times> nat) list"
  memberCh :: "member_notice list"
  isLeader :: bool
  leaderID :: string

abbreviation localNode :: nat where "localNode \<equiv> 0"

definition NewCoordinator :: "(string \<Rightarrow> u32) \<Rightarrow> ((u32 \<times> string) list \<Rightarrow> (u32 \<times> string) list) \<Rightarrow> (nat list \<Rightarrow> nat list)
    \<Rightarrow> node_store \<Rightarrow> cluster_config \<Rightarrow> coordinator option" where
  "NewCoordinator hk srt it hp cfg =
    (let hp' = hp(localNode := \<lparr>cnID = cfgNodeID cfg, cnAddress = AdvertiseAddr cfg, cnState = NodeStateActive, LastHeartbeat = 0,
                     cnShards = [], ReplicaShards = [], cnMetadata = []\<rparr>)
     in map_option (\<lambda>sm. \<lparr>co_config = cfg, co_store = hp', shardManager = sm,
          hashRing = AddNode hk srt hp' localNode (NewHashRing 150), members = [(cfgNodeID cfg, localNode)], memberCh = [],
          isLeader = False, leaderID = []\<rparr>)
        (AddNode_shards hk srt it hp' localNode (NewShardManager (cfgShardCount cfg) (ReplicationFactor cfg))))"

definition send_event :: "member_notice \<Rightarrow> coordinator \<Rightarrow> (unit, coordinator) run" where
  "send_event e c = (if length (memberCh c) < 100 then Returned () (c\<lparr>memberCh := memberCh c @ [e]\<rparr>) else Blocked c)"

section \<open>Membership\<close>

definition sendHeartbeats :: "int \<Rightarrow> coordinator \<Rightarrow> coordinator" where
  "sendHeartbeats now c = c\<lparr>co_store := (co_store c)(localNode := (co_store c localNode)\<lparr>LastHeartbeat := now\<rparr>)\<rparr>"

fun detect_loop :: "int \<Rightarrow> nat list \<Rightarrow> member_notice list \<Rightarrow> coordinator \<Rightarrow> member_notice list \<times> coordinator" where
  "detect_loop now [] failed c = (failed, c)"
| "detect_loop now (r # rs) failed c =
    (let node = co_store c r in
     if cnID node = cnID (co_store c localNode) then detect_loop now rs failed c
     else if now - LastHeartbeat node > FailureTimeout (co_config c) then
       if cnState node = NodeStateActive then
         detect_loop now rs failed (c\<lparr>co_store := (co_store c)(r := node\<lparr>cnState := NodeStateSuspect\<rparr>)\<rparr>)
       else if cnState node = NodeStateSuspect then
         detect_loop now rs (failed @ [\<lparr>meType = MemberEventFailed, meNode = r, meTime = now\<rparr>])
           (c\<lparr>co_store := (co_store c)(r := node\<lparr>cnState := NodeStateInactive\<rparr>)\<rparr>)
       else detect_loop now rs failed c
     else detect_loop now rs failed c)"

fun send_events :: "member_notice list \<Rightarrow> coordinator \<Rightarrow> (unit, coordinator) run" where
  "send_events [] c = Returned () c"
| "send_events (e # es) c = bind_run (send_event e c) (\<lambda>_. send_events es)"

definition detectFailures :: "(nat list \<Rightarrow> nat list) \<Rightarrow> int \<Rightarrow> coordinator \<Rightarrow> (unit, coordinator) run" where
  "detectFailures it now c = (case detect_loop now (it (map snd (members c))) [] c of (failed, c') \<Rightarrow> send_events failed c')"

definition AddMember :: "(string \<Rightarrow> u32) \<Rightarrow> ((u32 \<times> string) list \<Rightarrow> (u32 \<times> string) list) \<Rightarrow> (nat list \<Rightarrow> nat list)
    \<Rightarrow> nat \<Rightarrow> int \<Rightarrow> int \<Rightarrow> coordinator \<Rightarrow> (unit, coordinator) run option" where
  "AddMember hk srt it r now now' c =
    (let hp = (co_store c)(r := (co_store c r)\<lparr>cnState := NodeStateActive, LastHeartbeat := now\<rparr>);
         c1 = c\<lparr>co_store := hp, members := map_set (cnID (hp r)) r (members c), hashRing := AddNode hk srt hp r (hashRing c)\<rparr>
     in map_option (\<lambda>sm. send_event \<lparr>meType = MemberEventJoin, meNode = r, meTime = now'\<rparr> (c1\<lparr>shardManager := sm\<rparr>))
          (AddNode_shards hk srt it hp r (shardManager c1)))"

definition RemoveMember :: "(nat list \<Rightarrow> nat list) \<Rightarrow> string \<Rightarrow> int \<Rightarrow> coordinator \<Rightarrow> (unit, coordinator) run option" where
  "RemoveMember it i now c = (case map_of (members c) i of
     None \<Rightarrow> Some (Returned () c)
   | Some r \<Rightarrow>
       let c1 = c\<lparr>members := map_del i (members c), hashRing := RemoveNode i (hashRing c)\<rparr>
       in map_option (\<lambda>sm. send_event \<lparr>meType = MemberEventLeave, meNode = r, meTime = now\<rparr> (c1\<lparr>shardManager := sm\<rparr>))
            (RemoveNode_shards it (co_store c1) i (shardManager c1)))"

definition GetMembers_coordinator :: "(nat list \<Rightarrow> nat list) \<Rightarrow> coordinator \<Rightarrow> cluster_node list" where
  "GetMembers_coordinator it c = map (co_store c) (it (map snd (members c)))"

definition SetLeader :: "bool \<Rightarrow> string \<Rightarrow> coordinator \<Rightarrow> coordinator" where
  "SetLeader b i c = c\<lparr>isLeader := b, leaderID := i\<rparr>"

section \<open>Distributed search\<close>

text \<open>Durations are left out; scores and payloads are type parameters, since no shard returns any.\<close>

record ('s, 'p) search_result =
  srID :: string
  srScore :: 's
  srPayload :: 'p

record ('s, 'p) shard_search_result =
  ssShardID :: u32
  ssNodeID :: string
  ssResults :: "('s, 'p) search_result list"
  ssError :: string

record shard_result =
  srShardID :: u32
  srNodeID :: string
  srCount :: nat
  srError :: string

definition searchShard :: "(nat list \<Rightarrow> nat list) \<Rightarrow> coordinator \<Rightarrow> u32 \<Rightarrow> ('s, 'p) shard_search_result" where
  "searchShard it c i = (case GetPrimaryNode it (co_store c) (shardManager c) i of
     None \<Rightarrow> \<lparr>ssShardID = i, ssNodeID = [], ssResults = [], ssError = ''no node available for shard''\<rparr>
   | Some node \<Rightarrow> \<lparr>ssShardID = i, ssNodeID = cnID node, ssResults = [], ssError = []\<rparr>)"

text \<open>The merge of the answers, in the order in which they arrive.\<close>

definition merge_answers :: "(('s, 'p) search_result list \<Rightarrow> ('s, 'p) search_result list) \<Rightarrow> int \<Rightarrow> ('s, 'p) shard_search_result list
    \<Rightarrow> (('s, 'p) search_result list \<times> shard_result list) option" where
  "merge_answers srt k answers =
    (let shardResults = map (\<lambda>a. \<lparr>srShardID = ssShardID a, srNodeID = ssNodeID a, srCount = length (ssResults a), srError = ssError a\<rparr>) answers;
         allResults = srt (concat (map ssResults answers))
     in if int (length allResults) > k
        then if k < 0 then None else map_option (\<lambda>rs. (rs, shardResults)) (go_slice allResults 0 (nat k))
        else Some (allResults, shardResults))"

definition DistributedSearch :: "(nat list \<Rightarrow> nat list) \<Rightarrow> (('s, 'p) search_result list \<Rightarrow> ('s, 'p) search_result list)
    \<Rightarrow> (('s, 'p) shard_search_result list \<Rightarrow> ('s, 'p) shard_search_result list) \<Rightarrow> int \<Rightarrow> coordinator \<Rightarrow> (('s, 'p) search_result list \<times> shard_result list) option" where
  "DistributedSearch it srt arrive k c = merge_answers srt k (arrive (map (searchShard it c) (u32s (shardCount (shardManager c)))))"

section \<open>Replication and the cluster state\<close>

definition acks_ok :: "nat \<Rightarrow> nat \<Rightarrow> bool" where
  "acks_ok nodes errs \<longleftrightarrow> \<not> int nodes - 1 - int errs < int ((nodes + 1) div 2)"

definition sendToNode :: "nat \<Rightarrow> string option" where
  "sendToNode r = None"

text \<open>\<open>None\<close> is success, otherwise the text of the error.\<close>

definition ReplicateWrite :: "(string \<Rightarrow> u32) \<Rightarrow> string \<Rightarrow> coordinator \<Rightarrow> string option" where
  "ReplicateWrite hk key c =
    (let nodes = GetNodesForKey hk (co_store c) (shardManager c) key;
         errs = filter (\<lambda>r. sendToNode r \<noteq> None) (drop 1 nodes)
     in if length nodes < 2 then None
        else if acks_ok (length nodes) (length errs) then None else Some ''insufficient replica acknowledgments'')"

record cluster_state =
  csVersion :: u64
  csMembers :: "cluster_node list"
  csShards :: "(u32 \<times> shard) list"
  csLeaderID :: string
  csTimestamp :: int

definition GetState :: "(nat list \<Rightarrow> nat list) \<Rightarrow> int \<Rightarrow> coordinator \<Rightarrow> cluster_state" where
  "GetState it now c = \<lparr>csVersion = 1, csMembers = map (co_store c) (it (map snd (members c))),
     csShards = shards (shardManager c), csLeaderID = leaderID c, csTimestamp = now\<rparr>"

end
