(* ===== verification/Gossip_Facts.thy ===== *)
theory Gossip_Facts
  imports Gossip Cluster_Facts
begin

text \<open>
  Merging computes, per node, the maximum of incarnation and severity; the invariant of the table of states.
\<close>

section \<open>Ranks\<close>

text \<open>What decides between two states of a node: the incarnation, then the severity of the state.\<close>

definition srank :: "gossip_state \<Rightarrow> nat \<times> int" where
  "srank s = (unat (Incarnation s), statePriority (gsState s))"

definition rank_of :: "gossiper \<Rightarrow> string \<Rightarrow> (nat \<times> int) option" where
  "rank_of g i = map_option (\<lambda>r. srank (cells g r)) (map_of (gstates g) i)"

definition gossip_inv :: "gossiper \<Rightarrow> bool" where
  "gossip_inv g \<longleftrightarrow> distinct (map fst (gstates g))
     \<and> (\<forall>(i, r) \<in> set (gstates g). r < next_cell g \<and> gsNodeID (cells g r) = i)
     \<and> map_of (gstates g) (gsNodeID (own g)) = Some (localState g)"

lemma gossip_inv_New: "gossip_inv (NewGossiper i a f m t now)"
  by (simp add: gossip_inv_def NewGossiper_def own_def Let_def)

text \<open>Cells of different nodes are different.\<close>

lemma inv_cells:
  assumes "gossip_inv g" and "map_of (gstates g) i = Some r" and "map_of (gstates g) j = Some q"
  shows "r < next_cell g" "gsNodeID (cells g r) = i" "r = q \<longleftrightarrow> i = j"
proof -
  have m: "(i, r) \<in> set (gstates g)" "(j, q) \<in> set (gstates g)" using assms(2,3) by (simp_all add: map_of_SomeD)
  then show "r < next_cell g" "gsNodeID (cells g r) = i" using assms(1) by (auto simp: gossip_inv_def)
  have "gsNodeID (cells g q) = j" using m(2) assms(1) by (auto simp: gossip_inv_def)
  with \<open>gsNodeID (cells g r) = i\<close> assms(2,3) show "r = q \<longleftrightarrow> i = j" by (metis option.inject)
qed

lemma max_option [simp]: "max (Some a) (Some b) = Some (max a b)" "max None x = x" "max x (None :: 'a :: linorder option) = x"
  by (simp_all add: max_def) (cases x; simp)

text \<open>Whether a merge replaces what is known.\<close>

lemma srank_le: "srank s \<le> srank e \<longleftrightarrow> Incarnation s < Incarnation e \<or> Incarnation s = Incarnation e \<and> statePriority (gsState s) \<le> statePriority (gsState e)"
  by (auto simp: srank_def less_eq_prod_def word_less_nat_alt word_unat_eq_iff)

lemma merge_one_cases:
  obtains (add) "map_of (gstates g) (gsNodeID s) = None" "cells (merge_one s g) = (cells g)(next_cell g := s)"
      "gstates (merge_one s g) = map_set (gsNodeID s) (next_cell g) (gstates g)" "next_cell (merge_one s g) = next_cell g + 1"
      "localState (merge_one s g) = localState g" "mu (merge_one s g) = mu g"
  | (skip) r where "map_of (gstates g) (gsNodeID s) = Some r" "srank s \<le> srank (cells g r)" "merge_one s g = g"
  | (replace) r where "map_of (gstates g) (gsNodeID s) = Some r" "srank (cells g r) < srank s" "cells (merge_one s g) = (cells g)(r := s)"
      "gstates (merge_one s g) = gstates g" "next_cell (merge_one s g) = next_cell g" "localState (merge_one s g) = localState g"
      "mu (merge_one s g) = mu g"
proof (cases "map_of (gstates g) (gsNodeID s)")
  case None
  then show ?thesis by (intro add) (simp_all add: merge_one_def Let_def)
next
  case (Some r)
  show ?thesis
  proof (cases "srank s \<le> srank (cells g r)")
    case True
    then have "merge_one s g = g" using Some by (auto simp: merge_one_def Let_def srank_le)
    with Some True show ?thesis by (rule skip)
  next
    case False
    then have "\<not> Incarnation s < Incarnation (cells g r)"
      "\<not> (Incarnation s = Incarnation (cells g r) \<and> statePriority (gsState s) \<le> statePriority (gsState (cells g r)))"
      by (auto simp: srank_le)
    then show ?thesis using Some False by (intro replace [of r]) (simp_all add: merge_one_def Let_def upd_cell_def not_le del: de_Morgan_conj)
  qed
qed

lemma merge_one_inv:
  assumes inv: "gossip_inv g" shows "gossip_inv (merge_one s g) \<and> gsNodeID (own (merge_one s g)) = gsNodeID (own g)"
proof (cases rule: merge_one_cases [of g s])
  case add
  from add(1) have k: "gsNodeID s \<notin> fst ` set (gstates g)" by (simp add: map_of_eq_None_iff)
  have set: "gstates (merge_one s g) = gstates g @ [(gsNodeID s, next_cell g)]" using add(3) k by (simp add: map_set_def)
  have lt: "\<forall>(i, r) \<in> set (gstates g). r < next_cell g" using inv by (auto simp: gossip_inv_def)
  have own: "map_of (gstates g) (gsNodeID (own g)) = Some (localState g)" using inv by (simp add: gossip_inv_def)
  then have "localState g < next_cell g" using inv_cells(1) [OF inv own own] by simp
  then have o: "own (merge_one s g) = own g" using add by (simp add: own_def)
  have names: "\<forall>(i, r) \<in> set (gstates g @ [(gsNodeID s, next_cell g)]). r < next_cell (merge_one s g) \<and> gsNodeID (cells (merge_one s g) r) = i"
    using inv lt add(2,4) by (fastforce simp: gossip_inv_def)
  have "distinct (map fst (gstates g @ [(gsNodeID s, next_cell g)]))" using inv k by (simp add: gossip_inv_def)
  moreover have "map_of (gstates g @ [(gsNodeID s, next_cell g)]) (gsNodeID (own g)) = Some (localState g)"
    using own by (simp add: map_add_def split: option.split)
  ultimately show ?thesis using names o add(5) unfolding gossip_inv_def set by simp
next
  case (skip r)
  with inv show ?thesis by simp
next
  case (replace r)
  have id: "gsNodeID (cells g r) = gsNodeID s" using inv_cells(2) [OF inv replace(1) replace(1)] .
  have "gsNodeID (cells (merge_one s g) q) = gsNodeID (cells g q)" for q using replace(3) id by simp
  with inv replace show ?thesis by (simp add: gossip_inv_def own_def)
qed

lemma merge_one_rank:
  assumes inv: "gossip_inv g"
  shows "rank_of (merge_one s g) i = (if i = gsNodeID s then max (rank_of g i) (Some (srank s)) else rank_of g i)"
proof (cases rule: merge_one_cases [of g s])
  case add
  have "r \<noteq> next_cell g" if "map_of (gstates g) i = Some r" for r using inv_cells(1) [OF inv that that] by simp
  with add show ?thesis by (cases "map_of (gstates g) i") (auto simp: rank_of_def)
next
  case (skip r)
  then show ?thesis by (simp add: rank_of_def max_def)
next
  case (replace r)
  have "q = r \<longleftrightarrow> i = gsNodeID s" if "map_of (gstates g) i = Some q" for q using inv_cells(3) [OF inv that replace(1)] .
  with replace show ?thesis by (cases "map_of (gstates g) i") (auto simp: rank_of_def max_def)
qed

text \<open>The best rank a list of states has for a node.\<close>

definition best :: "string \<Rightarrow> gossip_state list \<Rightarrow> (nat \<times> int) option" where
  "best i ss = fold (\<lambda>s m. if gsNodeID s = i then max m (Some (srank s)) else m) ss None"

lemma best_max: "fold (\<lambda>s m. if gsNodeID s = i then max m (Some (srank s)) else m) ss m = max m (best i ss)"
proof (induction ss arbitrary: m)
  case Nil
  then show ?case by (simp add: best_def)
next
  case (Cons s ss)
  from Cons [of "if gsNodeID s = i then max m (Some (srank s)) else m"] Cons [of "if gsNodeID s = i then Some (srank s) else None"]
  show ?case by (cases "gsNodeID s = i") (simp_all add: best_def max.assoc)
qed

lemma best_Cons: "best i (s # ss) = max (if gsNodeID s = i then Some (srank s) else None) (best i ss)"
  using best_max [of i ss "if gsNodeID s = i then Some (srank s) else None"] unfolding best_def [of i "s # ss"]
  by (cases "gsNodeID s = i") simp_all

lemma merge_all:
  assumes "gossip_inv g"
  shows "gossip_inv (fold merge_one ss g) \<and> gsNodeID (own (fold merge_one ss g)) = gsNodeID (own g)
    \<and> mu (fold merge_one ss g) = mu g \<and> rank_of (fold merge_one ss g) i = max (rank_of g i) (best i ss)"
  using assms
proof (induction ss arbitrary: g)
  case Nil
  then show ?case by (simp add: best_def)
next
  case (Cons s ss)
  have mu: "mu (merge_one s g) = mu g" by (cases rule: merge_one_cases [of g s]) simp_all
  then show ?case using Cons.IH [of "merge_one s g"] merge_one_inv [OF Cons.prems, of s] merge_one_rank [OF Cons.prems, of s i] mu
    by (simp add: best_Cons max.assoc)
qed

text \<open>The states of a table give back its ranks.\<close>

definition all_states :: "gossiper \<Rightarrow> gossip_state list" where
  "all_states g = map (\<lambda>(i, r). cells g r) (gstates g)"

lemma best_all_states: "gossip_inv g \<Longrightarrow> best i (all_states g) = rank_of g i"
proof -
  assume inv: "gossip_inv g"
  have "best i (map (\<lambda>(i, r). cells g r) m) = map_option (\<lambda>r. srank (cells g r)) (map_of m i)"
    if "distinct (map fst m)" "\<forall>(i, r) \<in> set m. gsNodeID (cells g r) = i" for m
    using that
  proof (induction m)
    case Nil
    then show ?case by (simp add: best_def)
  next
    case (Cons x m)
    obtain j r where x: "x = (j, r)" by (cases x)
    have "map_of m j = None" using Cons.prems x by (simp add: map_of_eq_None_iff)
    moreover have "gsNodeID (cells g r) = j" using Cons.prems x by simp
    moreover have "best i (map (\<lambda>(i, r). cells g r) m) = map_option (\<lambda>r. srank (cells g r)) (map_of m i)" using Cons by simp
    ultimately show ?case using x by (cases "i = j") (simp_all add: best_Cons)
  qed
  with inv show ?thesis by (auto simp: all_states_def rank_of_def gossip_inv_def)
qed

section \<open>Runs\<close>

lemma mergeStates_run: "\<not> mu g \<Longrightarrow> mergeStates ss g = Returned () ((fold merge_one ss (g\<lparr>mu := True\<rparr>))\<lparr>mu := False\<rparr>)"
  by (simp add: mergeStates_def locked_def)

lemma getAllStates_run: "\<not> mu g \<Longrightarrow> getAllStates g = Returned (all_states g) g"
  by (simp add: getAllStates_def locked_def all_states_def)

lemma nextSeqNo_run: "\<not> mu g \<Longrightarrow> nextSeqNo g = Returned (seqNo g + 1) (g\<lparr>seqNo := seqNo g + 1\<rparr>)"
  by (simp add: nextSeqNo_def locked_def)

lemma push_message_run:
  "\<not> mu g \<Longrightarrow> push_message g = Returned \<lparr>gmType = GossipTypePush, gmStates = all_states g, gmFrom = gsNodeID (own g), gmSeqNo = seqNo g + 1\<rparr>
     (g\<lparr>seqNo := seqNo g + 1\<rparr>)"
  by (simp add: push_message_def getAllStates_run nextSeqNo_run own_def)

lemma view_simps [simp]:
  "rank_of (g\<lparr>mu := b\<rparr>) = rank_of g" "rank_of (g\<lparr>seqNo := n\<rparr>) = rank_of g"
  "gossip_inv (g\<lparr>mu := b\<rparr>) = gossip_inv g" "gossip_inv (g\<lparr>seqNo := n\<rparr>) = gossip_inv g"
  "all_states (g\<lparr>mu := b\<rparr>) = all_states g" "all_states (g\<lparr>seqNo := n\<rparr>) = all_states g"
  "own (g\<lparr>mu := b\<rparr>) = own g" "own (g\<lparr>seqNo := n\<rparr>) = own g"
  by (simp_all add: rank_of_def gossip_inv_def all_states_def own_def fun_eq_iff)

lemma mergeStates_spec:
  assumes "gossip_inv g" and "\<not> mu g"
  obtains g' where "mergeStates ss g = Returned () g'" "gossip_inv g'" "\<not> mu g'" "\<And>i. rank_of g' i = max (rank_of g i) (best i ss)"
  using merge_all [of "g\<lparr>mu := True\<rparr>" ss] assms mergeStates_run [OF assms(2), of ss] by simp

text \<open>A call that takes the lock while it is held.\<close>

lemma held_blocks: "mu g \<Longrightarrow> locked body g = Blocked g"
  by (simp add: locked_def)

lemma broadcast_held: "mu g \<Longrightarrow> broadcast ty r g = Blocked g"
  by (simp add: broadcast_def nextSeqNo_def held_blocks)

end
