(* ===== verification/Gossip_Properties.thy ===== *)
theory Gossip_Properties
  imports Gossip_Facts
begin

text \<open>
  Properties of the gossip protocol: replicas converge, rounds address live members, and the calls that never
  return.
\<close>

section \<open>Convergence\<close>

lemma best_Max:
  "best i ss = (let R = srank ` {s \<in> set ss. gsNodeID s = i} in if R = {} then None else Some (Max R))"
proof (induction ss)
  case Nil
  then show ?case by (simp add: best_def)
next
  case (Cons s ss)
  have "{t \<in> set (s # ss). gsNodeID t = i} = (if gsNodeID s = i then insert s {t \<in> set ss. gsNodeID t = i} else {t \<in> set ss. gsNodeID t = i})"
    by auto
  moreover have "finite (srank ` {t \<in> set ss. gsNodeID t = i})" by simp
  ultimately show ?case using Cons
    by (cases "gsNodeID s = i"; cases "srank ` {t \<in> set ss. gsNodeID t = i} = {}") (simp_all add: best_Cons Let_def del: image_is_empty Collect_empty_eq)
qed


definition sample_gossiper :: gossiper where
  "sample_gossiper = NewGossiper ''a'' ''a:1'' 3 4 1000 0"

definition sample_state :: "string \<Rightarrow> u64 \<Rightarrow> gossip_state" where
  "sample_state st n = \<lparr>gsNodeID = ''b'', gsAddress = ''b:1'', gsState = st, Incarnation = n, LastUpdated = 5, gsMetadata = []\<rparr>"

lemma sample_gossiper_ok: "gossip_inv sample_gossiper" "\<not> mu sample_gossiper"
  by (simp_all add: sample_gossiper_def gossip_inv_New) (simp add: NewGossiper_def Let_def)


text \<open>Joining through a seed makes both sides agree: after the joining node's push-pull message has been handled by the
  seed and the answer merged, both rank every node by the maximum of what either knew.\<close>

theorem gossip_join_agrees:
  assumes "gossip_inv a" and "gossip_inv b" and "\<not> mu a" and "\<not> mu b"
  shows "\<exists>m r a' b'. gmStates m = all_states a \<and> HandleMessage m b = Returned (Some r) b'
    \<and> Join (\<lambda>addr msg. if addr = seed \<and> msg = m then Some r else None) seed a = Returned True a'
    \<and> (\<forall>i. rank_of a' i = max (rank_of a i) (rank_of b i) \<and> rank_of b' i = rank_of a' i)"
proof -
  let ?m = "\<lparr>gmType = GossipTypePushPull, gmStates = all_states a, gmFrom = gsNodeID (own a), gmSeqNo = seqNo a + 1\<rparr>"
  obtain b1 where b1: "mergeStates (all_states a) b = Returned () b1" "gossip_inv b1" "\<not> mu b1"
      "\<And>i. rank_of b1 i = max (rank_of b i) (best i (all_states a))"
    using mergeStates_spec [OF assms(2,4)] by metis
  let ?b = "b1\<lparr>seqNo := seqNo b1 + 1\<rparr>" and ?a = "a\<lparr>seqNo := seqNo a + 1\<rparr>"
  let ?r = "\<lparr>gmType = GossipTypePush, gmStates = all_states b1, gmFrom = gsNodeID (own b1), gmSeqNo = seqNo b1 + 1\<rparr>"
  have h: "HandleMessage ?m b = Returned (Some ?r) ?b" by (simp add: HandleMessage_def b1 push_message_run)
  have a0: "gossip_inv ?a" "\<not> mu ?a" using assms by simp_all
  obtain a1 where a1: "mergeStates (all_states b1) ?a = Returned () a1" "\<And>i. rank_of a1 i = max (rank_of ?a i) (best i (all_states b1))"
    using mergeStates_spec [OF a0] by metis
  have "Join (\<lambda>addr msg. if addr = seed \<and> msg = ?m then Some ?r else None) seed a = Returned True a1"
    by (simp add: Join_def push_message_run [OF assms(3)] a1)
  moreover have "rank_of a1 i = max (rank_of a i) (rank_of b i) \<and> rank_of ?b i = rank_of a1 i" for i
    using a1(2) [of i] b1(4) [of i] best_all_states [OF b1(2), of i] best_all_states [OF assms(1), of i]
    by (simp add: max.commute max.left_commute)
  ultimately show ?thesis using h by (intro exI [of _ ?m] exI [of _ ?r] exI [of _ a1] exI [of _ ?b]) simp
qed

theorem gossip_join_agrees_witness:
  "\<exists>m r a' b'. gmStates m = all_states sample_gossiper \<and> HandleMessage m (NewGossiper ''b'' ''b:1'' 3 4 1000 0) = Returned (Some r) b'
    \<and> Join (\<lambda>addr msg. if addr = ''b:1'' \<and> msg = m then Some r else None) ''b:1'' sample_gossiper = Returned True a'
    \<and> rank_of a' ''b'' = Some (1, 0)"
proof -
  let ?b = "NewGossiper ''b'' ''b:1'' 3 4 1000 0"
  have "gossip_inv ?b" "\<not> mu ?b" by (rule gossip_inv_New) (simp add: NewGossiper_def Let_def)
  from gossip_join_agrees [OF sample_gossiper_ok(1) this(1) sample_gossiper_ok(2) this(2), of "''b:1''"]
  obtain m r a' b' where w: "gmStates m = all_states sample_gossiper" "HandleMessage m ?b = Returned (Some r) b'"
    "Join (\<lambda>addr msg. if addr = ''b:1'' \<and> msg = m then Some r else None) ''b:1'' sample_gossiper = Returned True a'"
    "rank_of a' ''b'' = max (rank_of sample_gossiper ''b'') (rank_of ?b ''b'')" by blast
  have "rank_of sample_gossiper ''b'' = None" "rank_of ?b ''b'' = Some (1, 0)"
    by (simp_all add: rank_of_def sample_gossiper_def NewGossiper_def Let_def srank_def statePriority_def)
  with w(4) have "rank_of a' ''b'' = Some (1, 0)" by simp
  with w(1-3) show ?thesis by blast
qed

section \<open>Rounds\<close>

definition draws_ok :: "(nat \<Rightarrow> int option) \<Rightarrow> bool" where
  "draws_ok draws \<longleftrightarrow> (\<forall>i v. draws i = Some v \<longrightarrow> 0 \<le> v \<and> v \<le> int i)"

lemma rand_range: "draws_ok draws \<Longrightarrow> nat (cryptoRandIntn (draws i) (int i + 1)) \<le> i"
proof (cases "draws i")
  case (Some v)
  assume "draws_ok draws"
  with Some have "0 \<le> v" "v \<le> int i" by (simp_all add: draws_ok_def)
  with Some show ?thesis by (simp add: cryptoRandIntn_def nat_le_iff)
qed (simp add: cryptoRandIntn_def)

lemma mset_shuffle: "draws_ok draws \<Longrightarrow> i < length xs \<Longrightarrow> mset (shuffle draws i xs) = mset xs"
proof (induction i arbitrary: xs)
  case (Suc i)
  let ?j = "nat (cryptoRandIntn (draws (Suc i)) (int (Suc i) + 1))"
  have j: "?j < length xs" using rand_range [OF Suc.prems(1), of "Suc i"] Suc.prems(2) by simp
  have "mset (swap (Suc i) ?j xs) = mset xs" unfolding swap_def by (rule mset_swap) (use j Suc.prems in auto)
  moreover have "length (swap (Suc i) ?j xs) = length xs" by (simp add: swap_def)
  ultimately show ?case using Suc.IH [of "swap (Suc i) ?j xs"] Suc.prems by simp
qed simp

text \<open>A gossip round addresses as many active members other than the node itself as the fanout asks for and there are,
  none of them more often than it has an entry, whatever the random draws.\<close>

theorem gossip_targets:
  assumes "\<not> mu g" and "GossipFanout g \<ge> 0" and "draws_ok draws"
  shows "\<exists>ts. selectGossipTargets draws g = Returned (Some ts) g
    \<and> length ts = min (nat (GossipFanout g)) (length (candidates g)) \<and> mset ts \<subseteq># mset (map gsAddress (candidates g))"
proof (cases "candidates g")
  case Nil
  then show ?thesis using assms(1) by (simp add: selectGossipTargets_def locked_def candidates_def own_def)
next
  case (Cons c cs)
  let ?as = "map gsAddress (candidates g)"
  let ?n = "min (nat (GossipFanout g)) (length ?as)"
  let ?s = "shuffle draws (length ?as - 1) ?as"
  have ne: "?as \<noteq> []" using Cons by simp
  have m: "mset ?s = mset ?as" by (rule mset_shuffle [OF assms(3)]) (simp add: Cons)
  then have l: "length ?s = length ?as" by (metis size_mset)
  have "selectGossipTargets draws g = Returned (Some (take ?n ?s)) g"
    using assms(1,2) l ne
    by (auto simp: selectGossipTargets_def locked_def candidates_def own_def Let_def go_slice_def min_def split: if_splits)
  moreover have "mset (take ?n ?s) \<subseteq># mset ?s" by (metis append_take_drop_id mset_append mset_subset_eq_add_left)
  ultimately show ?thesis using l m by auto
qed

theorem gossip_targets_witness:
  "\<exists>ts. selectGossipTargets (\<lambda>_. None) sample_gossiper = Returned (Some ts) sample_gossiper \<and> length ts = 0"
proof -
  have "GossipFanout sample_gossiper \<ge> 0" "draws_ok (\<lambda>_. None)" "candidates sample_gossiper = []"
    by (simp_all add: sample_gossiper_def NewGossiper_def Let_def draws_ok_def candidates_def own_def)
  with gossip_targets [OF sample_gossiper_ok(2), of "\<lambda>_. None"] show ?thesis by auto
qed

section \<open>Calls that never return\<close>



text \<open>A node does not refute rumours about itself: a state that declares it dead, with its own incarnation, replaces the
  local state, which is shared with the table; the node then announces itself as dead, and its later metadata updates do so
  with higher incarnations.\<close>

theorem gossip_own_death:
  assumes "gossip_inv g" and "\<not> mu g" and "gsNodeID s = gsNodeID (own g)" and "Incarnation s = Incarnation (own g)"
    and "gsState s = NodeStateInactive" and "gsState (own g) = NodeStateActive"
  shows "\<exists>g' g''. mergeStates [s] g = Returned () g' \<and> own g' = s
    \<and> SetMetadata k v now g' = Returned () g'' \<and> gsState (own g'') = NodeStateInactive"
proof -
  have l: "map_of (gstates g) (gsNodeID s) = Some (localState g)" using assms(1,3) by (simp add: gossip_inv_def)
  have "\<not> srank s \<le> srank (own g)" using assms(4-6) by (simp add: srank_le statePriority_def)
  then have "cells (merge_one s g) = (cells g)(localState g := s) \<and> localState (merge_one s g) = localState g"
    using l by (cases rule: merge_one_cases [of g s]) (auto simp: own_def)
  moreover have "merge_one s (g\<lparr>mu := True\<rparr>) = (merge_one s g)\<lparr>mu := True\<rparr>"
    by (cases "map_of (gstates g) (gsNodeID s)") (simp_all add: merge_one_def upd_cell_def Let_def)
  ultimately have "mergeStates [s] g = Returned () ((merge_one s g)\<lparr>mu := False\<rparr>)" "own ((merge_one s g)\<lparr>mu := False\<rparr>) = s"
    using assms(2) by (simp_all add: mergeStates_run own_def)
  with assms(5) show ?thesis by (simp add: SetMetadata_def locked_def bump_def upd_cell_def own_def Let_def)
qed

theorem gossip_own_death_witness:
  "\<exists>g'. mergeStates [own sample_gossiper\<lparr>gsState := NodeStateInactive\<rparr>] sample_gossiper = Returned () g'
    \<and> gsState (own g') = NodeStateInactive"
proof -
  have "gsState (own sample_gossiper) = NodeStateActive" by (simp add: sample_gossiper_def own_def NewGossiper_def Let_def)
  from gossip_own_death [OF sample_gossiper_ok, of "own sample_gossiper\<lparr>gsState := NodeStateInactive\<rparr>", OF _ _ _ this]
  show ?thesis by fastforce
qed

end
