(* ===== verification/Cluster_Properties.thy ===== *)
theory Cluster_Properties
  imports Cluster_Shards Gossip_Properties
begin

text \<open>
  Properties of the consistent-hashing ring and of the distribution of shards over the nodes.
\<close>

section \<open>The ring\<close>

text \<open>C26: Consistent hashing: a key keeps its node when another node is removed, and when a node is added it keeps its node
  or moves to the new one (as long as no two virtual nodes collide); both operations keep the invariant of the ring: the
  entries are sorted, and the ids of the entries are those of the registered nodes.\<close>

theorem ring_keys_stay:
  assumes "ring_inv hp hr" and "sorts_entries srt" and "cnID (hp r) \<notin> fst ` set (hr_nodes hr)"
    and "distinct (map fst (ring (AddNode hk srt hp r hr)))"
  shows "GetNode hk (AddNode hk srt hp r hr) key \<in> {GetNode hk hr key, Some r}
    \<and> (\<forall>q. GetNode hk hr key = Some q \<longrightarrow> cnID (hp q) \<noteq> i \<longrightarrow> GetNode hk (RemoveNode i hr) key = Some q)
    \<and> ring_inv hp (AddNode hk srt hp r hr) \<and> ring_inv hp (RemoveNode i hr)"
  using GetNode_Add [OF assms] GetNode_Remove [OF assms(1)] ring_inv_Add [OF assms(1,2)] ring_inv_Remove [OF assms(1)] by blast

definition sample_node :: "nat \<Rightarrow> cluster_node" where
  "sample_node r = \<lparr>cnID = replicate r (CHR ''n''), cnAddress = [], cnState = (if r = 3 then NodeStateSuspect else NodeStateActive),
     LastHeartbeat = 0, cnShards = [], ReplicaShards = [], cnMetadata = []\<rparr>"

definition sample_hash :: "string \<Rightarrow> u32" where
  "sample_hash s = word_of_nat (length s)"

abbreviation sort_entries :: "(u32 \<times> string) list \<Rightarrow> (u32 \<times> string) list" where
  "sort_entries \<equiv> sort_key fst"

lemma sort_entries_ok: "sorts_entries sort_entries"
  by (simp add: sorts_entries_def)

definition sample_ring :: hash_ring where
  "sample_ring = AddNode sample_hash sort_entries sample_node 2 (AddNode sample_hash sort_entries sample_node 1 (NewHashRing 1))"

lemma sample_ring_inv: "ring_inv sample_node sample_ring"
  by (simp add: sample_ring_def ring_inv_Add ring_inv_New sort_entries_ok)

lemma sample_ring_eval:
  "hr_nodes sample_ring = [(''n'', 1), (''nn'', 2)]" "ring sample_ring = [(3, ''n''), (4, ''nn'')]" "virtualNodes sample_ring = 1"
  by code_simp+

theorem ring_keys_stay_witness:
  "GetNode sample_hash (AddNode sample_hash sort_entries sample_node 3 sample_ring) ''keys'' \<in> {GetNode sample_hash sample_ring ''keys'', Some 3}
   \<and> GetNode sample_hash sample_ring ''keys'' = Some 2 \<and> GetNode sample_hash (RemoveNode ''n'' sample_ring) ''keys'' = Some 2"
proof -
  have f: "cnID (sample_node 3) \<notin> fst ` set (hr_nodes sample_ring)" by (simp add: sample_ring_eval sample_node_def eval_nat_numeral)
  have d: "distinct (map fst (ring (AddNode sample_hash sort_entries sample_node 3 sample_ring)))" by code_simp
  have g: "GetNode sample_hash sample_ring ''keys'' = Some 2" by code_simp
  have "cnID (sample_node 2) \<noteq> ''n''" by (simp add: sample_node_def eval_nat_numeral)
  with ring_keys_stay [OF sample_ring_inv sort_entries_ok f d, of "''keys''" "''n''"] g show ?thesis by simp
qed

text \<open>The nodes responsible for a key are healthy, distinct, and as many as asked for or all there are.\<close>

theorem ring_replicas:
  assumes "ring_inv hp hr"
  shows "distinct (map (cnID \<circ> hp) (GetNodes hk hp hr key n)) \<and> (\<forall>r \<in> set (GetNodes hk hp hr key n). IsHealthy (hp r))
    \<and> length (GetNodes hk hp hr key n) = min (nat n) (card {r \<in> snd ` set (hr_nodes hr). IsHealthy (hp r)})"
proof -
  note g = GetNodes_healthy [OF assms, of hk key n]
  have "inj_on (cnID \<circ> hp) (snd ` set (hr_nodes hr))"
  proof (rule inj_onI)
    fix r q assume "r \<in> snd ` set (hr_nodes hr)" "q \<in> snd ` set (hr_nodes hr)" and e: "(cnID \<circ> hp) r = (cnID \<circ> hp) q"
    then obtain i j where m: "(i, r) \<in> set (hr_nodes hr)" "(j, q) \<in> set (hr_nodes hr)" by auto
    have names: "\<forall>(i, r) \<in> set (hr_nodes hr). cnID (hp r) = i" and dk: "distinct (map fst (hr_nodes hr))"
      using assms by (simp_all add: ring_inv_def)
    from bspec [OF names m(1)] bspec [OF names m(2)] e have "i = j" by simp
    with m show "r = q" using eq_key_imp_eq_value [OF dk] by blast
  qed
  then have "inj_on (cnID \<circ> hp) (set (GetNodes hk hp hr key n))" by (rule inj_on_subset) (use g(2) in blast)
  with g show ?thesis by (auto simp: distinct_map)
qed

theorem ring_replicas_witness:
  "length (GetNodes sample_hash sample_node sample_ring ''keys'' 5) = 2"
proof -
  have "{r \<in> snd ` set (hr_nodes sample_ring). IsHealthy (sample_node r)} = {1, 2}"
    by (auto simp: sample_ring_eval IsHealthy_def sample_node_def)
  then show ?thesis using ring_replicas [OF sample_ring_inv, of sample_hash "''keys''" 5] by simp
qed

section \<open>Shards\<close>

definition primary_of :: "shard_manager \<Rightarrow> u32 \<Rightarrow> string" where
  "primary_of sm i = (case GetShard sm i of None \<Rightarrow> [] | Some sh \<Rightarrow> Primary sh)"

lemma card_u32: "card {i :: u32. i < n \<and> P (unat i)} = card {k. k < unat n \<and> P k}"
proof -
  have "unat ` {i :: u32. i < n \<and> P (unat i)} = {k. k < unat n \<and> P k}"
  proof (intro equalityI subsetI)
    fix k assume k: "k \<in> {k. k < unat n \<and> P k}"
    then have u: "unat (word_of_nat k :: u32) = k" by (intro unat_small [of _ n]) simp
    with k have "word_of_nat k \<in> {i :: u32. i < n \<and> P (unat i)}" by (simp add: word_less_nat_alt)
    with u show "k \<in> unat ` {i :: u32. i < n \<and> P (unat i)}" by (metis image_eqI)
  qed (auto simp: word_less_nat_alt)
  moreover have "inj_on unat {i :: u32. i < n \<and> P (unat i)}" by (auto simp: inj_on_def word_unat_eq_iff)
  from card_image [OF this] calculation show ?thesis by simp
qed

text \<open>C27: Rebalancing gives every shard a primary and replicas among the nodes, all different, with as many replicas as the
  replication factor asks for and the number of nodes allows, and spreads the primaries so that no node has more than one
  more than another, in whatever order the map of nodes is visited.\<close>

theorem shards_balanced:
  assumes "ring_inv hp (sm_ring sm)" and "visits_all it" and "hr_nodes (sm_ring sm) \<noteq> []" and "shards_known sm" and "replication sm \<ge> 1"
  defines "ids \<equiv> fst ` set (hr_nodes (sm_ring sm))"
  shows "\<exists>sm'. rebalanceShards it hp sm = Some sm'
    \<and> (\<forall>i < shardCount sm. \<exists>sh. GetShard sm' i = Some sh \<and> Primary sh \<in> ids \<and> set (Replicas sh) \<subseteq> ids
        \<and> distinct (Primary sh # Replicas sh) \<and> length (Replicas sh) = min (nat (replication sm)) (card ids) - 1)
    \<and> (\<forall>x \<in> ids. \<forall>y \<in> ids. card {i. i < shardCount sm \<and> primary_of sm' i = x} \<le> card {i. i < shardCount sm \<and> primary_of sm' i = y} + 1)"
proof -
  let ?nodes = "GetAllNodes it hp (sm_ring sm)"
  note ids = GetAllNodes_ids [OF assms(1,2), folded ids_def]
  have card: "card ids = length ?nodes" using ids distinct_card by fastforce
  have "ids \<noteq> {}" using assms(3) by (simp add: ids_def)
  then have ne: "?nodes \<noteq> []" using ids(2) by auto
  obtain sm' where sm': "rebalanceShards it hp sm = Some sm'"
    and sh: "\<And>i. i < shardCount sm \<Longrightarrow> map_of (shards sm') i = map_option (assigned ?nodes (replication sm) i) (map_of (shards sm) i)"
    using rebalance_run [OF assms(4,5), of it hp] ne by blast
  have known: "\<exists>s. map_of (shards sm) i = Some s" if "i < shardCount sm" for i using assms(4) that by (auto simp: shards_known_def)
  have prim: "primary_of sm' i = cnID (?nodes ! (unat i mod length ?nodes))" if "i < shardCount sm" for i
    using sh [OF that] known [OF that] by (auto simp: primary_of_def GetShard_def assigned_def Let_def)
  have each: "\<exists>s. GetShard sm' i = Some s \<and> Primary s \<in> ids \<and> set (Replicas s) \<subseteq> ids
      \<and> distinct (Primary s # Replicas s) \<and> length (Replicas s) = min (nat (replication sm)) (card ids) - 1" if "i < shardCount sm" for i
    using sh [OF that] known [OF that] replicas_ok [OF ids(1) ne assms(5), of i] ids(2) card by (auto simp: GetShard_def)
  have count: "\<exists>p < length ?nodes. card {i. i < shardCount sm \<and> primary_of sm' i = x} = card {k. k < unat (shardCount sm) \<and> k mod length ?nodes = p}"
    if "x \<in> ids" for x
  proof -
    obtain p where p: "p < length ?nodes" "x = cnID (?nodes ! p)" using \<open>x \<in> ids\<close> ids(2) by (metis in_set_conv_nth length_map nth_map)
    have "primary_of sm' i = x \<longleftrightarrow> unat i mod length ?nodes = p" if "i < shardCount sm" for i
      using prim [OF that] nth_eq_iff_index_eq [OF ids(1), of "unat i mod length ?nodes" p] p ne by simp
    then have "{i. i < shardCount sm \<and> primary_of sm' i = x} = {i. i < shardCount sm \<and> unat i mod length ?nodes = p}" by blast
    then show ?thesis using card_u32 [of "shardCount sm" "\<lambda>k. k mod length ?nodes = p"] p(1) by auto
  qed
  have "card {i. i < shardCount sm \<and> primary_of sm' i = x} \<le> card {i. i < shardCount sm \<and> primary_of sm' i = y} + 1" if "x \<in> ids" "y \<in> ids" for x y
  proof -
    from count [OF that(1)] obtain p where "p < length ?nodes"
      "card {i. i < shardCount sm \<and> primary_of sm' i = x} = card {k. k < unat (shardCount sm) \<and> k mod length ?nodes = p}" by blast
    moreover from count [OF that(2)] obtain q where "q < length ?nodes"
      "card {i. i < shardCount sm \<and> primary_of sm' i = y} = card {k. k < unat (shardCount sm) \<and> k mod length ?nodes = q}" by blast
    ultimately show ?thesis using card_residue_balanced [of p "length ?nodes" q "unat (shardCount sm)"] by presburger
  qed
  with sm' each show ?thesis by blast
qed

definition sample_shards :: shard_manager where
  "sample_shards = (NewShardManager 3 2)\<lparr>sm_ring := sample_ring\<rparr>"

theorem shards_balanced_witness:
  "\<exists>sm'. rebalanceShards rev sample_node sample_shards = Some sm' \<and> (\<exists>sh. GetShard sm' 2 = Some sh \<and> Primary sh \<in> {''n'', ''nn''} \<and> length (Replicas sh) = 1)"
proof -
  have k: "shardCount sample_shards = 3" "replication sample_shards = 2" "sm_ring sample_shards = sample_ring"
    by (simp_all add: sample_shards_def NewShardManager_def Let_def)
  have "shards sample_shards = map (\<lambda>i. (i, \<lparr>shID = i, Primary = [], Replicas = [], shState = ShardStateActive\<rparr>)) (u32s 3)"
    by (simp add: sample_shards_def NewShardManager_def Let_def)
  then have "shards_known sample_shards" unfolding shards_known_def k
    by (auto simp: map_of_eq_None_iff image_image set_u32s)
  moreover have "visits_all rev" by (simp add: visits_all_def)
  ultimately obtain sm' where s: "rebalanceShards rev sample_node sample_shards = Some sm'"
    "\<forall>i < 3. \<exists>sh. GetShard sm' i = Some sh \<and> Primary sh \<in> {''n'', ''nn''} \<and> set (Replicas sh) \<subseteq> {''n'', ''nn''}
        \<and> distinct (Primary sh # Replicas sh) \<and> length (Replicas sh) = 1"
    using shards_balanced [of sample_node sample_shards rev] sample_ring_inv by (simp add: k sample_ring_eval) blast
  have "(2 :: u32) < 3" by simp
  with s show ?thesis by blast
qed

text \<open>With a replication factor of zero the first rebalancing panics.\<close>

lemma shards_zero_replication:
  assumes "replication sm \<le> 0" and "shardCount sm \<noteq> 0" and "GetAllNodes it hp (sm_ring sm) \<noteq> []"
  shows "rebalanceShards it hp sm = None"
proof -
  have "unat (shardCount sm) \<noteq> 0" using assms(2) by (simp add: unat_eq_0)
  then obtain i "is" where "u32s (shardCount sm) = i # is" by (cases "u32s (shardCount sm)") (auto simp: u32s_def)
  with assms show ?thesis by (auto simp: rebalanceShards_def Let_def assign_shard_def split: option.splits)
qed

end
