(* ===== verification/Cluster_Coordination.thy ===== *)
theory Cluster_Coordination
  imports Cluster_Coordinator Cluster_Properties
begin

text \<open>
  What the coordinator keeps consistent: the members, the two rings and the shards, in every reachable state; what a
  distributed search answers; and when membership changes block.
\<close>

section \<open>The invariant\<close>

definition placed :: "string set \<Rightarrow> shard_manager \<Rightarrow> bool" where
  "placed ids sm \<longleftrightarrow> (ids \<noteq> {} \<longrightarrow> (\<forall>i < shardCount sm. \<exists>sh. GetShard sm i = Some sh \<and> set (Primary sh # Replicas sh) \<subseteq> ids))"

definition shards_inv :: "node_store \<Rightarrow> (string \<rightharpoonup> nat) \<Rightarrow> shard_manager \<Rightarrow> bool" where
  "shards_inv hp ms sm \<longleftrightarrow> ring_inv hp (sm_ring sm) \<and> map_of (hr_nodes (sm_ring sm)) = ms \<and> shards_known sm
     \<and> replication sm \<ge> 1 \<and> placed (dom ms) sm"

definition coord_inv :: "coordinator \<Rightarrow> bool" where
  "coord_inv c \<longleftrightarrow> distinct (map fst (members c)) \<and> ring_inv (co_store c) (hashRing c)
     \<and> map_of (hr_nodes (hashRing c)) = map_of (members c) \<and> shards_inv (co_store c) (map_of (members c)) (shardManager c)"

lemma shards_inv_rebalance:
  assumes "ring_inv hp (sm_ring sm)" and "visits_all it" and "shards_known sm" and "replication sm \<ge> 1"
  shows "\<exists>sm'. rebalanceShards it hp sm = Some sm' \<and> shards_inv hp (map_of (hr_nodes (sm_ring sm))) sm'"
proof -
  let ?nodes = "GetAllNodes it hp (sm_ring sm)"
  note ids = GetAllNodes_ids [OF assms(1,2)]
  obtain sm' where sm': "rebalanceShards it hp sm = Some sm'" "shardCount sm' = shardCount sm" "sm_ring sm' = sm_ring sm"
      "replication sm' = replication sm" "shards_known sm'"
    and sh: "?nodes \<noteq> [] \<Longrightarrow> (\<forall>i < shardCount sm. map_of (shards sm') i = map_option (assigned ?nodes (replication sm) i) (map_of (shards sm) i))"
    using rebalance_run [OF assms(3,4), of it hp] by blast
  have "\<exists>s. GetShard sm' i = Some s \<and> set (Primary s # Replicas s) \<subseteq> fst ` set (hr_nodes (sm_ring sm))"
    if "i < shardCount sm" and ne: "fst ` set (hr_nodes (sm_ring sm)) \<noteq> {}" for i
  proof -
    from ne ids(2) have n: "?nodes \<noteq> []" by auto
    from assms(3) that(1) obtain s where s: "map_of (shards sm) i = Some s" by (auto simp: shards_known_def)
    with sh [OF n] that(1) replicas_ok [OF ids(1) n assms(4), of i s] ids(2) show ?thesis by (auto simp: GetShard_def)
  qed
  then have "placed (dom (map_of (hr_nodes (sm_ring sm)))) sm'"
    unfolding placed_def dom_map_of_conv_image_fst sm'(2) by blast
  with sm' assms show ?thesis by (simp add: shards_inv_def)
qed

lemma map_of_nodes_Add: "map_of (hr_nodes (AddNode hk srt hp r hr)) = (map_of (hr_nodes hr))(cnID (hp r) \<mapsto> r)"
  by (simp add: AddNode_def Let_def)

lemma map_of_nodes_Remove: "map_of (hr_nodes (RemoveNode i hr)) = (map_of (hr_nodes hr))(i := None)"
  by (simp add: RemoveNode_def)

lemma shards_inv_cong: "(\<And>r. cnID (hp r) = cnID (hp' r)) \<Longrightarrow> shards_inv hp ms sm = shards_inv hp' ms sm"
  using ring_inv_cong [of hp hp'] by (simp add: shards_inv_def)

lemma coord_inv_store:
  assumes "coord_inv c" and "\<And>r. cnID (hp r) = cnID (co_store c r)"
  shows "coord_inv (c\<lparr>co_store := hp\<rparr>)"
  using assms ring_inv_cong [of hp "co_store c"] shards_inv_cong [of hp "co_store c"] by (simp add: coord_inv_def)

section \<open>Operations\<close>

fun final :: "('a, 's) run \<Rightarrow> 's" where
  "final (Returned x s) = s"
| "final (Blocked s) = s"

lemma final_send: "\<exists>q. final (send_event e c) = c\<lparr>memberCh := q\<rparr>"
  by (cases "length (memberCh c) < 100") (auto simp: send_event_def intro: exI [of _ "memberCh c"])

lemma coord_inv_queue [simp]: "coord_inv (c\<lparr>memberCh := q\<rparr>) = coord_inv c"
  by (simp add: coord_inv_def)

lemma coord_inv_leader: "coord_inv (c\<lparr>isLeader := b, leaderID := i\<rparr>) = coord_inv c"
  by (simp add: coord_inv_def)

lemma coord_inv_send [simp]: "coord_inv (final (send_event e c)) = coord_inv c"
  using final_send [of e c] by (metis coord_inv_queue)

lemma coord_inv_sends: "coord_inv c \<Longrightarrow> coord_inv (final (send_events es c))"
proof (induction es arbitrary: c)
  case (Cons e es)
  then show ?case using coord_inv_send [of e c] by (cases "send_event e c") (auto simp del: coord_inv_send)
qed simp

lemma detect_loop_store:
  "detect_loop now rs fs c = (fs', c') \<Longrightarrow> \<exists>hp. c' = c\<lparr>co_store := hp\<rparr> \<and> (\<forall>r. cnID (hp r) = cnID (co_store c r))"
proof (induction rs arbitrary: fs c)
  case Nil
  then show ?case by (auto intro: exI [of _ "co_store c"])
next
  case (Cons r rs)
  from Cons.prems show ?case
    by (auto simp: Let_def split: if_splits dest!: Cons.IH)
qed

lemma coord_inv_detect: "coord_inv c \<Longrightarrow> coord_inv (final (detectFailures it now c))"
proof -
  assume inv: "coord_inv c"
  obtain fs c' where d: "detect_loop now (it (map snd (members c))) [] c = (fs, c')" by (rule prod.exhaust)
  with detect_loop_store [OF d] coord_inv_store [OF inv] have "coord_inv c'" by auto
  then show ?thesis by (simp add: detectFailures_def d coord_inv_sends)
qed

lemma coord_inv_AddMember:
  assumes inv: "coord_inv c" and srt: "sorts_entries srt" and it: "visits_all it"
  shows "\<exists>x. AddMember hk srt it r t t' c = Some x \<and> coord_inv (final x)"
proof -
  let ?hp = "(co_store c)(r := (co_store c r)\<lparr>cnState := NodeStateActive, LastHeartbeat := t\<rparr>)"
  let ?sm = "(shardManager c)\<lparr>sm_ring := AddNode hk srt ?hp r (sm_ring (shardManager c))\<rparr>"
  have "coord_inv (c\<lparr>co_store := ?hp\<rparr>)" by (rule coord_inv_store [OF inv]) simp
  then have i: "ring_inv ?hp (hashRing c)" "ring_inv ?hp (sm_ring (shardManager c))" "shards_known (shardManager c)" "replication (shardManager c) \<ge> 1"
      "map_of (hr_nodes (hashRing c)) = map_of (members c)" "map_of (hr_nodes (sm_ring (shardManager c))) = map_of (members c)"
      "distinct (map fst (members c))"
    by (simp_all add: coord_inv_def shards_inv_def)
  have "ring_inv ?hp (sm_ring ?sm)" using ring_inv_Add [OF i(2) srt] by simp
  moreover have "shards_known ?sm" "replication ?sm \<ge> 1" using i(3,4) by (simp_all add: shards_known_def)
  ultimately obtain sm' where sm': "rebalanceShards it ?hp ?sm = Some sm'" "shards_inv ?hp (map_of (hr_nodes (sm_ring ?sm))) sm'"
    using shards_inv_rebalance [OF _ it] by blast
  have ms: "shards_inv ?hp (map_of (map_set (cnID (co_store c r)) r (members c))) sm'" using sm'(2) i(6) by (simp add: map_of_nodes_Add)
  have "ring_inv ?hp (AddNode hk srt ?hp r (hashRing c))" using ring_inv_Add [OF i(1) srt] by simp
  then have "coord_inv (c\<lparr>co_store := ?hp, members := map_set (cnID (co_store c r)) r (members c), hashRing := AddNode hk srt ?hp r (hashRing c), shardManager := sm'\<rparr>)"
    using ms i(5,7) by (simp add: coord_inv_def map_of_nodes_Add)
  then show ?thesis using sm'(1) by (simp add: AddMember_def AddNode_shards_def Let_def)
qed

lemma coord_inv_RemoveMember:
  assumes inv: "coord_inv c" and it: "visits_all it"
  shows "\<exists>x. RemoveMember it i t c = Some x \<and> coord_inv (final x)"
proof (cases "map_of (members c) i")
  case None
  with inv show ?thesis by (simp add: RemoveMember_def)
next
  case (Some r)
  let ?sm = "(shardManager c)\<lparr>sm_ring := RemoveNode i (sm_ring (shardManager c))\<rparr>"
  from inv have j: "ring_inv (co_store c) (hashRing c)" "ring_inv (co_store c) (sm_ring (shardManager c))" "shards_known (shardManager c)"
      "replication (shardManager c) \<ge> 1" "map_of (hr_nodes (hashRing c)) = map_of (members c)"
      "map_of (hr_nodes (sm_ring (shardManager c))) = map_of (members c)" "distinct (map fst (members c))"
    by (simp_all add: coord_inv_def shards_inv_def)
  have "ring_inv (co_store c) (sm_ring ?sm)" "shards_known ?sm" "replication ?sm \<ge> 1" using j(2,3,4)
    by (simp_all add: ring_inv_Remove shards_known_def)
  then obtain sm' where sm': "rebalanceShards it (co_store c) ?sm = Some sm'" "shards_inv (co_store c) (map_of (hr_nodes (sm_ring ?sm))) sm'"
    using shards_inv_rebalance [OF _ it] by blast
  then have "coord_inv (c\<lparr>members := map_del i (members c), hashRing := RemoveNode i (hashRing c), shardManager := sm'\<rparr>)"
    using j by (simp add: coord_inv_def map_of_nodes_Remove ring_inv_Remove)
  then show ?thesis using sm'(1) Some by (simp add: RemoveMember_def RemoveNode_shards_def Let_def)
qed

lemma coord_inv_New:
  assumes srt: "sorts_entries srt" and it: "visits_all it" and "ReplicationFactor cfg \<ge> 1"
  shows "\<exists>c. NewCoordinator hk srt it hp cfg = Some c \<and> coord_inv c"
proof -
  let ?base = "NewShardManager (cfgShardCount cfg) (ReplicationFactor cfg)"
  have known: "shards_known ?base"
    by (auto simp: shards_known_def NewShardManager_def Let_def map_of_eq_None_iff image_image set_u32s)
  let ?local = "\<lparr>cnID = cfgNodeID cfg, cnAddress = AdvertiseAddr cfg, cnState = NodeStateActive, LastHeartbeat = 0,
     cnShards = [], ReplicaShards = [], cnMetadata = []\<rparr>"
  let ?hp = "hp(localNode := ?local)"
  let ?sm = "?base\<lparr>sm_ring := AddNode hk srt ?hp localNode (sm_ring ?base)\<rparr>"
  have n: "sm_ring ?base = NewHashRing 150" by (simp add: NewShardManager_def Let_def)
  have r: "ring_inv ?hp (AddNode hk srt ?hp localNode (NewHashRing 150))" by (rule ring_inv_Add [OF ring_inv_New srt])
  then have "ring_inv ?hp (sm_ring ?sm)" by (simp add: n)
  moreover have "shards_known ?sm" "replication ?sm \<ge> 1" using known assms(3) by (simp_all add: shards_known_def NewShardManager_def Let_def)
  ultimately obtain sm' where sm': "rebalanceShards it ?hp ?sm = Some sm'" "shards_inv ?hp (map_of (hr_nodes (sm_ring ?sm))) sm'"
    using shards_inv_rebalance [OF _ it] by blast
  have e: "map_of (hr_nodes (AddNode hk srt ?hp localNode (NewHashRing 150))) = [cfgNodeID cfg \<mapsto> localNode]"
    by (simp add: map_of_nodes_Add NewHashRing_def)
  show ?thesis using r sm' e by (simp add: NewCoordinator_def AddNode_shards_def Let_def n coord_inv_def)
qed

section \<open>Reachable states\<close>

text \<open>
  One step is one call, whether it returns or waits at the full channel, a reader that takes an event, or a waiting
  call that gets room for its event.
\<close>

inductive coord_step :: "(string \<Rightarrow> u32) \<Rightarrow> ((u32 \<times> string) list \<Rightarrow> (u32 \<times> string) list) \<Rightarrow> (nat list \<Rightarrow> nat list)
    \<Rightarrow> coordinator \<Rightarrow> coordinator \<Rightarrow> bool" for hk srt it where
  cs_add: "AddMember hk srt it r t t' c = Some x \<Longrightarrow> coord_step hk srt it c (final x)"
| cs_remove: "RemoveMember it i t c = Some x \<Longrightarrow> coord_step hk srt it c (final x)"
| cs_detect: "coord_step hk srt it c (final (detectFailures it t c))"
| cs_heartbeat: "coord_step hk srt it c (sendHeartbeats t c)"
| cs_leader: "coord_step hk srt it c (SetLeader b i c)"
| cs_read: "memberCh c = e # es \<Longrightarrow> coord_step hk srt it c (c\<lparr>memberCh := es\<rparr>)"
| cs_room: "length (memberCh c) < 100 \<Longrightarrow> coord_step hk srt it c (c\<lparr>memberCh := memberCh c @ [e]\<rparr>)"

lemma coord_inv_step:
  assumes "coord_step hk srt it c c'" and "coord_inv c" and "sorts_entries srt" and "visits_all it"
  shows "coord_inv c'"
  using assms
proof (induction rule: coord_step.induct)
  case (cs_add r t t' c x)
  then show ?case using coord_inv_AddMember [of c srt it hk r t t'] by auto
next
  case (cs_remove i t c x)
  then show ?case using coord_inv_RemoveMember [of c it i t] by auto
next
  case (cs_heartbeat c t)
  then show ?case by (simp add: sendHeartbeats_def coord_inv_store)
qed (simp_all add: coord_inv_detect SetLeader_def coord_inv_leader)

lemma coord_inv_reachable:
  assumes "(coord_step hk srt it)\<^sup>*\<^sup>* c c'" and "coord_inv c" and "sorts_entries srt" and "visits_all it"
  shows "coord_inv c'"
  using assms by (induction rule: rtranclp_induct) (auto intro: coord_inv_step)

lemma placed_primary:
  assumes "coord_inv c" and "visits_all it" and "members c \<noteq> []" and "i < shardCount (shardManager c)"
  shows "\<exists>sh r. GetShard (shardManager c) i = Some sh \<and> map_of (members c) (Primary sh) = Some r
    \<and> GetPrimaryNode it (co_store c) (shardManager c) i = Some (co_store c r) \<and> cnID (co_store c r) = Primary sh"
proof -
  let ?hr = "sm_ring (shardManager c)"
  have inv: "ring_inv (co_store c) ?hr" "map_of (hr_nodes ?hr) = map_of (members c)" "placed (fst ` set (members c)) (shardManager c)"
    using assms(1) by (simp_all add: coord_inv_def shards_inv_def dom_map_of_conv_image_fst)
  from inv(3) assms(3,4) obtain sh where sh: "GetShard (shardManager c) i = Some sh" "Primary sh \<in> fst ` set (members c)"
    unfolding placed_def by fastforce
  then obtain r where r: "map_of (members c) (Primary sh) = Some r" by (metis map_of_eq_None_iff not_None_eq)
  then have "(Primary sh, r) \<in> set (hr_nodes ?hr)" using inv(2) by (metis map_of_SomeD)
  then have "r \<in> set (map snd (hr_nodes ?hr))" and m2: "cnID (co_store c r) = Primary sh"
    using inv(1) by (force, auto simp: ring_inv_def)
  then have m: "r \<in> set (it (map snd (hr_nodes ?hr)))" "cnID (co_store c r) = Primary sh"
    using assms(2) by (metis visits_all_def mset_eq_setD, simp)
  have "co_store c r \<in> set (GetAllNodes it (co_store c) ?hr)" using m(1) by (simp add: GetAllNodes_def)
  then obtain n where n: "find (\<lambda>n. cnID n = Primary sh) (GetAllNodes it (co_store c) ?hr) = Some n"
    using m(2) by (cases "find (\<lambda>n. cnID n = Primary sh) (GetAllNodes it (co_store c) ?hr)") (auto simp: find_None_iff)
  then have "n \<in> set (GetAllNodes it (co_store c) ?hr)" "cnID n = Primary sh" by (auto simp: find_Some_iff)
  then obtain q where q: "n = co_store c q" "q \<in> set (it (map snd (hr_nodes ?hr)))" by (auto simp: GetAllNodes_def)
  then have "q \<in> snd ` set (hr_nodes ?hr)" using assms(2) by (metis visits_all_def mset_eq_setD set_map)
  then have "(Primary sh, q) \<in> set (hr_nodes ?hr)" using inv(1) q(1) \<open>cnID n = Primary sh\<close> by (auto simp: ring_inv_def)
  then have "q = r" using inv(1,2) r by (metis map_of_is_SomeI option.inject ring_inv_def)
  with n q(1) sh(1) r m(2) show ?thesis by (auto simp: GetPrimaryNode_def GetShard_def)
qed


definition sample_config :: cluster_config where
  "sample_config = DefaultConfig_cluster\<lparr>cfgNodeID := ''a''\<rparr>"


section \<open>Search, replication and full channels\<close>

text \<open>In a reachable state with a member, a distributed search for a number of results that is not negative answers with one entry
  per shard, each naming a member and no error, and no results at all: the call of the node is not implemented. A negative
  number panics.\<close>

lemma coordinator_search:
  assumes "coord_inv c" and "visits_all it" and "members c \<noteq> []" and "srt [] = []" and "\<And>as. mset (arrive as) = mset as"
  shows "k \<ge> 0 \<Longrightarrow> \<exists>shs. DistributedSearch it srt arrive k c = Some ([], shs)
      \<and> mset (map srShardID shs) = mset (u32s (shardCount (shardManager c)))
      \<and> (\<forall>s \<in> set shs. srError s = [] \<and> srNodeID s \<in> fst ` set (members c))"
    and "k < 0 \<Longrightarrow> DistributedSearch it srt arrive k c = None"
proof -
  let ?as = "arrive (map (searchShard it c) (u32s (shardCount (shardManager c))))"
  have m: "mset ?as = mset (map (searchShard it c) (u32s (shardCount (shardManager c))))" by (rule assms(5))
  then have s: "set ?as = searchShard it c ` {i. i < shardCount (shardManager c)}" by (metis mset_eq_setD set_map set_u32s)
  have none: "ssResults (searchShard it c i) = []" "ssShardID (searchShard it c i) = i" for i by (auto simp: searchShard_def split: option.splits)
  have "concat (map ssResults ?as) = []" using s none by (auto simp: concat_eq_Nil_conv)
  then have all: "srt (concat (map ssResults ?as)) = []" using assms(4) by metis
  let ?f = "\<lambda>a. \<lparr>srShardID = ssShardID a, srNodeID = ssNodeID a, srCount = length (ssResults a), srError = ssError a\<rparr>"
  have ids: "mset (map srShardID (map ?f ?as)) = mset (u32s (shardCount (shardManager c)))"
    using m by (simp add: comp_def mset_map [symmetric] none del: mset_map) (simp add: image_mset.compositionality comp_def none)
  have ok: "srError t = [] \<and> srNodeID t \<in> fst ` set (members c)" if "t \<in> set (map ?f ?as)" for t
  proof -
    from that obtain a where a: "a \<in> set ?as" "t = ?f a" by auto
    from a(1) s obtain i where i: "i < shardCount (shardManager c)" "a = searchShard it c i" by blast
    from placed_primary [OF assms(1,2,3) i(1)] obtain sh :: shard and r where "map_of (members c) (Primary sh) = Some r"
      "GetPrimaryNode it (co_store c) (shardManager c) i = Some (co_store c r)" "cnID (co_store c r) = Primary sh" by blast
    with i(2) a(2) show ?thesis by (auto simp: searchShard_def dest: map_of_SomeD intro: rev_image_eqI)
  qed
  show "\<exists>shs. DistributedSearch it srt arrive k c = Some ([], shs) \<and> mset (map srShardID shs) = mset (u32s (shardCount (shardManager c)))
      \<and> (\<forall>s \<in> set shs. srError s = [] \<and> srNodeID s \<in> fst ` set (members c))" if "k \<ge> 0"
    using that all ids ok by (intro exI [of _ "map ?f ?as"]) (simp add: DistributedSearch_def merge_answers_def Let_def)
  show "DistributedSearch it srt arrive k c = None" if "k < 0"
    using that all by (simp add: DistributedSearch_def merge_answers_def Let_def)
qed

text \<open>With the acknowledgments of all other nodes a write is always accepted, and no other answer is implemented.\<close>

lemma ReplicateWrite_succeeds: "ReplicateWrite hk key c = None"
proof -
  have "acks_ok n 0" if "n \<ge> 2" for n using that by (simp add: acks_ok_def)
  then show ?thesis by (simp add: ReplicateWrite_def Let_def sendToNode_def)
qed

text \<open>A hundred membership changes that nobody reads make the next one wait forever, after it took effect.\<close>

lemma AddMember_blocks:
  assumes "coord_inv c" and "sorts_entries srt" and "visits_all it" and "length (memberCh c) = 100"
  shows "\<exists>c'. AddMember hk srt it r t t' c = Some (Blocked c') \<and> coord_inv c'"
proof -
  obtain x where x: "AddMember hk srt it r t t' c = Some x" "coord_inv (final x)" using coord_inv_AddMember [OF assms(1-3)] by blast
  then obtain c' where "x = Blocked c'" using assms(4) by (auto simp: AddMember_def Let_def send_event_def)
  with x show ?thesis by simp
qed

end
