(* ===== verification/Sparse.thy ===== *)
theory Sparse
  imports Bytes
begin

text \<open>
  The sparse vectors of \<open>pkg/index/sparse/sparse.go\<close>: dot products, the binary form, the inverted index, BM25 scoring and the
  fusion of dense and sparse results. The operations on float32 are an argument, the record \<open>arith\<close>; values are compared
  as a linear order, so that NaN is outside the model, \<open>fdec m e\<close> is the literal \<open>m\<close> times ten to the \<open>e\<close>, and products are rounded before they are added. In the binary form
  values are bit patterns. The order in which a map is visited and \<open>sort.Slice\<close> are arguments; a panic is \<open>None\<close>.
\<close>

section \<open>Arithmetic\<close>

record 'f arith =
  fzero :: 'f
  fone :: 'f
  fdec :: "int \<Rightarrow> int \<Rightarrow> 'f"
  fadd :: "'f \<Rightarrow> 'f \<Rightarrow> 'f"
  fsub :: "'f \<Rightarrow> 'f \<Rightarrow> 'f"
  fmul :: "'f \<Rightarrow> 'f \<Rightarrow> 'f"
  fdiv :: "'f \<Rightarrow> 'f \<Rightarrow> 'f"
  fsqrt :: "'f \<Rightarrow> 'f"
  fof_int :: "int \<Rightarrow> 'f"
  fto_int :: "'f \<Rightarrow> int"
  flog_idf :: "int \<Rightarrow> int \<Rightarrow> 'f"

section \<open>Vectors\<close>

record 'f svec =
  svIndices :: "u32 list"
  svValues :: "'f list"

definition NewVector :: "u32 list \<Rightarrow> 'f list \<Rightarrow> 'f svec" where
  "NewVector indices values = \<lparr>svIndices = indices, svValues = values\<rparr>"

definition lookup_zero :: "'f arith \<Rightarrow> ('k \<times> 'f) list \<Rightarrow> 'k \<Rightarrow> 'f" where
  "lookup_zero A m k = (case map_of m k of Some v \<Rightarrow> v | None \<Rightarrow> fzero A)"

definition NewVectorFromMap :: "'f arith \<Rightarrow> (u32 \<times> 'f) list \<Rightarrow> 'f svec" where
  "NewVectorFromMap A m = (let indices = sort (map fst m) in \<lparr>svIndices = indices, svValues = map (lookup_zero A m) indices\<rparr>)"

definition Len_svec :: "'f svec \<Rightarrow> nat" where
  "Len_svec v = length (svIndices v)"

text \<open>The two cursors of \<open>DotProduct\<close> advance over the indices and the values together.\<close>

fun dot_loop :: "'f arith \<Rightarrow> u32 list \<Rightarrow> 'f list \<Rightarrow> u32 list \<Rightarrow> 'f list \<Rightarrow> 'f \<Rightarrow> 'f option" where
  "dot_loop A (i # is) vs (j # js) ws result =
    (if i = j then (case (vs, ws) of (v # vs', w # ws') \<Rightarrow> dot_loop A is vs' js ws' (fadd A result (fmul A v w)) | _ \<Rightarrow> None)
     else if i < j then dot_loop A is (tl vs) (j # js) ws result
     else dot_loop A (i # is) vs js (tl ws) result)"
| "dot_loop A is vs js ws result = Some result"

definition DotProduct :: "'f arith \<Rightarrow> 'f svec \<Rightarrow> 'f svec \<Rightarrow> 'f option" where
  "DotProduct A v other = dot_loop A (svIndices v) (svValues v) (svIndices other) (svValues other) (fzero A)"

definition Norm :: "'f arith \<Rightarrow> 'f svec \<Rightarrow> 'f" where
  "Norm A v = fsqrt A (foldl (\<lambda>s x. fadd A s (fmul A x x)) (fzero A) (svValues v))"

definition Normalize :: "('f :: linorder) arith \<Rightarrow> 'f svec \<Rightarrow> 'f svec" where
  "Normalize A v = (let norm = Norm A v in
     if norm > fzero A then v\<lparr>svValues := map (\<lambda>x. fdiv A x norm) (svValues v)\<rparr> else v)"

text \<open>
  The buffer has room for as many values as there are indices: more values panic, fewer leave zeros.
\<close>

definition Encode_svec :: "u32 svec \<Rightarrow> byte list option" where
  "Encode_svec v = (let n = length (svIndices v); m = length (svValues v) in
     if m > n then None
     else Some (put_u32 (word_of_nat n) @ concat (map put_u32 (svIndices v)) @ concat (map put_u32 (svValues v))
            @ replicate (4 * (n - m)) 0))"

datatype svec_error = InvalidSparseData | SparseDataTooShort

definition Decode_svec :: "byte list \<Rightarrow> svec_error + u32 svec" where
  "Decode_svec data = (if length data < 4 then Inl InvalidSparseData
     else let numElements = unat (get_u32 data); expectedLen = 4 + numElements * 4 + numElements * 4 in
       if length data < expectedLen then Inl SparseDataTooShort
       else Inr \<lparr>svIndices = map (\<lambda>i. get_u32 (drop (4 + i * 4) data)) [0..<numElements],
                 svValues = map (\<lambda>i. get_u32 (drop (4 + numElements * 4 + i * 4) data)) [0..<numElements]\<rparr>)"

section \<open>The inverted index\<close>

record 'f inverted_index =
  postingLists :: "(u32 \<times> (u32 \<times> 'f) list) list"
  docCount :: int

definition NewInvertedIndex :: "'f inverted_index" where
  "NewInvertedIndex = \<lparr>postingLists = [], docCount = 0\<rparr>"

definition postings :: "'f inverted_index \<Rightarrow> u32 \<Rightarrow> (u32 \<times> 'f) list" where
  "postings idx d = (case map_of (postingLists idx) d of Some ps \<Rightarrow> ps | None \<Rightarrow> [])"

fun add_postings :: "u32 \<Rightarrow> u32 list \<Rightarrow> 'f list \<Rightarrow> 'f inverted_index \<Rightarrow> 'f inverted_index option" where
  "add_postings doc [] vs idx = Some idx"
| "add_postings doc (d # ds) vs idx = (case vs of [] \<Rightarrow> None
     | v # vs' \<Rightarrow> add_postings doc ds vs' (idx\<lparr>postingLists := map_set d (postings idx d @ [(doc, v)]) (postingLists idx)\<rparr>))"

definition Add_sparse :: "u32 \<Rightarrow> 'f svec \<Rightarrow> 'f inverted_index \<Rightarrow> 'f inverted_index option" where
  "Add_sparse doc vec idx = map_option (\<lambda>idx'. idx'\<lparr>docCount := docCount idx' + 1\<rparr>)
     (add_postings doc (svIndices vec) (svValues vec) idx)"

definition Remove_sparse :: "u32 \<Rightarrow> 'f inverted_index \<Rightarrow> 'f inverted_index" where
  "Remove_sparse doc idx = idx\<lparr>postingLists :=
     filter (\<lambda>(d, ps). ps \<noteq> []) (map (\<lambda>(d, ps). (d, filter (\<lambda>p. fst p \<noteq> doc) ps)) (postingLists idx))\<rparr>"

record 'f scored_doc =
  sdDocID :: u32
  sdScore :: 'f

definition accumulate :: "'f arith \<Rightarrow> 'f \<Rightarrow> u32 \<times> 'f \<Rightarrow> (u32 \<times> 'f) list \<Rightarrow> (u32 \<times> 'f) list" where
  "accumulate A q p scores = map_set (fst p) (fadd A (lookup_zero A scores (fst p)) (fmul A q (snd p))) scores"

fun search_scores :: "'f arith \<Rightarrow> 'f inverted_index \<Rightarrow> u32 list \<Rightarrow> 'f list \<Rightarrow> (u32 \<times> 'f) list \<Rightarrow> (u32 \<times> 'f) list option" where
  "search_scores A idx [] qvs scores = Some scores"
| "search_scores A idx (d # ds) qvs scores = (case qvs of [] \<Rightarrow> None
     | q # qvs' \<Rightarrow> search_scores A idx ds qvs' (fold (accumulate A q) (postings idx d) scores))"

definition to_scored :: "(u32 \<times> 'f) list \<Rightarrow> 'f scored_doc list" where
  "to_scored = map (\<lambda>(d, s). \<lparr>sdDocID = d, sdScore = s\<rparr>)"

definition Search_sparse :: "('f :: linorder) arith \<Rightarrow> ((u32 \<times> 'f) list \<Rightarrow> (u32 \<times> 'f) list) \<Rightarrow> ('f scored_doc list \<Rightarrow> 'f scored_doc list)
    \<Rightarrow> 'f inverted_index \<Rightarrow> 'f svec \<Rightarrow> int \<Rightarrow> 'f scored_doc list option" where
  "Search_sparse A it srt idx query k = (case search_scores A idx (svIndices query) (svValues query) [] of
     None \<Rightarrow> None | Some scores \<Rightarrow> top_k k (srt (to_scored (it scores))))"

definition Size_sparse :: "'f inverted_index \<Rightarrow> int" where
  "Size_sparse idx = docCount idx"

section \<open>BM25\<close>

record 'f bm25_config =
  bmK1 :: 'f
  bmB :: 'f

record 'f bm25_index =
  bmConfig :: "'f bm25_config"
  invertedIdx :: "'f inverted_index"
  docLengths :: "(u32 \<times> int) list"
  avgDocLength :: 'f
  totalDocs :: int
  docFreq :: "(u32 \<times> int) list"

definition DefaultBM25Config :: "'f arith \<Rightarrow> 'f bm25_config" where
  "DefaultBM25Config A = \<lparr>bmK1 = fdec A 12 (-1), bmB = fdec A 75 (-2)\<rparr>"

definition NewBM25Index :: "'f arith \<Rightarrow> 'f bm25_config option \<Rightarrow> 'f bm25_index" where
  "NewBM25Index A config = \<lparr>bmConfig = (case config of None \<Rightarrow> DefaultBM25Config A | Some c \<Rightarrow> c), invertedIdx = NewInvertedIndex, docLengths = [], avgDocLength = fzero A, totalDocs = 0, docFreq = []\<rparr>"

definition int_at :: "(u32 \<times> int) list \<Rightarrow> u32 \<Rightarrow> int" where
  "int_at m k = (case map_of m k of Some n \<Rightarrow> n | None \<Rightarrow> 0)"

definition Add_BM25 :: "'f arith \<Rightarrow> (int list \<Rightarrow> int list) \<Rightarrow> u32 \<Rightarrow> (u32 \<times> 'f) list \<Rightarrow> 'f bm25_index \<Rightarrow> 'f bm25_index option" where
  "Add_BM25 A it doc termFreqs idx =
    (let docLen = (\<Sum>(t, f) \<leftarrow> termFreqs. fto_int A f);
         lengths = map_set doc docLen (docLengths idx);
         total = totalDocs idx + 1;
         totalLen = foldl (\<lambda>s l. fadd A s (fof_int A l)) (fzero A) (it (map snd lengths));
         freqs = fold (\<lambda>(t, f) m. map_set t (int_at m t + 1) m) termFreqs (docFreq idx)
     in map_option (\<lambda>inv. idx\<lparr>invertedIdx := inv, docLengths := lengths, avgDocLength := fdiv A totalLen (fof_int A total),
          totalDocs := total, docFreq := freqs\<rparr>)
        (Add_sparse doc (NewVectorFromMap A termFreqs) (invertedIdx idx)))"

definition bm25_term :: "'f arith \<Rightarrow> 'f bm25_index \<Rightarrow> 'f \<Rightarrow> 'f \<Rightarrow> u32 \<times> 'f \<Rightarrow> 'f" where
  "bm25_term A idx queryWeight idf p =
    (let tf = snd p; docLen = fof_int A (int_at (docLengths idx) (fst p)); k1 = bmK1 (bmConfig idx); b = bmB (bmConfig idx);
         tfNorm = fdiv A (fmul A tf (fadd A k1 (fone A)))
                    (fadd A tf (fmul A k1 (fadd A (fsub A (fone A) b) (fmul A b (fdiv A docLen (avgDocLength idx))))))
     in fmul A (fmul A queryWeight idf) tfNorm)"

definition bm25_accumulate :: "'f arith \<Rightarrow> 'f bm25_index \<Rightarrow> u32 \<times> 'f \<Rightarrow> (u32 \<times> 'f) list \<Rightarrow> (u32 \<times> 'f) list" where
  "bm25_accumulate A idx tq scores =
    (let df = int_at (docFreq idx) (fst tq) in
     if df = 0 then scores
     else fold (\<lambda>p scores. map_set (fst p) (fadd A (lookup_zero A scores (fst p)) (bm25_term A idx (snd tq) (flog_idf A (totalDocs idx) df) p)) scores)
            (postings (invertedIdx idx) (fst tq)) scores)"

definition Search_BM25 :: "('f :: linorder) arith \<Rightarrow> ((u32 \<times> 'f) list \<Rightarrow> (u32 \<times> 'f) list) \<Rightarrow> ((u32 \<times> 'f) list \<Rightarrow> (u32 \<times> 'f) list)
    \<Rightarrow> ('f scored_doc list \<Rightarrow> 'f scored_doc list) \<Rightarrow> 'f bm25_index \<Rightarrow> (u32 \<times> 'f) list \<Rightarrow> int \<Rightarrow> 'f scored_doc list option" where
  "Search_BM25 A itq it srt idx queryTerms k = top_k k (srt (to_scored (it (fold (bm25_accumulate A idx) (itq queryTerms) []))))"

section \<open>Fusion of dense and sparse results\<close>

record 'f hybrid_result =
  hrDocID :: u32
  DenseScore :: 'f
  SparseScore :: 'f
  FinalScore :: 'f

datatype fusion_method = FusionRRF | FusionWeighted | FusionOther string

record 'f hybrid_config =
  fmMethod :: fusion_method
  DenseWeight :: 'f
  SparseWeight :: 'f
  RRFConstant :: int

definition DefaultHybridConfig :: "'f arith \<Rightarrow> 'f hybrid_config" where
  "DefaultHybridConfig A = \<lparr>fmMethod = FusionRRF, DenseWeight = fdec A 5 (-1), SparseWeight = fdec A 5 (-1), RRFConstant = 60\<rparr>"

text \<open>The entry of a document, new if there is none.\<close>

definition hybrid_at :: "'f arith \<Rightarrow> (u32 \<times> 'f hybrid_result) list \<Rightarrow> u32 \<Rightarrow> 'f hybrid_result" where
  "hybrid_at A scores d = (case map_of scores d of Some r \<Rightarrow> r
     | None \<Rightarrow> \<lparr>hrDocID = d, DenseScore = fzero A, SparseScore = fzero A, FinalScore = fzero A\<rparr>)"

definition add_dense :: "'f arith \<Rightarrow> 'f scored_doc \<times> 'f \<Rightarrow> (u32 \<times> 'f hybrid_result) list \<Rightarrow> (u32 \<times> 'f hybrid_result) list" where
  "add_dense A dx scores = (let doc = fst dx; r = hybrid_at A scores (sdDocID doc) in
     map_set (sdDocID doc) (r\<lparr>DenseScore := sdScore doc, FinalScore := fadd A (FinalScore r) (snd dx)\<rparr>) scores)"

definition add_sparse :: "'f arith \<Rightarrow> 'f scored_doc \<times> 'f \<Rightarrow> (u32 \<times> 'f hybrid_result) list \<Rightarrow> (u32 \<times> 'f hybrid_result) list" where
  "add_sparse A dx scores = (let doc = fst dx; r = hybrid_at A scores (sdDocID doc) in
     map_set (sdDocID doc) (r\<lparr>SparseScore := sdScore doc, FinalScore := fadd A (FinalScore r) (snd dx)\<rparr>) scores)"

text \<open>Each result with what its rank adds.\<close>

definition rrf_terms :: "'f arith \<Rightarrow> int \<Rightarrow> 'f scored_doc list \<Rightarrow> ('f scored_doc \<times> 'f) list" where
  "rrf_terms A rrf_k docs = map (\<lambda>(rank, doc). (doc, fdiv A (fone A) (fof_int A (rrf_k + int rank + 1)))) (enumerate 0 docs)"

definition fuse :: "'f arith \<Rightarrow> ((u32 \<times> 'f hybrid_result) list \<Rightarrow> (u32 \<times> 'f hybrid_result) list)
    \<Rightarrow> ('f hybrid_result list \<Rightarrow> 'f hybrid_result list) \<Rightarrow> ('f scored_doc \<times> 'f) list \<Rightarrow> ('f scored_doc \<times> 'f) list \<Rightarrow> int
    \<Rightarrow> 'f hybrid_result list option" where
  "fuse A it srt dense sparse k =
    (let scores = fold (add_sparse A) sparse (fold (add_dense A) dense []) in top_k k (srt (map snd (it scores))))"

definition fuseRRF :: "'f arith \<Rightarrow> ((u32 \<times> 'f hybrid_result) list \<Rightarrow> (u32 \<times> 'f hybrid_result) list)
    \<Rightarrow> ('f hybrid_result list \<Rightarrow> 'f hybrid_result list) \<Rightarrow> 'f scored_doc list \<Rightarrow> 'f scored_doc list \<Rightarrow> int \<Rightarrow> int
    \<Rightarrow> 'f hybrid_result list option" where
  "fuseRRF A it srt dense sparse rrf_k k = fuse A it srt (rrf_terms A rrf_k dense) (rrf_terms A rrf_k sparse) k"

definition normalizeScores :: "('f :: linorder) arith \<Rightarrow> 'f scored_doc list \<Rightarrow> 'f scored_doc list" where
  "normalizeScores A docs = (case docs of [] \<Rightarrow> []
     | d0 # _ \<Rightarrow>
       let maxScore = foldl (\<lambda>m d. if sdScore d > m then sdScore d else m) (sdScore d0) docs;
           minScore = foldl (\<lambda>m d. if sdScore d < m then sdScore d else m) (sdScore d0) docs;
           rang = fsub A maxScore minScore;
           rang = (if rang < fdec A 1 (-8) then fone A else rang)
       in map (\<lambda>d. \<lparr>sdDocID = sdDocID d, sdScore = fdiv A (fsub A (sdScore d) minScore) rang\<rparr>) docs)"

definition fuseWeighted :: "('f :: linorder) arith \<Rightarrow> ((u32 \<times> 'f hybrid_result) list \<Rightarrow> (u32 \<times> 'f hybrid_result) list)
    \<Rightarrow> ('f hybrid_result list \<Rightarrow> 'f hybrid_result list) \<Rightarrow> 'f scored_doc list \<Rightarrow> 'f scored_doc list \<Rightarrow> 'f \<Rightarrow> 'f \<Rightarrow> int
    \<Rightarrow> 'f hybrid_result list option" where
  "fuseWeighted A it srt dense sparse denseWeight sparseWeight k =
    fuse A it srt (map (\<lambda>d. (d, fmul A denseWeight (sdScore d))) (normalizeScores A dense))
      (map (\<lambda>d. (d, fmul A sparseWeight (sdScore d))) (normalizeScores A sparse)) k"

definition FuseResults :: "('f :: linorder) arith \<Rightarrow> ((u32 \<times> 'f hybrid_result) list \<Rightarrow> (u32 \<times> 'f hybrid_result) list)
    \<Rightarrow> ('f hybrid_result list \<Rightarrow> 'f hybrid_result list) \<Rightarrow> 'f scored_doc list \<Rightarrow> 'f scored_doc list \<Rightarrow> 'f hybrid_config option \<Rightarrow> int
    \<Rightarrow> 'f hybrid_result list option" where
  "FuseResults A it srt dense sparse config k =
    (let config = (case config of None \<Rightarrow> DefaultHybridConfig A | Some c \<Rightarrow> c) in
     case fmMethod config of
       FusionRRF \<Rightarrow> fuseRRF A it srt dense sparse (RRFConstant config) k
     | FusionWeighted \<Rightarrow> fuseWeighted A it srt dense sparse (DenseWeight config) (SparseWeight config) k
     | FusionOther m \<Rightarrow> fuseRRF A it srt dense sparse (RRFConstant config) k)"

end
