(* ===== verification/Sparse_Facts.thy ===== *)
theory Sparse_Facts
  imports Sparse "HOL-Library.Multiset"
begin

text \<open>
  The inverted index as a list of documents: what every operation does to the posting lists, and the scores a search
  accumulates, compared with the dot product of two vectors.
\<close>

section \<open>Documents\<close>

definition entry :: "'f svec \<Rightarrow> u32 \<rightharpoonup> 'f" where
  "entry v = map_of (zip (svIndices v) (svValues v))"

definition wf_svec :: "'f svec \<Rightarrow> bool" where
  "wf_svec v \<longleftrightarrow> sorted_wrt (<) (svIndices v) \<and> length (svValues v) = length (svIndices v)"

definition matching :: "u32 \<Rightarrow> (u32 \<times> 'f svec) list \<Rightarrow> (u32 \<times> 'f) list" where
  "matching d docs = List.map_filter (\<lambda>(doc, v). map_option (Pair doc) (entry v d)) docs"

definition represents :: "'f inverted_index \<Rightarrow> (u32 \<times> 'f svec) list \<Rightarrow> bool" where
  "represents idx docs \<longleftrightarrow> distinct (map fst (postingLists idx)) \<and> (\<forall>d. postings idx d = matching d docs)"

lemma matching_simps [simp]:
  "matching d [] = []"
  "matching d ((doc, v) # docs) = (case entry v d of None \<Rightarrow> matching d docs | Some x \<Rightarrow> (doc, x) # matching d docs)"
  by (auto simp: matching_def List.map_filter_simps split: option.split)

lemma matching_append: "matching d (xs @ ys) = matching d xs @ matching d ys"
  by (induction xs) (auto split: option.split)

lemma matching_filter: "filter (\<lambda>p. fst p \<noteq> doc) (matching d docs) = matching d (filter (\<lambda>p. fst p \<noteq> doc) docs)"
  by (induction docs) (auto split: option.split)

lemma keys_matching: "fst ` set (matching d docs) \<subseteq> fst ` set docs"
  by (force simp: matching_def set_map_filter split: option.splits)

lemma distinct_matching: "distinct (map fst docs) \<Longrightarrow> distinct (map fst (matching d docs))"
proof (induction docs)
  case (Cons p docs)
  then show ?case using keys_matching [of d docs] by (cases p) (auto split: option.split)
qed simp

lemma map_of_matching:
  "distinct (map fst docs) \<Longrightarrow> map_of (matching d docs) doc = Option.bind (map_of docs doc) (\<lambda>v. entry v d)"
proof (induction docs)
  case (Cons p docs)
  obtain i v where p: "p = (i, v)" by (cases p)
  show ?case
  proof (cases "doc = i")
    case True
    with Cons.prems p keys_matching [of d docs] have "map_of (matching d docs) doc = None"
      by (auto simp: map_of_eq_None_iff)
    with True p show ?thesis by (auto split: option.split)
  next
    case False
    with Cons p show ?thesis by (auto split: option.split)
  qed
qed simp

section \<open>Operations on the index\<close>

lemma represents_New: "represents NewInvertedIndex []"
  by (simp add: represents_def NewInvertedIndex_def postings_def)

lemma add_postings_spec:
  assumes "distinct ds" and "length ds \<le> length vs" and "distinct (map fst (postingLists idx))"
  shows "\<exists>idx'. add_postings doc ds vs idx = Some idx' \<and> docCount idx' = docCount idx \<and> distinct (map fst (postingLists idx'))
    \<and> (\<forall>d. postings idx' d = postings idx d @ (case map_of (zip ds vs) d of None \<Rightarrow> [] | Some v \<Rightarrow> [(doc, v)]))"
  using assms
proof (induction ds arbitrary: vs idx)
  case (Cons d ds)
  then obtain v vs' where vs: "vs = v # vs'" by (cases vs) auto
  let ?idx = "idx\<lparr>postingLists := map_set d (postings idx d @ [(doc, v)]) (postingLists idx)\<rparr>"
  have "map_of (zip ds vs') d = None" using Cons.prems(1) by (auto simp: map_of_eq_None_iff dest: set_zip_leftD)
  moreover have "postings ?idx e = (if e = d then postings idx d @ [(doc, v)] else postings idx e)" for e by (simp add: postings_def)
  moreover obtain idx' where "add_postings doc ds vs' ?idx = Some idx'" "docCount idx' = docCount ?idx" "distinct (map fst (postingLists idx'))"
      "\<forall>e. postings idx' e = postings ?idx e @ (case map_of (zip ds vs') e of None \<Rightarrow> [] | Some v \<Rightarrow> [(doc, v)])"
    using Cons.IH [of vs' ?idx] Cons.prems vs by auto
  ultimately show ?case by (auto simp: vs)
qed simp

lemma represents_Add:
  assumes "represents idx docs" and "wf_svec v"
  shows "\<exists>idx'. Add_sparse doc v idx = Some idx' \<and> represents idx' (docs @ [(doc, v)]) \<and> docCount idx' = docCount idx + 1"
proof -
  have "distinct (svIndices v)" using assms(2) by (simp add: wf_svec_def strict_sorted_iff)
  from add_postings_spec [OF this, of "svValues v" idx doc] assms obtain idx' where
    "add_postings doc (svIndices v) (svValues v) idx = Some idx'" "docCount idx' = docCount idx" "distinct (map fst (postingLists idx'))"
    "\<forall>d. postings idx' d = matching d docs @ (case entry v d of None \<Rightarrow> [] | Some v \<Rightarrow> [(doc, v)])"
    by (auto simp: wf_svec_def represents_def entry_def)
  then show ?thesis by (auto simp: Add_sparse_def represents_def matching_append postings_def split: option.split)
qed

lemma represents_Remove: "represents idx docs \<Longrightarrow> represents (Remove_sparse doc idx) (filter (\<lambda>p. fst p \<noteq> doc) docs)"
proof -
  assume r: "represents idx docs"
  let ?f = "filter (\<lambda>p. fst p \<noteq> doc)" and ?m = "postingLists idx"
  let ?pl = "filter (\<lambda>(d, ps). ps \<noteq> []) (map (\<lambda>(d, ps). (d, ?f ps)) ?m)"
  have f: "map fst (map (\<lambda>(d, ps). (d, ?f ps)) ?m) = map fst ?m" by auto
  have d: "distinct (map fst ?m)" using r by (simp add: represents_def)
  then have dk: "distinct (map fst ?pl)" by (metis f distinct_map_filter)
  have "(case map_of (filter (\<lambda>(d, ps). ps \<noteq> []) (map (\<lambda>(d, ps). (d, ?f ps)) m)) e of Some ps \<Rightarrow> ps | None \<Rightarrow> [])
      = ?f (case map_of m e of Some ps \<Rightarrow> ps | None \<Rightarrow> [])" if "distinct (map fst m)" for m e
    using that
  proof (induction m)
    case (Cons p m)
    have "fst p \<notin> fst ` set m" using Cons.prems by simp
    then have "map_of (filter (\<lambda>(d, ps). ps \<noteq> []) (map (\<lambda>(d, ps). (d, ?f ps)) m)) (fst p) = None"
      by (auto simp: map_of_eq_None_iff image_iff)
    with Cons show ?case by (cases p) auto
  qed simp
  with d have "(case map_of ?pl e of Some ps \<Rightarrow> ps | None \<Rightarrow> []) = ?f (postings idx e)" for e by (simp add: postings_def)
  with dk r show ?thesis by (simp add: represents_def Remove_sparse_def postings_def matching_filter [symmetric])
qed

section \<open>Scores\<close>

definition terms_of :: "'f arith \<Rightarrow> u32 list \<Rightarrow> 'f list \<Rightarrow> (u32 \<rightharpoonup> 'f) \<Rightarrow> 'f list" where
  "terms_of A ds qs e = List.map_filter (\<lambda>(d, q). map_option (fmul A q) (e d)) (zip ds qs)"

lemma terms_of_simps [simp]:
  "terms_of A [] qs e = []" "terms_of A ds [] e = []"
  "terms_of A (d # ds) (q # qs) e = (case e d of None \<Rightarrow> terms_of A ds qs e | Some x \<Rightarrow> fmul A q x # terms_of A ds qs e)"
  by (auto simp: terms_of_def List.map_filter_simps split: option.split)

lemma terms_of_empty [simp]: "terms_of A ds qs (\<lambda>d. None) = []"
  by (induction ds qs rule: list_induct2') auto

lemma terms_of_skip: "i \<notin> set ds \<Longrightarrow> terms_of A ds qs (map_of (zip (i # js) (w # ws))) = terms_of A ds qs (map_of (zip js ws))"
proof (induction ds arbitrary: qs)
  case (Cons d ds)
  then show ?case by (cases qs) (auto split: option.split)
qed simp

lemma terms_of_Nil_iff: "length qs = length ds \<Longrightarrow> terms_of A ds qs e = [] \<longleftrightarrow> (\<forall>d \<in> set ds. e d = None)"
  by (induction ds qs rule: list_induct2') (auto split: option.split)

lemma dot_loop_terms:
  assumes "sorted_wrt (<) is" and "sorted_wrt (<) js" and "length vs = length is" and "length ws = length js"
  shows "dot_loop A is vs js ws r = Some (foldl (fadd A) r (terms_of A is vs (map_of (zip js ws))))"
  using assms
proof (induction A "is" vs js ws r rule: dot_loop.induct)
  case (1 A i "is" vs j js ws r)
  obtain v vs' where v: "vs = v # vs'" using 1(6) by (cases vs) auto
  obtain w ws' where w: "ws = w # ws'" using 1(7) by (cases ws) auto
  consider "i = j" | "i < j" | "j < i" by (metis linorder_neqE)
  then show ?case
  proof cases
    assume e: "i = j"
    have "i \<notin> set is" using 1(4) by auto
    then show ?thesis using 1 e v w terms_of_skip [of i "is" A vs' js w ws'] by (simp del: zip_Cons_Cons) simp
  next
    assume l: "i < j"
    then have e: "map_of (zip (j # js) (w # ws')) i = None" using 1(5) by (auto simp: map_of_eq_None_iff dest!: set_zip_leftD)
    from l have n: "i \<noteq> j" by simp
    show ?thesis using 1(2) [OF n l] 1(4-7) l n v w by (simp add: e del: zip_Cons_Cons)
  next
    assume g: "j < i"
    then have "j \<notin> set (i # is)" using 1(4) by auto
    then have "terms_of A (i # is) vs (map_of (zip (j # js) ws)) = terms_of A (i # is) vs (map_of (zip js ws'))"
      unfolding w by (rule terms_of_skip)
    moreover from g have n: "i \<noteq> j" "\<not> i < j" by simp_all
    ultimately show ?thesis using 1(3) [OF n] 1(4-7) n w by (simp del: zip_Cons_Cons terms_of_simps)
  qed
qed auto

lemma DotProduct_terms:
  "wf_svec q \<Longrightarrow> wf_svec v \<Longrightarrow> DotProduct A q v = Some (foldl (fadd A) (fzero A) (terms_of A (svIndices q) (svValues q) (entry v)))"
  by (simp add: DotProduct_def wf_svec_def dot_loop_terms entry_def)

lemma accumulate_all:
  "distinct (map fst ps) \<Longrightarrow> map_of (fold (accumulate A q) ps sc) doc =
    (case map_of ps doc of None \<Rightarrow> map_of sc doc | Some x \<Rightarrow> Some (fadd A (lookup_zero A sc doc) (fmul A q x)))"
proof (induction ps arbitrary: sc)
  case (Cons p ps)
  have "map_of ps (fst p) = None" using Cons.prems by (auto simp: map_of_eq_None_iff)
  with Cons show ?case by (cases p) (auto simp: accumulate_def lookup_zero_def split: option.split)
qed simp

lemma accumulate_keys: "distinct (map fst sc) \<Longrightarrow> distinct (map fst (fold (accumulate A q) ps sc))"
  by (induction ps arbitrary: sc) (auto simp: accumulate_def)

lemma search_scores_spec:
  assumes "represents idx docs" and "distinct (map fst docs)" and "length qs = length ds" and "distinct (map fst sc)"
  shows "\<exists>sc'. search_scores A idx ds qs sc = Some sc' \<and> distinct (map fst sc') \<and> (\<forall>doc. map_of sc' doc =
     (case map_of docs doc of None \<Rightarrow> map_of sc doc
      | Some v \<Rightarrow> (case terms_of A ds qs (entry v) of [] \<Rightarrow> map_of sc doc | xs \<Rightarrow> Some (foldl (fadd A) (lookup_zero A sc doc) xs))))"
  using assms(3,4)
proof (induction ds qs arbitrary: sc rule: list_induct2')
  case (4 d ds q qs)
  let ?sc = "fold (accumulate A q) (postings idx d) sc"
  have ps: "postings idx d = matching d docs" using assms(1) by (simp add: represents_def)
  have m: "map_of ?sc doc = (case Option.bind (map_of docs doc) (\<lambda>v. entry v d) of None \<Rightarrow> map_of sc doc
      | Some x \<Rightarrow> Some (fadd A (lookup_zero A sc doc) (fmul A q x)))" for doc
    unfolding ps using accumulate_all [OF distinct_matching [OF assms(2)]] map_of_matching [OF assms(2)] by metis
  have z: "lookup_zero A ?sc doc = (case Option.bind (map_of docs doc) (\<lambda>v. entry v d) of None \<Rightarrow> lookup_zero A sc doc
      | Some x \<Rightarrow> fadd A (lookup_zero A sc doc) (fmul A q x))" for doc
    unfolding lookup_zero_def m by (auto split: option.split)
  obtain sc' where "search_scores A idx ds qs ?sc = Some sc'" "distinct (map fst sc')"
      "\<forall>doc. map_of sc' doc = (case map_of docs doc of None \<Rightarrow> map_of ?sc doc
      | Some v \<Rightarrow> (case terms_of A ds qs (entry v) of [] \<Rightarrow> map_of ?sc doc | xs \<Rightarrow> Some (foldl (fadd A) (lookup_zero A ?sc doc) xs)))"
    using 4 accumulate_keys by fastforce
  then show ?case unfolding m z by (auto split: option.split list.split)
qed (auto split: option.split)

section \<open>The best results\<close>

definition sorts_desc :: "('a \<Rightarrow> 'f :: linorder) \<Rightarrow> ('a list \<Rightarrow> 'a list) \<Rightarrow> bool" where
  "sorts_desc key srt \<longleftrightarrow> (\<forall>xs. mset (srt xs) = mset xs \<and> sorted_wrt (\<lambda>x y. key x \<ge> key y) (srt xs))"

lemma top_k_best:
  assumes "sorts_desc key srt" and "k \<ge> 0" and "distinct xs"
  shows "\<exists>res. top_k k (srt xs) = Some res \<and> distinct res \<and> set res \<subseteq> set xs \<and> length res = min (nat k) (length xs)
    \<and> (\<forall>x \<in> set xs - set res. \<forall>y \<in> set res. key x \<le> key y)"
proof -
  let ?s = "srt xs" and ?res = "take (nat k) (srt xs)"
  have m: "mset ?s = mset xs" and s: "sorted_wrt (\<lambda>x y. key x \<ge> key y) ?s" using assms(1) by (simp_all add: sorts_desc_def)
  have l: "length ?s = length xs" and ss: "set ?s = set xs" and d: "distinct ?s"
    using m assms(3) mset_eq_imp_distinct_iff [OF m] by (metis size_mset, metis mset_eq_setD, simp)
  have t: "top_k k ?s = Some ?res" using assms(2) by (auto simp: top_k_def)
  have best: "key x \<le> key y" if "x \<in> set xs - set ?res" "y \<in> set ?res" for x y
  proof -
    have "x \<in> set (drop (nat k) ?s)" using that(1) ss by (metis DiffE UnE append_take_drop_id set_append)
    moreover have "sorted_wrt (\<lambda>x y. key x \<ge> key y) (?res @ drop (nat k) ?s)" using s by simp
    ultimately show ?thesis using that(2) by (auto simp only: sorted_wrt_append)
  qed
  have "set ?res \<subseteq> set xs" using ss by (metis set_take_subset)
  with t best d l show ?thesis by (intro exI [of _ ?res]) (auto simp: distinct_take min.commute)
qed

end
