(* ===== verification/Sparse_Properties.thy ===== *)
theory Sparse_Properties
  imports Sparse_Facts
begin

text \<open>
  Properties of the sparse index: searches compute dot products, the binary form is read back, and rank fusion.
\<close>

section \<open>Search\<close>

datatype 'f sparse_op = AddDoc u32 "'f svec" | RemoveDoc u32

fun run_sparse :: "'f sparse_op list \<Rightarrow> 'f inverted_index \<Rightarrow> 'f inverted_index option" where
  "run_sparse [] idx = Some idx"
| "run_sparse (AddDoc doc v # ops) idx = (case Add_sparse doc v idx of None \<Rightarrow> None | Some idx' \<Rightarrow> run_sparse ops idx')"
| "run_sparse (RemoveDoc doc # ops) idx = run_sparse ops (Remove_sparse doc idx)"

fun live_docs :: "'f sparse_op list \<Rightarrow> (u32 \<times> 'f svec) list \<Rightarrow> (u32 \<times> 'f svec) list" where
  "live_docs [] docs = docs"
| "live_docs (AddDoc doc v # ops) docs = live_docs ops (docs @ [(doc, v)])"
| "live_docs (RemoveDoc doc # ops) docs = live_docs ops (filter (\<lambda>p. fst p \<noteq> doc) docs)"

text \<open>No id is added while it is in use, and the vectors have strictly increasing indices and one value each.\<close>

fun ops_ok :: "'f sparse_op list \<Rightarrow> (u32 \<times> 'f svec) list \<Rightarrow> bool" where
  "ops_ok [] docs = True"
| "ops_ok (AddDoc doc v # ops) docs \<longleftrightarrow> doc \<notin> fst ` set docs \<and> wf_svec v \<and> ops_ok ops (docs @ [(doc, v)])"
| "ops_ok (RemoveDoc doc # ops) docs = ops_ok ops (filter (\<lambda>p. fst p \<noteq> doc) docs)"

definition docs_wf :: "(u32 \<times> 'f svec) list \<Rightarrow> bool" where
  "docs_wf docs \<longleftrightarrow> distinct (map fst docs) \<and> (\<forall>p \<in> set docs. wf_svec (snd p))"

lemma run_sparse_spec:
  assumes "ops_ok ops docs" and "represents idx docs" and "docs_wf docs"
  shows "\<exists>idx'. run_sparse ops idx = Some idx' \<and> represents idx' (live_docs ops docs) \<and> docs_wf (live_docs ops docs)"
  using assms
proof (induction ops arbitrary: idx docs)
  case (Cons op ops)
  show ?case
  proof (cases op)
    case (AddDoc doc v)
    with Cons.prems represents_Add [of idx docs v doc] obtain idx' where
      "Add_sparse doc v idx = Some idx'" "represents idx' (docs @ [(doc, v)])" by auto
    moreover have "docs_wf (docs @ [(doc, v)])" using Cons.prems AddDoc by (auto simp: docs_wf_def)
    ultimately show ?thesis using Cons AddDoc by simp
  next
    case (RemoveDoc doc)
    have "docs_wf (filter (\<lambda>p. fst p \<noteq> doc) docs)" using Cons.prems by (auto simp: docs_wf_def distinct_map_filter)
    with Cons represents_Remove [of idx docs doc] RemoveDoc show ?thesis by simp
  qed
qed simp

definition shares :: "'f svec \<Rightarrow> 'f svec \<Rightarrow> bool" where
  "shares q v \<longleftrightarrow> set (svIndices q) \<inter> set (svIndices v) \<noteq> {}"

lemma entry_None_iff: "wf_svec v \<Longrightarrow> entry v d = None \<longleftrightarrow> d \<notin> set (svIndices v)"
  by (auto simp: entry_def wf_svec_def map_of_eq_None_iff set_zip image_iff in_set_conv_nth)

lemma scores_dot:
  assumes "represents idx docs" and "docs_wf docs" and "wf_svec q"
  shows "\<exists>sc. search_scores A idx (svIndices q) (svValues q) [] = Some sc \<and> distinct (map fst sc)
    \<and> (\<forall>doc x. map_of sc doc = Some x \<longleftrightarrow> (\<exists>v. (doc, v) \<in> set docs \<and> shares q v \<and> DotProduct A q v = Some x))"
proof -
  have d: "distinct (map fst docs)" using assms(2) by (simp add: docs_wf_def)
  obtain sc where sc: "search_scores A idx (svIndices q) (svValues q) [] = Some sc" "distinct (map fst sc)"
    "\<And>doc. map_of sc doc = (case map_of docs doc of None \<Rightarrow> None
      | Some v \<Rightarrow> (case terms_of A (svIndices q) (svValues q) (entry v) of [] \<Rightarrow> None | xs \<Rightarrow> Some (foldl (fadd A) (fzero A) xs)))"
  proof -
    have l: "length (svValues q) = length (svIndices q)" "distinct (map fst [])" using assms(3) by (simp_all add: wf_svec_def)
    have z: "map_of [] = Map.empty" "lookup_zero A [] = (\<lambda>k. fzero A)" by (simp_all add: lookup_zero_def fun_eq_iff)
    show thesis using search_scores_spec [OF assms(1) d l, of A] unfolding z by (metis that)
  qed
  have "map_of sc doc = Some x \<longleftrightarrow> (\<exists>v. (doc, v) \<in> set docs \<and> shares q v \<and> DotProduct A q v = Some x)" for doc x
  proof (cases "map_of docs doc")
    case None
    then have "(doc, v) \<notin> set docs" for v by (metis weak_map_of_SomeI option.distinct(1))
    with None show ?thesis by (simp add: sc(3))
  next
    case (Some v)
    then have v: "(doc, v) \<in> set docs" by (rule map_of_SomeD)
    then have w: "wf_svec v" using assms(2) by (auto simp: docs_wf_def)
    have "terms_of A (svIndices q) (svValues q) (entry v) = [] \<longleftrightarrow> \<not> shares q v"
      using terms_of_Nil_iff [of "svValues q" "svIndices q" A "entry v"] assms(3) w
      by (auto simp: entry_None_iff shares_def wf_svec_def)
    moreover have "(doc, u) \<in> set docs \<longleftrightarrow> u = v" for u using v d by (metis eq_key_imp_eq_value)
    ultimately show ?thesis using DotProduct_terms [OF assms(3) w, of A] Some by (auto simp: sc(3) split: list.split)
  qed
  with sc(1,2) show ?thesis by blast
qed


definition int_arith :: "int arith" where
  "int_arith = \<lparr>fzero = 0, fone = 1, fdec = \<lambda>m e. m, fadd = (+), fsub = (-), fmul = (*), fdiv = (div), fsqrt = id,
     fof_int = id, fto_int = id, flog_idf = \<lambda>n d. n - d\<rparr>"

abbreviation sort_scored :: "int scored_doc list \<Rightarrow> int scored_doc list" where
  "sort_scored \<equiv> sort_key (\<lambda>d. - sdScore d)"

lemma sort_desc_ok: "sorts_desc key (sort_key (\<lambda>x. - key x :: int))"
proof -
  have "sorted_wrt (\<lambda>x y. key x \<ge> key y) (sort_key (\<lambda>x. - key x) xs)" for xs
    using sorted_sort_key [of "\<lambda>x. - key x" xs] by (simp add: sorted_map)
  then show ?thesis by (simp add: sorts_desc_def)
qed


text \<open>\<open>Size\<close> counts the additions: removing a document does not lower it.\<close>

lemma sparse_size_never_drops: "Size_sparse (Remove_sparse doc idx) = Size_sparse idx"
  by (simp add: Size_sparse_def Remove_sparse_def)

section \<open>The binary form\<close>

lemma get_u32s:
  "map (\<lambda>i. get_u32 (drop (length pre + i * 4) (pre @ concat (map put_u32 xs) @ post))) [0..<length xs] = xs"
proof (induction xs arbitrary: pre)
  case (Cons x xs)
  have "map (\<lambda>i. get_u32 (drop (length pre + i * 4) (pre @ put_u32 x @ concat (map put_u32 xs) @ post))) [1..<Suc (length xs)]
      = map (\<lambda>i. get_u32 (drop (length (pre @ put_u32 x) + i * 4) ((pre @ put_u32 x) @ concat (map put_u32 xs) @ post))) [0..<length xs]"
    by (simp add: map_Suc_upt [symmetric] comp_def algebra_simps del: upt_Suc)
  also have "\<dots> = xs" by (rule Cons.IH)
  finally have "map (\<lambda>i. get_u32 (drop (length pre + i * 4) (pre @ put_u32 x @ concat (map put_u32 xs) @ post))) [1..<Suc (length xs)] = xs" .
  then show ?case by (simp add: upt_conv_Cons del: upt_Suc)
qed simp

text \<open>A sparse vector with as many values as indices, fewer than 2 to the 32, is read back from its encoding, whatever follows
  in the buffer, and the encoding cut short anywhere is refused.\<close>

theorem sparse_roundtrip:
  assumes l: "length (svValues v) = length (svIndices v)" and n: "length (svIndices v) < 2 ^ 32"
  shows "\<exists>bs. Encode_svec v = Some bs \<and> Decode_svec (bs @ rest) = Inr v \<and> (\<forall>n < length bs. \<exists>e. Decode_svec (take n bs) = Inl e)"
proof -
  let ?n = "length (svIndices v)" and ?i = "concat (map put_u32 (svIndices v))" and ?x = "concat (map put_u32 (svValues v))"
  let ?h = "put_u32 (word_of_nat ?n)"
  have u: "unat (word_of_nat ?n :: u32) = ?n" using n by (simp add: unat_of_nat take_bit_nat_eq_self)
  let ?bs = "?h @ ?i @ ?x"
  have e: "Encode_svec v = Some ?bs" by (simp add: Encode_svec_def Let_def l)
  have len: "length ?bs = 4 + ?n * 4 + ?n * 4" using l by simp
  have "Decode_svec (?bs @ rest) = Inr v"
    using get_u32s [of ?h "svIndices v" "?x @ rest"] get_u32s [of "?h @ ?i" "svValues v" rest] l
    by (simp add: Decode_svec_def Let_def u algebra_simps)
  moreover have "\<exists>er. Decode_svec (take m ?bs) = Inl er" if "m < length ?bs" for m
  proof (cases "m < 4")
    case False
    then have "take m ?bs = ?h @ take (m - 4) (?i @ ?x)" by simp
    then have "get_u32 (take m ?bs) = word_of_nat ?n" by simp
    moreover have "length (take m ?bs) = m" using that by simp
    ultimately show ?thesis using that len False by (simp add: Decode_svec_def Let_def u)
  qed (use that in \<open>simp add: Decode_svec_def\<close>)
  ultimately show ?thesis using e by blast
qed

theorem sparse_roundtrip_witness:
  "\<exists>bs. Encode_svec (NewVector [7, 9] [1, 2]) = Some bs \<and> Decode_svec (bs @ [3]) = Inr (NewVector [7, 9] [1, 2])"
  using sparse_roundtrip [of "NewVector [7, 9] [1, 2]" "[3]"] by (auto simp: NewVector_def)

section \<open>Fusion\<close>

lemma final_folds:
  "hybrid_at A (fold (add_dense A) ts sc) d = (let r = hybrid_at A sc d; xs = filter (\<lambda>t. sdDocID (fst t) = d) ts
    in r\<lparr>DenseScore := (if xs = [] then DenseScore r else sdScore (fst (last xs))), FinalScore := foldl (fadd A) (FinalScore r) (map snd xs)\<rparr>)"
  "hybrid_at A (fold (add_sparse A) ts sc) d = (let r = hybrid_at A sc d; xs = filter (\<lambda>t. sdDocID (fst t) = d) ts
    in r\<lparr>SparseScore := (if xs = [] then SparseScore r else sdScore (fst (last xs))), FinalScore := foldl (fadd A) (FinalScore r) (map snd xs)\<rparr>)"
proof (induction ts arbitrary: sc)
  case (Cons t ts)
  {
    case 1
    have "hybrid_at A (add_dense A t sc) d = (if sdDocID (fst t) = d
        then (hybrid_at A sc d)\<lparr>DenseScore := sdScore (fst t), FinalScore := fadd A (FinalScore (hybrid_at A sc d)) (snd t)\<rparr> else hybrid_at A sc d)"
      by (auto simp: hybrid_at_def add_dense_def Let_def)
    then show ?case by (simp add: Cons(1) Let_def)
  next
    case 2
    have "hybrid_at A (add_sparse A t sc) d = (if sdDocID (fst t) = d
        then (hybrid_at A sc d)\<lparr>SparseScore := sdScore (fst t), FinalScore := fadd A (FinalScore (hybrid_at A sc d)) (snd t)\<rparr> else hybrid_at A sc d)"
      by (auto simp: hybrid_at_def add_sparse_def Let_def)
    then show ?case by (simp add: Cons(2) Let_def)
  }
qed simp_all

lemma fold_keys:
  "fst ` set (fold (add_dense A) ts sc) = fst ` set sc \<union> (sdDocID \<circ> fst) ` set ts"
  "fst ` set (fold (add_sparse A) ts sc) = fst ` set sc \<union> (sdDocID \<circ> fst) ` set ts"
  "distinct (map fst sc) \<Longrightarrow> distinct (map fst (fold (add_dense A) ts sc))"
  "distinct (map fst sc) \<Longrightarrow> distinct (map fst (fold (add_sparse A) ts sc))"
  by (induction ts arbitrary: sc) (auto simp: add_dense_def add_sparse_def Let_def)

text \<open>The score of a document: the sum of what its ranks add, dense ranks first.\<close>

definition rrf_score :: "'f arith \<Rightarrow> int \<Rightarrow> 'f scored_doc list \<Rightarrow> 'f scored_doc list \<Rightarrow> u32 \<Rightarrow> 'f" where
  "rrf_score A c dense sparse d = foldl (fadd A) (fzero A)
     (map (\<lambda>rank. fdiv A (fone A) (fof_int A (c + int rank + 1)))
       (filter (\<lambda>rank. sdDocID (dense ! rank) = d) [0..<length dense] @ filter (\<lambda>rank. sdDocID (sparse ! rank) = d) [0..<length sparse]))"

lemma rrf_terms_of:
  "map snd (filter (\<lambda>t. sdDocID (fst t) = d) (rrf_terms A c docs))
    = map (\<lambda>rank. fdiv A (fone A) (fof_int A (c + int rank + 1))) (filter (\<lambda>rank. sdDocID (docs ! rank) = d) [0..<length docs])"
proof -
  have "rrf_terms A c docs = map (\<lambda>rank. (docs ! rank, fdiv A (fone A) (fof_int A (c + int rank + 1)))) [0..<length docs]"
    by (rule nth_equalityI) (simp_all add: rrf_terms_def nth_enumerate_eq)
  then show ?thesis by (simp add: filter_map comp_def)
qed

lemma keys_rrf_terms: "(sdDocID \<circ> fst) ` set (rrf_terms A c docs) = sdDocID ` set docs"
proof -
  have "map fst (rrf_terms A c docs) = docs" by (simp add: rrf_terms_def comp_def case_prod_unfold)
  then show ?thesis by (metis image_comp list.set_map)
qed

text \<open>Reciprocal rank fusion returns the k documents with the highest scores among those of either list (all of them if
  there are fewer), each once, and the score of a document is the sum of one over the constant plus its rank, over every place
  it has in the two lists.\<close>

theorem fuse_rrf:
  fixes A :: "('f :: linorder) arith" and dense sparse :: "'f scored_doc list"
  assumes "k \<ge> 0" and "sorts_desc FinalScore srt" and "\<And>xs. mset (it xs) = mset xs"
  defines "ids \<equiv> sdDocID ` (set dense \<union> set sparse)"
  shows "\<exists>res. fuseRRF A it srt dense sparse c k = Some res \<and> distinct (map hrDocID res) \<and> length res = min (nat k) (card ids)
    \<and> (\<forall>r \<in> set res. hrDocID r \<in> ids \<and> FinalScore r = rrf_score A c dense sparse (hrDocID r)
        \<and> (\<forall>d \<in> ids - hrDocID ` set res. rrf_score A c dense sparse d \<le> FinalScore r))"
proof -
  let ?sc = "fold (add_sparse A) (rrf_terms A c sparse) (fold (add_dense A) (rrf_terms A c dense) [])"
  have keys: "fst ` set ?sc = ids" "distinct (map fst ?sc)" by (simp_all add: fold_keys keys_rrf_terms [unfolded comp_def] comp_def ids_def image_Un)
  have at: "FinalScore (hybrid_at A ?sc d) = rrf_score A c dense sparse d \<and> hrDocID (hybrid_at A ?sc d) = d" for d
    by (simp add: final_folds rrf_terms_of Let_def rrf_score_def) (simp add: hybrid_at_def)
  have val: "snd p = hybrid_at A ?sc (fst p)" if "p \<in> set ?sc" for p
    using map_of_is_SomeI [OF keys(2), of "fst p" "snd p"] that by (simp add: hybrid_at_def)
  let ?xs = "map snd (it ?sc)"
  have m: "mset (it ?sc) = mset ?sc" by (rule assms(3))
  then have set: "set (it ?sc) = set ?sc" by (rule mset_eq_setD)
  have hrs: "map hrDocID ?xs = map fst (it ?sc)" using val at set by simp
  moreover have "distinct (map fst (it ?sc))" using m keys(2) by (metis mset_map mset_eq_imp_distinct_iff)
  ultimately have dx: "distinct (map hrDocID ?xs)" by metis
  then have "distinct ?xs" by (metis distinct_map)
  then obtain res where res: "top_k k (srt ?xs) = Some res" "distinct res" "set res \<subseteq> set ?xs" "length res = min (nat k) (length ?xs)"
      "\<forall>x \<in> set ?xs - set res. \<forall>y \<in> set res. FinalScore x \<le> FinalScore y"
    using top_k_best [OF assms(2,1)] by blast
  have xs: "set ?xs = hybrid_at A ?sc ` ids" using val set keys(1) by force
  have "length ?xs = card ids" using keys m by (metis distinct_card length_map set_map size_mset)
  moreover have "distinct (map hrDocID res)" using dx res(2,3) by (metis distinct_map inj_on_subset)
  moreover have "hrDocID r \<in> ids \<and> FinalScore r = rrf_score A c dense sparse (hrDocID r)
      \<and> (\<forall>d \<in> ids - hrDocID ` set res. rrf_score A c dense sparse d \<le> FinalScore r)" if r: "r \<in> set res" for r
  proof (intro conjI ballI)
    show "hrDocID r \<in> ids" "FinalScore r = rrf_score A c dense sparse (hrDocID r)" using r res(3) xs at by force+
    fix d assume d: "d \<in> ids - hrDocID ` set res"
    then have "hybrid_at A ?sc d \<in> set ?xs - set res" unfolding xs using at by (metis DiffE DiffI image_eqI)
    with res(5) r have "FinalScore (hybrid_at A ?sc d) \<le> FinalScore r" by blast
    then show "rrf_score A c dense sparse d \<le> FinalScore r" using at by simp
  qed
  moreover have "fuseRRF A it srt dense sparse c k = Some res" using res(1) by (simp add: fuseRRF_def fuse_def Let_def)
  ultimately show ?thesis using res(4) by (intro exI [of _ res]) metis
qed

theorem fuse_rrf_witness:
  "\<exists>res. fuseRRF int_arith rev (sort_key (\<lambda>r. - FinalScore r)) [\<lparr>sdDocID = 1, sdScore = 9\<rparr>] [\<lparr>sdDocID = 2, sdScore = 5\<rparr>, \<lparr>sdDocID = 1, sdScore = 4\<rparr>] 0 5
      = Some res \<and> length res = 2"
proof -
  let ?d = "[\<lparr>sdDocID = 1, sdScore = 9\<rparr>] :: int scored_doc list" and ?s = "[\<lparr>sdDocID = 2, sdScore = 5\<rparr>, \<lparr>sdDocID = 1, sdScore = 4\<rparr>] :: int scored_doc list"
  have "sdDocID ` (set ?d \<union> set ?s) = {1, 2}" by auto
  with fuse_rrf [of 5 "sort_key (\<lambda>r. - FinalScore r)" rev int_arith ?d ?s 0, OF _ sort_desc_ok] show ?thesis by fastforce
qed

end
