(* ===== verification/Collections.thy ===== *)
theory Collections
  imports Hnsw_Range Point_Codec Cache Wal_Log Payload_Filter Sparse
begin

text \<open>
  Collections, \<open>pkg/collection/collection.go\<close> and what they use of \<open>pkg/config/config.go\<close>: the layer that ties the log, the
  vector index, the sparse index, the payload index and the search cache together. Vectors are lists of float32 bit
  patterns. The write-ahead log is shared by all collections, so an operation takes and returns it beside the collection.
  An operation gives its error, if any, together with the state it leaves; \<open>None\<close> is a panic. What the code calls outside
  the modelled packages is in the record \<open>lib\<close>. Collections on disk, whose indexes are memory-mapped, are not modelled.
\<close>

section \<open>Configuration\<close>

record vector_config =
  vcDimension :: int
  vcMetric :: string
  vcM :: int
  vcEfConstruction :: int
  vcEfSearch :: int

abbreviation MetricCosine :: string where "MetricCosine \<equiv> ''cosine''"
abbreviation MetricEuclidean :: string where "MetricEuclidean \<equiv> ''euclidean''"
abbreviation MetricDotProduct :: string where "MetricDotProduct \<equiv> ''dot_product''"

record coll_config =
  ccName :: string
  ccDimension :: int
  ccMetric :: string
  ccM :: int
  ccEfConstruction :: int
  ccEfSearch :: int
  ccVectors :: "(string \<times> vector_config) list"

datatype config_error = ErrInvalidCollectionName | ErrInvalidDimension | ErrInvalidMetric
  | ErrVectorDimension string | ErrVectorMetric string

fun validate_vectors :: "(string \<times> vector_config) list \<Rightarrow> config_error option" where
  "validate_vectors [] = None"
| "validate_vectors ((name, vc) # vcs) =
    (if vcDimension vc \<le> 0 \<or> vcDimension vc > 65536 then Some (ErrVectorDimension name)
     else if vcMetric vc \<notin> {MetricCosine, MetricEuclidean, MetricDotProduct, []} then Some (ErrVectorMetric name)
     else validate_vectors vcs)"

definition Validate_config :: "coll_config \<Rightarrow> config_error option" where
  "Validate_config c = (if ccName c = [] then Some ErrInvalidCollectionName
     else if length (ccVectors c) > 0 then validate_vectors (ccVectors c)
     else if ccDimension c \<le> 0 \<or> ccDimension c > 65536 then Some ErrInvalidDimension
     else if ccMetric c \<notin> {MetricCosine, MetricEuclidean, MetricDotProduct} then Some ErrInvalidMetric
     else None)"

definition HasNamedVectors :: "coll_config \<Rightarrow> bool" where
  "HasNamedVectors c \<longleftrightarrow> length (ccVectors c) > 0"

definition GetVectorConfig :: "coll_config \<Rightarrow> string \<Rightarrow> vector_config option" where
  "GetVectorConfig c name = (if length (ccVectors c) > 0 then map_of (ccVectors c) name
     else if name = [] \<or> name = ''default'' then Some \<lparr>vcDimension = ccDimension c, vcMetric = ccMetric c,
       vcM = ccM c, vcEfConstruction = ccEfConstruction c, vcEfSearch = ccEfSearch c\<rparr>
     else None)"

section \<open>State\<close>

datatype coll_error = PointError point_error | SerializeError encode_error | WalError wal_error | IndexError hnsw_error
  | ErrDimensionMismatch_coll | UnknownVectorName string | VectorConfigNotFound string | ErrEmptyVector_coll
  | ConfigError config_error

datatype cdc_event = EventInsert string | EventDelete string

record 's scored_point =
  spID :: string
  spScore :: 's
  spVector :: vec
  spPayload :: "go_map option"

text \<open>
  The arguments: sorting and the visited list of the vector index, the levels drawn for new nodes (by vector name), the distance of
  a metric and the quantizer of a vector, \<open>Vector.Normalize\<close> and \<open>distance.Normalize\<close>, JSON, the payload index, the number of a
  bit pattern, \<open>1.0 - distance\<close> and the arithmetic of scores, the key of a cached search, and the map orders and sorting
  of sparse searches and fusion.
\<close>

record ('d, 's, 'x) lib =
  l_sort :: "'d candidate list \<Rightarrow> 'd candidate list"
  l_tracker :: visited_list
  l_level :: "string \<Rightarrow> int"
  l_distance :: "string \<Rightarrow> vec \<Rightarrow> vec \<Rightarrow> 'd"
  l_quantizer :: "string \<Rightarrow> (u32, 'd) quantizer option"
  l_normalize :: "vec \<Rightarrow> vec"
  l_unit :: "vec \<Rightarrow> vec"
  l_marshal :: "go_map option \<Rightarrow> byte list option"
  l_unmarshal :: "byte list \<Rightarrow> go_map option option"
  l_index_point :: "nat \<Rightarrow> go_map option \<Rightarrow> 'x \<Rightarrow> 'x"
  l_float :: "u32 \<Rightarrow> 's"
  l_score :: "'d \<Rightarrow> 's"
  l_arith :: "'s arith"
  l_key :: "string \<Rightarrow> vec \<Rightarrow> int \<Rightarrow> string"
  l_visit :: "(u32 \<times> 's) list \<Rightarrow> (u32 \<times> 's) list"
  l_sort_docs :: "'s scored_doc list \<Rightarrow> 's scored_doc list"
  l_visit_hybrid :: "(u32 \<times> 's hybrid_result) list \<Rightarrow> (u32 \<times> 's hybrid_result) list"
  l_sort_hybrid :: "'s hybrid_result list \<Rightarrow> 's hybrid_result list"

record ('d, 's, 'x) collection =
  co_config :: coll_config
  index :: "(u32, 'd) hnsw option"
  indices :: "(string \<times> (u32, 'd) hnsw) list"
  payloadIndex :: 'x
  sparseIdx :: "'s inverted_index"
  has_wal :: bool
  searchCache :: "'s scored_point list cache"
  published :: "cdc_event list"

section \<open>Construction\<close>

definition or_default :: "int \<Rightarrow> int \<Rightarrow> int" where
  "or_default x d = (if x = 0 then d else x)"

fun new_indices :: "('d, 's, 'x) lib \<Rightarrow> (string \<times> vector_config) list \<Rightarrow> hnsw_error + (string \<times> (u32, 'd) hnsw) list" where
  "new_indices L [] = Inr []"
| "new_indices L ((name, vc) # vcs) =
    (let metric = (if vcMetric vc = [] then MetricCosine else vcMetric vc) in
     case New \<lparr>cfgM = or_default (vcM vc) 16, cfgEfConstruction = or_default (vcEfConstruction vc) 200,
       cfgEfSearch = or_default (vcEfSearch vc) 100, cfgDimension = vcDimension vc, cfgDistance = l_distance L metric,
       cfgQuantizer = l_quantizer L name\<rparr> of
       Inl e \<Rightarrow> Inl e
     | Inr h \<Rightarrow> (case new_indices L vcs of Inl e \<Rightarrow> Inl e | Inr hs \<Rightarrow> Inr ((name, h) # hs)))"

definition New_collection :: "('d, 's, 'x) lib \<Rightarrow> 'x \<Rightarrow> coll_config \<Rightarrow> coll_error + ('d, 's, 'x) collection" where
  "New_collection L pix cfg = (case Validate_config cfg of Some e \<Rightarrow> Inl (ConfigError e)
     | None \<Rightarrow>
       let c = \<lparr>co_config = cfg, index = None, indices = [], payloadIndex = pix, sparseIdx = NewInvertedIndex, has_wal = False,
                searchCache = NewCache 10000 300000000000, published = []\<rparr> in
       if HasNamedVectors cfg then
         (case new_indices L (ccVectors cfg) of Inl e \<Rightarrow> Inl (IndexError e) | Inr hs \<Rightarrow> Inr (c\<lparr>indices := hs\<rparr>))
       else
         (case New \<lparr>cfgM = ccM cfg, cfgEfConstruction = ccEfConstruction cfg, cfgEfSearch = ccEfSearch cfg,
            cfgDimension = ccDimension cfg, cfgDistance = l_distance L (ccMetric cfg), cfgQuantizer = l_quantizer L []\<rparr> of
            Inl e \<Rightarrow> Inl (IndexError e) | Inr h \<Rightarrow> Inr (c\<lparr>index := Some h\<rparr>)))"

section \<open>Writing\<close>

definition index_point :: "pt \<Rightarrow> vec \<Rightarrow> u32 point" where
  "index_point p v = \<lparr>pID = ptID p, pVector = v, pPayload = ptPayload p\<rparr>"

definition insert_default :: "('d :: linorder, 's, 'x) lib \<Rightarrow> pt \<Rightarrow> ('d, 's, 'x) collection \<Rightarrow> (coll_error option \<times> ('d, 's, 'x) collection) option" where
  "insert_default L p c = (case index c of
     None \<Rightarrow> Some (None, c)
   | Some h \<Rightarrow>
       if length (ptVector p) = 0 then Some (None, c)
       else if int (length (ptVector p)) \<noteq> ccDimension (co_config c) then Some (Some ErrDimensionMismatch_coll, c)
       else let v = (if ccMetric (co_config c) = MetricCosine then l_normalize L (ptVector p) else ptVector p) in
         (case Insert (l_sort L) (l_tracker L) (l_level L []) (index_point p v) h of
            Ok h' \<Rightarrow> Some (None, c\<lparr>index := Some h'\<rparr>) | Err e \<Rightarrow> Some (Some (IndexError e), c) | Panic \<Rightarrow> None))"

fun insert_named :: "('d :: linorder, 's, 'x) lib \<Rightarrow> pt \<Rightarrow> (string \<times> vec) list \<Rightarrow> ('d, 's, 'x) collection
    \<Rightarrow> (coll_error option \<times> ('d, 's, 'x) collection) option" where
  "insert_named L p [] c = Some (None, c)"
| "insert_named L p ((name, v) # nvs) c = (case map_of (indices c) name of
     None \<Rightarrow> insert_named L p nvs c
   | Some h \<Rightarrow> (case GetVectorConfig (co_config c) name of
       None \<Rightarrow> insert_named L p nvs c
     | Some vc \<Rightarrow>
         if int (length v) \<noteq> vcDimension vc then Some (Some ErrDimensionMismatch_coll, c)
         else let v' = (if vcMetric vc = MetricCosine then l_normalize L v else v) in
           (case Insert (l_sort L) (l_tracker L) (l_level L name) (index_point p v') h of
              Ok h' \<Rightarrow> insert_named L p nvs (c\<lparr>indices := map_set name h' (indices c)\<rparr>)
            | Err e \<Rightarrow> Some (Some (IndexError e), c) | Panic \<Rightarrow> None)))"

text \<open>The node of a point in the default index, 0 if it has none; there is no index in named-vector collections.\<close>

definition getNodeID :: "('d, 's, 'x) collection \<Rightarrow> string \<Rightarrow> nat option option" where
  "getNodeID c i = map_option (\<lambda>h. GetNodeID h i) (index c)"

definition index_extras :: "('d, 's, 'x) lib \<Rightarrow> pt \<Rightarrow> ('d, 's, 'x) collection \<Rightarrow> ('d, 's, 'x) collection option" where
  "index_extras L p c = (case getNodeID c (ptID p) of None \<Rightarrow> None
     | Some n \<Rightarrow>
       let node = (case n of None \<Rightarrow> 0 | Some k \<Rightarrow> k); c1 = c\<lparr>payloadIndex := l_index_point L node (ptPayload p) (payloadIndex c)\<rparr> in
       case ptSparse p of None \<Rightarrow> Some c1
       | Some s \<Rightarrow> map_option (\<lambda>ix. c1\<lparr>sparseIdx := ix\<rparr>)
           (Add_sparse (word_of_nat node) (NewVector (Indices s) (map (l_float L) (SValues s))) (sparseIdx c1)))"

definition insertInternal :: "('d :: linorder, 's, 'x) lib \<Rightarrow> pt \<Rightarrow> ('d, 's, 'x) collection \<Rightarrow> (coll_error option \<times> ('d, 's, 'x) collection) option" where
  "insertInternal L p c = (case insert_default L p c of None \<Rightarrow> None
     | Some (Some e, c1) \<Rightarrow> Some (Some e, c1)
     | Some (None, c1) \<Rightarrow>
       (case (if HasNamedVectors (co_config c1) \<and> length (NamedVectors p) > 0 then insert_named L p (NamedVectors p) c1 else Some (None, c1)) of
          None \<Rightarrow> None
        | Some (Some e, c2) \<Rightarrow> Some (Some e, c2)
        | Some (None, c2) \<Rightarrow> map_option (\<lambda>c3. (None, c3)) (index_extras L p c2)))"

definition serializePoint :: "('d, 's, 'x) lib \<Rightarrow> pt \<Rightarrow> encode_error + byte list" where
  "serializePoint L p = Encode (l_marshal L) p"

definition deserializePoint :: "('d, 's, 'x) lib \<Rightarrow> byte list \<Rightarrow> decode_error + pt" where
  "deserializePoint L data = (case Decode (l_unmarshal L) data of Inl e \<Rightarrow> Inl e | Inr (p, s) \<Rightarrow> Inr p)"

definition new_record :: "byte \<Rightarrow> string \<Rightarrow> byte list \<Rightarrow> wal_record" where
  "new_record ty name data = \<lparr>SeqNum = 0, RType = ty, Collection = str_bytes name, Data = data, Timestamp = 0\<rparr>"

text \<open>The record of a single write: the error it ends with, if any, and the log.\<close>

definition log_write :: "(nat \<Rightarrow> nat) \<Rightarrow> byte \<Rightarrow> byte list \<Rightarrow> ('d, 's, 'x) collection \<Rightarrow> wal \<Rightarrow> coll_error option \<times> wal" where
  "log_write clk ty data c w = (if has_wal c
     then (case Write clk w (new_record ty (ccName (co_config c)) data) of (Inl e, w') \<Rightarrow> (Some (WalError e), w') | (Inr r, w') \<Rightarrow> (None, w'))
     else (None, w))"

definition log_point :: "('d, 's, 'x) lib \<Rightarrow> (nat \<Rightarrow> nat) \<Rightarrow> byte \<Rightarrow> pt \<Rightarrow> ('d, 's, 'x) collection \<Rightarrow> wal \<Rightarrow> coll_error option \<times> wal" where
  "log_point L clk ty p c w = (if has_wal c
     then (case serializePoint L p of Inl e \<Rightarrow> (Some (SerializeError e), w) | Inr data \<Rightarrow> log_write clk ty data c w)
     else (None, w))"

definition drop_cache :: "('d, 's, 'x) collection \<Rightarrow> ('d, 's, 'x) collection" where
  "drop_cache c = c\<lparr>searchCache := InvalidateCollection (ccName (co_config c)) (searchCache c)\<rparr>"

definition Insert_coll :: "('d :: linorder, 's, 'x) lib \<Rightarrow> (nat \<Rightarrow> nat) \<Rightarrow> pt \<Rightarrow> ('d, 's, 'x) collection \<times> wal
    \<Rightarrow> (coll_error option \<times> ('d, 's, 'x) collection \<times> wal) option" where
  "Insert_coll L clk p cw = (case cw of (c, w) \<Rightarrow>
     case Validate_point p of Some e \<Rightarrow> Some (Some (PointError e), c, w)
     | None \<Rightarrow> (case log_point L clk RecordTypeInsert p c w of
         (Some e, w') \<Rightarrow> Some (Some e, c, w')
       | (None, w') \<Rightarrow> (case insertInternal L p c of
           None \<Rightarrow> None
         | Some (Some e, c') \<Rightarrow> Some (Some e, c', w')
         | Some (None, c') \<Rightarrow> Some (None, drop_cache c', w'))))"

section \<open>Batches\<close>

record batch_result =
  Total :: nat
  Succeeded :: nat
  Failed :: nat
  bErrors :: "(string \<times> coll_error) list"

definition add_failure :: "string \<Rightarrow> coll_error \<Rightarrow> batch_result \<Rightarrow> batch_result" where
  "add_failure i e r = r\<lparr>Failed := Failed r + 1, bErrors := bErrors r @ [(i, e)]\<rparr>"

fun batch_validate :: "int \<Rightarrow> pt list \<Rightarrow> batch_result \<Rightarrow> pt list \<times> batch_result" where
  "batch_validate d [] r = ([], r)"
| "batch_validate d (p # ps) r = (case Validate_point p of
     Some e \<Rightarrow> batch_validate d ps (add_failure (ptID p) (PointError e) r)
   | None \<Rightarrow> if int (length (ptVector p)) \<noteq> d then batch_validate d ps (add_failure (ptID p) ErrDimensionMismatch_coll r)
       else (case batch_validate d ps r of (valid, r') \<Rightarrow> (p # valid, r')))"

fun batch_records :: "('d, 's, 'x) lib \<Rightarrow> string \<Rightarrow> pt list \<Rightarrow> batch_result \<Rightarrow> wal_record list \<times> batch_result" where
  "batch_records L name [] r = ([], r)"
| "batch_records L name (p # ps) r = (case serializePoint L p of
     Inl e \<Rightarrow> batch_records L name ps (add_failure (ptID p) (SerializeError e) r)
   | Inr data \<Rightarrow> (case batch_records L name ps r of (recs, r') \<Rightarrow> (new_record RecordTypeInsert name data # recs, r')))"

fun batch_apply :: "('d :: linorder, 's, 'x) lib \<Rightarrow> pt list \<Rightarrow> batch_result \<Rightarrow> ('d, 's, 'x) collection \<Rightarrow> (batch_result \<times> ('d, 's, 'x) collection) option" where
  "batch_apply L [] r c = Some (r, c)"
| "batch_apply L (p # ps) r c = (case insertInternal L p c of
     None \<Rightarrow> None
   | Some (Some e, c') \<Rightarrow> batch_apply L ps (add_failure (ptID p) e r) c'
   | Some (None, c') \<Rightarrow> batch_apply L ps (r\<lparr>Succeeded := Succeeded r + 1\<rparr>) c')"

definition InsertBatch :: "('d :: linorder, 's, 'x) lib \<Rightarrow> (nat \<Rightarrow> nat) \<Rightarrow> pt list \<Rightarrow> ('d, 's, 'x) collection \<times> wal
    \<Rightarrow> ((coll_error option \<times> batch_result) \<times> ('d, 's, 'x) collection \<times> wal) option" where
  "InsertBatch L clk ps cw = (case cw of (c, w) \<Rightarrow>
     let r0 = \<lparr>Total = length ps, Succeeded = 0, Failed = 0, bErrors = []\<rparr> in
     if length ps = 0 then Some ((None, r0), c, w)
     else (case batch_validate (ccDimension (co_config c)) ps r0 of (valid, r1) \<Rightarrow>
       let (log, r2) = (if has_wal c \<and> length valid > 0
             then (case batch_records L (ccName (co_config c)) valid r1 of (recs, r2) \<Rightarrow> (WriteBatch clk w recs, r2))
             else ((Inr [], w), r1)) in
       (case log of
          (Inl e, w') \<Rightarrow> Some ((Some (WalError e), r2), c, w')
        | (Inr _, w') \<Rightarrow> map_option (\<lambda>(r3, c'). ((None, r3), drop_cache c', w')) (batch_apply L valid r2 c))))"

section \<open>Updating and deleting\<close>

definition upsertInternal :: "('d :: linorder, 's, 'x) lib \<Rightarrow> pt \<Rightarrow> ('d, 's, 'x) collection \<Rightarrow> (coll_error option \<times> ('d, 's, 'x) collection) option" where
  "upsertInternal L p c = (case index c of None \<Rightarrow> None
     | Some h \<Rightarrow>
       let v = (if ccMetric (co_config c) = MetricCosine then l_normalize L (ptVector p) else ptVector p) in
       (case (case Delete (ptID p) h of Ok h1 \<Rightarrow> Some h1 | Err e \<Rightarrow> Some h | Panic \<Rightarrow> None) of None \<Rightarrow> None
        | Some h1 \<Rightarrow>
          let c1 = c\<lparr>index := Some h1, sparseIdx := (case GetNodeID h1 (ptID p) of None \<Rightarrow> sparseIdx c
                      | Some k \<Rightarrow> Remove_sparse (word_of_nat k) (sparseIdx c))\<rparr> in
          (case Insert (l_sort L) (l_tracker L) (l_level L []) (index_point p v) h1 of
             Panic \<Rightarrow> None
           | Err e \<Rightarrow> Some (Some (IndexError e), c1)
           | Ok h2 \<Rightarrow>
             let node = (case GetNodeID h2 (ptID p) of None \<Rightarrow> 0 | Some k \<Rightarrow> k) in
             Some (None, c1\<lparr>index := Some h2, payloadIndex := l_index_point L node (ptPayload p) (payloadIndex c1),
               published := published c1 @ [EventInsert (ptID p)]\<rparr>))))"

definition Upsert :: "('d :: linorder, 's, 'x) lib \<Rightarrow> (nat \<Rightarrow> nat) \<Rightarrow> pt \<Rightarrow> ('d, 's, 'x) collection \<times> wal
    \<Rightarrow> (coll_error option \<times> ('d, 's, 'x) collection \<times> wal) option" where
  "Upsert L clk p cw = (case cw of (c, w) \<Rightarrow>
     case Validate_point p of Some e \<Rightarrow> Some (Some (PointError e), c, w)
     | None \<Rightarrow>
       if int (length (ptVector p)) \<noteq> ccDimension (co_config c) then Some (Some ErrDimensionMismatch_coll, c, w)
       else (case log_point L clk RecordTypeUpdate p c w of
         (Some e, w') \<Rightarrow> Some (Some e, c, w')
       | (None, w') \<Rightarrow> map_option (\<lambda>(e, c'). (e, c', w')) (upsertInternal L p c)))"

definition Get_coll :: "string \<Rightarrow> ('d, 's, 'x) collection \<Rightarrow> (hnsw_error, u32 point) outcome" where
  "Get_coll i c = (case index c of None \<Rightarrow> Panic | Some h \<Rightarrow> Get i h)"

definition deleteInternal :: "string \<Rightarrow> ('d, 's, 'x) collection \<Rightarrow> (coll_error option \<times> ('d, 's, 'x) collection) option" where
  "deleteInternal i c = (case index c of None \<Rightarrow> None
     | Some h \<Rightarrow> (case Delete i h of Panic \<Rightarrow> None | Err e \<Rightarrow> Some (Some (IndexError e), c)
       | Ok h1 \<Rightarrow> Some (None, c\<lparr>index := Some h1, sparseIdx := (case GetNodeID h1 i of None \<Rightarrow> sparseIdx c
                      | Some k \<Rightarrow> Remove_sparse (word_of_nat k) (sparseIdx c)), published := published c @ [EventDelete i]\<rparr>)))"

definition Delete_coll :: "(nat \<Rightarrow> nat) \<Rightarrow> string \<Rightarrow> ('d, 's, 'x) collection \<times> wal
    \<Rightarrow> (coll_error option \<times> ('d, 's, 'x) collection \<times> wal) option" where
  "Delete_coll clk i cw = (case cw of (c, w) \<Rightarrow>
     case log_write clk RecordTypeDelete (str_bytes i) c w of
       (Some e, w') \<Rightarrow> Some (Some e, c, w')
     | (None, w') \<Rightarrow> (case deleteInternal i c of
         None \<Rightarrow> None
       | Some (Some e, c') \<Rightarrow> Some (Some e, c', w')
       | Some (None, c') \<Rightarrow> Some (None, drop_cache c', w')))"

end
