(* ===== verification/Collection_Query.thy ===== *)
theory Collection_Query
  imports Collections
begin

text \<open>
  Searching and reading a collection, \<open>pkg/collection/collection.go\<close>: cached, filtered and hybrid search over the default or a
  named vector, recommendation and scrolling. A filter is evaluated as \<open>Evaluate\<close> does it; a filter on which the evaluation
  panics is outside the model of a filtered search.
\<close>

section \<open>Search\<close>

record coll_params =
  cpK :: int
  cpEf :: int
  cpFilter :: "pfilter option"
  cpWithVector :: bool
  cpWithPayload :: bool
  cpSparse :: "sparse_vector option"

definition map_or_empty :: "go_map option \<Rightarrow> go_map" where
  "map_or_empty m = (case m of None \<Rightarrow> [] | Some m \<Rightarrow> m)"

definition index_search :: "('d :: linorder, 's, 'x) lib \<Rightarrow> (u32, 'd) hnsw \<Rightarrow> vec \<Rightarrow> coll_params \<Rightarrow> (hnsw_error, 'd candidate list) outcome" where
  "index_search L h query ps = (case cpFilter ps of
     Some f \<Rightarrow> SearchWithFilter (l_sort L) (l_tracker L) h query
       \<lparr>prK = cpK ps, prEf = (if cpEf ps = 0 then 100 else cpEf ps), Radius = None,
        search_params.Filter = Some (\<lambda>i pl. Evaluate (Some f) (map_or_empty pl) = Some True), EstimatedSelectivity = Fin 0\<rparr>
   | None \<Rightarrow> SearchWithEf (l_sort L) (l_tracker L) h query (cpK ps) (if cpEf ps = 0 then 100 else cpEf ps))"

definition scored :: "coll_params \<Rightarrow> 's \<Rightarrow> string \<Rightarrow> u32 point \<Rightarrow> 's scored_point" where
  "scored ps s i p = \<lparr>spID = i, spScore = s, spVector = (if cpWithVector ps then pVector p else []),
     spPayload = (if cpWithPayload ps then pPayload p else None)\<rparr>"

fun build_points :: "('d, 's, 'x) lib \<Rightarrow> coll_params \<Rightarrow> (u32, 'd) hnsw \<Rightarrow> 'd candidate list \<Rightarrow> 's scored_point list option" where
  "build_points L ps h [] = Some []"
| "build_points L ps h (c # cs) = (case Get (GetPointID h (cID c)) h of
     Panic \<Rightarrow> None
   | Err e \<Rightarrow> build_points L ps h cs
   | Ok p \<Rightarrow> map_option ((#) (scored ps (l_score L (Distance c)) (pID p) p)) (build_points L ps h cs))"

definition dense_matches :: "(u32, 'd) hnsw \<Rightarrow> 's scored_point list \<Rightarrow> 's scored_doc list" where
  "dense_matches h sps = List.map_filter (\<lambda>sp. map_option (\<lambda>k. \<lparr>sdDocID = word_of_nat k, sdScore = spScore sp\<rparr>) (GetNodeID h (spID sp))) sps"

fun fused_points :: "coll_params \<Rightarrow> (u32, 'd) hnsw \<Rightarrow> 's hybrid_result list \<Rightarrow> 's scored_point list option" where
  "fused_points ps h [] = Some []"
| "fused_points ps h (r # rs) = (let i = GetPointID h (unat (hrDocID r)) in
     case Get i h of Panic \<Rightarrow> None | Err e \<Rightarrow> fused_points ps h rs
     | Ok p \<Rightarrow> map_option ((#) (scored ps (FinalScore r) i p)) (fused_points ps h rs))"

definition hybrid :: "('d, 's :: linorder, 'x) lib \<Rightarrow> coll_params \<Rightarrow> 's inverted_index \<Rightarrow> (u32, 'd) hnsw \<Rightarrow> 's scored_point list \<Rightarrow> 's scored_point list option" where
  "hybrid L ps six h points = (case cpSparse ps of None \<Rightarrow> Some points
     | Some s \<Rightarrow>
       (case Search_sparse (l_arith L) (l_visit L) (l_sort_docs L) six (NewVector (Indices s) (map (l_float L) (SValues s))) (cpK ps) of
          None \<Rightarrow> None
        | Some sparseMatches \<Rightarrow>
          (case FuseResults (l_arith L) (l_visit_hybrid L) (l_sort_hybrid L) (dense_matches h points) sparseMatches
              (Some (DefaultHybridConfig (l_arith L))) (cpK ps) of
             None \<Rightarrow> None | Some fusedDocs \<Rightarrow> fused_points ps h fusedDocs)))"

text \<open>The search of one index, behind the cache.\<close>

definition search_index :: "('d :: linorder, 's :: linorder, 'x) lib \<Rightarrow> coll_params \<Rightarrow> 's inverted_index \<Rightarrow> (u32, 'd) hnsw \<Rightarrow> vec
    \<Rightarrow> (coll_error + 's scored_point list) option" where
  "search_index L ps six h query = (case index_search L h query ps of
     Panic \<Rightarrow> None | Err e \<Rightarrow> Some (Inl (IndexError e))
   | Ok cands \<Rightarrow> (case build_points L ps h cands of None \<Rightarrow> None
     | Some points \<Rightarrow> map_option Inr (hybrid L ps six h points)))"

definition use_cache :: "coll_params \<Rightarrow> bool" where
  "use_cache ps \<longleftrightarrow> cpFilter ps = None \<and> cpSparse ps = None"

definition SearchWithParams :: "('d :: linorder, 's :: linorder, 'x) lib \<Rightarrow> int \<Rightarrow> vec \<Rightarrow> coll_params \<Rightarrow> ('d, 's, 'x) collection
    \<Rightarrow> ((coll_error + 's scored_point list) \<times> ('d, 's, 'x) collection) option" where
  "SearchWithParams L now query ps c =
    (let key = l_key L (ccName (co_config c)) query (cpK ps);
         (hit, cache1) = (if use_cache ps then Get_cache now key (searchCache c) else (None, searchCache c));
         c1 = c\<lparr>searchCache := cache1\<rparr> in
     case hit of Some points \<Rightarrow> Some (Inr points, c1)
     | None \<Rightarrow>
       if int (length query) \<noteq> ccDimension (co_config c) then Some (Inl ErrDimensionMismatch_coll, c1)
       else let q = (if ccMetric (co_config c) = MetricCosine then l_unit L query else query) in
         (case index c1 of None \<Rightarrow> None
          | Some h \<Rightarrow> (case search_index L ps (sparseIdx c1) h q of
              None \<Rightarrow> None
            | Some (Inl e) \<Rightarrow> Some (Inl e, c1)
            | Some (Inr points) \<Rightarrow>
                if use_cache ps then map_option (\<lambda>cache2. (Inr points, c1\<lparr>searchCache := cache2\<rparr>)) (Set_cache now key points (searchCache c1))
                else Some (Inr points, c1))))"

definition SearchV2WithParams :: "('d :: linorder, 's :: linorder, 'x) lib \<Rightarrow> vec \<Rightarrow> string \<Rightarrow> coll_params \<Rightarrow> ('d, 's, 'x) collection
    \<Rightarrow> (coll_error + 's scored_point list) option" where
  "SearchV2WithParams L query vectorName ps c =
    (let named = HasNamedVectors (co_config c);
         name = (if named \<and> vectorName = [] then ''default'' else vectorName);
         ix = (if named then map_of (indices c) name else index c);
         vc = GetVectorConfig (co_config c) (if named then name else []) in
     if named \<and> ix = None then Some (Inl (UnknownVectorName name))
     else (case vc of None \<Rightarrow> Some (Inl (VectorConfigNotFound []))
       | Some vc \<Rightarrow>
         if int (length query) \<noteq> vcDimension vc then Some (Inl ErrDimensionMismatch_coll)
         else let q = (if vcMetric vc = MetricCosine then l_unit L query else query) in
           (case ix of None \<Rightarrow> None | Some h \<Rightarrow> search_index L ps (sparseIdx c) h q)))"

definition Recommend_coll :: "('d :: linorder, 's, 'x) lib \<Rightarrow> string \<Rightarrow> int \<Rightarrow> ('d, 's, 'x) collection \<Rightarrow> (coll_error + 's scored_point list) option" where
  "Recommend_coll L i k c = (case index c of None \<Rightarrow> None
     | Some h \<Rightarrow> (case Recommend (l_sort L) (l_tracker L) h i k of
         Panic \<Rightarrow> None | Err e \<Rightarrow> Some (Inl (IndexError e))
       | Ok cands \<Rightarrow> map_option Inr (build_points L \<lparr>cpK = k, cpEf = 0, cpFilter = None, cpWithVector = False, cpWithPayload = True, cpSparse = None\<rparr> h cands)))"

text \<open>The index a map of indexes is read through first is the first of its list.\<close>

definition Size_coll :: "('d, 's, 'x) collection \<Rightarrow> int option" where
  "Size_coll c = (if HasNamedVectors (co_config c)
     then Some (case indices c of [] \<Rightarrow> 0 | (name, h) # _ \<Rightarrow> Size h)
     else map_option Size (index c))"

definition SetEfSearch_coll :: "int \<Rightarrow> ('d, 's, 'x) collection \<Rightarrow> ('d, 's, 'x) collection option" where
  "SetEfSearch_coll ef c = (case index c of None \<Rightarrow> None | Some h \<Rightarrow> Some (c\<lparr>index := Some (SetEfSearch ef h)\<rparr>))"

section \<open>Scrolling\<close>

record scroll_params =
  scOffset :: string
  scLimit :: int
  scFilter :: "pfilter option"
  scWithVector :: bool
  scWithPayload :: bool

fun filter_points :: "pfilter \<Rightarrow> u32 point list \<Rightarrow> u32 point list option" where
  "filter_points f [] = Some []"
| "filter_points f (p # ps) = (case Evaluate (Some f) (map_or_empty (pPayload p)) of
     None \<Rightarrow> None | Some b \<Rightarrow> map_option (\<lambda>qs. if b then p # qs else qs) (filter_points f ps))"

fun offset_index :: "string \<Rightarrow> nat \<Rightarrow> u32 point list \<Rightarrow> nat" where
  "offset_index off i [] = 0"
| "offset_index off i (p # ps) = (if pID p = off then i + 1 else offset_index off (i + 1) ps)"

definition clamp_limit :: "int \<Rightarrow> int" where
  "clamp_limit l = (let l = (if l \<le> 0 then 10 else l) in if l > 1000 then 1000 else l)"

definition scroll_index :: "('d, 's, 'x) collection \<Rightarrow> (u32, 'd) hnsw option" where
  "scroll_index c = (if HasNamedVectors (co_config c)
     then (case indices c of [] \<Rightarrow> None | (name, h) # _ \<Rightarrow> Some h) else index c)"

text \<open>The page and the next offset, empty if there is none; the scores of the points are zero.\<close>

definition page :: "scroll_params \<Rightarrow> 's \<Rightarrow> u32 point list \<Rightarrow> ('s scored_point list \<times> string) option" where
  "page ps zero points =
    (let startIdx = (if scOffset ps \<noteq> [] then offset_index (scOffset ps) 0 points else 0);
         endIdx = min (startIdx + nat (clamp_limit (scLimit ps))) (length points) in
     map_option (\<lambda>pagePoints.
       (map (\<lambda>p. \<lparr>spID = pID p, spScore = zero, spVector = (if scWithVector ps then pVector p else []),
          spPayload = (if scWithPayload ps then pPayload p else None)\<rparr>) pagePoints,
        if endIdx < length points \<and> length pagePoints > 0 then pID (last pagePoints) else []))
       (go_slice points startIdx endIdx))"

definition Scroll :: "('d, 's, 'x) lib \<Rightarrow> scroll_params \<Rightarrow> ('d, 's, 'x) collection \<Rightarrow> ('s scored_point list \<times> string) option" where
  "Scroll L ps c = (case scroll_index c of
     None \<Rightarrow> Some ([], [])
   | Some h \<Rightarrow>
       (case (case scFilter ps of None \<Rightarrow> Some (GetAllPoints h) | Some f \<Rightarrow> filter_points f (GetAllPoints h)) of
          None \<Rightarrow> None | Some points \<Rightarrow> page ps (fzero (l_arith L)) points))"

end
