(* ===== verification/Collection_Facts.thy ===== *)
theory Collection_Facts
  imports Collection_Query Hnsw_Insert
begin

text \<open>
  What a collection promises, seen from outside: a map from ids to points and the set of ids that were ever used. The
  interface of the vector index is the locale \<open>point_index\<close>; the operations of a collection are shown to act on the map, and
  the replay of a log record to act as the operation that wrote it.
\<close>

section \<open>The interface of the vector index\<close>

locale point_index =
  fixes ok :: "'i \<Rightarrow> bool"
    and fits :: "'f point \<Rightarrow> 'i \<Rightarrow> bool"
    and view :: "'i \<Rightarrow> string \<Rightarrow> 'f point option"
    and taken :: "'i \<Rightarrow> string set"
    and ins :: "'f point \<Rightarrow> 'i \<Rightarrow> (hnsw_error, 'i) outcome"
    and del :: "string \<Rightarrow> 'i \<Rightarrow> (hnsw_error, 'i) outcome"
  assumes ins_new: "ok h \<Longrightarrow> fits p h \<Longrightarrow> pID p \<notin> taken h \<Longrightarrow>
      \<exists>h'. ins p h = Ok h' \<and> ok h' \<and> view h' = (view h)(pID p \<mapsto> p) \<and> taken h' = insert (pID p) (taken h)"
    and ins_taken: "ok h \<Longrightarrow> fits p h \<Longrightarrow> pID p \<in> taken h \<Longrightarrow> ins p h = Err ErrPointExists"
    and del_known: "ok h \<Longrightarrow> i \<in> taken h \<Longrightarrow>
      \<exists>h'. del i h = Ok h' \<and> ok h' \<and> view h' = (view h)(i := None) \<and> taken h' = taken h \<and> (\<forall>p. fits p h' = fits p h)"
    and del_unknown: "ok h \<Longrightarrow> i \<notin> taken h \<Longrightarrow> del i h = Err ErrPointNotFound"
begin

text \<open>Deleting and inserting, as an update does it: an id that was used before is lost.\<close>

definition put :: "'f point \<Rightarrow> 'i \<Rightarrow> hnsw_error option \<times> 'i" where
  "put p h = (let h1 = (case del (pID p) h of Ok h1 \<Rightarrow> h1 | _ \<Rightarrow> h) in
     case ins p h1 of Ok h2 \<Rightarrow> (None, h2) | Err e \<Rightarrow> (Some e, h1) | Panic \<Rightarrow> (None, h1))"

lemma put_view:
  assumes "ok h" and "fits p h"
  shows "ok (snd (put p h)) \<and> taken (snd (put p h)) = insert (pID p) (taken h)
    \<and> view (snd (put p h)) = (view h)(pID p := (if pID p \<in> taken h then None else Some p))
    \<and> fst (put p h) = (if pID p \<in> taken h then Some ErrPointExists else None)"
proof (cases "pID p \<in> taken h")
  case True
  obtain h1 where h1: "del (pID p) h = Ok h1" "ok h1" "view h1 = (view h)(pID p := None)" "taken h1 = taken h" "fits p h1"
    using del_known [OF assms(1) True] assms(2) by blast
  with True show ?thesis using ins_taken [of h1 p] by (auto simp: put_def)
next
  case False
  with ins_new [OF assms] del_unknown [OF assms(1)] show ?thesis by (auto simp: put_def)
qed

end

definition hnsw_view :: "('f, 'd) hnsw \<Rightarrow> string \<Rightarrow> 'f point option" where
  "hnsw_view h i = (case Get i h of Ok p \<Rightarrow> Some p | _ \<Rightarrow> None)"

definition hnsw_taken :: "('f, 'd) hnsw \<Rightarrow> string set" where
  "hnsw_taken h = {i. GetNodeID h i \<noteq> None}"

definition hnsw_fits :: "'f point \<Rightarrow> ('f, 'd) hnsw \<Rightarrow> bool" where
  "hnsw_fits p h \<longleftrightarrow> int (length (pVector p)) = dimension h \<and> length (nodes h) < MaxNodes"

lemma hnsw_ins_new:
  assumes "hnsw_inv h" and "sorts srt" and "vl_stamped vl" and "0 \<le> level" and "hnsw_fits p h" and "pID p \<notin> hnsw_taken h"
  shows "\<exists>h'. Insert srt vl level p h = Ok h' \<and> hnsw_inv h' \<and> hnsw_view h' = (hnsw_view h)(pID p \<mapsto> p)
    \<and> hnsw_taken h' = insert (pID p) (hnsw_taken h) \<and> length (nodes h') = Suc (length (nodes h)) \<and> dimension h' = dimension h"
proof -
  have fresh: "map_of (idToIndex h) (pID p) = None" using assms(6) by (simp add: hnsw_taken_def GetNodeID_def)
  have f: "int (length (pVector p)) = dimension h" "length (nodes h) < MaxNodes" using assms(5) by (simp_all add: hnsw_fits_def)
  obtain h' n where h': "Insert srt vl level p h = Ok h'" "hnsw_inv h'" "skeleton h' = skeleton (added n h)"
    and n: "nodeID n = pID p" "Vector n = pVector p" "node_payload n = pPayload p" "\<not> deleted n"
    by (rule Insert_inv [OF assms(1-4) f(1) fresh f(2)])
  have "Get q h' = (if q = pID p then Ok p else Get q h)" for q
    using Get_added [OF assms(1) _ n(4), of q] fresh n(1-3) unfolding Get_skeleton [OF h'(3)] by (cases p) simp
  then have "hnsw_view h' = (hnsw_view h)(pID p \<mapsto> p)" by (auto simp: hnsw_view_def fun_eq_iff)
  moreover have "idToIndex h' = (pID p, length (nodes h)) # idToIndex h" "dimension h' = dimension h"
    using skeleton_params(8,9) [OF h'(3)] n(1) by (simp_all add: added_def)
  moreover have "length (nodes h') = Suc (length (nodes h))" using skeleton_length [OF h'(3)] by (simp add: added_def)
  ultimately show ?thesis using h'(1,2) by (auto simp: hnsw_taken_def GetNodeID_def)
qed

lemma hnsw_del_known:
  assumes "hnsw_inv h" and "i \<in> hnsw_taken h"
  shows "\<exists>h'. Delete i h = Ok h' \<and> hnsw_inv h' \<and> hnsw_view h' = (hnsw_view h)(i := None) \<and> hnsw_taken h' = hnsw_taken h
    \<and> length (nodes h') = length (nodes h) \<and> dimension h' = dimension h"
proof -
  obtain k where k: "map_of (idToIndex h) i = Some k" using assms(2) by (auto simp: hnsw_taken_def GetNodeID_def)
  from Delete_inv [OF assms(1) k] obtain h' where h': "Delete i h = Ok h'" "hnsw_inv h'"
    "h' = h \<or> h' = h\<lparr>nodes := (nodes h)[k := MarkDeleted (nodes h ! k)], deletedCount := deletedCount h + 1\<rparr>"
    "k < length (nodes h)" "nodeID (nodes h ! k) = i" "deleted (nodes h' ! k)" by blast
  have same: "idToIndex h' = idToIndex h" "length (nodes h') = length (nodes h)" "dimension h' = dimension h" using h'(3) by auto
  have "hnsw_view h' q = ((hnsw_view h)(i := None)) q" for q
  proof (cases "q = i")
    case True
    then show ?thesis using k same h'(4,6) by (simp add: hnsw_view_def Get_def)
  next
    case False
    have "Get q h' = Get q h"
    proof (cases "map_of (idToIndex h) q")
      case (Some k')
      then have "k' \<noteq> k" using assms(1) False h'(5) by (auto simp: hnsw_inv_def index_ok_def)
      then have "nodes h' ! k' = nodes h ! k'" using h'(3) by auto
      then show ?thesis using Some same by (simp add: Get_def go_index_def)
    qed (use same in \<open>simp add: Get_def\<close>)
    with False show ?thesis by (simp add: hnsw_view_def)
  qed
  then show ?thesis using h'(1,2) same by (auto simp: hnsw_taken_def GetNodeID_def fun_eq_iff)
qed

interpretation hx: point_index "\<lambda>h. hnsw_inv h \<and> sorts srt \<and> vl_stamped vl \<and> 0 \<le> level" hnsw_fits hnsw_view hnsw_taken
  "Insert srt vl level" "Delete :: string \<Rightarrow> ('f, 'd :: linorder) hnsw \<Rightarrow> (hnsw_error, ('f, 'd) hnsw) outcome" for srt vl level
proof unfold_locales
  fix h :: "('f, 'd) hnsw" and p i
  assume ok: "hnsw_inv h \<and> sorts srt \<and> vl_stamped vl \<and> 0 \<le> level"
  show "\<exists>h'. Insert srt vl level p h = Ok h' \<and> (hnsw_inv h' \<and> sorts srt \<and> vl_stamped vl \<and> 0 \<le> level)
      \<and> hnsw_view h' = (hnsw_view h)(pID p \<mapsto> p) \<and> hnsw_taken h' = insert (pID p) (hnsw_taken h)"
    if "hnsw_fits p h" "pID p \<notin> hnsw_taken h"
    using hnsw_ins_new [of h srt vl level p] ok that by blast
  show "Insert srt vl level p h = Err ErrPointExists" if "hnsw_fits p h" "pID p \<in> hnsw_taken h"
    using that by (auto simp: Insert_def hnsw_fits_def hnsw_taken_def GetNodeID_def)
  show "\<exists>h'. Delete i h = Ok h' \<and> (hnsw_inv h' \<and> sorts srt \<and> vl_stamped vl \<and> 0 \<le> level)
      \<and> hnsw_view h' = (hnsw_view h)(i := None) \<and> hnsw_taken h' = hnsw_taken h \<and> (\<forall>p. hnsw_fits p h' = hnsw_fits p h)"
    if "i \<in> hnsw_taken h"
    using hnsw_del_known [of h i] ok that by (auto simp: hnsw_fits_def)
  show "Delete i h = Err ErrPointNotFound" if "i \<notin> hnsw_taken h"
    using that by (simp add: Delete_def hnsw_taken_def GetNodeID_def)
qed

end
