(* ===== verification/Collection_Manager.thy ===== *)
theory Collection_Manager
  imports Collection_Query
begin

text \<open>
  The manager of collections, \<open>pkg/collection/manager.go\<close>, and recovery, \<open>recovery.go\<close>. The data directory is a list of
  subdirectories with the configuration that their \<open>meta.json\<close> holds; calls of the file system succeed, and JSON reads back
  the configurations it wrote. Collections are in memory: no index metadata is found at start, and the state comes from the log.
\<close>

section \<open>Names\<close>

datatype name_error = NameEmpty | NameTooLong | NameInvalid

definition alnum :: "char \<Rightarrow> bool" where
  "alnum c \<longleftrightarrow> (CHR ''a'' \<le> c \<and> c \<le> CHR ''z'') \<or> (CHR ''A'' \<le> c \<and> c \<le> CHR ''Z'') \<or> (CHR ''0'' \<le> c \<and> c \<le> CHR ''9'')"

text \<open>The pattern \<open>^[a-zA-Z0-9][a-zA-Z0-9_-]*$\<close>.\<close>

fun validNamePattern :: "string \<Rightarrow> bool" where
  "validNamePattern [] = False"
| "validNamePattern (c # cs) = (alnum c \<and> list_all (\<lambda>d. alnum d \<or> d = CHR ''_'' \<or> d = CHR ''-'') cs)"

definition validateName :: "string \<Rightarrow> name_error option" where
  "validateName name = (if name = [] then Some NameEmpty
     else if length name > 255 then Some NameTooLong
     else if \<not> validNamePattern name then Some NameInvalid
     else if Contains_str name ''..'' \<or> Contains_str name ''/'' \<or> Contains_str name [CHR 0x5C] then Some NameInvalid
     else None)"

section \<open>The manager\<close>

record ('d, 's, 'x) manager =
  m_collections :: "(string \<times> ('d, 's, 'x) collection) list"
  m_disk :: "(string \<times> coll_config) list"
  maxCollections :: int
  m_has_wal :: bool

datatype manager_error = InvalidName name_error | ErrCollectionExists | ErrCollectionNotFound | ErrMaxCollections | CreateError coll_error

definition apply_defaults :: "coll_config \<Rightarrow> coll_config" where
  "apply_defaults cfg = cfg\<lparr>ccM := or_default (ccM cfg) 16, ccEfConstruction := or_default (ccEfConstruction cfg) 200,
     ccEfSearch := or_default (ccEfSearch cfg) 100\<rparr>"

definition saveMetadata :: "coll_config \<Rightarrow> ('d, 's, 'x) manager \<Rightarrow> name_error option \<times> ('d, 's, 'x) manager" where
  "saveMetadata cfg m = (case validateName (ccName cfg) of Some e \<Rightarrow> (Some e, m)
     | None \<Rightarrow> (None, m\<lparr>m_disk := map_set (ccName cfg) cfg (m_disk m)\<rparr>))"

definition Create_mgr :: "('d, 's, 'x) lib \<Rightarrow> 'x \<Rightarrow> coll_config \<Rightarrow> ('d, 's, 'x) manager \<Rightarrow> manager_error option \<times> ('d, 's, 'x) manager" where
  "Create_mgr L pix cfg m = (case validateName (ccName cfg) of Some e \<Rightarrow> (Some (InvalidName e), m)
     | None \<Rightarrow>
       if map_of (m_collections m) (ccName cfg) \<noteq> None then (Some ErrCollectionExists, m)
       else if int (length (m_collections m)) \<ge> maxCollections m then (Some ErrMaxCollections, m)
       else let cfg = apply_defaults cfg in
         (case New_collection L pix cfg of
            Inl e \<Rightarrow> (Some (CreateError e), m)
          | Inr c \<Rightarrow> (case saveMetadata cfg m of
              (Some e, m1) \<Rightarrow> (Some (InvalidName e), m1)
            | (None, m1) \<Rightarrow> (None, m1\<lparr>m_collections := map_set (ccName cfg) (if m_has_wal m then c\<lparr>has_wal := True\<rparr> else c) (m_collections m1)\<rparr>))))"

definition Get_mgr :: "string \<Rightarrow> ('d, 's, 'x) manager \<Rightarrow> manager_error + ('d, 's, 'x) collection" where
  "Get_mgr name m = (case map_of (m_collections m) name of None \<Rightarrow> Inl ErrCollectionNotFound | Some c \<Rightarrow> Inr c)"

definition List_mgr :: "('d, 's, 'x) manager \<Rightarrow> string list" where
  "List_mgr m = map fst (m_collections m)"

definition Exists_mgr :: "string \<Rightarrow> ('d, 's, 'x) manager \<Rightarrow> bool" where
  "Exists_mgr name m \<longleftrightarrow> map_of (m_collections m) name \<noteq> None"

definition Count_mgr :: "('d, 's, 'x) manager \<Rightarrow> nat" where
  "Count_mgr m = length (m_collections m)"

definition Delete_mgr :: "string \<Rightarrow> ('d, 's, 'x) manager \<Rightarrow> manager_error option \<times> ('d, 's, 'x) manager" where
  "Delete_mgr name m = (case validateName name of Some e \<Rightarrow> (Some (InvalidName e), m)
     | None \<Rightarrow> if map_of (m_collections m) name = None then (Some ErrCollectionNotFound, m)
       else (None, m\<lparr>m_collections := map_del name (m_collections m), m_disk := map_del name (m_disk m)\<rparr>))"

definition Rename_mgr :: "string \<Rightarrow> string \<Rightarrow> ('d, 's, 'x) manager \<Rightarrow> manager_error option \<times> ('d, 's, 'x) manager" where
  "Rename_mgr oldName newName m = (case validateName newName of Some e \<Rightarrow> (Some (InvalidName e), m)
     | None \<Rightarrow> (case map_of (m_collections m) oldName of None \<Rightarrow> (Some ErrCollectionNotFound, m)
       | Some c \<Rightarrow> if map_of (m_collections m) newName \<noteq> None then (Some ErrCollectionExists, m)
           else let cfg = (co_config c)\<lparr>ccName := newName\<rparr>; c1 = c\<lparr>co_config := cfg\<rparr>;
                    m1 = m\<lparr>m_disk := map_del oldName (m_disk m), m_collections := map_set newName c1 (map_del oldName (m_collections m))\<rparr>
             in (case saveMetadata cfg m1 of (e, m2) \<Rightarrow> (map_option InvalidName e, m2))))"

definition Close_mgr :: "('d, 's, 'x) manager \<Rightarrow> ('d, 's, 'x) manager" where
  "Close_mgr m = (let m1 = fold (\<lambda>c m. snd (saveMetadata (co_config c) m)) (map snd (m_collections m)) m in m1\<lparr>m_collections := []\<rparr>)"

definition Flush_mgr :: "('d, 's, 'x) manager \<Rightarrow> ('d, 's, 'x) manager" where
  "Flush_mgr m = fold (\<lambda>c m. snd (saveMetadata (co_config c) m)) (map snd (m_collections m)) m"

text \<open>The only field that can be updated is \<open>ef_search\<close>, if it is an int.\<close>

definition UpdateConfig :: "string \<Rightarrow> int option \<Rightarrow> ('d, 's, 'x) manager \<Rightarrow> (manager_error option \<times> ('d, 's, 'x) manager) option" where
  "UpdateConfig name ef_search m = (case map_of (m_collections m) name of
     None \<Rightarrow> Some (Some ErrCollectionNotFound, m)
   | Some c \<Rightarrow>
       (case (case ef_search of None \<Rightarrow> Some c
              | Some ef \<Rightarrow> map_option (\<lambda>c'. c'\<lparr>co_config := (co_config c')\<lparr>ccEfSearch := ef\<rparr>\<rparr>) (SetEfSearch_coll ef c)) of
          None \<Rightarrow> None
        | Some c1 \<Rightarrow> (case saveMetadata (co_config c1) (m\<lparr>m_collections := map_set name c1 (m_collections m)\<rparr>) of
            (e, m1) \<Rightarrow> Some (map_option InvalidName e, m1))))"

fun loadCollections :: "('d, 's, 'x) lib \<Rightarrow> 'x \<Rightarrow> (string \<times> coll_config) list \<Rightarrow> ('d, 's, 'x) manager \<Rightarrow> ('d, 's, 'x) manager" where
  "loadCollections L pix [] m = m"
| "loadCollections L pix ((d, cfg) # es) m = (case New_collection L pix cfg of
     Inl e \<Rightarrow> loadCollections L pix es m
   | Inr c \<Rightarrow> loadCollections L pix es (m\<lparr>m_collections := map_set (ccName cfg) c (m_collections m)\<rparr>))"

definition NewManager :: "('d, 's, 'x) lib \<Rightarrow> 'x \<Rightarrow> int \<Rightarrow> bool \<Rightarrow> (string \<times> coll_config) list \<Rightarrow> ('d, 's, 'x) manager" where
  "NewManager L pix mx wal_given disk =
     loadCollections L pix disk \<lparr>m_collections = [], m_disk = disk, maxCollections = mx, m_has_wal = wal_given\<rparr>"

definition SetWALForCollections :: "('d, 's, 'x) manager \<Rightarrow> ('d, 's, 'x) manager" where
  "SetWALForCollections m = m\<lparr>m_collections := map (\<lambda>(n, c). (n, c\<lparr>has_wal := m_has_wal m\<rparr>)) (m_collections m)\<rparr>"

section \<open>Recovery\<close>

text \<open>What one record does to its collection: the new state, and whether the record is counted; \<open>None\<close> is a panic.\<close>

definition replay_record :: "('d :: linorder, 's, 'x) lib \<Rightarrow> wal_record \<Rightarrow> ('d, 's, 'x) collection \<Rightarrow> (bool \<times> ('d, 's, 'x) collection) option" where
  "replay_record L r c =
    (if RType r = RecordTypeInsert then
       (case deserializePoint L (Data r) of Inl e \<Rightarrow> Some (False, c)
        | Inr p \<Rightarrow> map_option (\<lambda>(e, c'). (e \<noteq> Some (IndexError ErrPointExists), c')) (insertInternal L p c))
     else if RType r = RecordTypeUpdate then
       (case deserializePoint L (Data r) of Inl e \<Rightarrow> Some (False, c)
        | Inr p \<Rightarrow> map_option (\<lambda>(e, c'). (True, c')) (upsertInternal L p c))
     else if RType r = RecordTypeDelete then map_option (\<lambda>(e, c'). (True, c')) (deleteInternal (bytes_str (Data r)) c)
     else Some (True, c))"

text \<open>The callback of \<open>Replay\<close>, which never fails; a panic of the process is the left side.\<close>

definition replay_callback :: "('d :: linorder, 's, 'x) lib \<Rightarrow> ('d, 's, 'x) manager \<times> nat \<Rightarrow> wal_record \<Rightarrow> unit + ('d, 's, 'x) manager \<times> nat" where
  "replay_callback L mn r = (case mn of (m, n) \<Rightarrow>
     case Get_mgr (bytes_str (Collection r)) m of Inl e \<Rightarrow> Inr (m, n)
     | Inr c \<Rightarrow> (case replay_record L r c of None \<Rightarrow> Inl ()
       | Some (counted, c') \<Rightarrow> Inr (m\<lparr>m_collections := map_set (bytes_str (Collection r)) c' (m_collections m)\<rparr>, if counted then n + 1 else n)))"

definition replayWAL :: "('d :: linorder, 's, 'x) lib \<Rightarrow> ('d, 's, 'x) manager \<Rightarrow> wal
    \<Rightarrow> (log_error, unit option \<times> ('d, 's, 'x) manager \<times> nat) outcome \<times> wal" where
  "replayWAL L m w = Replay (replay_callback L) (m, 0) w"

definition Recover :: "('d :: linorder, 's, 'x) lib \<Rightarrow> ('d, 's, 'x) manager \<Rightarrow> wal \<Rightarrow> (log_error, ('d, 's, 'x) manager) outcome \<times> wal" where
  "Recover L m w = (if m_has_wal m
     then (case replayWAL L m w of
         (Ok (None, m', n), w') \<Rightarrow> (Ok (SetWALForCollections m'), w')
       | (Ok (Some _, m', n), w') \<Rightarrow> (Panic, w')
       | (Err e, w') \<Rightarrow> (Err e, w')
       | (Panic, w') \<Rightarrow> (Panic, w'))
     else (Ok m, w))"

end
