(* ===== verification/Collection_Ops.thy ===== *)
theory Collection_Ops
  imports Collection_Facts Collection_Manager Wal_Refine
begin

text \<open>
  The operations of a collection with a default vector as operations on its points: the map from ids to the stored points
  and the set of used ids. The log grows by what an operation does.
\<close>

section \<open>The abstract state\<close>

type_synonym coll_abs = "(string \<Rightarrow> u32 point option) \<times> string set"

definition lib_ok :: "('d :: linorder, 's, 'x) lib \<Rightarrow> bool" where
  "lib_ok L \<longleftrightarrow> sorts (l_sort L) \<and> vl_stamped (l_tracker L) \<and> (\<forall>n. 0 \<le> l_level L n) \<and> (\<forall>v. length (l_normalize L v) = length v)"

definition abs_of :: "('d, 's, 'x) collection \<Rightarrow> coll_abs" where
  "abs_of c = (case index c of None \<Rightarrow> (Map.empty, {}) | Some h \<Rightarrow> (hnsw_view h, hnsw_taken h))"

definition load :: "('d, 's, 'x) collection \<Rightarrow> nat" where
  "load c = (case index c of None \<Rightarrow> 0 | Some h \<Rightarrow> length (nodes h))"

definition coll_inv :: "('d, 's, 'x) collection \<Rightarrow> bool" where
  "coll_inv c \<longleftrightarrow> (\<exists>h. index c = Some h \<and> hnsw_inv h \<and> dimension h = ccDimension (co_config c)) \<and> \<not> HasNamedVectors (co_config c)"

definition stored_point :: "('d, 's, 'x) lib \<Rightarrow> coll_config \<Rightarrow> pt \<Rightarrow> u32 point" where
  "stored_point L cfg p = index_point p (if ccMetric cfg = MetricCosine then l_normalize L (ptVector p) else ptVector p)"

definition abs_insert :: "('d, 's, 'x) lib \<Rightarrow> coll_config \<Rightarrow> pt \<Rightarrow> coll_abs \<Rightarrow> coll_abs" where
  "abs_insert L cfg p a = (if length (ptVector p) = 0 \<or> int (length (ptVector p)) \<noteq> ccDimension cfg \<or> ptID p \<in> snd a then a
     else ((fst a)(ptID p \<mapsto> stored_point L cfg p), insert (ptID p) (snd a)))"

definition abs_upsert :: "('d, 's, 'x) lib \<Rightarrow> coll_config \<Rightarrow> pt \<Rightarrow> coll_abs \<Rightarrow> coll_abs" where
  "abs_upsert L cfg p a = ((fst a)(ptID p := (if ptID p \<in> snd a then None else Some (stored_point L cfg p))), insert (ptID p) (snd a))"

definition abs_delete :: "string \<Rightarrow> coll_abs \<Rightarrow> coll_abs" where
  "abs_delete i a = ((fst a)(i := None), snd a)"

text \<open>What an operation keeps.\<close>

definition moves :: "('d, 's, 'x) collection \<Rightarrow> coll_abs \<Rightarrow> ('d, 's, 'x) collection \<Rightarrow> bool" where
  "moves c a c' \<longleftrightarrow> coll_inv c' \<and> co_config c' = co_config c \<and> has_wal c' = has_wal c \<and> load c' \<le> Suc (load c) \<and> abs_of c' = a"

lemma moves_refl: "coll_inv c \<Longrightarrow> moves c (abs_of c) c"
  by (simp add: moves_def)

lemma moves_fields [simp]:
  "moves c a (c'\<lparr>searchCache := x\<rparr>) = moves c a c'" "moves c a (c'\<lparr>payloadIndex := y\<rparr>) = moves c a c'"
  "moves c a (c'\<lparr>sparseIdx := z\<rparr>) = moves c a c'" "moves c a (c'\<lparr>published := e\<rparr>) = moves c a c'"
  by (simp_all add: moves_def coll_inv_def load_def abs_of_def)

lemma moves_drop_cache [simp]: "moves c a (drop_cache c') = moves c a c'"
  by (simp add: drop_cache_def)

lemma length_stored: "lib_ok L \<Longrightarrow> length (pVector (stored_point L cfg p)) = length (ptVector p)"
  by (simp add: stored_point_def index_point_def lib_ok_def)

lemma pID_stored [simp]: "pID (stored_point L cfg p) = ptID p"
  by (simp add: stored_point_def index_point_def)

section \<open>Operations in memory\<close>

definition sparse_fits :: "pt \<Rightarrow> bool" where
  "sparse_fits p \<longleftrightarrow> (\<forall>s. ptSparse p = Some s \<longrightarrow> length (Indices s) = length (SValues s))"

lemma add_postings_total: "length ds \<le> length vs \<Longrightarrow> add_postings doc ds vs idx \<noteq> None"
proof (induction ds arbitrary: vs idx)
  case (Cons d ds)
  then show ?case by (cases vs) auto
qed simp

lemma index_extras_moves:
  assumes "moves c a c1" and "sparse_fits p"
  shows "\<exists>c2. index_extras L p c1 = Some c2 \<and> moves c a c2"
proof -
  obtain h where h: "index c1 = Some h" using assms(1) by (auto simp: moves_def coll_inv_def)
  show ?thesis
  proof (cases "ptSparse p")
    case None
    with h assms(1) show ?thesis by (simp add: index_extras_def getNodeID_def Let_def)
  next
    case (Some s)
    then have "length (Indices s) = length (SValues s)" using assms(2) by (simp add: sparse_fits_def)
    then have "add_postings d (Indices s) (map (l_float L) (SValues s)) ix \<noteq> None" for d ix by (intro add_postings_total) simp
    then have "\<exists>ix'. Add_sparse d (NewVector (Indices s) (map (l_float L) (SValues s))) ix = Some ix'" for d ix
      by (simp add: Add_sparse_def NewVector_def)
    with h Some assms(1) show ?thesis by (auto simp: index_extras_def getNodeID_def Let_def split: option.split) (metis option.simps(9) moves_fields(2,3))+
  qed
qed

lemma insert_default_moves:
  assumes "lib_ok L" and "coll_inv c" and "load c < MaxNodes"
  shows "\<exists>e c1. insert_default L p c = Some (e, c1) \<and> moves c (abs_insert L (co_config c) p (abs_of c)) c1
    \<and> e = (if length (ptVector p) = 0 then None else if int (length (ptVector p)) \<noteq> ccDimension (co_config c) then Some ErrDimensionMismatch_coll
        else if ptID p \<in> snd (abs_of c) then Some (IndexError ErrPointExists) else None)"
proof -
  let ?q = "stored_point L (co_config c) p"
  obtain h where h: "index c = Some h" "hnsw_inv h" "dimension h = ccDimension (co_config c)" using assms(2) by (auto simp: coll_inv_def)
  have l: "sorts (l_sort L)" "vl_stamped (l_tracker L)" "0 \<le> l_level L []" using assms(1) by (simp_all add: lib_ok_def)
  show ?thesis
  proof (cases "length (ptVector p) = 0 \<or> int (length (ptVector p)) \<noteq> ccDimension (co_config c)")
    case True
    then show ?thesis using h(1) moves_refl [OF assms(2)] by (auto simp: insert_default_def abs_insert_def)
  next
    case False
    then have f: "hnsw_fits ?q h" using h assms(1,3) by (simp add: hnsw_fits_def length_stored load_def)
    have run: "insert_default L p c = (case Insert (l_sort L) (l_tracker L) (l_level L []) ?q h of
        Ok h' \<Rightarrow> Some (None, c\<lparr>index := Some h'\<rparr>) | Err e \<Rightarrow> Some (Some (IndexError e), c) | Panic \<Rightarrow> None)"
      using False h(1) by (simp add: insert_default_def stored_point_def Let_def)
    have a: "abs_of c = (hnsw_view h, hnsw_taken h)" by (simp add: abs_of_def h(1))
    show ?thesis
    proof (cases "ptID p \<in> hnsw_taken h")
      case True
      then have "Insert (l_sort L) (l_tracker L) (l_level L []) ?q h = Err ErrPointExists"
        using hx.ins_taken [of h "l_sort L" "l_tracker L" "l_level L []" ?q] h(2) l f by simp
      then show ?thesis using run False True a moves_refl [OF assms(2)] by (simp add: abs_insert_def)
    next
      case t: False
      with hnsw_ins_new [OF h(2) l f] obtain h' where h': "Insert (l_sort L) (l_tracker L) (l_level L []) ?q h = Ok h'" "hnsw_inv h'"
        "hnsw_view h' = (hnsw_view h)(ptID p \<mapsto> ?q)" "hnsw_taken h' = insert (ptID p) (hnsw_taken h)"
        "length (nodes h') = Suc (length (nodes h))" "dimension h' = dimension h" by auto
      have "moves c (abs_insert L (co_config c) p (abs_of c)) (c\<lparr>index := Some h'\<rparr>)"
        using h h' False t assms(2) by (simp add: moves_def coll_inv_def load_def abs_of_def abs_insert_def)
      then show ?thesis using run h'(1) False t a by simp
    qed
  qed
qed

lemma insertInternal_moves:
  assumes "lib_ok L" and "coll_inv c" and "load c < MaxNodes" and "sparse_fits p"
  shows "\<exists>e c'. insertInternal L p c = Some (e, c') \<and> moves c (abs_insert L (co_config c) p (abs_of c)) c'
    \<and> e = (if length (ptVector p) = 0 then None else if int (length (ptVector p)) \<noteq> ccDimension (co_config c) then Some ErrDimensionMismatch_coll
        else if ptID p \<in> snd (abs_of c) then Some (IndexError ErrPointExists) else None)"
proof -
  obtain e c1 where d: "insert_default L p c = Some (e, c1)" "moves c (abs_insert L (co_config c) p (abs_of c)) c1"
    "e = (if length (ptVector p) = 0 then None else if int (length (ptVector p)) \<noteq> ccDimension (co_config c) then Some ErrDimensionMismatch_coll
        else if ptID p \<in> snd (abs_of c) then Some (IndexError ErrPointExists) else None)"
    using insert_default_moves [OF assms(1-3)] by blast
  have "\<not> HasNamedVectors (co_config c1)" using d(2) by (auto simp: moves_def coll_inv_def)
  with d index_extras_moves [OF d(2) assms(4), of L] show ?thesis by (cases e) (auto simp: insertInternal_def)
qed

text \<open>Without a default index, as in every collection with named vectors, an insert that does not fail before panics when it looks up the
  node of the point.\<close>

lemma insert_named_index: "insert_named L p nvs c = Some (e, c') \<Longrightarrow> index c' = index c"
  by (induction L p nvs c rule: insert_named.induct) (auto simp: Let_def split: option.splits if_splits outcome.splits)

lemma named_insert_panics: "index c = None \<Longrightarrow> insertInternal L p c \<noteq> Some (None, c')"
  using insert_named_index [of L p "NamedVectors p" c] by (auto simp: insertInternal_def insert_default_def index_extras_def getNodeID_def
      split: option.splits if_splits)

lemma deleteInternal_moves:
  assumes "coll_inv c"
  shows "\<exists>e c'. deleteInternal i c = Some (e, c') \<and> moves c (abs_delete i (abs_of c)) c' \<and> (e = None \<longleftrightarrow> i \<in> snd (abs_of c))"
proof -
  obtain h where h: "index c = Some h" "hnsw_inv h" "dimension h = ccDimension (co_config c)" using assms by (auto simp: coll_inv_def)
  show ?thesis
  proof (cases "i \<in> hnsw_taken h")
    case True
    from hnsw_del_known [OF h(2) True] obtain h' where h': "Delete i h = Ok h'" "hnsw_inv h'" "hnsw_view h' = (hnsw_view h)(i := None)"
      "hnsw_taken h' = hnsw_taken h" "length (nodes h') = length (nodes h)" "dimension h' = dimension h" by blast
    have "moves c (abs_delete i (abs_of c)) (c\<lparr>index := Some h'\<rparr>)"
      using h h' assms by (simp add: moves_def coll_inv_def load_def abs_of_def abs_delete_def)
    then show ?thesis using h(1) h'(1) True by (simp add: deleteInternal_def abs_of_def)
  next
    case False
    then have "Delete i h = Err ErrPointNotFound" by (simp add: Delete_def hnsw_taken_def GetNodeID_def)
    moreover have "hnsw_view h i = None" using False by (simp add: hnsw_view_def Get_def hnsw_taken_def GetNodeID_def)
    ultimately show ?thesis using h(1) False moves_refl [OF assms] by (auto simp: deleteInternal_def abs_of_def abs_delete_def fun_upd_idem)
  qed
qed

lemma upsertInternal_moves:
  assumes "lib_ok L" and "coll_inv c" and "load c < MaxNodes" and "int (length (ptVector p)) = ccDimension (co_config c)"
  shows "\<exists>e c'. upsertInternal L p c = Some (e, c') \<and> moves c (abs_upsert L (co_config c) p (abs_of c)) c'
    \<and> e = (if ptID p \<in> snd (abs_of c) then Some (IndexError ErrPointExists) else None)
    \<and> (ptID p \<in> snd (abs_of c) \<longrightarrow> load c' = load c)"
proof -
  let ?q = "stored_point L (co_config c) p"
  obtain h where h: "index c = Some h" "hnsw_inv h" "dimension h = ccDimension (co_config c)" using assms(2) by (auto simp: coll_inv_def)
  have l: "sorts (l_sort L)" "vl_stamped (l_tracker L)" "0 \<le> l_level L []" using assms(1) by (simp_all add: lib_ok_def)
  have f: "hnsw_fits ?q h" using h assms by (simp add: hnsw_fits_def length_stored load_def)
  have a: "abs_of c = (hnsw_view h, hnsw_taken h)" by (simp add: abs_of_def h(1))
  show ?thesis
  proof (cases "ptID p \<in> hnsw_taken h")
    case True
    from hnsw_del_known [OF h(2) True] obtain h' where h': "Delete (ptID p) h = Ok h'" "hnsw_inv h'" "hnsw_view h' = (hnsw_view h)(ptID p := None)"
      "hnsw_taken h' = hnsw_taken h" "length (nodes h') = length (nodes h)" "dimension h' = dimension h" by blast
    have "Insert (l_sort L) (l_tracker L) (l_level L []) ?q h' = Err ErrPointExists"
      using hx.ins_taken [of h' "l_sort L" "l_tracker L" "l_level L []" ?q] h' l f True by (simp add: hnsw_fits_def)
    moreover have "moves c (abs_upsert L (co_config c) p (abs_of c)) (c\<lparr>index := Some h'\<rparr>)"
      using h h' assms(2) True by (simp add: moves_def coll_inv_def load_def abs_of_def abs_upsert_def insert_absorb)
    ultimately show ?thesis using h(1) h'(1,5) True a by (simp add: upsertInternal_def stored_point_def Let_def load_def)
  next
    case False
    then have d: "Delete (ptID p) h = Err ErrPointNotFound" "GetNodeID h (ptID p) = None" by (simp_all add: Delete_def hnsw_taken_def GetNodeID_def)
    from hnsw_ins_new [OF h(2) l f] False obtain h' where h': "Insert (l_sort L) (l_tracker L) (l_level L []) ?q h = Ok h'" "hnsw_inv h'"
      "hnsw_view h' = (hnsw_view h)(ptID p \<mapsto> ?q)" "hnsw_taken h' = insert (ptID p) (hnsw_taken h)"
      "length (nodes h') = Suc (length (nodes h))" "dimension h' = dimension h" by auto
    have "moves c (abs_upsert L (co_config c) p (abs_of c)) (c\<lparr>index := Some h'\<rparr>)"
      using h h' assms(2) False by (simp add: moves_def coll_inv_def load_def abs_of_def abs_upsert_def)
    then show ?thesis using h(1) h'(1) d False a by (simp add: upsertInternal_def stored_point_def Let_def)
  qed
qed

end
