(* ===== verification/Collection_Recovery.thy ===== *)
theory Collection_Recovery
  imports Collection_Ops
begin

text \<open>
  The log of a collection and its replay: every operation appends what it did, and replaying the log into a fresh collection
  leads to the same points.
\<close>

section \<open>Records\<close>

definition abs_record :: "('d, 's, 'x) lib \<Rightarrow> coll_config \<Rightarrow> wal_record \<Rightarrow> coll_abs \<Rightarrow> coll_abs" where
  "abs_record L cfg r a =
    (if RType r = RecordTypeInsert then (case deserializePoint L (Data r) of Inl e \<Rightarrow> a | Inr p \<Rightarrow> abs_insert L cfg p a)
     else if RType r = RecordTypeUpdate then (case deserializePoint L (Data r) of Inl e \<Rightarrow> a | Inr p \<Rightarrow> abs_upsert L cfg p a)
     else if RType r = RecordTypeDelete then abs_delete (bytes_str (Data r)) a
     else a)"

text \<open>Records of the collection that replay without a panic.\<close>

definition good_record :: "('d, 's, 'x) lib \<Rightarrow> coll_config \<Rightarrow> wal_record \<Rightarrow> bool" where
  "good_record L cfg r \<longleftrightarrow> plain r \<and> Collection r = str_bytes (ccName cfg)
     \<and> (\<forall>p. deserializePoint L (Data r) = Inr p \<longrightarrow>
          (RType r = RecordTypeInsert \<longrightarrow> sparse_fits p) \<and> (RType r = RecordTypeUpdate \<longrightarrow> int (length (ptVector p)) = ccDimension cfg))"

lemma record_types [simp]:
  "RecordTypeInsert \<noteq> RecordTypeUpdate" "RecordTypeInsert \<noteq> RecordTypeDelete" "RecordTypeUpdate \<noteq> RecordTypeDelete"
  "RecordTypeUpdate \<noteq> RecordTypeInsert" "RecordTypeDelete \<noteq> RecordTypeInsert" "RecordTypeDelete \<noteq> RecordTypeUpdate"
  "plain (new_record RecordTypeInsert n d)" "plain (new_record RecordTypeUpdate n d)" "plain (new_record RecordTypeDelete n d)"
  by (simp_all add: RecordTypeInsert_def RecordTypeUpdate_def RecordTypeDelete_def plain_def RecordTypeBatchBegin_def RecordTypeBatchEnd_def
      new_record_def)

lemma record_cong:
  assumes "same_content r r'"
  shows "good_record L cfg r' = good_record L cfg r" "abs_record L cfg r' = abs_record L cfg r" "plain r' = plain r"
    "replay_record L r' = replay_record L r"
  using assms by (simp_all add: good_record_def abs_record_def plain_def same_content_def replay_record_def fun_eq_iff)

lemma same_content_stored: "same_content r (stored_record r)"
  by (simp add: same_content_def stored_record_def)

lemma replay_record_moves:
  assumes "lib_ok L" and "coll_inv c" and "load c < MaxNodes" and "good_record L (co_config c) r"
  shows "\<exists>b c'. replay_record L r c = Some (b, c') \<and> moves c (abs_record L (co_config c) r (abs_of c)) c'"
proof (cases "RType r = RecordTypeInsert \<or> RType r = RecordTypeUpdate")
  case True
  show ?thesis
  proof (cases "deserializePoint L (Data r)")
    case (Inl e)
    with True moves_refl [OF assms(2)] show ?thesis by (auto simp: replay_record_def abs_record_def)
  next
    case (Inr p)
    with True assms(4) insertInternal_moves [OF assms(1-3), of p] upsertInternal_moves [OF assms(1-3), of p] show ?thesis
      by (auto simp: replay_record_def abs_record_def good_record_def)
  qed
next
  case False
  with deleteInternal_moves [OF assms(2), of "bytes_str (Data r)"] moves_refl [OF assms(2)] show ?thesis
    by (auto simp: replay_record_def abs_record_def)
qed

lemma replay_all:
  assumes "lib_ok L" and "\<forall>r \<in> set rs. good_record L cfg r" and "map_of (m_collections m) (ccName cfg) = Some c"
    and "coll_inv c" and "co_config c = cfg" and "load c + length rs \<le> MaxNodes"
  shows "\<exists>m' n' c'. run_callback (replay_callback L) (m, n) rs = (None, m', n') \<and> map_of (m_collections m') (ccName cfg) = Some c'
    \<and> coll_inv c' \<and> abs_of c' = fold (abs_record L cfg) rs (abs_of c) \<and> m_has_wal m' = m_has_wal m"
  using assms(2-6)
proof (induction rs arbitrary: m n c)
  case (Cons r rs)
  have g: "good_record L (co_config c) r" "Collection r = str_bytes (ccName cfg)" using Cons.prems by (auto simp: good_record_def)
  obtain b c' where c': "replay_record L r c = Some (b, c')" "moves c (abs_record L cfg r (abs_of c)) c'"
    using replay_record_moves [OF assms(1) Cons.prems(3) _ g(1)] Cons.prems by auto
  let ?m = "m\<lparr>m_collections := map_set (ccName cfg) c' (m_collections m)\<rparr>"
  have step: "replay_callback L (m, n) r = Inr (?m, if b then n + 1 else n)"
    using Cons.prems(2) c'(1) g(2) by (simp add: replay_callback_def Get_mgr_def bytes_str_str_bytes)
  have k: "coll_inv c'" "co_config c' = cfg" "load c' + length rs \<le> MaxNodes" "abs_of c' = abs_record L cfg r (abs_of c)"
    using c'(2) Cons.prems(4,5) by (auto simp: moves_def)
  have "\<exists>m' n' c''. run_callback (replay_callback L) (?m, if b then n + 1 else n) rs = (None, m', n') \<and> map_of (m_collections m') (ccName cfg) = Some c''
    \<and> coll_inv c'' \<and> abs_of c'' = fold (abs_record L cfg) rs (abs_of c') \<and> m_has_wal m' = m_has_wal ?m"
    using k(1-3) Cons.prems(1) by (intro Cons.IH) auto
  then show ?case using step k(4) by auto
qed simp

section \<open>Operations with the log\<close>

datatype coll_op = OpInsert pt | OpBatch "pt list" | OpUpsert pt | OpDelete string

fun run_op :: "('d :: linorder, 's, 'x) lib \<Rightarrow> (nat \<Rightarrow> nat) \<Rightarrow> coll_op \<Rightarrow> ('d, 's, 'x) collection \<times> wal \<Rightarrow> (('d, 's, 'x) collection \<times> wal) option" where
  "run_op L clk (OpInsert p) cw = map_option snd (Insert_coll L clk p cw)"
| "run_op L clk (OpBatch ps) cw = map_option snd (InsertBatch L clk ps cw)"
| "run_op L clk (OpUpsert p) cw = map_option snd (Upsert L clk p cw)"
| "run_op L clk (OpDelete i) cw = map_option snd (Delete_coll clk i cw)"

fun run_ops :: "('d :: linorder, 's, 'x) lib \<Rightarrow> (nat \<Rightarrow> nat) \<Rightarrow> coll_op list \<Rightarrow> ('d, 's, 'x) collection \<times> wal \<Rightarrow> (('d, 's, 'x) collection \<times> wal) option" where
  "run_ops L clk [] cw = Some cw"
| "run_ops L clk (op # ops) cw = (case run_op L clk op cw of None \<Rightarrow> None | Some cw' \<Rightarrow> run_ops L clk ops cw')"

text \<open>A point that can be written to the log and read back.\<close>

definition loggable :: "string \<Rightarrow> byte list \<Rightarrow> bool" where
  "loggable name data \<longleftrightarrow> readable (new_record RecordTypeInsert name data)"

definition sound_point :: "('d, 's, 'x) lib \<Rightarrow> string \<Rightarrow> pt \<Rightarrow> bool" where
  "sound_point L name p \<longleftrightarrow> distinct (map fst (NamedVectors p)) \<and> sparse_fits p
     \<and> (\<exists>data. serializePoint L p = Inr data \<and> loggable name data)"

fun sound_op :: "('d, 's, 'x) lib \<Rightarrow> string \<Rightarrow> coll_op \<Rightarrow> bool" where
  "sound_op L name (OpInsert p) = sound_point L name p"
| "sound_op L name (OpBatch ps) \<longleftrightarrow> (\<forall>p \<in> set ps. sound_point L name p) \<and> length ps < 2 ^ 32"
| "sound_op L name (OpUpsert p) = sound_point L name p"
| "sound_op L name (OpDelete i) = loggable name (str_bytes i)"

fun op_size :: "coll_op \<Rightarrow> nat" where
  "op_size (OpBatch ps) = length ps"
| "op_size (OpInsert p) = 1"
| "op_size (OpUpsert p) = 1"
| "op_size (OpDelete i) = 1"

definition json_reads :: "('d, 's, 'x) lib \<Rightarrow> bool" where
  "json_reads L \<longleftrightarrow> (\<forall>x j. l_marshal L x = Some j \<longrightarrow> j \<noteq> [] \<and> l_unmarshal L j = Some x)"

lemma deserialize_sound:
  assumes "json_reads L" and "sound_point L name p" and "serializePoint L p = Inr data"
  shows "deserializePoint L data = Inr (p\<lparr>MultiVectors := []\<rparr>)"
proof -
  have e: "Encode (l_marshal L) p = Inr data" using assms(3) by (simp add: serializePoint_def)
  then obtain j where m: "l_marshal L (ptPayload p) = Some j" by (auto simp: Encode_def split: sum.splits option.splits)
  have j: "l_unmarshal L j = Some (ptPayload p)" "j \<noteq> []" using assms(1) m by (auto simp: json_reads_def)
  have "Decode (l_unmarshal L) (data @ []) = Inr (p\<lparr>MultiVectors := []\<rparr>, [])"
    using assms(2) by (intro Decode_Encode [where unmarshal = "l_unmarshal L", OF e m j]) (simp_all add: sound_point_def sparse_fits_def)
  then show ?thesis by (simp add: deserializePoint_def)
qed

lemma abs_multi [simp]:
  "abs_insert L cfg (p\<lparr>MultiVectors := x\<rparr>) = abs_insert L cfg p" "abs_upsert L cfg (p\<lparr>MultiVectors := x\<rparr>) = abs_upsert L cfg p"
  "sparse_fits (p\<lparr>MultiVectors := x\<rparr>) = sparse_fits p"
  by (simp_all add: abs_insert_def abs_upsert_def stored_point_def index_point_def sparse_fits_def fun_eq_iff)

lemma readable_type: "readable (new_record ty name data) = loggable name data"
  by (simp add: loggable_def readable_def length_wal_payload new_record_def)

lemma log_write_ok:
  assumes "has_wal c" and "wal_ok clk w rs" and "loggable (ccName (co_config c)) data"
  shows "\<exists>r w'. log_write clk ty data c w = (None, w') \<and> wal_ok clk w' (rs @ [r]) \<and> same_content (new_record ty (ccName (co_config c)) data) r"
  using Write_ok [OF assms(2), of "new_record ty (ccName (co_config c)) data"] assms(1,3) by (auto simp: log_write_def readable_type)

text \<open>The state of a collection and its log: the records that a replay applies lead to the points.\<close>

definition in_step :: "('d :: linorder, 's, 'x) lib \<Rightarrow> (nat \<Rightarrow> nat) \<Rightarrow> coll_config \<Rightarrow> nat \<Rightarrow> ('d, 's, 'x) collection \<times> wal \<Rightarrow> bool" where
  "in_step L clk cfg n cw \<longleftrightarrow> (case cw of (c, w) \<Rightarrow> coll_inv c \<and> co_config c = cfg \<and> has_wal c \<and> load c \<le> n
     \<and> (\<exists>rs. wal_ok clk w rs \<and> closed_log rs \<and> length (apply_records False 0 [] rs) \<le> n
         \<and> (\<forall>r \<in> set (apply_records False 0 [] rs). good_record L cfg r)
         \<and> abs_of c = fold (abs_record L cfg) (apply_records False 0 [] rs) (Map.empty, {})))"

lemma in_step_write:
  assumes "in_step L clk cfg n (c, w)" and "moves c (abs_record L cfg r (abs_of c)) c'" and "good_record L cfg r"
    and w': "\<And>rs. wal_ok clk w rs \<Longrightarrow> \<exists>r'. wal_ok clk w' (rs @ [r']) \<and> same_content r r'"
  shows "in_step L clk cfg (Suc n) (c', w')"
proof -
  from assms(1) obtain rs where rs: "wal_ok clk w rs" "closed_log rs" "length (apply_records False 0 [] rs) \<le> n"
      "\<forall>r \<in> set (apply_records False 0 [] rs). good_record L cfg r" "abs_of c = fold (abs_record L cfg) (apply_records False 0 [] rs) (Map.empty, {})"
    and c: "co_config c = cfg" "has_wal c" "load c \<le> n" by (auto simp: in_step_def)
  obtain r' where r': "wal_ok clk w' (rs @ [r'])" "same_content r r'" using w' [OF rs(1)] by blast
  have p: "plain r'" "good_record L cfg r'" "abs_record L cfg r' = abs_record L cfg r" using record_cong [OF r'(2)] assms(3)
    by (metis good_record_def, metis, metis)
  have "apply_records False 0 [] (rs @ [r']) = apply_records False 0 [] rs @ [r']"
    using rs(2) p(1) by (simp add: closed_log_def plain_def)
  then show ?thesis using rs p r'(1) assms(2) c closed_log_plain [OF rs(2) p(1)]
    by (auto simp: in_step_def moves_def intro!: exI [of _ "rs @ [r']"])
qed

section \<open>Batches\<close>

lemma batch_validate_valid: "set (fst (batch_validate d ps r)) \<subseteq> set ps \<and> length (fst (batch_validate d ps r)) \<le> length ps"
proof (induction ps arbitrary: r)
  case (Cons p ps)
  from Cons [of "add_failure (ptID p) ErrDimensionMismatch_coll r"] Cons [of r] Cons show ?case
    by (auto split: option.split prod.split) (metis fst_conv le_SucI subset_iff)+
qed simp

lemma batch_records_all:
  assumes "\<forall>p \<in> set ps. sound_point L name p"
  shows "\<exists>recs. batch_records L name ps r = (recs, r)
    \<and> list_all2 (\<lambda>p x. \<exists>data. serializePoint L p = Inr data \<and> loggable name data \<and> x = new_record RecordTypeInsert name data) ps recs"
  using assms
proof (induction ps)
  case (Cons p ps)
  then obtain data where "serializePoint L p = Inr data" "loggable name data" by (auto simp: sound_point_def)
  with Cons show ?case by auto
qed simp

lemma batch_apply_moves:
  assumes "lib_ok L" and "coll_inv c" and "load c + length ps \<le> MaxNodes" and "\<forall>p \<in> set ps. sparse_fits p"
  shows "\<exists>r' c'. batch_apply L ps r c = Some (r', c') \<and> coll_inv c' \<and> co_config c' = co_config c \<and> has_wal c' = has_wal c
    \<and> load c' \<le> load c + length ps \<and> abs_of c' = fold (abs_insert L (co_config c)) ps (abs_of c)"
  using assms(2-4)
proof (induction ps arbitrary: r c)
  case (Cons p ps)
  from insertInternal_moves [OF assms(1) Cons.prems(1), of p] Cons.prems obtain e c1 where
    c1: "insertInternal L p c = Some (e, c1)" "moves c (abs_insert L (co_config c) p (abs_of c)) c1" by auto
  then have m: "coll_inv c1" "co_config c1 = co_config c" "has_wal c1 = has_wal c" "load c1 \<le> Suc (load c)"
    "abs_of c1 = abs_insert L (co_config c) p (abs_of c)" by (simp_all add: moves_def)
  have "\<exists>r' c'. batch_apply L ps r1 c1 = Some (r', c') \<and> coll_inv c' \<and> co_config c' = co_config c1 \<and> has_wal c' = has_wal c1
    \<and> load c' \<le> load c1 + length ps \<and> abs_of c' = fold (abs_insert L (co_config c1)) ps (abs_of c1)" for r1
    using m Cons.prems by (intro Cons.IH) auto
  from this [of "case e of None \<Rightarrow> r\<lparr>Succeeded := Succeeded r + 1\<rparr> | Some x \<Rightarrow> add_failure (ptID p) x r"] c1(1) m show ?case
    by (cases e) auto
qed simp

lemma insert_record:
  assumes "json_reads L" and "sound_point L (ccName cfg) p" and "serializePoint L p = Inr data"
  shows "good_record L cfg (new_record RecordTypeInsert (ccName cfg) data)"
    and "abs_record L cfg (new_record RecordTypeInsert (ccName cfg) data) = abs_insert L cfg p"
    and "abs_record L cfg (new_record RecordTypeUpdate (ccName cfg) data) = abs_upsert L cfg p"
    and "int (length (ptVector p)) = ccDimension cfg \<Longrightarrow> good_record L cfg (new_record RecordTypeUpdate (ccName cfg) data)"
proof -
  note d = deserialize_sound [OF assms]
  have [simp]: "Data (new_record t n x) = x" "RType (new_record t n x) = t" "Collection (new_record t n x) = str_bytes n" for t n x
    by (simp_all add: new_record_def)
  show "good_record L cfg (new_record RecordTypeInsert (ccName cfg) data)" using d assms(2) by (simp add: good_record_def sound_point_def)
  show "int (length (ptVector p)) = ccDimension cfg \<Longrightarrow> good_record L cfg (new_record RecordTypeUpdate (ccName cfg) data)"
    using d by (simp add: good_record_def)
  show "abs_record L cfg (new_record RecordTypeInsert (ccName cfg) data) = abs_insert L cfg p"
    "abs_record L cfg (new_record RecordTypeUpdate (ccName cfg) data) = abs_upsert L cfg p"
    using d by (simp_all add: abs_record_def fun_eq_iff)
qed

lemma batch_fold:
  fixes L :: "('d :: linorder, 's, 'x) lib"
  assumes "json_reads L" and "list_all2 (\<lambda>p x. \<exists>data. serializePoint L p = Inr data \<and> loggable (ccName cfg) data
      \<and> x = new_record RecordTypeInsert (ccName cfg) data) ps recs" and "list_all2 same_content recs xs" and "\<forall>p \<in> set ps. sound_point L (ccName cfg) p"
  shows "(\<forall>x \<in> set xs. good_record L cfg x) \<and> fold (abs_record L cfg) xs = fold (abs_insert L cfg) ps"
  using assms(2-4)
proof (induction ps recs arbitrary: xs rule: list_all2_induct)
  case (Cons p ps x recs)
  then obtain y ys where ys: "xs = y # ys" "same_content x y" "list_all2 same_content recs ys" by (auto simp: list_all2_Cons1)
  from Cons obtain data where "serializePoint L p = Inr data" "x = new_record RecordTypeInsert (ccName cfg) data" by blast
  with insert_record [OF assms(1), of cfg p data] Cons.prems(2) have "good_record L cfg x" "abs_record L cfg x = abs_insert L cfg p" by simp_all
  then have "good_record L cfg y" "abs_record L cfg y = abs_insert L cfg p"
    unfolding record_cong(1) [OF ys(2), of L cfg] record_cong(2) [OF ys(2), of L cfg] .
  with Cons ys show ?case by auto
qed simp

lemma in_step_batch:
  assumes L: "lib_ok L" "json_reads L" and s: "in_step L clk cfg n (c, w)" and n: "n + length ps \<le> MaxNodes"
    and ps: "\<forall>p \<in> set ps. sound_point L (ccName cfg) p" and l: "length ps < 2 ^ 32"
  shows "\<exists>x c' w'. InsertBatch L clk ps (c, w) = Some (x, c', w') \<and> in_step L clk cfg (n + length ps) (c', w')"
proof (cases "ps = []")
  case True
  then show ?thesis using s by (simp add: InsertBatch_def)
next
  case ne: False
  from s obtain rs where rs: "wal_ok clk w rs" "closed_log rs" "length (apply_records False 0 [] rs) \<le> n"
      "\<forall>r \<in> set (apply_records False 0 [] rs). good_record L cfg r" "abs_of c = fold (abs_record L cfg) (apply_records False 0 [] rs) (Map.empty, {})"
    and c: "coll_inv c" "co_config c = cfg" "has_wal c" "load c \<le> n" by (auto simp: in_step_def)
  let ?r0 = "\<lparr>Total = length ps, Succeeded = 0, Failed = 0, bErrors = []\<rparr>"
  obtain valid r1 where v: "batch_validate (ccDimension cfg) ps ?r0 = (valid, r1)" by (rule prod.exhaust)
  with batch_validate_valid [of "ccDimension cfg" ps ?r0] have vs: "set valid \<subseteq> set ps" "length valid \<le> length ps" by auto
  then have vp: "\<forall>p \<in> set valid. sound_point L (ccName cfg) p" using ps by blast
  have "\<forall>p \<in> set valid. sparse_fits p" using vp by (simp add: sound_point_def)
  with batch_apply_moves [OF L(1) c(1)] c(4) n vs(2) have ap: "\<exists>r' c'. batch_apply L valid r c = Some (r', c') \<and> coll_inv c' \<and> co_config c' = cfg \<and> has_wal c'
      \<and> load c' \<le> load c + length valid \<and> abs_of c' = fold (abs_insert L cfg) valid (abs_of c)" for r using c(2,3) by simp
  have keep: "in_step L clk cfg m (drop_cache c', w') = in_step L clk cfg m (c', w')" for m c' w'
    by (simp add: in_step_def drop_cache_def coll_inv_def load_def abs_of_def)
  show ?thesis
  proof (cases "valid = []")
    case True
    obtain r' c' where "batch_apply L valid r1 c = Some (r', c')" "c' = c" using True by auto
    moreover have "in_step L clk cfg (n + length ps) (c, w)" using s by (fastforce simp: in_step_def)
    ultimately show ?thesis using ne v c True keep by (simp add: InsertBatch_def Let_def)
  next
    case False
    from batch_records_all [OF vp, of r1] obtain recs where recs: "batch_records L (ccName cfg) valid r1 = (recs, r1)"
      "list_all2 (\<lambda>p x. \<exists>data. serializePoint L p = Inr data \<and> loggable (ccName cfg) data \<and> x = new_record RecordTypeInsert (ccName cfg) data) valid recs" by blast
    have rd: "\<forall>x \<in> set recs. readable x \<and> plain x" using recs(2) by (fastforce simp: list_all2_conv_all_nth in_set_conv_nth readable_type)
    then have rd1: "\<forall>x \<in> set recs. readable x" by blast
    from WriteBatch_ok [OF rs(1) rd1] obtain b xs e w' where b: "WriteBatch clk w recs = (Inr (b # xs @ [e]), w')" "wal_ok clk w' (rs @ b # xs @ [e])"
      "list_all2 same_content recs xs" "same_content (batch_marker RecordTypeBatchBegin (length recs)) b" "same_content (batch_marker RecordTypeBatchEnd (length recs)) e" by blast
    have lens: "length xs = length recs" "length recs = length valid" using b(3) recs(2) by (auto dest: list_all2_lengthD)
    have px: "\<forall>x \<in> set xs. plain x" using b(3) rd record_cong(3) by (fastforce simp: list_all2_conv_all_nth in_set_conv_nth)
    have "length recs < 2 ^ 32" using lens(2) vs(2) l by simp
    then have bs: "RType b = RecordTypeBatchBegin" "decodeBatchSize (Data b) = length xs" "RType e = RecordTypeBatchEnd"
      using b(4,5) lens(1) by (simp_all add: same_content_def batch_marker_def decodeBatchSize_def encodeBatchSize_def unat_of_nat_u32)
    have cl: "closed_log (rs @ b # xs @ [e])" by (rule closed_log_batch [OF rs(2) bs(1,2) px bs(3)])
    have "apply_records False 0 [] (b # xs @ [e]) = xs" using apply_batch [OF bs(1,2) px bs(3), of 0 "[]" "[]"] by simp
    then have ar: "apply_records False 0 [] (rs @ b # xs @ [e]) = apply_records False 0 [] rs @ xs" using rs(2) by (simp add: closed_log_def)
    note bf = batch_fold [OF L(2) recs(2) b(3) vp]
    obtain r' c' where c': "batch_apply L valid r1 c = Some (r', c')" "coll_inv c'" "co_config c' = cfg" "has_wal c'"
      "load c' \<le> load c + length valid" "abs_of c' = fold (abs_insert L cfg) valid (abs_of c)" using ap by blast
    have "in_step L clk cfg (n + length ps) (c', w')" unfolding in_step_def prod.case
      using c' c(4) vs(2) rs(3-5) bf b(2) cl lens by (intro conjI exI [of _ "rs @ b # xs @ [e]"]) (auto simp: ar)
    then show ?thesis using ne v c False recs(1) b(1) c'(1) keep by (simp add: InsertBatch_def Let_def)
  qed
qed

section \<open>Sequences of operations\<close>

lemma in_step_mono: "in_step L clk cfg n cw \<Longrightarrow> n \<le> m \<Longrightarrow> in_step L clk cfg m cw"
  by (fastforce simp: in_step_def)

lemma in_step_drop_cache: "in_step L clk cfg n (drop_cache c, w) = in_step L clk cfg n (c, w)"
  by (simp add: in_step_def drop_cache_def coll_inv_def load_def abs_of_def)

lemma log_point_ok:
  assumes "has_wal c" and "serializePoint L p = Inr data" and "loggable (ccName (co_config c)) data" and "wal_ok clk w rs0"
  shows "\<exists>w'. log_point L clk ty p c w = (None, w')
    \<and> (\<forall>rs. wal_ok clk w rs \<longrightarrow> (\<exists>r. wal_ok clk w' (rs @ [r]) \<and> same_content (new_record ty (ccName (co_config c)) data) r))"
proof -
  obtain w' where w': "log_write clk ty data c w = (None, w')" using log_write_ok [OF assms(1,4,3)] by blast
  moreover have "\<exists>r. wal_ok clk w' (rs @ [r]) \<and> same_content (new_record ty (ccName (co_config c)) data) r" if "wal_ok clk w rs" for rs
    using log_write_ok [OF assms(1) that assms(3), of ty] w' by auto
  ultimately show ?thesis using assms(1,2) by (simp add: log_point_def)
qed

lemma in_step_op:
  assumes L: "lib_ok L" "json_reads L" and s: "in_step L clk cfg n (c, w)" and n: "n + op_size op \<le> MaxNodes" and o: "sound_op L (ccName cfg) op"
  shows "\<exists>cw'. run_op L clk op (c, w) = Some cw' \<and> in_step L clk cfg (n + op_size op) cw'"
proof -
  from s obtain rs where c: "coll_inv c" "co_config c = cfg" "has_wal c" "load c \<le> n" and rs: "wal_ok clk w rs" by (auto simp: in_step_def)
  have keep: "in_step L clk cfg (Suc n) (c, w)" by (rule in_step_mono [OF s]) simp
  show ?thesis
  proof (cases op)
    case (OpInsert p)
    then have so: "sound_point L (ccName cfg) p" and ld: "load c < MaxNodes" using o n c by auto
    then obtain data where d: "serializePoint L p = Inr data" "loggable (ccName cfg) data" by (auto simp: sound_point_def)
    obtain w' where w': "log_point L clk RecordTypeInsert p c w = (None, w')"
      "\<And>rs. wal_ok clk w rs \<Longrightarrow> \<exists>r. wal_ok clk w' (rs @ [r]) \<and> same_content (new_record RecordTypeInsert (ccName cfg) data) r"
      using log_point_ok [OF c(3) d(1) _ rs, of RecordTypeInsert] d(2) c(2) by auto
    have sp: "sparse_fits p" using so by (simp add: sound_point_def)
    obtain e c' where c': "insertInternal L p c = Some (e, c')" "moves c (abs_insert L cfg p (abs_of c)) c'"
      using insertInternal_moves [OF L(1) c(1) ld sp] c(2) by auto
    have "in_step L clk cfg (Suc n) (c', w')"
      using in_step_write [OF s _ insert_record(1) [OF L(2) so d(1)] w'(2)] c'(2) insert_record(2) [OF L(2) so d(1)] by simp
    then show ?thesis using OpInsert w'(1) c'(1) keep
      by (cases "Validate_point p"; cases e) (simp_all add: Insert_coll_def in_step_drop_cache)
  next
    case (OpBatch ps)
    then have "\<forall>p \<in> set ps. sound_point L (ccName cfg) p" "length ps < 2 ^ 32" "n + length ps \<le> MaxNodes" using o n by simp_all
    from in_step_batch [OF L s this(3) this(1,2)] OpBatch show ?thesis by auto
  next
    case (OpUpsert p)
    then have so: "sound_point L (ccName cfg) p" and ld: "load c < MaxNodes" using o n c by auto
    then obtain data where d: "serializePoint L p = Inr data" "loggable (ccName cfg) data" by (auto simp: sound_point_def)
    obtain w' where w': "log_point L clk RecordTypeUpdate p c w = (None, w')"
      "\<And>rs. wal_ok clk w rs \<Longrightarrow> \<exists>r. wal_ok clk w' (rs @ [r]) \<and> same_content (new_record RecordTypeUpdate (ccName cfg) data) r"
      using log_point_ok [OF c(3) d(1) _ rs, of RecordTypeUpdate] d(2) c(2) by auto
    show ?thesis
    proof (cases "Validate_point p = None \<and> int (length (ptVector p)) = ccDimension cfg")
      case True
      then obtain e c' where c': "upsertInternal L p c = Some (e, c')" "moves c (abs_upsert L cfg p (abs_of c)) c'"
        using upsertInternal_moves [OF L(1) c(1) ld, of p] c(2) by auto
      have "in_step L clk cfg (Suc n) (c', w')"
        using in_step_write [OF s _ insert_record(4) [OF L(2) so d(1)] w'(2)] True c'(2) insert_record(3) [OF L(2) so d(1)] by simp
      then show ?thesis using OpUpsert True c(2) w'(1) c'(1) by (simp add: Upsert_def)
    next
      case False
      then show ?thesis using OpUpsert keep c(2) by (cases "Validate_point p") (auto simp: Upsert_def)
    qed
  next
    case (OpDelete i)
    let ?r = "new_record RecordTypeDelete (ccName cfg) (str_bytes i)"
    have lg: "loggable (ccName (co_config c)) (str_bytes i)" using o OpDelete c(2) by simp
    obtain w' where w': "log_write clk RecordTypeDelete (str_bytes i) c w = (None, w')" using log_write_ok [OF c(3) rs lg] by blast
    have wr: "\<exists>r. wal_ok clk w' (rs @ [r]) \<and> same_content ?r r" if "wal_ok clk w rs" for rs
      using log_write_ok [OF c(3) that lg, of RecordTypeDelete] w' c(2) by auto
    obtain e c' where c': "deleteInternal i c = Some (e, c')" "moves c (abs_delete i (abs_of c)) c'" using deleteInternal_moves [OF c(1)] by blast
    have g: "good_record L cfg ?r" "abs_record L cfg ?r = abs_delete i"
      using record_types(9) [of "ccName cfg" "str_bytes i"] by (simp_all add: good_record_def abs_record_def new_record_def bytes_str_str_bytes fun_eq_iff)
    have "in_step L clk cfg (Suc n) (c', w')" by (rule in_step_write [OF s _ g(1) wr]) (simp add: g(2) c'(2))
    then show ?thesis using OpDelete w' c'(1) by (cases e) (simp_all add: Delete_coll_def in_step_drop_cache)
  qed
qed

lemma in_step_ops:
  assumes L: "lib_ok L" "json_reads L"
  shows "in_step L clk cfg n cw \<Longrightarrow> n + sum_list (map op_size ops) \<le> MaxNodes \<Longrightarrow> \<forall>op \<in> set ops. sound_op L (ccName cfg) op
    \<Longrightarrow> \<exists>cw'. run_ops L clk ops cw = Some cw' \<and> in_step L clk cfg (n + sum_list (map op_size ops)) cw'"
proof (induction ops arbitrary: n cw)
  case (Cons op ops)
  obtain c w where cw: "cw = (c, w)" by (cases cw)
  have "n + op_size op \<le> MaxNodes" "sound_op L (ccName cfg) op" using Cons.prems by auto
  from in_step_op [OF L Cons.prems(1) [unfolded cw] this] obtain cw' where "run_op L clk op cw = Some cw'" "in_step L clk cfg (n + op_size op) cw'"
    using cw by blast
  with Cons.IH [of "n + op_size op" cw'] Cons.prems show ?case by (auto simp: add.assoc)
qed simp

section \<open>Recovery\<close>

lemma New_collection_inv:
  assumes "New_collection L pix cfg = Inr c" and "\<not> HasNamedVectors cfg"
  shows "coll_inv c \<and> co_config c = cfg \<and> load c = 0 \<and> abs_of c = (Map.empty, {})"
proof -
  from assms obtain h where h: "New \<lparr>cfgM = ccM cfg, cfgEfConstruction = ccEfConstruction cfg, cfgEfSearch = ccEfSearch cfg,
      cfgDimension = ccDimension cfg, cfgDistance = l_distance L (ccMetric cfg), cfgQuantizer = l_quantizer L []\<rparr> = Inr h"
    and c: "index c = Some h" "co_config c = cfg"
    by (auto simp: New_collection_def Let_def split: option.splits sum.splits)
  then have "dimension h = ccDimension cfg" "nodes h = []" "idToIndex h = []" by (auto simp: New_def split: if_splits)
  then show ?thesis using New_inv [OF h] c assms(2)
    by (simp add: coll_inv_def load_def abs_of_def hnsw_view_def hnsw_taken_def Get_def GetNodeID_def fun_eq_iff)
qed

lemma Get_of_abs: "coll_inv c \<Longrightarrow> Get_coll i c = (case fst (abs_of c) i of Some p \<Rightarrow> Ok p | None \<Rightarrow> Err ErrPointNotFound)"
proof -
  assume "coll_inv c"
  then obtain h where h: "index c = Some h" "hnsw_inv h" by (auto simp: coll_inv_def)
  then have "map_of (idToIndex h) i = Some k \<Longrightarrow> k < length (nodes h)" for k by (simp add: hnsw_inv_def index_ok_def)
  then show ?thesis using h(1) by (auto simp: Get_coll_def abs_of_def hnsw_view_def Get_def go_index_def split: option.split)
qed

definition same_data :: "('d, 's, 'x) lib \<Rightarrow> ('d, 's, 'x) lib \<Rightarrow> bool" where
  "same_data L L' \<longleftrightarrow> l_normalize L' = l_normalize L \<and> l_unmarshal L' = l_unmarshal L"

lemma same_data_records:
  assumes "same_data L L'"
  shows "good_record L' cfg = good_record L cfg" "abs_record L' cfg = abs_record L cfg"
proof -
  have e: "l_normalize L' = l_normalize L" "l_unmarshal L' = l_unmarshal L" using assms by (simp_all add: same_data_def)
  have d: "deserializePoint L' = deserializePoint L" "abs_insert L' = abs_insert L" "abs_upsert L' = abs_upsert L"
    by (intro ext, simp add: deserializePoint_def abs_insert_def abs_upsert_def stored_point_def e)+
  show "good_record L' cfg = good_record L cfg" by (rule ext) (simp add: good_record_def d)
  show "abs_record L' cfg = abs_record L cfg" by (intro ext) (simp add: abs_record_def d split: sum.split)
qed

text \<open>Records of a collection that the manager does not have are skipped.\<close>

lemma replay_none:
  assumes "\<forall>r \<in> set rs. map_of (m_collections m) (bytes_str (Collection r)) = None"
  shows "run_callback (replay_callback L) (m, n) rs = (None, m, n)"
  using assms by (induction rs) (auto simp: replay_callback_def Get_mgr_def)

lemma Recover_skips:
  assumes s: "in_step L clk cfg n (c, w)" and m: "map_of (m_collections m) (ccName cfg) = None" "m_has_wal m"
  shows "\<exists>w'. Recover L' m w = (Ok (SetWALForCollections m), w')"
proof -
  from s obtain rs where rs: "wal_ok clk w rs" "\<forall>r \<in> set (apply_records False 0 [] rs). good_record L cfg r"
    by (auto simp: in_step_def)
  let ?as = "map stored_record (apply_records False 0 [] rs)"
  obtain w' where col: "collect_records w = (Ok (map stored_record rs), w')"
    using collect_records_ok [of w rs] rs(1) by (cases "collect_records w") (simp add: wal_ok_def)
  have ar: "apply_records False 0 [] (map stored_record rs) = ?as" using apply_records_stored [of False 0 "[]" rs] by simp
  have "\<forall>r \<in> set ?as. Collection r = str_bytes (ccName cfg)" using rs(2) by (auto simp: good_record_def stored_record_def)
  then have "run_callback (replay_callback L') (m, 0) ?as = (None, m, 0)" using m(1) by (intro replay_none) (auto simp: bytes_str_str_bytes)
  then show ?thesis using m(2) col by (simp add: Recover_def replayWAL_def Replay_def ar)
qed

lemma Recover_in_step:
  assumes L': "lib_ok L'" and sd: "same_data L L'" and s: "in_step L clk cfg n (c, w)" and n: "n \<le> MaxNodes"
    and m: "map_of (m_collections m) (ccName cfg) = Some c0" "m_has_wal m"
    and c0: "coll_inv c0" "co_config c0 = cfg" "load c0 = 0" "abs_of c0 = (Map.empty, {})"
  shows "\<exists>m' w' c'. Recover L' m w = (Ok m', w') \<and> Get_mgr (ccName cfg) m' = Inr c' \<and> coll_inv c' \<and> has_wal c' \<and> abs_of c' = abs_of c"
proof -
  from s obtain rs where rs: "wal_ok clk w rs" "length (apply_records False 0 [] rs) \<le> n"
      "\<forall>r \<in> set (apply_records False 0 [] rs). good_record L cfg r" "abs_of c = fold (abs_record L cfg) (apply_records False 0 [] rs) (Map.empty, {})"
    by (auto simp: in_step_def)
  let ?as = "map stored_record (apply_records False 0 [] rs)"
  obtain w' where col: "collect_records w = (Ok (map stored_record rs), w')"
    using collect_records_ok [of w rs] rs(1) by (cases "collect_records w") (simp add: wal_ok_def)
  have ar: "apply_records False 0 [] (map stored_record rs) = ?as" using apply_records_stored [of False 0 "[]" rs] by simp
  have sr: "good_record L' cfg (stored_record r) = good_record L cfg r" "abs_record L' cfg (stored_record r) = abs_record L cfg r" for r
    using record_cong(1,2) [OF same_content_stored, of L' cfg r] same_data_records [OF sd, of cfg] by (simp_all only:)
  have good: "\<forall>r \<in> set ?as. good_record L' cfg r" using rs(3) sr(1) by simp
  have "fold (abs_record L' cfg) ?as = fold (abs_record L cfg) (apply_records False 0 [] rs)" by (simp add: fold_map comp_def sr(2))
  then obtain m' n' c' where r: "run_callback (replay_callback L') (m, 0) ?as = (None, m', n')" "map_of (m_collections m') (ccName cfg) = Some c'"
    "coll_inv c'" "abs_of c' = abs_of c" "m_has_wal m'"
    using replay_all [OF L' good m(1) c0(1,2), of 0] c0(3,4) rs(2,4) n m(2) by auto
  have "Recover L' m w = (Ok (SetWALForCollections m'), w')" using m(2) col r(1) by (simp add: Recover_def replayWAL_def Replay_def ar)
  moreover have "map_of (map (\<lambda>(n, c). (n, c\<lparr>has_wal := True\<rparr>)) xs) k = map_option (\<lambda>c. c\<lparr>has_wal := True\<rparr>) (map_of xs k)"
    for xs :: "(string \<times> ('a, 'b, 'c) collection) list" and k by (induction xs) auto
  ultimately show ?thesis using r(2-5)
    by (auto simp: Get_mgr_def SetWALForCollections_def coll_inv_def abs_of_def intro!: exI [of _ "SetWALForCollections m'"])
qed

end
