(* ===== verification/Collection_Properties.thy ===== *)
theory Collection_Properties
  imports Collection_Recovery Point_Properties Wal_Properties
begin

text \<open>
  Properties of collections: recovery from the log, updates of existing points, deleted collections that come back, scrolling,
  and the names of collections.
\<close>

section \<open>A concrete library\<close>

definition sample_lib :: "(int, int, unit) lib" where
  "sample_lib = \<lparr>l_sort = sort_key Distance, l_tracker = NewVisitedList 4, l_level = (\<lambda>n. 0),
     l_distance = (\<lambda>m v w. \<bar>int (unat (hd v)) - int (unat (hd w))\<bar>), l_quantizer = (\<lambda>n. None), l_normalize = id, l_unit = id,
     l_marshal = json_marshal, l_unmarshal = json_unmarshal, l_index_point = (\<lambda>n p x. x), l_float = int \<circ> unat, l_score = (\<lambda>d. 1 - d),
     l_arith = \<lparr>fzero = 0, fone = 1, fdec = \<lambda>m e. m, fadd = (+), fsub = (-), fmul = (*), fdiv = (div), fsqrt = id, fof_int = id, fto_int = id,
       flog_idf = \<lambda>n d. n - d\<rparr>,
     l_key = (\<lambda>n v k. n), l_visit = id, l_sort_docs = id, l_visit_hybrid = id, l_sort_hybrid = id\<rparr>"

definition sample_cfg :: coll_config where
  "sample_cfg = \<lparr>ccName = ''a'', ccDimension = 1, ccMetric = MetricEuclidean, ccM = 2, ccEfConstruction = 8, ccEfSearch = 8, ccVectors = []\<rparr>"

definition sample_pt :: pt where
  "sample_pt = zero_point\<lparr>ptID := ''p'', ptVector := [1]\<rparr>"

lemma sample_lib_ok: "lib_ok sample_lib" "json_reads sample_lib" "same_data sample_lib sample_lib"
  by (simp_all add: lib_ok_def sample_lib_def sort_key_sorts NewVisitedList_stamped json_reads_def same_data_def json_law)

lemma sample_new: "\<exists>c. New_collection sample_lib () sample_cfg = Inr c" "\<not> HasNamedVectors sample_cfg"
  by (simp_all add: New_collection_def Validate_config_def HasNamedVectors_def sample_cfg_def Let_def New_def)

lemma sample_sound: "sound_point sample_lib ''a'' sample_pt"
  by (simp add: sound_point_def sample_pt_def zero_point_def sparse_fits_def serializePoint_def Encode_def sample_lib_def json_marshal_def
      encode_str_def encode_vec_def fits16_def fits32_def MaxUint16_def MaxUint32_def str_bytes_def encode_sparse_def loggable_def readable_def
      length_wal_payload new_record_def)

section \<open>Recovery\<close>

lemma New_collection_any:
  fixes L L' :: "('d, 's, 'x) lib"
  assumes "New_collection L pix cfg = Inr c" and "\<not> HasNamedVectors cfg"
  shows "\<exists>c'. New_collection L' pix' cfg = Inr c'"
  using assms by (auto simp: New_collection_def Let_def New_def split: option.splits sum.splits if_splits)

lemma in_step_New:
  assumes "New_collection L pix cfg = Inr c" and "\<not> HasNamedVectors cfg" and "wal_ok clk w []"
  shows "in_step L clk cfg 0 (c\<lparr>has_wal := True\<rparr>, w)"
  using New_collection_inv [OF assms(1,2)] assms(3) closed_log_Nil
  by (auto simp: in_step_def coll_inv_def load_def abs_of_def intro!: exI [of _ "[]"])

lemma recovered:
  assumes L: "lib_ok L" "json_reads L" "lib_ok L'" "same_data L L'"
    and new: "New_collection L pix cfg = Inr c0" "\<not> HasNamedVectors cfg" "wal_ok clk w0 []"
    and ops: "\<forall>op \<in> set ops. sound_op L (ccName cfg) op" "sum_list (map op_size ops) \<le> MaxNodes"
  shows "\<exists>c w m w' c'. run_ops L clk ops (c0\<lparr>has_wal := True\<rparr>, w0) = Some (c, w)
    \<and> in_step L clk cfg (sum_list (map op_size ops)) (c, w)
    \<and> Recover L' (NewManager L' pix' mx True [(ccName cfg, cfg)]) w = (Ok m, w')
    \<and> Get_mgr (ccName cfg) m = Inr c' \<and> (\<forall>i. Get_coll i c' = Get_coll i c)"
proof -
  obtain c w where cw: "run_ops L clk ops (c0\<lparr>has_wal := True\<rparr>, w0) = Some (c, w)" "in_step L clk cfg (sum_list (map op_size ops)) (c, w)"
    using in_step_ops [OF L(1,2) in_step_New [OF new]] ops by fastforce
  obtain c1 where c1: "New_collection L' pix' cfg = Inr c1" using New_collection_any [OF new(1,2)] by blast
  let ?m = "NewManager L' pix' mx True [(ccName cfg, cfg)]"
  have m: "map_of (m_collections ?m) (ccName cfg) = Some c1" "m_has_wal ?m" using c1 by (simp_all add: NewManager_def map_set_def)
  from Recover_in_step [OF L(3,4) cw(2) ops(2) m] New_collection_inv [OF c1 new(2)] obtain m' w' c' where
    "Recover L' ?m w = (Ok m', w')" "Get_mgr (ccName cfg) m' = Inr c'" "coll_inv c'" "abs_of c' = abs_of c" by metis
  moreover have "coll_inv c" using cw(2) by (simp add: in_step_def)
  ultimately show ?thesis using cw Get_of_abs by metis
qed



section \<open>Updates of existing points\<close>

lemma used_of_Get: "Get_coll i c = Ok q \<Longrightarrow> i \<in> snd (abs_of c)"
  by (auto simp: Get_coll_def abs_of_def hnsw_taken_def GetNodeID_def Get_def split: option.splits)

text \<open>C32: An upsert of a point that is in the collection loses it: the call fails because the id is still registered in the index, after the
  old point was deleted; the record is in the log, every other point is untouched, and the id can never be inserted again. Only an upsert
  of an id that was never used stores the point.\<close>

theorem coll_upsert:
  assumes "lib_ok L" and "coll_inv c" and "load c < MaxNodes" and "has_wal c" and "wal_ok clk w rs"
    and "Validate_point p = None" and "int (length (ptVector p)) = ccDimension (co_config c)" and "sound_point L (ccName (co_config c)) p"
  shows "\<exists>e c' w' r. Upsert L clk p (c, w) = Some (e, c', w') \<and> coll_inv c' \<and> wal_ok clk w' (rs @ [r])
    \<and> (\<forall>i. i \<noteq> ptID p \<longrightarrow> Get_coll i c' = Get_coll i c)
    \<and> (if ptID p \<in> snd (abs_of c)
       then e = Some (IndexError ErrPointExists) \<and> Get_coll (ptID p) c' = Err ErrPointNotFound
         \<and> (\<forall>p'. ptID p' = ptID p \<longrightarrow> int (length (ptVector p')) = ccDimension (co_config c) \<longrightarrow> sparse_fits p' \<longrightarrow>
              (\<exists>c''. insertInternal L p' c' = Some (Some (IndexError ErrPointExists), c'') \<and> Get_coll (ptID p) c'' = Err ErrPointNotFound))
       else e = None \<and> Get_coll (ptID p) c' = Ok (stored_point L (co_config c) p))"
proof -
  obtain data where d: "serializePoint L p = Inr data" "loggable (ccName (co_config c)) data" using assms(8) by (auto simp: sound_point_def)
  obtain w' r where w': "log_point L clk RecordTypeUpdate p c w = (None, w')" "wal_ok clk w' (rs @ [r])"
    using log_point_ok [OF assms(4) d assms(5), of RecordTypeUpdate] assms(5) by blast
  obtain e c' where c': "upsertInternal L p c = Some (e, c')" "moves c (abs_upsert L (co_config c) p (abs_of c)) c'"
    "e = (if ptID p \<in> snd (abs_of c) then Some (IndexError ErrPointExists) else None)" "ptID p \<in> snd (abs_of c) \<longrightarrow> load c' = load c"
    using upsertInternal_moves [OF assms(1-3,7)] by blast
  then have m: "coll_inv c'" "abs_of c' = abs_upsert L (co_config c) p (abs_of c)" "co_config c' = co_config c" by (simp_all add: moves_def)
  have get: "Get_coll i c' = (if i = ptID p then (if ptID p \<in> snd (abs_of c) then Err ErrPointNotFound else Ok (stored_point L (co_config c) p)) else Get_coll i c)" for i
    using Get_of_abs [OF m(1), of i] Get_of_abs [OF assms(2), of i] m(2) by (simp add: abs_upsert_def)
  have again: "\<exists>c''. insertInternal L p' c' = Some (Some (IndexError ErrPointExists), c'') \<and> Get_coll (ptID p) c'' = Err ErrPointNotFound"
    if u: "ptID p \<in> snd (abs_of c)" and p': "ptID p' = ptID p" "int (length (ptVector p')) = ccDimension (co_config c)" "sparse_fits p'" for p'
  proof -
    obtain h h' where h: "index c = Some h" "index c' = Some h'" using assms(2) m(1) by (auto simp: coll_inv_def)
    have ld: "load c' < MaxNodes" using assms(3) c'(4) u by simp
    have "length (ptVector p') \<noteq> 0" using p'(2) assms(2) by (auto simp: coll_inv_def hnsw_inv_def params_ok_def)
    moreover have "ptID p' \<in> snd (abs_of c')" using m(2) p'(1) by (simp add: abs_upsert_def)
    ultimately obtain c'' where c'': "insertInternal L p' c' = Some (Some (IndexError ErrPointExists), c'')" "coll_inv c''" "abs_of c'' = abs_of c'"
      using insertInternal_moves [OF assms(1) m(1) ld p'(3)] p'(2) m(3) by (auto simp: moves_def abs_insert_def)
    then show ?thesis using Get_of_abs [OF c''(2)] Get_of_abs [OF m(1)] get [of "ptID p"] u by metis
  qed
  have "Upsert L clk p (c, w) = Some (e, c', w')" using assms(6,7) w'(1) c'(1) by (simp add: Upsert_def)
  then show ?thesis using m(1) w'(2) get c'(3) again by (intro exI [of _ e] exI [of _ c'] exI [of _ w'] exI [of _ r]) auto
qed

theorem coll_upsert_witness:
  "\<exists>c0 c1 c2 w2. New_collection sample_lib () sample_cfg = Inr c0
    \<and> insertInternal sample_lib sample_pt (c0\<lparr>has_wal := True\<rparr>) = Some (None, c1)
    \<and> Upsert sample_lib (\<lambda>k. k) sample_pt (c1, wal0) = Some (Some (IndexError ErrPointExists), c2, w2)
    \<and> Get_coll ''p'' c2 = Err ErrPointNotFound"
proof -
  obtain c0 where c0: "New_collection sample_lib () sample_cfg = Inr c0" using sample_new by blast
  let ?c = "c0\<lparr>has_wal := True\<rparr>"
  have i: "coll_inv ?c" "co_config ?c = sample_cfg" "load ?c = 0" "abs_of ?c = (Map.empty, {})"
    using New_collection_inv [OF c0 sample_new(2)] by (auto simp: coll_inv_def load_def abs_of_def)
  have p: "ptID sample_pt = ''p''" "length (ptVector sample_pt) = 1" "ccDimension sample_cfg = 1" "sparse_fits sample_pt" "Validate_point sample_pt = None"
    "ccName sample_cfg = ''a''"
    by (simp_all add: sample_pt_def sample_cfg_def zero_point_def sparse_fits_def Validate_point_def not_finite_def)
  obtain c1 where c1: "insertInternal sample_lib sample_pt ?c = Some (None, c1)" "moves ?c (abs_insert sample_lib sample_cfg sample_pt (Map.empty, {})) c1"
    using insertInternal_moves [OF sample_lib_ok(1) i(1) _ p(4)] i(2-4) p(1-3) by (auto simp: MaxNodes_def)
  then have k: "coll_inv c1" "load c1 < MaxNodes" "has_wal c1" "co_config c1 = sample_cfg" "ptID sample_pt \<in> snd (abs_of c1)"
    using i(2,3) p(1-3) by (auto simp: moves_def abs_insert_def MaxNodes_def)
  from coll_upsert [OF sample_lib_ok(1) k(1,2,3) wal0_ok p(5)] k(4,5) p(1-3,6) sample_sound c0 c1(1) show ?thesis by auto
qed

section \<open>Deleted and renamed collections\<close>

lemma Create_fresh:
  assumes "validateName (ccName cfg) = None" and "apply_defaults cfg = cfg" and "New_collection L pix cfg = Inr c" and "0 < mx"
  shows "Create_mgr L pix cfg \<lparr>m_collections = [], m_disk = [], maxCollections = mx, m_has_wal = True\<rparr> =
    (None, \<lparr>m_collections = [(ccName cfg, c\<lparr>has_wal := True\<rparr>)], m_disk = [(ccName cfg, cfg)], maxCollections = mx, m_has_wal = True\<rparr>)"
  using assms by (simp add: Create_mgr_def saveMetadata_def map_set_def Let_def)


lemma sample_ops:
  "\<forall>op \<in> set [OpInsert sample_pt]. sound_op sample_lib (ccName sample_cfg) op" "sum_list (map op_size [OpInsert sample_pt]) \<le> MaxNodes"
  "validateName ''a'' = None" "validateName ''b'' = None" "apply_defaults sample_cfg = sample_cfg" "ccName sample_cfg = ''a''"
  using sample_sound by (simp_all add: sample_cfg_def MaxNodes_def validateName_def alnum_def Contains_str_def HasPrefix_def apply_defaults_def or_default_def less_eq_char_def)




end
