(* ===== verification/Collection_Scroll.thy ===== *)
theory Collection_Scroll
  imports Collection_Properties Cache_Properties
begin

text \<open>
  Reading a collection: scrolling page by page, the search cache, and the names that collections can have.
\<close>

section \<open>Pages\<close>

text \<open>A client that follows the next offset until it is empty; the number bounds the requests.\<close>

fun scroll_all :: "('d, 's, 'x) lib \<Rightarrow> scroll_params \<Rightarrow> nat \<Rightarrow> ('d, 's, 'x) collection \<Rightarrow> 's scored_point list option" where
  "scroll_all L ps 0 c = None"
| "scroll_all L ps (Suc n) c = (case Scroll L ps c of None \<Rightarrow> None
     | Some (points, nextOffset) \<Rightarrow> if nextOffset = [] then Some points
         else map_option ((@) points) (scroll_all L (ps\<lparr>scOffset := nextOffset\<rparr>) n c))"

lemma offset_index_nth:
  "distinct (map pID pts) \<Longrightarrow> j < length pts \<Longrightarrow> offset_index (pID (pts ! j)) n pts = n + j + 1"
proof (induction pts arbitrary: n j)
  case (Cons p pts)
  then show ?case by (cases j) (auto simp: nth_mem)
qed simp

lemma clamp_limit_bounds: "1 \<le> clamp_limit l \<and> clamp_limit l \<le> 1000"
  by (simp add: clamp_limit_def Let_def)

definition shown :: "scroll_params \<Rightarrow> 's \<Rightarrow> u32 point \<Rightarrow> 's scored_point" where
  "shown ps zero p = \<lparr>spID = pID p, spScore = zero, spVector = (if scWithVector ps then pVector p else []),
     spPayload = (if scWithPayload ps then pPayload p else None)\<rparr>"

definition offset_at :: "u32 point list \<Rightarrow> nat \<Rightarrow> string" where
  "offset_at pts i = (if i = 0 then [] else pID (pts ! (i - 1)))"

lemma page_at:
  assumes "distinct (map pID pts)" and "\<forall>p \<in> set pts. pID p \<noteq> []" and "i \<le> length pts" and "scOffset ps = offset_at pts i"
    and j: "j = min (i + nat (clamp_limit (scLimit ps))) (length pts)"
  shows "page ps zero pts = Some (map (shown ps zero) (take (j - i) (drop i pts)), if j < length pts then offset_at pts j else [])"
proof -
  have "i \<noteq> 0 \<Longrightarrow> offset_at pts i \<noteq> [] \<and> offset_index (offset_at pts i) 0 pts = i"
    using assms(2,3) offset_index_nth [OF assms(1), of "i - 1" 0] by (auto simp: offset_at_def)
  then have st: "(if scOffset ps \<noteq> [] then offset_index (scOffset ps) 0 pts else 0) = i"
    unfolding assms(4) by (cases "i = 0") (simp_all add: offset_at_def)
  have ij: "i \<le> j" "j \<le> length pts" using assms(3) j by simp_all
  have "pID (last (take (j - i) (drop i pts))) = offset_at pts j \<and> take (j - i) (drop i pts) \<noteq> []" if "j < length pts"
    using that j clamp_limit_bounds [of "scLimit ps"] by (auto simp: last_conv_nth offset_at_def)
  then have nx: "(if j < length pts \<and> length (take (j - i) (drop i pts)) > 0 then pID (last (take (j - i) (drop i pts))) else [])
      = (if j < length pts then offset_at pts j else [])" by (cases "j < length pts") simp_all
  have sl: "go_slice pts i j = Some (take (j - i) (drop i pts))" using ij by (simp add: go_slice_def)
  show ?thesis unfolding page_def Let_def st j [symmetric] sl option.map nx shown_def [symmetric] ..
qed

lemma scroll_walk:
  assumes p: "distinct (map pID pts)" "\<forall>p \<in> set pts. pID p \<noteq> []"
    and s: "\<And>off. Scroll L (ps\<lparr>scOffset := off\<rparr>) c = page (ps\<lparr>scOffset := off\<rparr>) zero pts"
    and i: "i \<le> length pts" "length pts - i \<le> n"
  shows "scroll_all L (ps\<lparr>scOffset := offset_at pts i\<rparr>) (Suc n) c = Some (map (shown ps zero) (drop i pts))"
  using i
proof (induction n arbitrary: i)
  case (Suc n)
  define j where "j = min (i + nat (clamp_limit (scLimit ps))) (length pts)"
  have ij: "i \<le> j" "j \<le> length pts" "i = length pts \<or> i < j" using Suc.prems(1) clamp_limit_bounds [of "scLimit ps"] by (auto simp: j_def)
  have sh: "shown (ps\<lparr>scOffset := x\<rparr>) zero = shown ps zero" for x by (simp add: shown_def fun_eq_iff)
  have pg: "Scroll L (ps\<lparr>scOffset := offset_at pts i\<rparr>) c =
      Some (map (shown ps zero) (take (j - i) (drop i pts)), if j < length pts then offset_at pts j else [])"
    unfolding s by (subst page_at [OF p Suc.prems(1), of _ j]) (simp_all add: j_def sh)
  show ?case
  proof (cases "j < length pts")
    case True
    then have "pts ! (j - 1) \<in> set pts" by (intro nth_mem) simp
    then have "offset_at pts j \<noteq> []" using p(2) ij True by (auto simp: offset_at_def)
    moreover have "scroll_all L (ps\<lparr>scOffset := offset_at pts j\<rparr>) (Suc n) c = Some (map (shown ps zero) (drop j pts))"
      using True ij Suc.prems by (intro Suc.IH) auto
    moreover have "take (j - i) (drop i pts) @ drop j pts = drop i pts"
      using ij(1) append_take_drop_id [of "j - i" "drop i pts"] by simp
    ultimately show ?thesis using True by (subst scroll_all.simps(2)) (simp add: pg flip: map_append del: scroll_all.simps(2))
  next
    case False
    then show ?thesis using Suc.prems(1) ij(2) by (simp add: pg)
  qed
next
  case 0
  then have "page (ps\<lparr>scOffset := offset_at pts i\<rparr>) zero pts = Some ([], [])"
    by (subst page_at [OF p, of i _ "length pts"]) simp_all
  then show ?case using 0 by (simp add: s)
qed

section \<open>The points of an index\<close>

lemma GetAllPoints_ids:
  assumes "hnsw_inv h"
  shows "distinct (map pID (GetAllPoints h))" "set (GetAllPoints h) = {p. Get (pID p) h = Ok p}"
proof -
  have ix: "i < length (nodes h) \<Longrightarrow> map_of (idToIndex h) (nodeID (nodes h ! i)) = Some i"
    "map_of (idToIndex h) q = Some k \<Longrightarrow> k < length (nodes h) \<and> nodeID (nodes h ! k) = q" for i q k
    using assms by (simp_all add: hnsw_inv_def index_ok_def)
  have "distinct (map nodeID (nodes h))"
    unfolding distinct_conv_nth using ix(1) by simp (metis option.inject)
  then show "distinct (map pID (GetAllPoints h))" by (simp add: GetAllPoints_def comp_def distinct_map_filter)
  let ?pt = "\<lambda>n. \<lparr>pID = nodeID n, pVector = Vector n, pPayload = GetPayload n\<rparr>"
  have "Get (pID p) h = Ok p \<longleftrightarrow> (\<exists>n \<in> set (nodes h). \<not> deleted n \<and> p = ?pt n)" for p
  proof
    assume "Get (pID p) h = Ok p"
    then obtain k where k: "map_of (idToIndex h) (pID p) = Some k" "go_index (nodes h) k \<noteq> None"
      by (auto simp: Get_def split: option.splits)
    then show "\<exists>n \<in> set (nodes h). \<not> deleted n \<and> p = ?pt n" using \<open>Get (pID p) h = Ok p\<close> ix(2) [OF k(1)]
      by (auto simp: Get_def go_index_def split: if_splits intro!: bexI [of _ "nodes h ! k"])
  next
    assume "\<exists>n \<in> set (nodes h). \<not> deleted n \<and> p = ?pt n"
    then obtain i where "i < length (nodes h)" "\<not> deleted (nodes h ! i)" "p = ?pt (nodes h ! i)" by (auto simp: in_set_conv_nth)
    then show "Get (pID p) h = Ok p" using ix(1) [of i] by (simp add: Get_def go_index_def)
  qed
  then show "set (GetAllPoints h) = {p. Get (pID p) h = Ok p}" by (auto simp: GetAllPoints_def)
qed

lemma filter_points_all:
  assumes "\<forall>p \<in> set pts. Evaluate (Some f) (map_or_empty (pPayload p)) \<noteq> None"
  shows "filter_points f pts = Some (filter (\<lambda>p. Evaluate (Some f) (map_or_empty (pPayload p)) = Some True) pts)"
  using assms by (induction pts) auto

section \<open>Properties\<close>

definition passes :: "pfilter option \<Rightarrow> u32 point \<Rightarrow> bool option" where
  "passes f p = (case f of None \<Rightarrow> Some True | Some g \<Rightarrow> Evaluate (Some g) (map_or_empty (pPayload p)))"

lemma Scroll_page:
  assumes "coll_inv c" and "\<forall>i p. Get_coll i c = Ok p \<longrightarrow> i \<noteq> [] \<and> passes (scFilter ps) p \<noteq> None"
  shows "\<exists>pts. (\<forall>off. Scroll L (ps\<lparr>scOffset := off\<rparr>) c = page (ps\<lparr>scOffset := off\<rparr>) (fzero (l_arith L)) pts)
    \<and> distinct (map pID pts) \<and> set pts = {p. Get_coll (pID p) c = Ok p \<and> passes (scFilter ps) p = Some True} \<and> length pts \<le> load c"
proof -
  obtain h where h: "index c = Some h" "hnsw_inv h" "\<not> HasNamedVectors (co_config c)" using assms(1) by (auto simp: coll_inv_def)
  note g = GetAllPoints_ids [OF h(2)]
  let ?pts = "filter (\<lambda>p. passes (scFilter ps) p = Some True) (GetAllPoints h)"
  have "(case scFilter ps of None \<Rightarrow> Some (GetAllPoints h) | Some f \<Rightarrow> filter_points f (GetAllPoints h)) = Some ?pts"
  proof (cases "scFilter ps")
    case (Some f)
    have "\<forall>p \<in> set (GetAllPoints h). Evaluate (Some f) (map_or_empty (pPayload p)) \<noteq> None"
      using assms(2) g(2) h(1) Some by (auto simp: Get_coll_def passes_def)
    from filter_points_all [OF this] show ?thesis by (simp add: Some passes_def)
  qed (simp add: passes_def)
  then have "Scroll L (ps\<lparr>scOffset := off\<rparr>) c = page (ps\<lparr>scOffset := off\<rparr>) (fzero (l_arith L)) ?pts" for off
    using h(1,3) by (simp add: Scroll_def scroll_index_def)
  moreover have "length ?pts \<le> load c" using h(1) by (simp add: load_def GetAllPoints_def le_trans [OF length_filter_le])
  moreover have "set ?pts = {p. Get_coll (pID p) c = Ok p \<and> passes (scFilter ps) p = Some True}" using g(2) h(1) by (auto simp: Get_coll_def)
  ultimately show ?thesis using g(1) distinct_map_filter by blast
qed

text \<open>C35: Scrolling is complete: a client that starts at the beginning and follows the next offset, with any page size, gets every
  point of the collection that passes the filter exactly once, as it is stored, and is done after at most one request more than the
  collection has nodes.\<close>

theorem coll_scroll:
  assumes "coll_inv c" and "\<forall>i p. Get_coll i c = Ok p \<longrightarrow> i \<noteq> [] \<and> passes (scFilter ps) p \<noteq> None" and "scOffset ps = []"
  shows "\<exists>pts. scroll_all L ps (Suc (load c)) c = Some (map (shown ps (fzero (l_arith L))) pts) \<and> distinct (map pID pts)
    \<and> set pts = {p. Get_coll (pID p) c = Ok p \<and> passes (scFilter ps) p = Some True}"
proof -
  from Scroll_page [OF assms(1,2), of L] obtain pts where p: "\<And>off. Scroll L (ps\<lparr>scOffset := off\<rparr>) c = page (ps\<lparr>scOffset := off\<rparr>) (fzero (l_arith L)) pts"
    "distinct (map pID pts)" "set pts = {p. Get_coll (pID p) c = Ok p \<and> passes (scFilter ps) p = Some True}" "length pts \<le> load c" by blast
  have "\<forall>p \<in> set pts. pID p \<noteq> []" using p(3) assms(2) by auto
  from scroll_walk [OF p(2) this p(1), of 0 "load c"] p(4) have
    "scroll_all L (ps\<lparr>scOffset := []\<rparr>) (Suc (load c)) c = Some (map (shown ps (fzero (l_arith L))) pts)" by (simp add: offset_at_def)
  moreover have "ps\<lparr>scOffset := []\<rparr> = ps" using assms(3) by simp
  ultimately show ?thesis using p(2,3) by auto
qed

theorem coll_scroll_witness:
  "\<exists>c0 c pts. New_collection sample_lib () sample_cfg = Inr c0 \<and> insertInternal sample_lib sample_pt c0 = Some (None, c)
    \<and> scroll_all sample_lib \<lparr>scOffset = [], scLimit = 1, scFilter = None, scWithVector = True, scWithPayload = True\<rparr> (Suc (load c)) c
        = Some [\<lparr>spID = ''p'', spScore = 0, spVector = [1], spPayload = None\<rparr>]"
proof -
  let ?ps = "\<lparr>scOffset = [], scLimit = 1, scFilter = None, scWithVector = True, scWithPayload = True\<rparr>"
  obtain c0 where c0: "New_collection sample_lib () sample_cfg = Inr c0" using sample_new by blast
  have i: "coll_inv c0" "co_config c0 = sample_cfg" "load c0 = 0" "abs_of c0 = (Map.empty, {})"
    using New_collection_inv [OF c0 sample_new(2)] by auto
  have p: "ptID sample_pt = ''p''" "ptVector sample_pt = [1]" "ptPayload sample_pt = None" "ccDimension sample_cfg = 1" "sparse_fits sample_pt"
    by (simp_all add: sample_pt_def sample_cfg_def zero_point_def sparse_fits_def)
  obtain c where c: "insertInternal sample_lib sample_pt c0 = Some (None, c)" "moves c0 (abs_insert sample_lib sample_cfg sample_pt (Map.empty, {})) c"
    using insertInternal_moves [OF sample_lib_ok(1) i(1) _ p(5)] i(2-4) p(1-4) by (auto simp: MaxNodes_def)
  let ?q = "\<lparr>pID = ''p'', pVector = [1], pPayload = None\<rparr> :: u32 point"
  have "stored_point sample_lib sample_cfg sample_pt = ?q" by (simp add: stored_point_def index_point_def p sample_cfg_def)
  then have k: "coll_inv c" "fst (abs_of c) = [''p'' \<mapsto> ?q]" using c(2) p by (auto simp: moves_def abs_insert_def)
  have g: "Get_coll i c = (if i = ''p'' then Ok ?q else Err ErrPointNotFound)" for i using Get_of_abs [OF k(1), of i] k(2) by simp
  have "\<forall>i p. Get_coll i c = Ok p \<longrightarrow> i \<noteq> [] \<and> passes (scFilter ?ps) p \<noteq> None" by (simp add: g passes_def)
  from coll_scroll [OF k(1) this, of sample_lib] obtain pts where pts: "scroll_all sample_lib ?ps (Suc (load c)) c = Some (map (shown ?ps (fzero (l_arith sample_lib))) pts)"
    "distinct (map pID pts)" "set pts = {p. Get_coll (pID p) c = Ok p \<and> passes (scFilter ?ps) p = Some True}" by auto
  have q: "set pts = {?q}" unfolding pts(3) by (auto simp: g passes_def split: if_splits)
  have "pts = [?q]" using pts(2) q by (cases pts; cases "tl pts") auto
  moreover have "fzero (l_arith sample_lib) = 0" by (simp add: sample_lib_def)
  ultimately show ?thesis using c0 c(1) pts(1) by (simp add: shown_def del: scroll_all.simps)
qed

section \<open>Cached searches\<close>

lemma cache_inv_miss: "cache_inv d \<Longrightarrow> Get_cache now k d = (None, d') \<Longrightarrow> cache_inv d' \<and> ttl d' = ttl d"
proof -
  assume d: "cache_inv d" and g: "Get_cache now k d = (None, d')"
  have "\<forall>en \<in> set (view d). eKey en = k \<longrightarrow> ExpiresAt en \<le> now"
    using Get_hit [of d _ k now] d g by (fastforce simp: cache_inv_def not_less [symmetric])
  with Get_miss [of d k now] d g have "cache_ok d'" "view d' = filter (\<lambda>x. eKey x \<noteq> k) (view d)" "capacity d' = capacity d" "ttl d' = ttl d"
    by (auto simp: cache_inv_def fixed_part_def)
  moreover from this(2) have "length (order d') \<le> length (order d)" by (metis length_filter_le length_view)
  ultimately show ?thesis using d by (simp add: cache_inv_def)
qed

lemma Upsert_cache: "Upsert L clk p (c, w) = Some (e, c', w') \<Longrightarrow> searchCache c' = searchCache c \<and> co_config c' = co_config c"
  by (auto simp: Upsert_def upsertInternal_def Let_def split: option.splits prod.splits if_splits outcome.splits)

lemma Insert_cache: "Insert_coll L clk p (c, w) = Some (None, c', w') \<Longrightarrow> items (searchCache c') = Map.empty"
  by (auto simp: Insert_coll_def drop_cache_def InvalidateCollection_def Clear_cache_def split: option.splits prod.splits if_splits)

lemma Delete_cache_coll: "Delete_coll clk i (c, w) = Some (None, c', w') \<Longrightarrow> items (searchCache c') = Map.empty"
  by (auto simp: Delete_coll_def drop_cache_def InvalidateCollection_def Clear_cache_def split: option.splits prod.splits if_splits)

text \<open>C36: A search that is cached is answered from the cache after any upsert until its time to live has passed, with the points it found before the
  upsert, and whatever \<open>Ef\<close>, \<open>WithVector\<close> and \<open>WithPayload\<close> the new request has; only inserts and deletes clear the
  cache.\<close>

theorem coll_stale_search:
  assumes inv: "cache_inv (searchCache c)" and miss: "fst (Get_cache now (l_key L (ccName (co_config c)) q (cpK ps)) (searchCache c)) = None"
    and s: "SearchWithParams L now q ps c = Some (Inr points, c1)" and use: "use_cache ps" "use_cache ps'" "cpK ps' = cpK ps"
    and now': "now' < now + ttl (searchCache c)"
  shows "(\<forall>p w e c2 w'. Upsert L clk p (c1, w) = Some (e, c2, w') \<longrightarrow> (\<exists>c3. SearchWithParams L now' q ps' c2 = Some (Inr points, c3)))
    \<and> (\<forall>p w c2 w' k. Insert_coll L clk p (c1, w) = Some (None, c2, w') \<longrightarrow> fst (Get_cache now' k (searchCache c2)) = None)
    \<and> (\<forall>i w c2 w' k. Delete_coll clk i (c1, w) = Some (None, c2, w') \<longrightarrow> fst (Get_cache now' k (searchCache c2)) = None)"
proof -
  let ?k = "l_key L (ccName (co_config c)) q (cpK ps)"
  obtain d where d: "Get_cache now ?k (searchCache c) = (None, d)" using miss by (cases "Get_cache now ?k (searchCache c)") auto
  note di = cache_inv_miss [OF inv d]
  from s d use(1) obtain d2 where d2: "Set_cache now ?k points d = Some d2" and c1: "searchCache c1 = d2" "co_config c1 = co_config c"
    by (auto simp: SearchWithParams_def Let_def split: option.splits sum.splits if_splits)
  have "\<forall>t < now + ttl d. \<exists>e. Get_cache t ?k d2 = (Some points, e)" using cache_set_get [of d now ?k points] di d2 by fastforce
  then obtain d3 where d3: "Get_cache now' ?k d2 = (Some points, d3)" using now' di by auto
  have "\<exists>c3. SearchWithParams L now' q ps' c2 = Some (Inr points, c3)" if u: "Upsert L clk p (c1, w) = Some (e, c2, w')" for p w e c2 w'
    using Upsert_cache [OF u] c1 d3 use(2,3) by (simp add: SearchWithParams_def)
  moreover have "fst (Get_cache now' k x) = None" if "items x = Map.empty" for x :: "'s scored_point list cache" and k
    using that by (simp add: Get_cache_def count_miss_def)
  ultimately show ?thesis using Insert_cache Delete_cache_coll by metis
qed

theorem coll_stale_search_witness:
  "\<exists>c0 c1 c2 c3 q. New_collection sample_lib () sample_cfg = Inr c0
    \<and> SearchWithParams sample_lib 0 [1] \<lparr>cpK = 1, cpEf = 0, cpFilter = None, cpWithVector = False, cpWithPayload = False, cpSparse = None\<rparr> c0 = Some (Inr [], c1)
    \<and> Upsert sample_lib (\<lambda>k. k) sample_pt (c1, wal0) = Some (None, c2, wal0) \<and> Get_coll ''p'' c2 = Ok q
    \<and> SearchWithParams sample_lib 5 [1] \<lparr>cpK = 1, cpEf = 50, cpFilter = None, cpWithVector = True, cpWithPayload = True, cpSparse = None\<rparr> c2 = Some (Inr [], c3)"
proof -
  let ?ps = "\<lparr>cpK = 1, cpEf = 0, cpFilter = None, cpWithVector = False, cpWithPayload = False, cpSparse = None\<rparr>"
  let ?ps' = "\<lparr>cpK = 1, cpEf = 50, cpFilter = None, cpWithVector = True, cpWithPayload = True, cpSparse = None\<rparr>"
  obtain c0 where c0: "New_collection sample_lib () sample_cfg = Inr c0" using sample_new by blast
  have i: "coll_inv c0" "co_config c0 = sample_cfg" "load c0 = 0" "abs_of c0 = (Map.empty, {})"
    using New_collection_inv [OF c0 sample_new(2)] by auto
  have f: "searchCache c0 = NewCache 10000 300000000000" "\<not> has_wal c0"
    using c0 by (auto simp: New_collection_def Let_def split: option.splits sum.splits if_splits)
  obtain h where h: "index c0 = Some h" "maxLevel h = -1" "dimension h = 1"
    using i(1-3) by (auto simp: coll_inv_def load_def sample_cfg_def hnsw_inv_def top_ok_def)
  have si: "search_index sample_lib ?ps (sparseIdx c0) h [1] = Some (Inr [])"
    using h(2,3) by (simp add: search_index_def index_search_def SearchWithEf_def hybrid_def)
  obtain d where d: "Get_cache 0 ''a'' (searchCache c0) = (None, d)" by (simp add: f(1) Get_cache_def NewCache_def count_miss_def)
  have inv: "cache_inv (searchCache c0)" "ttl (searchCache c0) = 300000000000"
    unfolding f(1) by (simp add: cache_inv_def) (simp_all add: NewCache_def)
  obtain d2 where d2: "Set_cache 0 ''a'' [] d = Some d2" using Set_lru [of d 0 "''a''" "[]"] cache_inv_miss [OF inv(1) d] by blast
  have k: "l_key sample_lib n v x = n" "ccName sample_cfg = ''a''" "ccDimension sample_cfg = 1" "ccMetric sample_cfg \<noteq> MetricCosine" for n v x
    by (simp_all add: sample_lib_def sample_cfg_def)
  obtain c1 where c1: "SearchWithParams sample_lib 0 [1] ?ps c0 = Some (Inr [], c1)" "c1 = c0\<lparr>searchCache := d2\<rparr>"
    using i(2) k d d2 si h(1) by (simp add: SearchWithParams_def use_cache_def Let_def)
  have m: "coll_inv c1" "load c1 < MaxNodes" "co_config c1 = sample_cfg" "abs_of c1 = (Map.empty, {})" "\<not> has_wal c1"
    using i f(2) by (auto simp: c1(2) coll_inv_def load_def abs_of_def MaxNodes_def)
  have p: "ptID sample_pt = ''p''" "length (ptVector sample_pt) = 1" "Validate_point sample_pt = None"
    by (simp_all add: sample_pt_def zero_point_def Validate_point_def not_finite_def)
  obtain c2 where c2: "upsertInternal sample_lib sample_pt c1 = Some (None, c2)" "moves c1 (abs_upsert sample_lib sample_cfg sample_pt (Map.empty, {})) c2"
    using upsertInternal_moves [OF sample_lib_ok(1) m(1,2), of sample_pt] m(3,4) p(2) k(3) by auto
  then have u: "Upsert sample_lib (\<lambda>k. k) sample_pt (c1, wal0) = Some (None, c2, wal0)" using m(3,5) p k(3) by (simp add: Upsert_def log_point_def)
  have "Get_coll ''p'' c2 = Ok (stored_point sample_lib sample_cfg sample_pt)"
    using c2(2) Get_of_abs [of c2 "''p''"] p(1) by (auto simp: moves_def abs_upsert_def)
  moreover obtain c3 where "SearchWithParams sample_lib 5 [1] ?ps' c2 = Some (Inr [], c3)"
    using coll_stale_search [OF inv(1) _ c1(1), of ?ps' 5 "\<lambda>k. k"] inv(2) i(2) k(1,2) d u by (fastforce simp: use_cache_def)
  ultimately show ?thesis using c0 c1(1) u by blast
qed

section \<open>Names\<close>

lemma alnum_plain: "alnum c \<or> c = CHR ''_'' \<or> c = CHR ''-'' \<Longrightarrow> c \<noteq> CHR ''.'' \<and> c \<noteq> CHR ''/'' \<and> c \<noteq> CHR 0x5C"
proof -
  have "\<not> alnum (CHR ''.'')" "\<not> alnum (CHR ''/'')" "\<not> alnum (CHR 0x5C)" by (simp_all add: alnum_def less_eq_char_def)
  then show "alnum c \<or> c = CHR ''_'' \<or> c = CHR ''-'' \<Longrightarrow> ?thesis" by auto
qed

text \<open>A name is accepted exactly if it has between 1 and 255 characters, all of them letters, digits, underscores or hyphens, and starts
  with a letter or digit: the pattern alone excludes separators and parent directories, so that the directory of a collection is a
  direct child of the data directory.\<close>

theorem coll_names:
  "validateName name = None \<longleftrightarrow> name \<noteq> [] \<and> length name \<le> 255 \<and> alnum (hd name)
    \<and> list_all (\<lambda>c. alnum c \<or> c = CHR ''_'' \<or> c = CHR ''-'') name"
  (is "_ \<longleftrightarrow> ?ok")
proof
  assume "validateName name = None"
  then show ?ok by (cases name) (auto simp: validateName_def list_all_iff split: if_splits)
next
  assume ok: ?ok
  then have n: "\<forall>c \<in> set name. c \<noteq> CHR ''.'' \<and> c \<noteq> CHR ''/'' \<and> c \<noteq> CHR 0x5C" using alnum_plain unfolding list_all_iff by blast
  have v: "validNamePattern name" using ok by (cases name) (auto simp: list_all_iff)
  have "\<not> Contains_str name ''..''" "\<not> Contains_str name ''/''" "\<not> Contains_str name [CHR 0x5C]"
    by (rule Contains_without [of "CHR ''.''"] Contains_without [of "CHR ''/''"] Contains_without [of "CHR 0x5C"], use n in blast, simp)+
  then show "validateName name = None" using ok v unfolding validateName_def by simp
qed

end
