(* ===== verification/Snapshot.thy ===== *)
theory Snapshot
  imports Point_Codec "HOL-Library.Char_ord"
begin

text \<open>
  Snapshots, \<open>pkg/storage/snapshot/snapshot.go\<close>: the archive format, the writer that publishes it, and the directory of
  snapshots. The directory is the list of its files with their contents; calls of the file system succeed, except that a
  file may be missing. A writer holds the bytes it passed to gzip. What the code calls outside the package is in the
  record \<open>arch\<close>: gzip, whose reader fails at once on a damaged stream, JSON of configurations, payloads and descriptions,
  sorting, and the number of points for which memory can be allocated (\<open>make\<close> panics for more).
\<close>

section \<open>Data\<close>

record snapshot =
  sID :: string
  sTimestamp :: int
  sVersion :: u64
  sCollections :: "string list"
  sSize :: int
  sPath :: string

record point_data =
  pdID :: string
  pdVector :: vec
  pdPayload :: "go_map option"

record 'j collection_data =
  cdConfig :: 'j
  cdPoints :: "point_data list"

record ('c, 'j) arch =
  a_gzip :: "byte list \<Rightarrow> byte list"
  a_gunzip :: "byte list \<Rightarrow> byte list option"
  a_config :: "'c \<Rightarrow> byte list option"
  a_parse :: "byte list \<Rightarrow> 'j option"
  a_payload :: "go_map option \<Rightarrow> byte list option"
  a_read_payload :: "byte list \<Rightarrow> go_map option option"
  a_meta :: "snapshot \<Rightarrow> byte list"
  a_read_meta :: "byte list \<Rightarrow> snapshot option"
  a_sort :: "snapshot list \<Rightarrow> snapshot list"
  a_max_points :: nat

type_synonym files = "(string \<times> byte list) list"

datatype snap_error = IDEmpty | SnapIDTooLong | IDFormat | IDPath | TooManyCollections | HeaderNotWritten | SnapEncode encode_error
  | ConfigMarshal | ConfigTooLarge | FileMissing | GzipError | ReadError decode_error | BadMagic

record snap_manager =
  sm_files :: files
  retainCount :: int

section \<open>Names\<close>

fun snap_digits :: "string \<Rightarrow> bool" where
  "snap_digits [] = False"
| "snap_digits (c # cs) = ((CHR ''0'' \<le> c \<and> c \<le> CHR ''9'') \<and> (cs = [] \<or> snap_digits cs))"

text \<open>The pattern \<open>^snap_[0-9]+$\<close>.\<close>

definition validSnapshotIDPattern :: "string \<Rightarrow> bool" where
  "validSnapshotIDPattern i \<longleftrightarrow> take 5 i = ''snap_'' \<and> snap_digits (drop 5 i)"

definition validateSnapshotID :: "string \<Rightarrow> snap_error option" where
  "validateSnapshotID i = (if i = [] then Some IDEmpty
     else if length i > 64 then Some SnapIDTooLong
     else if \<not> validSnapshotIDPattern i then Some IDFormat
     else if Contains_str i ''..'' \<or> Contains_str i ''/'' \<or> Contains_str i [CHR 0x5C] then Some IDPath
     else None)"

section \<open>Writing\<close>

record snap_writer =
  w_bytes :: "byte list"
  w_meta :: snapshot
  tmpPath :: string
  finalPath :: string
  headerWritten :: bool

text \<open>The clock is read twice, for the name and for the description.\<close>

definition CreateSnapshot :: "int \<Rightarrow> int \<Rightarrow> string list \<Rightarrow> snap_manager \<Rightarrow> snap_writer \<times> snap_manager" where
  "CreateSnapshot now stamp colls m =
    (let i = ''snap_'' @ show_int now; final = i @ ''.snap''; tmp = final @ ''.tmp'' in
     (\<lparr>w_bytes = [], w_meta = \<lparr>sID = i, sTimestamp = stamp, sVersion = 0, sCollections = colls, sSize = 0, sPath = final\<rparr>,
        tmpPath = tmp, finalPath = final, headerWritten = False\<rparr>,
      m\<lparr>sm_files := map_set tmp [] (sm_files m)\<rparr>))"

text \<open>A sequence of writes that ends at the first value that cannot be written.\<close>

fun emit :: "(snap_error + byte list) list \<Rightarrow> snap_writer \<Rightarrow> snap_error option \<times> snap_writer" where
  "emit [] w = (None, w)"
| "emit (Inl e # cs) w = (Some e, w)"
| "emit (Inr bs # cs) w = emit cs (w\<lparr>w_bytes := w_bytes w @ bs\<rparr>)"

definition snap_magic :: u32 where
  "snap_magic = 0x564558DB"

definition WriteHeader :: "u64 \<Rightarrow> nat \<Rightarrow> snap_writer \<Rightarrow> snap_error option \<times> snap_writer" where
  "WriteHeader version n w =
    (case emit [Inr (put_u32 snap_magic), Inr (put_u64 version), Inr (put_u64 (word_of_int (sTimestamp (w_meta w)))),
        (case fits32 n of None \<Rightarrow> Inl TooManyCollections | Some k \<Rightarrow> Inr (put_u32 k))] (w\<lparr>w_meta := (w_meta w)\<lparr>sVersion := version\<rparr>\<rparr>) of
       (Some e, w') \<Rightarrow> (Some e, w')
     | (None, w') \<Rightarrow> (None, w'\<lparr>headerWritten := True\<rparr>))"

definition snap_chunk :: "encode_error + byte list \<Rightarrow> snap_error + byte list" where
  "snap_chunk c = (case c of Inl e \<Rightarrow> Inl (SnapEncode e) | Inr bs \<Rightarrow> Inr bs)"

definition write_json :: "snap_error \<Rightarrow> snap_error \<Rightarrow> byte list option \<Rightarrow> snap_error + byte list" where
  "write_json bad large j = (case j of None \<Rightarrow> Inl bad
     | Some bs \<Rightarrow> (case fits32 (length bs) of None \<Rightarrow> Inl large | Some n \<Rightarrow> Inr (put_u32 n @ bs)))"

definition writePoint :: "('c, 'j) arch \<Rightarrow> point_data \<Rightarrow> (snap_error + byte list) list" where
  "writePoint A p = [snap_chunk (encode_str IDTooLong (pdID p)), snap_chunk (encode_vec VectorTooLarge (pdVector p)),
     write_json (SnapEncode MarshalError) (SnapEncode PayloadTooLarge) (a_payload A (pdPayload p))]"

definition WriteCollection :: "('c, 'j) arch \<Rightarrow> string \<Rightarrow> 'c collection_data \<Rightarrow> snap_writer \<Rightarrow> snap_error option \<times> snap_writer" where
  "WriteCollection A name d w = (if \<not> headerWritten w then (Some HeaderNotWritten, w)
     else emit ([snap_chunk (encode_str NameTooLong name), write_json ConfigMarshal ConfigTooLarge (a_config A (cdConfig d)),
       Inr (put_u64 (word_of_nat (length (cdPoints d))))] @ concat (map (writePoint A) (cdPoints d))) w)"

text \<open>The loop over the collections in \<open>Manager.CreateSnapshot\<close> of \<open>pkg/collection/manager.go\<close>.\<close>

fun write_all :: "('c, 'j) arch \<Rightarrow> (string \<times> 'c collection_data) list \<Rightarrow> snap_writer \<Rightarrow> snap_error option \<times> snap_writer" where
  "write_all A [] w = (None, w)"
| "write_all A ((name, d) # cs) w = (case WriteCollection A name d w of (Some e, w') \<Rightarrow> (Some e, w') | (None, w') \<Rightarrow> write_all A cs w')"

section \<open>Publishing\<close>

text \<open>The calls of \<open>Finish\<close> that change the directory, in their order.\<close>

datatype fs_call = FsWrite string "byte list" | FsRename string string | FsRemove string

fun fs_run :: "fs_call \<Rightarrow> files \<Rightarrow> files" where
  "fs_run (FsWrite f bs) d = map_set f bs d"
| "fs_run (FsRename f g) d = (case map_of d f of None \<Rightarrow> d | Some bs \<Rightarrow> map_set g bs (map_del f d))"
| "fs_run (FsRemove f) d = map_del f d"

definition finished :: "('c, 'j) arch \<Rightarrow> snap_writer \<Rightarrow> snapshot" where
  "finished A w = (w_meta w)\<lparr>sSize := int (length (a_gzip A (w_bytes w)))\<rparr>"

definition finish_calls :: "('c, 'j) arch \<Rightarrow> snap_writer \<Rightarrow> fs_call list" where
  "finish_calls A w = [FsWrite (tmpPath w) (a_gzip A (w_bytes w)), FsRename (tmpPath w) (finalPath w),
     FsWrite (finalPath w @ ''.meta.tmp'') (a_meta A (finished A w)),
     FsRename (finalPath w @ ''.meta.tmp'') (finalPath w @ ''.meta'')]"

definition Finish :: "('c, 'j) arch \<Rightarrow> snap_writer \<Rightarrow> snap_manager \<Rightarrow> snapshot \<times> snap_manager" where
  "Finish A w m = (finished A w, m\<lparr>sm_files := fold fs_run (finish_calls A w) (sm_files m)\<rparr>)"

definition Cancel :: "snap_writer \<Rightarrow> snap_manager \<Rightarrow> snap_manager" where
  "Cancel w m = m\<lparr>sm_files := fs_run (FsRemove (tmpPath w)) (sm_files m)\<rparr>"

section \<open>Reading\<close>

record snap_reader =
  r_stream :: "byte list"
  r_version :: u64
  r_timestamp :: u64
  NumCollections :: u32

definition read_header :: "snap_reader parser" where
  "read_header = pbind (io read_u32) (\<lambda>magic. if magic \<noteq> snap_magic then (\<lambda>s. Inl UnmarshalError)
     else pbind (io read_u64) (\<lambda>v. pbind (io read_u64) (\<lambda>t. pbind (io read_u32) (\<lambda>n s.
       Inr (\<lparr>r_stream = s, r_version = v, r_timestamp = t, NumCollections = n\<rparr>, s)))))"

definition OpenSnapshotFile :: "('c, 'j) arch \<Rightarrow> string \<Rightarrow> snap_manager \<Rightarrow> snap_error + snap_reader" where
  "OpenSnapshotFile A path m = (case map_of (sm_files m) path of None \<Rightarrow> Inl FileMissing
     | Some f \<Rightarrow> (case a_gunzip A f of None \<Rightarrow> Inl GzipError
       | Some s \<Rightarrow> (case read_header s of
           Inl UnmarshalError \<Rightarrow> Inl BadMagic | Inl e \<Rightarrow> Inl (ReadError e) | Inr (r, s') \<Rightarrow> Inr r)))"

definition OpenSnapshot :: "('c, 'j) arch \<Rightarrow> string \<Rightarrow> snap_manager \<Rightarrow> snap_error + snap_reader" where
  "OpenSnapshot A i m = (case validateSnapshotID i of Some e \<Rightarrow> Inl e | None \<Rightarrow> OpenSnapshotFile A (i @ ''.snap'') m)"

definition readPoint :: "('c, 'j) arch \<Rightarrow> point_data parser" where
  "readPoint A = pbind decode_str (\<lambda>i. pbind decode_vec (\<lambda>v. pbind (decode_payload (a_read_payload A)) (\<lambda>p s.
     Inr (\<lparr>pdID = i, pdVector = v, pdPayload = p\<rparr>, s))))"

fun read_points :: "('c, 'j) arch \<Rightarrow> nat \<Rightarrow> point_data list parser" where
  "read_points A 0 s = Inr ([], s)"
| "read_points A (Suc n) s = pbind (readPoint A) (\<lambda>p. pbind (read_points A n) (\<lambda>ps s. Inr (p # ps, s))) s"

definition read_config :: "('c, 'j) arch \<Rightarrow> 'j parser" where
  "read_config A = pbind (io read_u32) (\<lambda>n. pbind (io (read_full (unat n)))
     (\<lambda>bs s. case a_parse A bs of None \<Rightarrow> Inl UnmarshalError | Some j \<Rightarrow> Inr (j, s)))"

definition ReadCollection :: "('c, 'j) arch \<Rightarrow> snap_reader \<Rightarrow> (decode_error, (string \<times> 'j collection_data) \<times> snap_reader) outcome" where
  "ReadCollection A r =
    (case pbind decode_str (\<lambda>name. pbind (read_config A) (\<lambda>j. pbind (io read_u64) (\<lambda>n s. Inr ((name, j, n), s)))) (r_stream r) of
       Inl e \<Rightarrow> Err e
     | Inr ((name, j, n), s) \<Rightarrow>
         if unat n > a_max_points A then Panic
         else (case read_points A (unat n) s of Inl e \<Rightarrow> Err e
           | Inr (ps, s') \<Rightarrow> Ok ((name, \<lparr>cdConfig = j, cdPoints = ps\<rparr>), r\<lparr>r_stream := s'\<rparr>)))"

section \<open>The directory\<close>

text \<open>\<open>filepath.Ext\<close> is \<open>.meta\<close> for the names that end with it.\<close>

definition is_meta :: "string \<Rightarrow> bool" where
  "is_meta f \<longleftrightarrow> HasSuffix f ''.meta''"

definition list_metas :: "('c, 'j) arch \<Rightarrow> files \<Rightarrow> snapshot list" where
  "list_metas A d = List.map_filter (\<lambda>(f, bs). if is_meta f then a_read_meta A bs else None) d"

definition List_snap :: "('c, 'j) arch \<Rightarrow> snap_manager \<Rightarrow> snapshot list" where
  "List_snap A m = a_sort A (list_metas A (sm_files m))"

definition Delete_snap :: "string \<Rightarrow> snap_manager \<Rightarrow> snap_error option \<times> snap_manager" where
  "Delete_snap i m = (case validateSnapshotID i of Some e \<Rightarrow> (Some e, m)
     | None \<Rightarrow> (None, m\<lparr>sm_files := map_del (i @ ''.snap.meta'') (map_del (i @ ''.snap'') (sm_files m))\<rparr>))"

fun delete_all :: "snapshot list \<Rightarrow> snap_manager \<Rightarrow> snap_error option \<times> snap_manager" where
  "delete_all [] m = (None, m)"
| "delete_all (s # ss) m = (case Delete_snap (sID s) m of (Some e, m') \<Rightarrow> (Some e, m') | (None, m') \<Rightarrow> delete_all ss m')"

text \<open>A negative count makes the slice expression panic.\<close>

definition Prune :: "('c, 'j) arch \<Rightarrow> snap_manager \<Rightarrow> (snap_error option \<times> snap_manager) option" where
  "Prune A m = (let ss = List_snap A m in
     if int (length ss) \<le> retainCount m then Some (None, m)
     else if retainCount m < 0 then None
     else Some (delete_all (drop (nat (retainCount m)) ss) m))"

end
