(* ===== verification/Snapshot_Facts.thy ===== *)
theory Snapshot_Facts
  imports Snapshot
begin

text \<open>
  The archive format read back, the names of snapshots, and the directory while a snapshot is published.
\<close>

section \<open>The format\<close>

definition arch_ok :: "('c, 'j) arch \<Rightarrow> ('c \<Rightarrow> 'j) \<Rightarrow> bool" where
  "arch_ok A g \<longleftrightarrow> (\<forall>bs. a_gunzip A (a_gzip A bs) = Some bs) \<and> (\<forall>c j. a_config A c = Some j \<longrightarrow> a_parse A j = Some (g c))
     \<and> (\<forall>x j. a_payload A x = Some j \<longrightarrow> j \<noteq> [] \<and> a_read_payload A j = Some x)"

lemma emit_done: "emit cs w = (None, w') \<longleftrightarrow> (\<exists>bss. cs = map Inr bss \<and> w' = w\<lparr>w_bytes := w_bytes w @ concat bss\<rparr>)"
proof (induction cs w rule: emit.induct)
  case (3 bs cs w)
  then show ?case by (auto simp: Cons_eq_map_conv)
qed auto

lemma snap_chunk_Inr [simp]: "snap_chunk c = Inr bs \<longleftrightarrow> c = Inr bs"
  by (cases c) (simp_all add: snap_chunk_def)

lemma write_json_Inr: "write_json b l j = Inr bs \<longleftrightarrow> (\<exists>x n. j = Some x \<and> fits32 (length x) = Some n \<and> bs = put_u32 n @ x)"
  by (auto simp: write_json_def split: option.splits)

lemma readPoint_writePoint:
  assumes "arch_ok A g" and "writePoint A p = map Inr bss"
  shows "readPoint A (concat bss @ s) = Inr (p, s)"
proof -
  obtain a b j n where x: "encode_str IDTooLong (pdID p) = Inr a" "encode_vec VectorTooLarge (pdVector p) = Inr b"
    "a_payload A (pdPayload p) = Some j" "fits32 (length j) = Some n" and bss: "bss = [a, b, put_u32 n @ j]"
    using assms(2) by (auto simp: writePoint_def Cons_eq_map_conv write_json_Inr)
  have j: "j \<noteq> []" "a_read_payload A j = Some (pdPayload p)" using assms(1) x(3) by (auto simp: arch_ok_def)
  have "decode_payload (a_read_payload A) (put_u32 n @ j @ s) = Inr (pdPayload p, s)"
    using j unat_fits32 [OF x(4)] by (simp add: decode_payload_def pbind_def io_def read_u32_put read_full_append)
  then show ?thesis by (simp add: bss readPoint_def pbind_str [OF x(1)] pbind_vec [OF x(2)] pbind_Inr [of "decode_payload (a_read_payload A)"])
qed

lemma read_points_write:
  assumes "arch_ok A g"
  shows "concat (map (writePoint A) ps) = map Inr bss \<Longrightarrow> read_points A (length ps) (concat bss @ s) = Inr (ps, s)"
proof (induction ps arbitrary: bss)
  case (Cons p ps)
  from Cons.prems obtain as bs where b: "bss = as @ bs" "writePoint A p = map Inr as" "concat (map (writePoint A) ps) = map Inr bs"
    by (auto simp: append_eq_map_conv)
  from readPoint_writePoint [OF assms b(2), of "concat bs @ s"] Cons.IH [OF b(3)] show ?case by (simp add: b(1) pbind_def)
qed simp

definition shown_data :: "('c \<Rightarrow> 'j) \<Rightarrow> 'c collection_data \<Rightarrow> 'j collection_data" where
  "shown_data g d = \<lparr>cdConfig = g (cdConfig d), cdPoints = cdPoints d\<rparr>"

definition allocatable :: "('c, 'j) arch \<Rightarrow> 'c collection_data \<Rightarrow> bool" where
  "allocatable A d \<longleftrightarrow> length (cdPoints d) \<le> a_max_points A \<and> length (cdPoints d) < 2 ^ 64"

lemma WriteCollection_read:
  assumes A: "arch_ok A g" and al: "allocatable A d" and w: "WriteCollection A name d w = (None, w')"
  shows "\<exists>bs. w' = w\<lparr>w_bytes := w_bytes w @ bs\<rparr> \<and> (\<forall>r s. ReadCollection A (r\<lparr>r_stream := bs @ s\<rparr>) = Ok ((name, shown_data g d), r\<lparr>r_stream := s\<rparr>))"
proof -
  let ?cs = "[snap_chunk (encode_str NameTooLong name), write_json ConfigMarshal ConfigTooLarge (a_config A (cdConfig d)),
       Inr (put_u64 (word_of_nat (length (cdPoints d))))] @ concat (map (writePoint A) (cdPoints d))"
  have "emit ?cs w = (None, w')" using w by (simp add: WriteCollection_def split: if_splits)
  then obtain bss where bss: "?cs = map Inr bss" "w' = w\<lparr>w_bytes := w_bytes w @ concat bss\<rparr>" unfolding emit_done by blast
  from bss(1) obtain a b ps where y: "encode_str NameTooLong name = Inr a" "write_json ConfigMarshal ConfigTooLarge (a_config A (cdConfig d)) = Inr b"
    "concat (map (writePoint A) (cdPoints d)) = map Inr ps" "bss = a # b # put_u64 (word_of_nat (length (cdPoints d))) # ps"
    by (auto simp: Cons_eq_map_conv)
  obtain j n where x: "a_config A (cdConfig d) = Some j" "fits32 (length j) = Some n" "b = put_u32 n @ j"
    using y(2) unfolding write_json_Inr by blast
  have cb: "concat bss = a @ put_u32 n @ j @ put_u64 (word_of_nat (length (cdPoints d))) @ concat ps" by (simp add: y(4) x(3))
  have pj: "a_parse A j = Some (g (cdConfig d))" using A x(1) by (simp add: arch_ok_def)
  have cfg: "read_config A (put_u32 n @ j @ s) = Inr (g (cdConfig d), s)" for s
    using pj unat_fits32 [OF x(2)] by (simp add: read_config_def pbind_def io_def read_u32_put read_full_append)
  have n: "unat (word_of_nat (length (cdPoints d)) :: u64) = length (cdPoints d)"
    using al by (simp add: allocatable_def unat_of_nat take_bit_nat_eq_self)
  have "ReadCollection A (r\<lparr>r_stream := concat bss @ s\<rparr>) = Ok ((name, shown_data g d), r\<lparr>r_stream := s\<rparr>)" for r s
    using al read_points_write [OF A y(3), of s]
    by (simp add: ReadCollection_def cb pbind_str [OF y(1)] pbind_Inr [of "read_config A", OF cfg] pbind_Inr [of "io read_u64"] io_def read_u64_put n allocatable_def shown_data_def)
  then show ?thesis using bss(2) by blast
qed

text \<open>Reading all collections, as the loop of \<open>Manager.RestoreSnapshot\<close> does.\<close>

fun read_all :: "('c, 'j) arch \<Rightarrow> nat \<Rightarrow> snap_reader \<Rightarrow> (decode_error, (string \<times> 'j collection_data) list) outcome" where
  "read_all A 0 r = Ok []"
| "read_all A (Suc n) r = (case ReadCollection A r of Err e \<Rightarrow> Err e | Panic \<Rightarrow> Panic
     | Ok (c, r') \<Rightarrow> (case read_all A n r' of Err e \<Rightarrow> Err e | Panic \<Rightarrow> Panic | Ok cs \<Rightarrow> Ok (c # cs)))"

lemma write_all_read:
  assumes A: "arch_ok A g"
  shows "write_all A cs w = (None, w') \<Longrightarrow> \<forall>c \<in> set cs. allocatable A (snd c)
    \<Longrightarrow> \<exists>bs. w' = w\<lparr>w_bytes := w_bytes w @ bs\<rparr> \<and> (\<forall>r. read_all A (length cs) (r\<lparr>r_stream := bs\<rparr>) = Ok (map (\<lambda>(n, d). (n, shown_data g d)) cs))"
proof (induction cs arbitrary: w)
  case (Cons c cs)
  obtain name d where c: "c = (name, d)" by (cases c)
  with Cons.prems obtain w1 where w1: "WriteCollection A name d w = (None, w1)" "write_all A cs w1 = (None, w')"
    by (auto split: prod.splits option.splits)
  have al: "allocatable A d" using Cons.prems(2) c by simp
  from WriteCollection_read [OF A al w1(1)] obtain b where b: "w1 = w\<lparr>w_bytes := w_bytes w @ b\<rparr>"
    "\<And>r s. ReadCollection A (r\<lparr>r_stream := b @ s\<rparr>) = Ok ((name, shown_data g d), r\<lparr>r_stream := s\<rparr>)" by blast
  from Cons.IH [OF w1(2)] Cons.prems(2) obtain bs where bs: "w' = w1\<lparr>w_bytes := w_bytes w1 @ bs\<rparr>"
    "\<And>r. read_all A (length cs) (r\<lparr>r_stream := bs\<rparr>) = Ok (map (\<lambda>(n, d). (n, shown_data g d)) cs)" by auto
  have "read_all A (length (c # cs)) (r\<lparr>r_stream := b @ bs\<rparr>) = Ok (map (\<lambda>(n, d). (n, shown_data g d)) (c # cs))" for r
    using b(2) [where r = r and s = bs] bs(2) [of r] by (simp add: c)
  moreover have "w' = w\<lparr>w_bytes := w_bytes w @ (b @ bs)\<rparr>" using b(1) bs(1) by simp
  ultimately show ?case by blast
next
  case Nil
  then show ?case by (auto intro: exI [of _ "[]"])
qed

lemma WriteHeader_read:
  assumes "WriteHeader v n w = (None, w')"
  shows "\<exists>bs. w_bytes w' = w_bytes w @ bs \<and> headerWritten w' \<and> tmpPath w' = tmpPath w \<and> finalPath w' = finalPath w
    \<and> w_meta w' = (w_meta w)\<lparr>sVersion := v\<rparr>
    \<and> (\<forall>s. read_header (bs @ s) = Inr (\<lparr>r_stream = s, r_version = v, r_timestamp = word_of_int (sTimestamp (w_meta w)), NumCollections = word_of_nat n\<rparr>, s))
    \<and> n < 2 ^ 32"
proof -
  obtain k where k: "fits32 n = Some k" using assms by (auto simp: WriteHeader_def split: option.splits prod.splits)
  then have "n < 2 ^ 32" "k = word_of_nat n" by (simp_all add: fits32_Some)
  with k assms show ?thesis by (auto simp: WriteHeader_def read_header_def pbind_def io_def read_u32_put read_u64_put)
qed

section \<open>Names\<close>

lemma length_dec_digits: "n < 10 ^ k \<Longrightarrow> 0 < k \<Longrightarrow> length (dec_digits n) \<le> k"
proof (induction k arbitrary: n)
  case (Suc k)
  show ?case
  proof (cases "n < 10")
    case True
    then show ?thesis by (subst dec_digits.simps) simp
  next
    case False
    then have "0 < k" using Suc.prems(1) by (cases k) auto
    moreover have "n div 10 < 10 ^ k" using Suc.prems(1) by (simp add: less_mult_imp_div_less)
    ultimately have "length (dec_digits (n div 10)) \<le> k" using Suc.IH by blast
    with False show ?thesis by (subst dec_digits.simps) simp
  qed
qed simp

lemma dec_digits_not_Nil [simp]: "dec_digits n \<noteq> []"
  by (subst dec_digits.simps) simp

lemma digit_char_range: "d < 10 \<Longrightarrow> CHR ''0'' \<le> digit_char d \<and> digit_char d \<le> CHR ''9''"
  by (simp add: digit_char_def less_eq_char_def)

lemma snap_digits_iff: "snap_digits s \<longleftrightarrow> s \<noteq> [] \<and> list_all (\<lambda>c. CHR ''0'' \<le> c \<and> c \<le> CHR ''9'') s"
  by (induction s) auto

lemma snap_id_valid:
  assumes "0 \<le> now" and "now < 10 ^ 59"
  shows "validateSnapshotID (''snap_'' @ show_int now) = None"
proof -
  let ?ds = "map digit_char (dec_digits (nat now))"
  have s: "show_int now = ?ds" using assms(1) by (simp add: show_int_def)
  have r: "\<forall>c \<in> set ?ds. CHR ''0'' \<le> c \<and> c \<le> CHR ''9''" using dec_digits_bound digit_char_range by auto
  have "length ?ds \<le> 59" using length_dec_digits [of "nat now" 59] assms by (simp add: nat_less_iff)
  moreover have "snap_digits ?ds" using r by (simp add: snap_digits_iff list_all_iff)
  moreover have "\<not> Contains_str (''snap_'' @ ?ds) p" if "c \<in> set p" "c \<in> {CHR ''.'', CHR ''/'', CHR 0x5C}" for c p
  proof (rule Contains_without [OF _ that(1)])
    have "\<not> (CHR ''0'' \<le> c \<and> c \<le> CHR ''9'')" "c \<notin> set ''snap_''" using that(2) by (auto simp: less_eq_char_def)
    then show "c \<notin> set (''snap_'' @ ?ds)" using r by auto
  qed
  ultimately show ?thesis by (simp add: validateSnapshotID_def validSnapshotIDPattern_def s)
qed

lemma snapshot_reads:
  assumes A: "arch_ok A g" and cs: "\<forall>c \<in> set cs. allocatable A (snd c)" and now: "0 \<le> now" "now < 2 ^ 63"
    and w0: "CreateSnapshot now stamp names m = (w0, m0)" and w1: "WriteHeader 1 (length cs) w0 = (None, w1)"
    and w2: "write_all A cs w1 = (None, w2)" and fin: "Finish A w2 m0 = (snap, m1)"
  shows "\<exists>r. OpenSnapshot A (sID snap) m1 = Inr r \<and> unat (NumCollections r) = length cs
    \<and> read_all A (unat (NumCollections r)) r = Ok (map (\<lambda>(n, d). (n, shown_data g d)) cs)"
proof -
  let ?i = "''snap_'' @ show_int now"
  have p0: "tmpPath w0 = ?i @ ''.snap.tmp''" "finalPath w0 = ?i @ ''.snap''" "sID (w_meta w0) = ?i" "w_bytes w0 = []"
    using w0 by (auto simp: CreateSnapshot_def Let_def)
  from WriteHeader_read [OF w1] obtain hd_bs where h: "w_bytes w1 = hd_bs" "tmpPath w1 = tmpPath w0" "finalPath w1 = finalPath w0"
    "sID (w_meta w1) = ?i" "\<And>s. read_header (hd_bs @ s) = Inr (\<lparr>r_stream = s, r_version = 1, r_timestamp = word_of_int (sTimestamp (w_meta w0)),
        NumCollections = word_of_nat (length cs)\<rparr>, s)" "length cs < 2 ^ 32"
    using p0 by auto
  from write_all_read [OF A w2 cs] obtain bs where b: "w2 = w1\<lparr>w_bytes := w_bytes w1 @ bs\<rparr>"
    "\<And>r. read_all A (length cs) (r\<lparr>r_stream := bs\<rparr>) = Ok (map (\<lambda>(n, d). (n, shown_data g d)) cs)" by blast
  let ?r = "\<lparr>r_stream = bs, r_version = 1, r_timestamp = word_of_int (sTimestamp (w_meta w0)), NumCollections = word_of_nat (length cs)\<rparr>"
  have p2: "tmpPath w2 = ?i @ ''.snap.tmp''" "finalPath w2 = ?i @ ''.snap''" "sID (w_meta w2) = ?i" "w_bytes w2 = hd_bs @ bs"
    using b(1) h p0 by simp_all
  have m1: "map_of (sm_files m1) (?i @ ''.snap'') = Some (a_gzip A (hd_bs @ bs))" "sID snap = ?i"
    using fin by (auto simp: Finish_def finish_calls_def finished_def p2)
  have n: "unat (word_of_nat (length cs) :: u32) = length cs" using h(6) by (simp add: unat_of_nat take_bit_nat_eq_self)
  have "validateSnapshotID ?i = None" using now by (intro snap_id_valid) auto
  then have "OpenSnapshot A (sID snap) m1 = Inr ?r"
    using m1 A h(5) [of bs] by (simp add: OpenSnapshot_def OpenSnapshotFile_def arch_ok_def)
  moreover have "read_all A (length cs) ?r = Ok (map (\<lambda>(n, d). (n, shown_data g d)) cs)" using b(2) [of ?r] by simp
  ultimately show ?thesis using n by (intro exI [of _ ?r]) simp
qed

section \<open>The directory\<close>

lemma list_metas_iff:
  assumes "distinct (map fst d)"
  shows "s \<in> set (list_metas A d) \<longleftrightarrow> (\<exists>f bs. map_of d f = Some bs \<and> is_meta f \<and> a_read_meta A bs = Some s)"
proof -
  have "s \<in> set (list_metas A d) \<longleftrightarrow> (\<exists>f bs. (f, bs) \<in> set d \<and> is_meta f \<and> a_read_meta A bs = Some s)"
    by (force simp: list_metas_def set_map_filter split: if_splits)
  then show ?thesis using assms by (simp add: map_of_eq_Some_iff)
qed

lemma list_metas_cong:
  assumes "distinct (map fst d)" and "distinct (map fst d')" and "\<And>f. is_meta f \<Longrightarrow> map_of d' f = map_of d f"
  shows "set (list_metas A d') = set (list_metas A d)"
  unfolding set_eq_iff list_metas_iff [OF assms(1)] list_metas_iff [OF assms(2)] using assms(3) by metis

lemma is_meta_names [simp]:
  "is_meta (i @ ''.snap.meta'')" "\<not> is_meta (i @ ''.snap'')" "\<not> is_meta (i @ ''.snap.tmp'')" "\<not> is_meta (i @ ''.snap.meta.tmp'')"
  by (auto simp: is_meta_def HasSuffix_def)

lemma distinct_fs_run [simp]: "distinct (map fst d) \<Longrightarrow> distinct (map fst (fs_run c d))"
  by (cases c) (auto split: option.split)

lemma distinct_fold_fs [simp]: "distinct (map fst d) \<Longrightarrow> distinct (map fst (fold fs_run cs d))"
  by (induction cs arbitrary: d) auto

text \<open>A directory in which every description stands in the file of its snapshot.\<close>

definition dir_ok :: "('c, 'j) arch \<Rightarrow> files \<Rightarrow> bool" where
  "dir_ok A d \<longleftrightarrow> distinct (map fst d) \<and> (\<forall>f bs s. map_of d f = Some bs \<longrightarrow> is_meta f \<longrightarrow> a_read_meta A bs = Some s
     \<longrightarrow> f = sID s @ ''.snap.meta'' \<and> validateSnapshotID (sID s) = None)"

lemma dir_ok_ids:
  assumes "dir_ok A d"
  shows "inj_on sID (set (list_metas A d))" "distinct (list_metas A d)" "s \<in> set (list_metas A d) \<Longrightarrow> validateSnapshotID (sID s) = None"
proof -
  have dd: "distinct (map fst d)" using assms by (simp add: dir_ok_def)
  note iff = list_metas_iff [OF dd]
  have ok: "f = sID s @ ''.snap.meta''" if "map_of d f = Some bs" "is_meta f" "a_read_meta A bs = Some s" for f bs s
    using assms that by (simp add: dir_ok_def)
  show "inj_on sID (set (list_metas A d))"
  proof (rule inj_onI)
    fix s t assume "s \<in> set (list_metas A d)" "t \<in> set (list_metas A d)" "sID s = sID t"
    then show "s = t" unfolding iff using ok by (metis option.inject)
  qed
  show "s \<in> set (list_metas A d) \<Longrightarrow> validateSnapshotID (sID s) = None" unfolding iff using assms by (auto simp: dir_ok_def)
  have "\<forall>x \<in> set d. \<forall>s. (case x of (f, bs) \<Rightarrow> if is_meta f then a_read_meta A bs else None) = Some s \<longrightarrow> fst x = sID s @ ''.snap.meta''"
    using ok dd by (auto split: if_splits)
  with dd show "distinct (list_metas A d)" unfolding list_metas_def
  proof (induction d)
    case (Cons x d)
    show ?case
    proof (cases "case x of (f, bs) \<Rightarrow> if is_meta f then a_read_meta A bs else None")
      case (Some s)
      have "s \<notin> set (List.map_filter (\<lambda>(f, bs). if is_meta f then a_read_meta A bs else None) d)"
        using Cons.prems Some by (force simp: set_map_filter)
      with Cons Some show ?thesis by (simp add: List.map_filter_simps)
    qed (use Cons in \<open>simp add: List.map_filter_simps\<close>)
  qed (simp add: List.map_filter_simps)
qed

lemma delete_all_files:
  assumes "\<forall>s \<in> set ss. validateSnapshotID (sID s) = None"
  shows "\<exists>m'. delete_all ss m = (None, m') \<and> retainCount m' = retainCount m \<and> (distinct (map fst (sm_files m)) \<longrightarrow> distinct (map fst (sm_files m')))
    \<and> map_of (sm_files m') = (\<lambda>f. if \<exists>s \<in> set ss. f = sID s @ ''.snap'' \<or> f = sID s @ ''.snap.meta'' then None else map_of (sm_files m) f)"
  using assms
proof (induction ss arbitrary: m)
  case (Cons s ss)
  let ?m = "m\<lparr>sm_files := map_del (sID s @ ''.snap.meta'') (map_del (sID s @ ''.snap'') (sm_files m))\<rparr>"
  have "Delete_snap (sID s) m = (None, ?m)" using Cons.prems by (simp add: Delete_snap_def)
  moreover obtain m' where "delete_all ss ?m = (None, m')" "retainCount m' = retainCount m" "distinct (map fst (sm_files ?m)) \<longrightarrow> distinct (map fst (sm_files m'))"
    "map_of (sm_files m') = (\<lambda>f. if \<exists>s \<in> set ss. f = sID s @ ''.snap'' \<or> f = sID s @ ''.snap.meta'' then None else map_of (sm_files ?m) f)"
    using Cons.IH [of ?m] Cons.prems by (auto simp del: distinct_map_del)
  ultimately show ?case by (auto simp: fun_eq_iff)
qed simp

end
