(* ===== verification/Snapshot_Properties.thy ===== *)
theory Snapshot_Properties
  imports Snapshot_Facts "HOL-Library.Multiset"
begin

text \<open>
  Properties of snapshots: what is written is read back, a snapshot is visible only when it is complete, and pruning keeps
  the newest ones.
\<close>

section \<open>A concrete archive\<close>

definition snap_at :: "int \<Rightarrow> snapshot" where
  "snap_at n = \<lparr>sID = ''snap_'' @ show_int n, sTimestamp = n, sVersion = 0, sCollections = [''a''], sSize = 0, sPath = ''snap_'' @ show_int n @ ''.snap''\<rparr>"

definition plain_arch :: "(nat, nat) arch" where
  "plain_arch = \<lparr>a_gzip = id, a_gunzip = Some, a_config = (\<lambda>n. Some (replicate n 0)), a_parse = Some \<circ> length,
     a_payload = (\<lambda>p. if p = None then Some [0] else None), a_read_payload = (\<lambda>bs. Some None),
     a_meta = (\<lambda>s. [word_of_int (sTimestamp s)]), a_read_meta = (\<lambda>bs. case bs of [b] \<Rightarrow> Some (snap_at (uint b)) | _ \<Rightarrow> None),
     a_sort = sort_key (\<lambda>s. - sTimestamp s), a_max_points = 100\<rparr>"

lemma show_small: "show_int 3 = ''3''" "show_int 7 = ''7''"
  by code_simp+

definition sample_data :: "nat collection_data" where
  "sample_data = \<lparr>cdConfig = 3, cdPoints = [\<lparr>pdID = ''p'', pdVector = [1, 2], pdPayload = None\<rparr>]\<rparr>"

lemma plain_arch_ok: "arch_ok plain_arch id"
  by (simp add: arch_ok_def plain_arch_def)

section \<open>Round trip\<close>

text \<open>C37: A finished snapshot is read back: the reader finds as many collections as were written, in the order in which they were
  written, with their configurations and points, if JSON and gzip read what they wrote and memory can be allocated for the
  points.\<close>

theorem snapshot_roundtrip:
  assumes A: "arch_ok A g" and cs: "\<forall>c \<in> set cs. allocatable A (snd c)" and now: "0 \<le> now" "now < 2 ^ 63"
    and w0: "CreateSnapshot now stamp names m = (w0, m0)" and w1: "WriteHeader 1 (length cs) w0 = (None, w1)"
    and w2: "write_all A cs w1 = (None, w2)" and fin: "Finish A w2 m0 = (snap, m1)"
  shows "\<exists>r. OpenSnapshot A (sID snap) m1 = Inr r \<and> unat (NumCollections r) = length cs
    \<and> read_all A (unat (NumCollections r)) r = Ok (map (\<lambda>(n, d). (n, shown_data g d)) cs)"
  using snapshot_reads [OF assms] .

theorem snapshot_roundtrip_witness:
  "\<exists>w1 w2 snap m1 r. WriteHeader 1 1 (fst (CreateSnapshot 7 7 [''a''] \<lparr>sm_files = [], retainCount = 5\<rparr>)) = (None, w1)
    \<and> write_all plain_arch [(''a'', sample_data)] w1 = (None, w2)
    \<and> Finish plain_arch w2 (snd (CreateSnapshot 7 7 [''a''] \<lparr>sm_files = [], retainCount = 5\<rparr>)) = (snap, m1)
    \<and> OpenSnapshot plain_arch (sID snap) m1 = Inr r \<and> read_all plain_arch (unat (NumCollections r)) r = Ok [(''a'', sample_data)]"
proof -
  let ?m = "\<lparr>sm_files = [], retainCount = 5\<rparr>"
  obtain w0 m0 where w0: "CreateSnapshot 7 7 [''a''] ?m = (w0, m0)" by (rule prod.exhaust)
  obtain w1 where w1: "WriteHeader 1 1 w0 = (None, w1)" by (simp add: WriteHeader_def fits32_def MaxUint32_def)
  then have hw: "headerWritten w1" using WriteHeader_read [OF w1] by blast
  obtain w2 where w2: "write_all plain_arch [(''a'', sample_data)] w1 = (None, w2)"
    using hw by (simp add: WriteCollection_def sample_data_def plain_arch_def writePoint_def snap_chunk_def write_json_def encode_str_def encode_vec_def
        fits16_def fits32_def MaxUint16_def MaxUint32_def str_bytes_def)
  obtain snap m1 where fin: "Finish plain_arch w2 m0 = (snap, m1)" by (rule prod.exhaust)
  have al: "\<forall>c \<in> set [(''a'', sample_data)]. allocatable plain_arch (snd c)" by (simp add: allocatable_def sample_data_def plain_arch_def)
  have sh: "shown_data id sample_data = sample_data" by (simp add: shown_data_def)
  have "WriteHeader 1 (length [(''a'', sample_data)]) w0 = (None, w1)" using w1 by simp
  from snapshot_roundtrip [OF plain_arch_ok al _ _ w0 this w2 fin] w0 w1 w2 fin show ?thesis by (simp add: sh) blast
qed

section \<open>Publication\<close>

text \<open>C5: A snapshot is visible only when it is complete: if the process stops after any number of the file system calls of \<open>Finish\<close>, the
  directory lists the snapshots it listed before and, only after the last call, the new one, whose archive is then
  complete; no existing file is changed.\<close>

theorem snapshot_publish:
  assumes d: "distinct (map fst (sm_files m))" and w0: "CreateSnapshot now stamp names m = (w0, m0)"
    and w: "tmpPath w = tmpPath w0" "finalPath w = finalPath w0" and meta: "a_read_meta A (a_meta A (finished A w)) = Some (finished A w)"
    and fresh: "\<forall>ext \<in> {''.snap'', ''.snap.tmp'', ''.snap.meta'', ''.snap.meta.tmp''}. map_of (sm_files m) (''snap_'' @ show_int now @ ext) = None"
  defines "dir \<equiv> \<lambda>k. fold fs_run (take k (finish_calls A w)) (sm_files m0)"
  shows "(\<forall>k s. s \<in> set (list_metas A (dir k)) \<longleftrightarrow> s \<in> set (list_metas A (sm_files m)) \<or> (4 \<le> k \<and> s = finished A w))
    \<and> (\<forall>k. 4 \<le> k \<longrightarrow> map_of (dir k) (finalPath w) = Some (a_gzip A (w_bytes w)))
    \<and> (\<forall>k f. map_of (sm_files m) f \<noteq> None \<longrightarrow> map_of (dir k) f = map_of (sm_files m) f)"
proof -
  define i where "i = ''snap_'' @ show_int now"
  have m0: "sm_files m0 = map_set (i @ ''.snap.tmp'') [] (sm_files m)" and p: "tmpPath w = i @ ''.snap.tmp''" "finalPath w = i @ ''.snap''"
    using w0 w by (auto simp: CreateSnapshot_def Let_def i_def)
  have dm: "distinct (map fst (sm_files m0))" using d by (simp add: m0)
  have fr: "map_of (sm_files m) (i @ ''.snap'') = None" "map_of (sm_files m) (i @ ''.snap.tmp'') = None"
    "map_of (sm_files m) (i @ ''.snap.meta'') = None" "map_of (sm_files m) (i @ ''.snap.meta.tmp'') = None" using fresh by (simp_all add: i_def)
  let ?f = "map_of (sm_files m)" and ?z = "a_gzip A (w_bytes w)" and ?j = "a_meta A (finished A w)"
  have dir: "map_of (dir 0) = ?f(i @ ''.snap.tmp'' \<mapsto> [])" "map_of (dir 1) = ?f(i @ ''.snap.tmp'' \<mapsto> ?z)"
    "map_of (dir 2) = ?f(i @ ''.snap'' \<mapsto> ?z)" "map_of (dir 3) = ?f(i @ ''.snap'' \<mapsto> ?z, i @ ''.snap.meta.tmp'' \<mapsto> ?j)"
    "map_of (dir 4) = ?f(i @ ''.snap'' \<mapsto> ?z, i @ ''.snap.meta'' \<mapsto> ?j)"
    by (auto simp: dir_def finish_calls_def p m0 fr numeral_eq_Suc fun_eq_iff)
  have big: "dir k = dir 4" if "4 \<le> k" for k using that by (simp add: dir_def finish_calls_def)
  have split: "k = 0 \<or> k = 1 \<or> k = 2 \<or> k = 3 \<or> 4 \<le> k" for k :: nat by linarith
  have dk: "distinct (map fst (dir k))" for k using dm by (simp add: dir_def)
  have small: "set (list_metas A (dir k)) = set (list_metas A (sm_files m))" if "k < 4" for k
    using split [of k] that by (intro list_metas_cong [OF d dk]) (elim disjE; auto simp: dir simp flip: One_nat_def)
  have last: "s \<in> set (list_metas A (dir 4)) \<longleftrightarrow> s \<in> set (list_metas A (sm_files m)) \<or> s = finished A w" for s
  proof
    assume "s \<in> set (list_metas A (dir 4))"
    then obtain f bs where "map_of (dir 4) f = Some bs" "is_meta f" "a_read_meta A bs = Some s" unfolding list_metas_iff [OF dk] by blast
    then show "s \<in> set (list_metas A (sm_files m)) \<or> s = finished A w" using meta unfolding list_metas_iff [OF d]
      by (cases "f = i @ ''.snap.meta''") (auto simp: dir(5) split: if_splits)
  next
    assume s: "s \<in> set (list_metas A (sm_files m)) \<or> s = finished A w"
    have "map_of (dir 4) f = Some bs" if "?f f = Some bs" for f bs using that fr by (auto simp: dir(5))
    moreover have "map_of (dir 4) (i @ ''.snap.meta'') = Some ?j" by (simp add: dir(5))
    ultimately show "s \<in> set (list_metas A (dir 4))"
      using s meta is_meta_names(1) [of i] unfolding list_metas_iff [OF dk] list_metas_iff [OF d] by metis
  qed
  have new: "s \<in> set (list_metas A (dir k)) \<longleftrightarrow> s \<in> set (list_metas A (sm_files m)) \<or> (4 \<le> k \<and> s = finished A w)" for k s
    using small [of k] last [of s] big [of k] by (cases "k < 4") simp_all
  moreover have "map_of (dir k) f = ?f f" if "?f f \<noteq> None" for k f
  proof -
    have "f \<notin> {i @ ''.snap'', i @ ''.snap.tmp'', i @ ''.snap.meta'', i @ ''.snap.meta.tmp''}" using that fr by auto
    then show ?thesis using split [of k] big [of k] by (elim disjE) (simp_all add: dir flip: One_nat_def)
  qed
  moreover have "map_of (dir k) (finalPath w) = Some ?z" if "4 \<le> k" for k by (subst big [OF that]) (simp add: dir(5) p(2))
  ultimately show ?thesis by blast
qed

theorem snapshot_publish_witness:
  "\<exists>w m0. CreateSnapshot 7 7 [''a''] \<lparr>sm_files = [(''snap_3.snap.meta'', [3])], retainCount = 5\<rparr> = (w, m0)
    \<and> set (list_metas plain_arch (fold fs_run (take 3 (finish_calls plain_arch w)) (sm_files m0))) = {snap_at 3}
    \<and> set (list_metas plain_arch (fold fs_run (take 4 (finish_calls plain_arch w)) (sm_files m0))) = {snap_at 3, snap_at 7}"
proof -
  let ?m = "\<lparr>sm_files = [(''snap_3.snap.meta'', [3])], retainCount = 5\<rparr>"
  obtain w m0 where w: "CreateSnapshot 7 7 [''a''] ?m = (w, m0)" by (rule prod.exhaust)
  have f: "finished plain_arch w = snap_at 7" using w by (auto simp: CreateSnapshot_def finished_def plain_arch_def snap_at_def Let_def show_small)
  have meta: "a_read_meta plain_arch (a_meta plain_arch (finished plain_arch w)) = Some (finished plain_arch w)"
    unfolding f by (simp add: plain_arch_def snap_at_def)
  have fr: "\<forall>ext \<in> {''.snap'', ''.snap.tmp'', ''.snap.meta'', ''.snap.meta.tmp''}. map_of (sm_files ?m) (''snap_'' @ show_int 7 @ ext) = None"
    by (simp add: show_small)
  have old: "set (list_metas plain_arch (sm_files ?m)) = {snap_at 3}"
    by (simp add: list_metas_def plain_arch_def is_meta_def HasSuffix_def List.map_filter_simps)
  note p = snapshot_publish [OF _ w refl refl meta fr, THEN conjunct1, rule_format, unfolded f old]
  show ?thesis using w p [of _ 3] p [of _ 4] by (auto simp: set_eq_iff)
qed

section \<open>Pruning\<close>

text \<open>C38: Pruning keeps exactly the first \<open>retainCount\<close> snapshots of the listing, newest first, together with their archives, and
  everything it removes is at most as new as everything it keeps.\<close>

theorem snapshot_prune:
  assumes ok: "dir_ok A (sm_files m)" and r: "0 \<le> retainCount m"
    and srt: "\<forall>xs. mset (a_sort A xs) = mset xs \<and> sorted (map (\<lambda>s. - sTimestamp s) (a_sort A xs))"
  defines "kept \<equiv> take (nat (retainCount m)) (List_snap A m)"
  shows "\<exists>m'. Prune A m = Some (None, m') \<and> set (list_metas A (sm_files m')) = set kept
    \<and> (\<forall>s \<in> set kept. map_of (sm_files m') (sID s @ ''.snap'') = map_of (sm_files m) (sID s @ ''.snap''))
    \<and> (\<forall>s \<in> set kept. \<forall>t \<in> set (list_metas A (sm_files m)) - set kept. sTimestamp t \<le> sTimestamp s)"
proof -
  let ?l = "List_snap A m" and ?n = "nat (retainCount m)"
  have d: "distinct (map fst (sm_files m))" using ok by (simp add: dir_ok_def)
  note ids = dir_ok_ids [OF ok]
  have ms: "mset ?l = mset (list_metas A (sm_files m))" "sorted (map (\<lambda>s. - sTimestamp s) ?l)" using srt by (simp_all add: List_snap_def)
  then have l: "set ?l = set (list_metas A (sm_files m))" "distinct ?l" using ids(2) by (metis set_mset_mset, metis mset_eq_imp_distinct_iff)
  have tl: "sTimestamp t \<le> sTimestamp s" if "s \<in> set (take ?n ?l)" "t \<in> set (drop ?n ?l)" for s t
    using that ms(2) sorted_append [of "map (\<lambda>s. - sTimestamp s) (take ?n ?l)" "map (\<lambda>s. - sTimestamp s) (drop ?n ?l)"]
    by (simp flip: map_append)
  have parts: "set (list_metas A (sm_files m)) = set kept \<union> set (drop ?n ?l)" "set kept \<inter> set (drop ?n ?l) = {}"
    using l set_append [of "take ?n ?l" "drop ?n ?l"] set_take_disj_set_drop_if_distinct [OF l(2), of ?n ?n] by (simp_all add: kept_def)
  have old: "\<forall>s \<in> set kept. \<forall>t \<in> set (list_metas A (sm_files m)) - set kept. sTimestamp t \<le> sTimestamp s"
    using tl parts by (auto simp: kept_def)
  show ?thesis
  proof (cases "int (length ?l) \<le> retainCount m")
    case True
    then have "kept = ?l" "Prune A m = Some (None, m)" using r by (simp_all add: kept_def Prune_def Let_def)
    with l old show ?thesis by simp
  next
    case False
    have v: "\<forall>s \<in> set (drop ?n ?l). validateSnapshotID (sID s) = None" using ids(3) parts by blast
    from delete_all_files [OF v, of m] obtain m' where m': "delete_all (drop ?n ?l) m = (None, m')" "distinct (map fst (sm_files m'))"
      "map_of (sm_files m') = (\<lambda>f. if \<exists>s \<in> set (drop ?n ?l). f = sID s @ ''.snap'' \<or> f = sID s @ ''.snap.meta'' then None else map_of (sm_files m) f)"
      using d by blast
    have p: "Prune A m = Some (None, m')" using False r m'(1) by (simp add: Prune_def Let_def)
    have neq: "sID s \<noteq> sID t" if "s \<in> set kept" "t \<in> set (drop ?n ?l)" for s t using that parts ids(1) by (auto dest: inj_onD)
    have meta_file: "f = sID s @ ''.snap.meta''" if "map_of (sm_files m) f = Some bs" "is_meta f" "a_read_meta A bs = Some s" for f bs s
      using ok that by (simp add: dir_ok_def)
    have "s \<in> set (list_metas A (sm_files m')) \<longleftrightarrow> s \<in> set kept" for s
    proof
      assume "s \<in> set (list_metas A (sm_files m'))"
      then obtain f bs where f: "map_of (sm_files m') f = Some bs" "is_meta f" "a_read_meta A bs = Some s" unfolding list_metas_iff [OF m'(2)] by blast
      then have g: "map_of (sm_files m) f = Some bs" "\<forall>t \<in> set (drop ?n ?l). f \<noteq> sID t @ ''.snap.meta''" by (auto simp: m'(3) split: if_splits)
      then have "s \<in> set (list_metas A (sm_files m))" unfolding list_metas_iff [OF d] using f by blast
      then show "s \<in> set kept" using parts(1) g(2) meta_file [OF g(1) f(2,3)] by blast
    next
      assume s: "s \<in> set kept"
      then obtain f bs where f: "map_of (sm_files m) f = Some bs" "is_meta f" "a_read_meta A bs = Some s"
        using parts(1) list_metas_iff [OF d, of s A] by blast
      then have "map_of (sm_files m') f = Some bs" using meta_file [OF f] neq [OF s] by (auto simp: m'(3))
      then show "s \<in> set (list_metas A (sm_files m'))" unfolding list_metas_iff [OF m'(2)] using f by blast
    qed
    moreover have "map_of (sm_files m') (sID s @ ''.snap'') = map_of (sm_files m) (sID s @ ''.snap'')" if "s \<in> set kept" for s
      using neq [OF that] by (auto simp: m'(3))
    ultimately show ?thesis using p old by blast
  qed
qed

theorem snapshot_prune_witness:
  "\<exists>m'. Prune plain_arch \<lparr>sm_files = [(''snap_3.snap.meta'', [3]), (''snap_7.snap.meta'', [7])], retainCount = 1\<rparr> = Some (None, m')
    \<and> set (list_metas plain_arch (sm_files m')) = {snap_at 7}"
proof -
  let ?m = "\<lparr>sm_files = [(''snap_3.snap.meta'', [3]), (''snap_7.snap.meta'', [7])], retainCount = 1\<rparr>"
  have r: "a_read_meta plain_arch [b] = Some (snap_at (uint b))" for b by (simp add: plain_arch_def)
  have t: "sTimestamp (snap_at n) = n" "sID (snap_at n) = ''snap_'' @ show_int n" for n by (simp_all add: snap_at_def)
  have "validateSnapshotID ''snap_3'' = None" "validateSnapshotID ''snap_7'' = None"
    using snap_id_valid [of 3] snap_id_valid [of 7] by (simp_all add: show_small)
  then have ok: "dir_ok plain_arch (sm_files ?m)" by (auto simp: dir_ok_def r t show_small split: if_splits)
  have srt: "\<forall>xs. mset (a_sort plain_arch xs) = mset xs \<and> sorted (map (\<lambda>s. - sTimestamp s) (a_sort plain_arch xs))" by (simp add: plain_arch_def)
  have "list_metas plain_arch (sm_files ?m) = [snap_at 3, snap_at 7]"
    by (simp add: list_metas_def r is_meta_def HasSuffix_def List.map_filter_simps)
  then have "take (nat (retainCount ?m)) (List_snap plain_arch ?m) = [snap_at 7]" by (simp add: List_snap_def plain_arch_def t)
  with snapshot_prune [OF ok _ srt] show ?thesis by auto
qed

end
