(* ===== verification/Collection_Snapshot.thy ===== *)
theory Collection_Snapshot
  imports Collection_Scroll Snapshot_Facts
begin

text \<open>
  Snapshots of all collections, \<open>CreateSnapshot\<close> and \<open>RestoreSnapshot\<close> of \<open>pkg/collection/manager.go\<close>, and what a restore
  brings back. The JSON form of a configuration passes through an untyped value; \<open>to_config\<close> is the conversion of that
  value to the struct. A panic is \<open>None\<close>.
\<close>

section \<open>Writing\<close>

definition point_data_of :: "u32 point \<Rightarrow> point_data" where
  "point_data_of p = \<lparr>pdID = pID p, pdVector = pVector p, pdPayload = pPayload p\<rparr>"

text \<open>The points that \<open>Collection.Iterate\<close> passes to the callback; an error ends the iteration and is ignored.\<close>

definition export_points :: "(u32, 'd) hnsw \<Rightarrow> point_data list option" where
  "export_points h = (case Iterate (\<lambda>ps i. case Get i h of Ok p \<Rightarrow> Inr (ps @ [point_data_of p]) | Err e \<Rightarrow> Inl True | Panic \<Rightarrow> Inl False) h [] of
     (Some False, ps) \<Rightarrow> None | (_, ps) \<Rightarrow> Some ps)"

fun snapshot_loop :: "(coll_config, 'j) arch \<Rightarrow> (string \<times> ('d, 's, 'x) collection) list \<Rightarrow> snap_writer \<Rightarrow> (snap_error option \<times> snap_writer) option" where
  "snapshot_loop A [] w = Some (None, w)"
| "snapshot_loop A ((name, c) # cs) w = (case index c of None \<Rightarrow> None
     | Some h \<Rightarrow> (case export_points h of None \<Rightarrow> None
       | Some ps \<Rightarrow> (case WriteCollection A name \<lparr>cdConfig = co_config c, cdPoints = ps\<rparr> w of
           (Some e, w') \<Rightarrow> Some (Some e, w') | (None, w') \<Rightarrow> snapshot_loop A cs w')))"

definition CreateSnapshot_mgr :: "(coll_config, 'j) arch \<Rightarrow> int \<Rightarrow> int \<Rightarrow> ('d, 's, 'x) manager \<Rightarrow> snap_manager
    \<Rightarrow> ((snap_error + snapshot) \<times> snap_manager) option" where
  "CreateSnapshot_mgr A now stamp m sm = (case CreateSnapshot now stamp (List_mgr m) sm of (w0, sm0) \<Rightarrow>
     case WriteHeader 1 (length (m_collections m)) w0 of
       (Some e, w1) \<Rightarrow> Some (Inl e, Cancel w1 sm0)
     | (None, w1) \<Rightarrow> (case snapshot_loop A (m_collections m) w1 of None \<Rightarrow> None
       | Some (Some e, w2) \<Rightarrow> Some (Inl e, Cancel w2 sm0)
       | Some (None, w2) \<Rightarrow> (case Finish A w2 sm0 of (snap, sm1) \<Rightarrow> Some (Inr snap, sm1))))"

section \<open>Restoring\<close>

datatype restore_error = RestoreOpen snap_error | RestoreRead decode_error | RestoreConfig | RestoreCreate coll_error
  | RestoreName name_error | RestoreDir

text \<open>\<open>os.WriteFile\<close> fails if the directory of the collection does not exist; only \<open>Create\<close> makes it.\<close>

definition restore_save :: "coll_config \<Rightarrow> ('d, 's, 'x) manager \<Rightarrow> restore_error option \<times> ('d, 's, 'x) manager" where
  "restore_save cfg m = (case validateName (ccName cfg) of Some e \<Rightarrow> (Some (RestoreName e), m)
     | None \<Rightarrow> if map_of (m_disk m) (ccName cfg) = None then (Some RestoreDir, m)
       else (None, snd (saveMetadata cfg m)))"

fun restore_points :: "('d :: linorder, 's, 'x) lib \<Rightarrow> (nat \<Rightarrow> nat) \<Rightarrow> point_data list \<Rightarrow> ('d, 's, 'x) collection \<times> wal
    \<Rightarrow> (('d, 's, 'x) collection \<times> wal) option" where
  "restore_points L clk [] cw = Some cw"
| "restore_points L clk (p # ps) cw = (case Insert_coll L clk (NewPointWithID (pdID p) (pdVector p) (pdPayload p)) cw of
     None \<Rightarrow> None | Some (e, cw') \<Rightarrow> restore_points L clk ps cw')"

fun restore_loop :: "('d :: linorder, 's, 'x) lib \<Rightarrow> (nat \<Rightarrow> nat) \<Rightarrow> (coll_config, 'j) arch \<Rightarrow> ('j \<Rightarrow> coll_config option) \<Rightarrow> 'x \<Rightarrow> nat \<Rightarrow> snap_reader
    \<Rightarrow> ('d, 's, 'x) manager \<times> wal \<Rightarrow> (restore_error option \<times> ('d, 's, 'x) manager \<times> wal) option" where
  "restore_loop L clk A to_config pix 0 r mw = Some (None, mw)"
| "restore_loop L clk A to_config pix (Suc n) r mw = (case mw of (m, w) \<Rightarrow>
     case ReadCollection A r of Panic \<Rightarrow> None | Err e \<Rightarrow> Some (Some (RestoreRead e), m, w)
     | Ok ((name, d), r') \<Rightarrow> (case to_config (cdConfig d) of None \<Rightarrow> Some (Some RestoreConfig, m, w)
       | Some cfg \<Rightarrow> (case New_collection L pix cfg of Inl e \<Rightarrow> Some (Some (RestoreCreate e), m, w)
         | Inr c \<Rightarrow> (case restore_points L clk (cdPoints d) (c, w) of None \<Rightarrow> None
           | Some (c', w') \<Rightarrow> (case restore_save cfg (m\<lparr>m_collections := map_set name c' (m_collections m)\<rparr>) of
               (Some e, m') \<Rightarrow> Some (Some e, m', w')
             | (None, m') \<Rightarrow> restore_loop L clk A to_config pix n r' (m', w'))))))"

definition RestoreSnapshot_mgr :: "('d :: linorder, 's, 'x) lib \<Rightarrow> (nat \<Rightarrow> nat) \<Rightarrow> (coll_config, 'j) arch \<Rightarrow> ('j \<Rightarrow> coll_config option) \<Rightarrow> 'x \<Rightarrow> snap_manager \<Rightarrow> string
    \<Rightarrow> ('d, 's, 'x) manager \<times> wal \<Rightarrow> (restore_error option \<times> ('d, 's, 'x) manager \<times> wal) option" where
  "RestoreSnapshot_mgr L clk A to_config pix sm i mw = (case OpenSnapshot A i sm of Inl e \<Rightarrow> Some (Some (RestoreOpen e), mw)
     | Inr r \<Rightarrow> restore_loop L clk A to_config pix (unat (NumCollections r)) r mw)"

section \<open>Exported points\<close>

lemma iterate_export:
  assumes "\<forall>n \<in> set ns. \<not> deleted n \<longrightarrow> Get (nodeID n) h = Ok (pt n)"
  shows "iterate_nodes (\<lambda>ps i. case Get i h of Ok p \<Rightarrow> Inr (ps @ [f p]) | Err e \<Rightarrow> Inl True | Panic \<Rightarrow> Inl False) ns acc
    = (None, acc @ map (\<lambda>n. f (pt n)) (filter (\<lambda>n. \<not> deleted n) ns))"
  using assms by (induction ns arbitrary: acc) auto

lemma export_points_all: "hnsw_inv h \<Longrightarrow> export_points h = Some (map point_data_of (GetAllPoints h))"
proof -
  assume h: "hnsw_inv h"
  let ?pt = "\<lambda>n. \<lparr>pID = nodeID n, pVector = Vector n, pPayload = GetPayload n\<rparr>"
  have "\<forall>n \<in> set (nodes h). \<not> deleted n \<longrightarrow> Get (nodeID n) h = Ok (?pt n)"
  proof (intro ballI impI)
    fix n assume "n \<in> set (nodes h)" "\<not> deleted n"
    then have "?pt n \<in> set (GetAllPoints h)" by (auto simp: GetAllPoints_def)
    then show "Get (nodeID n) h = Ok (?pt n)" unfolding GetAllPoints_ids(2) [OF h] by simp
  qed
  from iterate_export [where f = point_data_of and acc = "[]", OF this] show ?thesis
    by (simp add: export_points_def Iterate_def GetAllPoints_def comp_def)
qed

definition exported :: "('d, 's, 'x) collection \<Rightarrow> coll_config collection_data" where
  "exported c = \<lparr>cdConfig = co_config c, cdPoints = (case index c of None \<Rightarrow> [] | Some h \<Rightarrow> map point_data_of (GetAllPoints h))\<rparr>"

lemma snapshot_loop_all:
  "\<forall>x \<in> set cs. coll_inv (snd x) \<Longrightarrow> snapshot_loop A cs w = Some (write_all A (map (\<lambda>(n, c). (n, exported c)) cs) w)"
proof (induction cs arbitrary: w)
  case (Cons x cs)
  obtain name c where x: "x = (name, c)" by (cases x)
  with Cons.prems obtain h where h: "index c = Some h" "hnsw_inv h" by (auto simp: coll_inv_def)
  then show ?case using Cons x export_points_all [OF h(2)] by (auto simp: exported_def split: prod.split option.split)
qed simp

lemma exported_points:
  assumes "coll_inv c"
  shows "distinct (map pdID (cdPoints (exported c)))"
    "p \<in> set (cdPoints (exported c)) \<longleftrightarrow> Get_coll (pdID p) c = Ok \<lparr>pID = pdID p, pVector = pdVector p, pPayload = pdPayload p\<rparr>"
    "length (cdPoints (exported c)) \<le> load c"
proof -
  obtain h where h: "index c = Some h" "hnsw_inv h" using assms by (auto simp: coll_inv_def)
  note g = GetAllPoints_ids [OF h(2)]
  have e: "cdPoints (exported c) = map point_data_of (GetAllPoints h)" by (simp add: exported_def h(1))
  show "distinct (map pdID (cdPoints (exported c)))" using g(1) by (simp add: e comp_def point_data_of_def)
  show "length (cdPoints (exported c)) \<le> load c" by (simp add: e load_def h(1) GetAllPoints_def le_trans [OF length_filter_le])
  let ?q = "\<lparr>pID = pdID p, pVector = pdVector p, pPayload = pdPayload p\<rparr>"
  have eta: "\<lparr>pID = pID x, pVector = pVector x, pPayload = pPayload x\<rparr> = x" for x :: "u32 point" by (cases x) simp
  have "p \<in> set (cdPoints (exported c)) \<longleftrightarrow> ?q \<in> set (GetAllPoints h)"
    by (auto simp: e point_data_of_def image_iff eta intro!: bexI [of _ ?q])
  then show "p \<in> set (cdPoints (exported c)) \<longleftrightarrow> Get_coll (pdID p) c = Ok ?q" unfolding g(2) by (simp add: Get_coll_def h(1))
qed

section \<open>Restored points\<close>

text \<open>A point that a restore inserts as it was exported.\<close>

definition restorable :: "('d, 's, 'x) lib \<Rightarrow> coll_config \<Rightarrow> point_data \<Rightarrow> bool" where
  "restorable L cfg p \<longleftrightarrow> Validate_point (NewPointWithID (pdID p) (pdVector p) (pdPayload p)) = None \<and> pdVector p \<noteq> []
     \<and> int (length (pdVector p)) = ccDimension cfg \<and> (ccMetric cfg = MetricCosine \<longrightarrow> l_normalize L (pdVector p) = pdVector p)"

lemma restore_points_all:
  assumes "lib_ok L" and "coll_inv c" and "\<not> has_wal c" and "load c + length ps \<le> MaxNodes" and "\<forall>p \<in> set ps. restorable L (co_config c) p"
    and "distinct (map pdID ps)" and "pdID ` set ps \<inter> snd (abs_of c) = {}"
  shows "\<exists>c'. restore_points L clk ps (c, w) = Some (c', w) \<and> coll_inv c' \<and> co_config c' = co_config c \<and> \<not> has_wal c' \<and> load c' \<le> load c + length ps
    \<and> fst (abs_of c') = (\<lambda>i. case find (\<lambda>p. pdID p = i) ps of Some p \<Rightarrow> Some \<lparr>pID = i, pVector = pdVector p, pPayload = pdPayload p\<rparr> | None \<Rightarrow> fst (abs_of c) i)"
  using assms(2-)
proof (induction ps arbitrary: c)
  case (Cons p ps)
  let ?p = "NewPointWithID (pdID p) (pdVector p) (pdPayload p)"
  have r: "Validate_point ?p = None" "pdVector p \<noteq> []" "int (length (pdVector p)) = ccDimension (co_config c)"
    "ccMetric (co_config c) = MetricCosine \<longrightarrow> l_normalize L (pdVector p) = pdVector p" using Cons.prems(4) by (auto simp: restorable_def)
  have f: "ptID ?p = pdID p" "ptVector ?p = pdVector p" "ptPayload ?p = pdPayload p" "sparse_fits ?p"
    by (simp_all add: NewPointWithID_def zero_point_def sparse_fits_def)
  have st: "stored_point L (co_config c) ?p = \<lparr>pID = pdID p, pVector = pdVector p, pPayload = pdPayload p\<rparr>"
    using r(4) by (simp add: stored_point_def index_point_def f)
  have ld: "load c < MaxNodes" using Cons.prems(3) by simp
  from insertInternal_moves [OF assms(1) Cons.prems(1) ld f(4)] obtain c1 where c1: "insertInternal L ?p c = Some (None, c1)"
    "moves c (abs_insert L (co_config c) ?p (abs_of c)) c1" using f r(2,3) Cons.prems(6) by auto
  have ins: "Insert_coll L clk ?p (c, w) = Some (None, drop_cache c1, w)"
    using r(1) c1(1) Cons.prems(2) by (simp add: Insert_coll_def log_point_def)
  have m: "moves c (abs_insert L (co_config c) ?p (abs_of c)) (drop_cache c1)" using c1(2) by simp
  then have k: "coll_inv (drop_cache c1)" "co_config (drop_cache c1) = co_config c" "\<not> has_wal (drop_cache c1)" "load (drop_cache c1) \<le> Suc (load c)"
    "abs_of (drop_cache c1) = ((fst (abs_of c))(pdID p \<mapsto> \<lparr>pID = pdID p, pVector = pdVector p, pPayload = pdPayload p\<rparr>), insert (pdID p) (snd (abs_of c)))"
    using Cons.prems(2,6) f r(2,3) st by (auto simp: moves_def abs_insert_def)
  have "\<exists>c'. restore_points L clk ps (drop_cache c1, w) = Some (c', w) \<and> coll_inv c' \<and> co_config c' = co_config (drop_cache c1) \<and> \<not> has_wal c' \<and> load c' \<le> load (drop_cache c1) + length ps
    \<and> fst (abs_of c') = (\<lambda>i. case find (\<lambda>p. pdID p = i) ps of Some p \<Rightarrow> Some \<lparr>pID = i, pVector = pdVector p, pPayload = pdPayload p\<rparr>
        | None \<Rightarrow> fst (abs_of (drop_cache c1)) i)"
    using k Cons.prems by (intro Cons.IH) auto
  moreover have "find (\<lambda>q. pdID q = pdID p) ps = None" using Cons.prems(5) by (auto simp: find_None_iff image_iff)
  ultimately show ?case using ins k(2,4,5) by (auto simp: fun_eq_iff split: option.split)
qed (simp add: assms)

lemma New_no_wal: "New_collection L pix cfg = Inr c \<Longrightarrow> \<not> has_wal c"
  by (auto simp: New_collection_def Let_def split: option.splits sum.splits if_splits)

text \<open>A collection that a snapshot can bring back.\<close>

definition archivable :: "('d :: linorder, 's, 'x) lib \<Rightarrow> 'x \<Rightarrow> ('j \<Rightarrow> coll_config option) \<Rightarrow> (coll_config \<Rightarrow> 'j) \<Rightarrow> string \<Rightarrow> ('d, 's, 'x) collection \<Rightarrow> bool" where
  "archivable L pix to_config g name c \<longleftrightarrow> coll_inv c \<and> name = ccName (co_config c) \<and> validateName name = None
     \<and> (\<exists>c0. New_collection L pix (co_config c) = Inr c0) \<and> load c \<le> MaxNodes \<and> to_config (g (co_config c)) = Some (co_config c)
     \<and> (\<forall>p \<in> set (cdPoints (exported c)). restorable L (co_config c) p)"

lemma restore_collection:
  assumes "lib_ok L" and a: "archivable L pix to_config g name c"
  shows "\<exists>c0 c'. New_collection L pix (co_config c) = Inr c0 \<and> restore_points L clk (cdPoints (exported c)) (c0, w) = Some (c', w)
    \<and> \<not> has_wal c' \<and> (\<forall>i. Get_coll i c' = Get_coll i c)"
proof -
  let ?ps = "cdPoints (exported c)"
  have c: "coll_inv c" "load c \<le> MaxNodes" "\<not> HasNamedVectors (co_config c)" using a by (auto simp: archivable_def coll_inv_def)
  obtain c0 where c0: "New_collection L pix (co_config c) = Inr c0" using a by (auto simp: archivable_def)
  note n = New_collection_inv [OF c0 c(3)] New_no_wal [OF c0]
  note e = exported_points [OF c(1)]
  have "\<exists>c'. restore_points L clk ?ps (c0, w) = Some (c', w) \<and> coll_inv c' \<and> co_config c' = co_config c0 \<and> \<not> has_wal c' \<and> load c' \<le> load c0 + length ?ps
    \<and> fst (abs_of c') = (\<lambda>i. case find (\<lambda>p. pdID p = i) ?ps of Some p \<Rightarrow> Some \<lparr>pID = i, pVector = pdVector p, pPayload = pdPayload p\<rparr> | None \<Rightarrow> fst (abs_of c0) i)"
    using n e(1,3) c(2) a by (intro restore_points_all [OF assms(1)]) (auto simp: archivable_def)
  then obtain c' where c': "restore_points L clk ?ps (c0, w) = Some (c', w)" "coll_inv c'" "\<not> has_wal c'"
    "fst (abs_of c') = (\<lambda>i. case find (\<lambda>p. pdID p = i) ?ps of Some p \<Rightarrow> Some \<lparr>pID = i, pVector = pdVector p, pPayload = pdPayload p\<rparr> | None \<Rightarrow> fst (abs_of c0) i)"
    by blast
  have ab: "fst (abs_of c0) i = None" for i using n(1) by simp
  have "Get_coll i c' = Get_coll i c" for i
  proof (cases "find (\<lambda>p. pdID p = i) ?ps")
    case (Some p)
    then have "p \<in> set ?ps" "pdID p = i" by (auto simp: find_Some_iff)
    with e(2) [of p] have "Get_coll i c = Ok \<lparr>pID = i, pVector = pdVector p, pPayload = pdPayload p\<rparr>" by simp
    then show ?thesis using Get_of_abs [OF c'(2), of i] Some by (simp add: c'(4) ab)
  next
    case None
    then have no: "\<forall>p \<in> set ?ps. pdID p \<noteq> i" by (auto simp: find_None_iff)
    have "Get_coll i c = Err ErrPointNotFound"
    proof (cases "fst (abs_of c) i")
      case (Some q)
      then have g: "Get_coll i c = Ok q" using Get_of_abs [OF c(1), of i] by simp
      then have "pID q = i" using c(1) by (auto simp: Get_coll_def Get_def coll_inv_def hnsw_inv_def index_ok_def go_index_def split: option.splits if_splits)
      then have "point_data_of q \<in> set ?ps" using g e(2) [of "point_data_of q"] by (cases q) (simp add: point_data_of_def)
      then show ?thesis using no \<open>pID q = i\<close> by (auto simp: point_data_of_def)
    qed (use Get_of_abs [OF c(1), of i] in simp)
    then show ?thesis using Get_of_abs [OF c'(2), of i] None by (simp add: c'(4) ab)
  qed
  then show ?thesis using c0 c'(1,3) by blast
qed

lemma restore_loop_all:
  assumes L: "lib_ok L"
  shows "read_all A (length cs) r = Ok (map (\<lambda>(n, c). (n, shown_data g (exported c))) cs) \<Longrightarrow> \<forall>x \<in> set cs. archivable L pix to_config g (fst x) (snd x)
    \<Longrightarrow> \<forall>x \<in> set cs. map_of (m_disk m) (fst x) \<noteq> None \<Longrightarrow> distinct (map fst cs)
    \<Longrightarrow> \<exists>m'. restore_loop L clk A to_config pix (length cs) r (m, w) = Some (None, m', w)
      \<and> (\<forall>x \<in> set cs. \<exists>c'. Get_mgr (fst x) m' = Inr c' \<and> \<not> has_wal c' \<and> (\<forall>i. Get_coll i c' = Get_coll i (snd x)))
      \<and> (\<forall>n. n \<notin> fst ` set cs \<longrightarrow> Get_mgr n m' = Get_mgr n m) \<and> m_has_wal m' = m_has_wal m"
proof (induction cs arbitrary: m r)
  case (Cons x cs)
  obtain name c where x: "x = (name, c)" by (cases x)
  have a: "archivable L pix to_config g name c" using Cons.prems(2) x by simp
  from Cons.prems(1) obtain r' where r': "ReadCollection A r = Ok ((name, shown_data g (exported c)), r')"
    "read_all A (length cs) r' = Ok (map (\<lambda>(n, c). (n, shown_data g (exported c))) cs)"
    by (auto simp: x split: outcome.splits prod.splits)
  from restore_collection [OF L a, of clk w] obtain c0 c' where c': "New_collection L pix (co_config c) = Inr c0"
    "restore_points L clk (cdPoints (exported c)) (c0, w) = Some (c', w)" "\<not> has_wal c'" "\<forall>i. Get_coll i c' = Get_coll i c" by blast
  have cfg: "to_config (g (co_config c)) = Some (co_config c)" "validateName name = None" "ccName (co_config c) = name" using a by (auto simp: archivable_def)
  let ?m1 = "m\<lparr>m_collections := map_set name c' (m_collections m)\<rparr>"
  let ?m = "?m1\<lparr>m_disk := map_set name (co_config c) (m_disk m)\<rparr>"
  have sv: "restore_save (co_config c) ?m1 = (None, ?m)" using cfg Cons.prems(3) x by (simp add: restore_save_def saveMetadata_def)
  have step: "restore_loop L clk A to_config pix (length (x # cs)) r (m, w) = restore_loop L clk A to_config pix (length cs) r' (?m, w)"
    using r'(1) c'(1,2) cfg sv by (simp add: shown_data_def exported_def)
  have "\<forall>y \<in> set cs. archivable L pix to_config g (fst y) (snd y)" "\<forall>y \<in> set cs. map_of (m_disk ?m) (fst y) \<noteq> None" "distinct (map fst cs)"
    using Cons.prems by auto
  from Cons.IH [OF r'(2) this] obtain m' where m': "restore_loop L clk A to_config pix (length cs) r' (?m, w) = Some (None, m', w)"
    "\<forall>x \<in> set cs. \<exists>c'. Get_mgr (fst x) m' = Inr c' \<and> \<not> has_wal c' \<and> (\<forall>i. Get_coll i c' = Get_coll i (snd x))"
    "\<forall>n. n \<notin> fst ` set cs \<longrightarrow> Get_mgr n m' = Get_mgr n ?m" "m_has_wal m' = m_has_wal ?m" by blast
  have "name \<notin> fst ` set cs" using Cons.prems(4) x by simp
  then have "Get_mgr name m' = Inr c'" using m'(3) by (simp add: Get_mgr_def)
  then show ?case using step m' c'(3,4) x by (auto simp: Get_mgr_def)
qed simp

end
