(* ===== verification/Cluster_Fsm.thy ===== *)
theory Cluster_Fsm
  imports Collection_Snapshot
begin

text \<open>
  The replicated state machine, \<open>pkg/cluster/fsm.go\<close>: the commands that Raft has committed are applied to the collections of
  a node. The JSON decoding of a log entry is an argument that gives the command, \<open>CmdBadData\<close> if only the inner data does not decode.
  A panic, which ends the process, is \<open>None\<close>.
\<close>

section \<open>Commands\<close>

datatype fsm_command = CmdSetLeaderRest string | CmdCreateCollection "coll_config option" | CmdDeleteCollection string
  | CmdUpsertPoints string "pt option list" | CmdDeletePoints string "string list" | CmdUnknown string | CmdBadData

datatype fsm_error = FsmBadData | FsmManager manager_error | FsmBatch coll_error | FsmUnknown string | FsmRestore restore_error
  | FsmSnapshot snap_error

datatype apply_result = RNil | RError fsm_error | RBatch batch_result

record ('d, 's, 'x) fsm =
  f_manager :: "('d, 's, 'x) manager"
  f_wal :: wal
  f_snaps :: snap_manager
  f_leader :: "string option"

definition set_collection :: "string \<Rightarrow> ('d, 's, 'x) collection \<Rightarrow> ('d, 's, 'x) manager \<Rightarrow> ('d, 's, 'x) manager" where
  "set_collection name c m = m\<lparr>m_collections := map_set name c (m_collections m)\<rparr>"

fun delete_ids :: "(nat \<Rightarrow> nat) \<Rightarrow> string list \<Rightarrow> ('d, 's, 'x) collection \<times> wal \<Rightarrow> (('d, 's, 'x) collection \<times> wal) option" where
  "delete_ids clk [] cw = Some cw"
| "delete_ids clk (i # is) cw = (case Delete_coll clk i cw of None \<Rightarrow> None | Some (e, cw') \<Rightarrow> delete_ids clk is cw')"

definition fsm_reply :: "manager_error option \<times> ('d, 's, 'x) manager \<Rightarrow> ('d, 's, 'x) fsm \<Rightarrow> apply_result \<times> ('d, 's, 'x) fsm" where
  "fsm_reply em f = (case em of (None, m) \<Rightarrow> (RNil, f\<lparr>f_manager := m\<rparr>) | (Some e, m) \<Rightarrow> (RError (FsmManager e), f\<lparr>f_manager := m\<rparr>))"

fun apply_command :: "('d :: linorder, 's, 'x) lib \<Rightarrow> (nat \<Rightarrow> nat) \<Rightarrow> 'x \<Rightarrow> fsm_command \<Rightarrow> ('d, 's, 'x) fsm \<Rightarrow> (apply_result \<times> ('d, 's, 'x) fsm) option" where
  "apply_command L clk pix (CmdSetLeaderRest a) f = Some (RNil, f\<lparr>f_leader := map_option (\<lambda>_. a) (f_leader f)\<rparr>)"
| "apply_command L clk pix (CmdCreateCollection None) f = None"
| "apply_command L clk pix (CmdCreateCollection (Some cfg)) f =
    (if Exists_mgr (ccName cfg) (f_manager f) then Some (RNil, f) else Some (fsm_reply (Create_mgr L pix cfg (f_manager f)) f))"
| "apply_command L clk pix (CmdDeleteCollection name) f =
    (if Exists_mgr name (f_manager f) then Some (fsm_reply (Delete_mgr name (f_manager f)) f) else Some (RNil, f))"
| "apply_command L clk pix (CmdUpsertPoints name ps) f = (case Get_mgr name (f_manager f) of Inl e \<Rightarrow> Some (RError (FsmManager e), f)
     | Inr c \<Rightarrow> if None \<in> set ps then None
         else (case InsertBatch L clk (map the ps) (c, f_wal f) of None \<Rightarrow> None
           | Some ((e, r), c', w') \<Rightarrow> Some (case e of None \<Rightarrow> RBatch r | Some e \<Rightarrow> RError (FsmBatch e),
               f\<lparr>f_manager := set_collection name c' (f_manager f), f_wal := w'\<rparr>)))"
| "apply_command L clk pix (CmdDeletePoints name ids) f = (case Get_mgr name (f_manager f) of Inl e \<Rightarrow> Some (RError (FsmManager e), f)
     | Inr c \<Rightarrow> (case delete_ids clk ids (c, f_wal f) of None \<Rightarrow> None
         | Some (c', w') \<Rightarrow> Some (RNil, f\<lparr>f_manager := set_collection name c' (f_manager f), f_wal := w'\<rparr>)))"
| "apply_command L clk pix (CmdUnknown op) f = Some (RError (FsmUnknown op), f)"
| "apply_command L clk pix CmdBadData f = Some (RError FsmBadData, f)"

definition Apply :: "(byte list \<Rightarrow> fsm_command option) \<Rightarrow> ('d :: linorder, 's, 'x) lib \<Rightarrow> (nat \<Rightarrow> nat) \<Rightarrow> 'x \<Rightarrow> byte list \<Rightarrow> ('d, 's, 'x) fsm
    \<Rightarrow> (apply_result \<times> ('d, 's, 'x) fsm) option" where
  "Apply decode L clk pix entry f = (case decode entry of None \<Rightarrow> Some (RNil, f) | Some cmd \<Rightarrow> apply_command L clk pix cmd f)"

section \<open>Snapshots\<close>

definition Snapshot_fsm :: "(coll_config, 'j) arch \<Rightarrow> int \<Rightarrow> int \<Rightarrow> ('d, 's, 'x) fsm \<Rightarrow> ((fsm_error + snapshot) \<times> ('d, 's, 'x) fsm) option" where
  "Snapshot_fsm A now stamp f = (case CreateSnapshot_mgr A now stamp (f_manager f) (f_snaps f) of None \<Rightarrow> None
     | Some (Inl e, sm) \<Rightarrow> Some (Inl (FsmSnapshot e), f\<lparr>f_snaps := sm\<rparr>)
     | Some (Inr s, sm) \<Rightarrow> Some (Inr s, f\<lparr>f_snaps := sm\<rparr>))"

text \<open>The bytes that are sent to the sink; the missing file cancels it.\<close>

definition Persist :: "snapshot \<Rightarrow> ('d, 's, 'x) fsm \<Rightarrow> byte list option" where
  "Persist s f = map_of (sm_files (f_snaps f)) (sPath s)"

definition Restore :: "('d :: linorder, 's, 'x) lib \<Rightarrow> (nat \<Rightarrow> nat) \<Rightarrow> (coll_config, 'j) arch \<Rightarrow> ('j \<Rightarrow> coll_config option) \<Rightarrow> 'x \<Rightarrow> int \<Rightarrow> byte list \<Rightarrow> ('d, 's, 'x) fsm
    \<Rightarrow> (fsm_error option \<times> ('d, 's, 'x) fsm) option" where
  "Restore L clk A to_config pix now stream f =
    (let tempID = ''raft_restore_'' @ show_int now; sm = f_snaps f;
         sm1 = sm\<lparr>sm_files := map_set (tempID @ ''.snap'') stream (sm_files sm)\<rparr>;
         clean = sm\<lparr>sm_files := map_del (tempID @ ''.snap'') (map_del (tempID @ ''.snap.meta'') (sm_files sm1))\<rparr> in
     case RestoreSnapshot_mgr L clk A to_config pix sm1 tempID (f_manager f, f_wal f) of None \<Rightarrow> None
     | Some (e, m, w) \<Rightarrow> Some (map_option FsmRestore e, f\<lparr>f_manager := m, f_wal := w, f_snaps := clean\<rparr>))"

end
