(* ===== verification/Fsm_Facts.thy ===== *)
theory Fsm_Facts
  imports Cluster_Fsm
begin

text \<open>
  What a command does to the points of a node, whatever its index draws: batches and deletes as functions of the abstract state of a
  collection, and the agreement of two nodes that apply the same command.
\<close>

section \<open>Batches\<close>

definition insert_error :: "coll_config \<Rightarrow> pt \<Rightarrow> coll_abs \<Rightarrow> coll_error option" where
  "insert_error cfg p a = (if length (ptVector p) = 0 then None else if int (length (ptVector p)) \<noteq> ccDimension cfg then Some ErrDimensionMismatch_coll
     else if ptID p \<in> snd a then Some (IndexError ErrPointExists) else None)"

fun abs_batch :: "('d, 's, 'x) lib \<Rightarrow> coll_config \<Rightarrow> pt list \<Rightarrow> batch_result \<Rightarrow> coll_abs \<Rightarrow> batch_result \<times> coll_abs" where
  "abs_batch L cfg [] r a = (r, a)"
| "abs_batch L cfg (p # ps) r a = abs_batch L cfg ps
     (case insert_error cfg p a of None \<Rightarrow> r\<lparr>Succeeded := Succeeded r + 1\<rparr> | Some e \<Rightarrow> add_failure (ptID p) e r) (abs_insert L cfg p a)"

lemma batch_apply_abs:
  assumes "lib_ok L" and "coll_inv c" and "load c + length ps \<le> MaxNodes" and "\<forall>p \<in> set ps. sparse_fits p"
  shows "\<exists>r' c'. batch_apply L ps r c = Some (r', c') \<and> coll_inv c' \<and> co_config c' = co_config c \<and> has_wal c' = has_wal c
    \<and> load c' \<le> load c + length ps \<and> (r', abs_of c') = abs_batch L (co_config c) ps r (abs_of c)"
  using assms(2-4)
proof (induction ps arbitrary: r c)
  case (Cons p ps)
  from insertInternal_moves [OF assms(1) Cons.prems(1), of p] Cons.prems obtain e c1 where
    c1: "insertInternal L p c = Some (e, c1)" "moves c (abs_insert L (co_config c) p (abs_of c)) c1" "e = insert_error (co_config c) p (abs_of c)"
    by (auto simp: insert_error_def)
  then have m: "coll_inv c1" "co_config c1 = co_config c" "has_wal c1 = has_wal c" "load c1 \<le> Suc (load c)"
    "abs_of c1 = abs_insert L (co_config c) p (abs_of c)" by (simp_all add: moves_def)
  have ih: "\<exists>r' c'. batch_apply L ps r1 c1 = Some (r', c') \<and> coll_inv c' \<and> co_config c' = co_config c1 \<and> has_wal c' = has_wal c1
    \<and> load c' \<le> load c1 + length ps \<and> (r', abs_of c') = abs_batch L (co_config c1) ps r1 (abs_of c1)" for r1
    using m Cons.prems by (intro Cons.IH) auto
  define r1 where "r1 = (case e of None \<Rightarrow> r\<lparr>Succeeded := Succeeded r + 1\<rparr> | Some x \<Rightarrow> add_failure (ptID p) x r)"
  obtain r' c' where c': "batch_apply L ps r1 c1 = Some (r', c')" "coll_inv c'" "co_config c' = co_config c" "has_wal c' = has_wal c"
    "load c' \<le> load c1 + length ps" "(r', abs_of c') = abs_batch L (co_config c) ps r1 (abs_of c1)" using ih [of r1] m(2,3) by metis
  have "batch_apply L (p # ps) r c = batch_apply L ps r1 c1" using c1(1) by (cases e) (simp_all add: r1_def)
  moreover have "abs_batch L (co_config c) (p # ps) r (abs_of c) = abs_batch L (co_config c) ps r1 (abs_of c1)" using c1(3) m(5) by (simp add: r1_def)
  ultimately show ?case using c' m(4) by auto
qed simp

definition empty_result :: "nat \<Rightarrow> batch_result" where
  "empty_result n = \<lparr>Total = n, Succeeded = 0, Failed = 0, bErrors = []\<rparr>"

text \<open>The result and the new points of a batch whose log write succeeds.\<close>

definition batch_spec :: "('d, 's, 'x) lib \<Rightarrow> coll_config \<Rightarrow> pt list \<Rightarrow> coll_abs \<Rightarrow> batch_result \<times> coll_abs" where
  "batch_spec L cfg ps a = (if ps = [] then (empty_result 0, a)
     else case batch_validate (ccDimension cfg) ps (empty_result (length ps)) of (valid, r) \<Rightarrow> abs_batch L cfg valid r a)"

lemma InsertBatch_spec:
  assumes L: "lib_ok L" and c: "coll_inv c" and n: "load c + length ps \<le> MaxNodes" and ps: "\<forall>p \<in> set ps. sound_point L (ccName (co_config c)) p"
    and w: "wal_ok clk w rs"
  shows "\<exists>r c' w' rs'. InsertBatch L clk ps (c, w) = Some ((None, r), c', w') \<and> coll_inv c' \<and> co_config c' = co_config c
    \<and> load c' \<le> load c + length ps \<and> wal_ok clk w' rs' \<and> (r, abs_of c') = batch_spec L (co_config c) ps (abs_of c)"
proof (cases "ps = []")
  case True
  then show ?thesis using c w by (auto simp: InsertBatch_def batch_spec_def empty_result_def)
next
  case ne: False
  let ?cfg = "co_config c"
  obtain valid r1 where v: "batch_validate (ccDimension ?cfg) ps (empty_result (length ps)) = (valid, r1)" by (rule prod.exhaust)
  with batch_validate_valid [of "ccDimension ?cfg" ps "empty_result (length ps)"] have vs: "set valid \<subseteq> set ps" "length valid \<le> length ps" by auto
  then have vp: "\<forall>p \<in> set valid. sound_point L (ccName ?cfg) p" using ps by blast
  then have sf: "\<forall>p \<in> set valid. sparse_fits p" by (simp add: sound_point_def)
  have "load c + length valid \<le> MaxNodes" using n vs(2) by simp
  from batch_apply_abs [OF L c this sf] obtain r' c' where c': "batch_apply L valid r1 c = Some (r', c')" "coll_inv c'" "co_config c' = ?cfg"
    "load c' \<le> load c + length valid" "(r', abs_of c') = abs_batch L ?cfg valid r1 (abs_of c)" by blast
  have keep: "coll_inv (drop_cache c') = coll_inv c'" "abs_of (drop_cache c') = abs_of c'" "load (drop_cache c') = load c'" "co_config (drop_cache c') = co_config c'"
    by (simp_all add: drop_cache_def coll_inv_def abs_of_def load_def)
  have "\<exists>x w' rs'. (if has_wal c \<and> length valid > 0
             then (case batch_records L (ccName ?cfg) valid r1 of (recs, r2) \<Rightarrow> (WriteBatch clk w recs, r2))
             else ((Inr [], w), r1)) = ((Inr x, w'), r1) \<and> wal_ok clk w' rs'"
  proof (cases "has_wal c \<and> length valid > 0")
    case True
    from batch_records_all [OF vp, of r1] obtain recs where recs: "batch_records L (ccName ?cfg) valid r1 = (recs, r1)"
      "list_all2 (\<lambda>p x. \<exists>data. serializePoint L p = Inr data \<and> loggable (ccName ?cfg) data \<and> x = new_record RecordTypeInsert (ccName ?cfg) data) valid recs" by blast
    have "\<forall>x \<in> set recs. readable x" using recs(2) by (fastforce simp: list_all2_conv_all_nth in_set_conv_nth readable_type)
    from WriteBatch_ok [OF w this] obtain b xs e w' where "WriteBatch clk w recs = (Inr (b # xs @ [e]), w')" "wal_ok clk w' (rs @ b # xs @ [e])" by blast
    then show ?thesis using True recs(1) by auto
  next
    case False
    then show ?thesis using w by auto
  qed
  then obtain x w' rs' where "(if has_wal c \<and> length valid > 0
             then (case batch_records L (ccName ?cfg) valid r1 of (recs, r2) \<Rightarrow> (WriteBatch clk w recs, r2))
             else ((Inr [], w), r1)) = ((Inr x, w'), r1)" "wal_ok clk w' rs'" by blast
  then show ?thesis using ne v c' keep vs(2) by (auto simp: InsertBatch_def batch_spec_def empty_result_def Let_def)
qed

section \<open>Deletes\<close>

lemma Delete_coll_spec:
  assumes c: "coll_inv c" and i: "loggable (ccName (co_config c)) (str_bytes i)" and w: "wal_ok clk w rs"
  shows "\<exists>e c' w' rs'. Delete_coll clk i (c, w) = Some (e, c', w') \<and> moves c (abs_delete i (abs_of c)) c' \<and> load c' \<le> load c \<and> wal_ok clk w' rs'"
proof -
  obtain w' rs' where w': "log_write clk RecordTypeDelete (str_bytes i) c w = (None, w')" "wal_ok clk w' rs'"
    using log_write_ok [OF _ w i, of RecordTypeDelete] w by (cases "has_wal c") (auto simp: log_write_def)
  from deleteInternal_moves [OF c, of i] obtain e c' where c': "deleteInternal i c = Some (e, c')" "moves c (abs_delete i (abs_of c)) c'" by blast
  have l: "load c' \<le> load c" using c'(1)
    by (auto simp: deleteInternal_def Delete_def load_def split: option.splits outcome.splits if_splits)
  have dl: "load (drop_cache c') = load c'" by (simp add: drop_cache_def load_def)
  show ?thesis using w' c' l dl by (cases e) (auto simp: Delete_coll_def)
qed

lemma delete_ids_spec:
  assumes "coll_inv c" and "\<forall>i \<in> set is. loggable (ccName (co_config c)) (str_bytes i)" and "wal_ok clk w rs"
  shows "\<exists>c' w' rs'. delete_ids clk is (c, w) = Some (c', w') \<and> coll_inv c' \<and> co_config c' = co_config c \<and> load c' \<le> load c \<and> wal_ok clk w' rs'
    \<and> abs_of c' = fold abs_delete is (abs_of c)"
  using assms
proof (induction "is" arbitrary: c w rs)
  case (Cons i "is")
  from Delete_coll_spec [OF Cons.prems(1) _ Cons.prems(3), of i] Cons.prems(2) obtain e c1 w1 rs1 where
    d: "Delete_coll clk i (c, w) = Some (e, c1, w1)" "moves c (abs_delete i (abs_of c)) c1" "load c1 \<le> load c" "wal_ok clk w1 rs1" by auto
  then have m: "coll_inv c1" "co_config c1 = co_config c" "abs_of c1 = abs_delete i (abs_of c)" by (simp_all add: moves_def)
  from Cons.IH [OF m(1) _ d(4)] Cons.prems(2) m(2) obtain c' w' rs' where "delete_ids clk is (c1, w1) = Some (c', w')" "coll_inv c'"
    "co_config c' = co_config c1" "load c' \<le> load c1" "wal_ok clk w' rs'" "abs_of c' = fold abs_delete is (abs_of c1)" by auto
  then show ?case using d m by auto
qed auto

section \<open>Agreement\<close>

text \<open>Two collections with the same points, and two nodes with the same collections; \<open>n\<close> bounds the nodes of their indexes.\<close>

definition coll_agree :: "nat \<Rightarrow> string \<times> ('d, 's, 'x) collection \<Rightarrow> string \<times> ('d, 's, 'x) collection \<Rightarrow> bool" where
  "coll_agree n x y \<longleftrightarrow> fst x = fst y \<and> ccName (co_config (snd x)) = fst x \<and> coll_inv (snd x) \<and> coll_inv (snd y)
     \<and> co_config (snd x) = co_config (snd y) \<and> abs_of (snd x) = abs_of (snd y) \<and> load (snd x) \<le> n \<and> load (snd y) \<le> n"

definition fsm_agree :: "(nat \<Rightarrow> nat) \<Rightarrow> nat \<Rightarrow> ('d, 's, 'x) fsm \<Rightarrow> ('d, 's, 'x) fsm \<Rightarrow> bool" where
  "fsm_agree clk n f g \<longleftrightarrow> list_all2 (coll_agree n) (m_collections (f_manager f)) (m_collections (f_manager g))
     \<and> maxCollections (f_manager f) = maxCollections (f_manager g) \<and> f_leader f = f_leader g \<and> (\<exists>rs. wal_ok clk (f_wal f) rs) \<and> (\<exists>rs. wal_ok clk (f_wal g) rs)"

lemma agree_keys: "list_all2 (coll_agree n) xs ys \<Longrightarrow> map fst xs = map fst ys"
  by (induction rule: list_all2_induct) (auto simp: coll_agree_def)

lemma agree_lookup:
  assumes "list_all2 (coll_agree n) xs ys"
  shows "map_of xs k = None \<longleftrightarrow> map_of ys k = None"
    "map_of xs k = Some c \<Longrightarrow> \<exists>d. map_of ys k = Some d \<and> coll_agree n (k, c) (k, d)"
  using assms
proof (induction rule: list_all2_induct)
  case (Cons x xs y ys)
  { case 1 then show ?case using Cons by (cases x; cases y) (auto simp: coll_agree_def)
  next case 2 then show ?case using Cons by (cases x; cases y) (auto simp: coll_agree_def split: if_splits) }
qed auto

lemma agree_set:
  assumes "list_all2 (coll_agree n) xs ys" and "coll_agree n (k, c) (k, d)"
  shows "list_all2 (coll_agree n) (map_set k c xs) (map_set k d ys)"
proof (cases "k \<in> fst ` set xs")
  case True
  then have "k \<in> fst ` set ys" using agree_keys [OF assms(1)] by (metis list.set_map)
  then show ?thesis using True assms by (auto simp: map_set_def list_all2_map1 list_all2_map2 coll_agree_def elim!: list_all2_mono)
next
  case False
  then have "k \<notin> fst ` set ys" using agree_keys [OF assms(1)] by (metis list.set_map)
  then show ?thesis using False assms by (simp add: map_set_def list_all2_appendI)
qed

lemma agree_del: "list_all2 (coll_agree n) xs ys \<Longrightarrow> list_all2 (coll_agree n) (map_del k xs) (map_del k ys)"
  by (induction rule: list_all2_induct) (auto simp: map_del_def coll_agree_def)

lemma agree_mono: "list_all2 (coll_agree n) xs ys \<Longrightarrow> n \<le> n' \<Longrightarrow> list_all2 (coll_agree n') xs ys"
  by (erule list_all2_mono) (auto simp: coll_agree_def)

definition same_lib :: "('d, 's, 'x) lib \<Rightarrow> ('d, 's, 'x) lib \<Rightarrow> bool" where
  "same_lib L L' \<longleftrightarrow> same_data L L' \<and> l_marshal L' = l_marshal L"

lemma same_lib_spec:
  assumes "same_lib L L'"
  shows "batch_spec L' = batch_spec L" "sound_point L' = sound_point L"
proof -
  have e: "l_normalize L' = l_normalize L" "l_marshal L' = l_marshal L" using assms by (simp_all add: same_lib_def same_data_def)
  have i: "abs_insert L' = abs_insert L" by (intro ext) (simp add: abs_insert_def stored_point_def e)
  have "abs_batch L' cfg ps r a = abs_batch L cfg ps r a" for cfg ps r a by (induction ps arbitrary: r a) (simp_all add: i)
  then show "batch_spec L' = batch_spec L" by (intro ext) (simp add: batch_spec_def)
  show "sound_point L' = sound_point L" by (intro ext) (simp add: sound_point_def serializePoint_def e)
qed

lemma New_collection_same:
  fixes L L' :: "('d, 's, 'x) lib"
  assumes "\<not> HasNamedVectors cfg"
  shows "(\<exists>e. New_collection L pix cfg = Inl e \<and> New_collection L' pix' cfg = Inl e) \<or> (\<exists>c c'. New_collection L pix cfg = Inr c \<and> New_collection L' pix' cfg = Inr c')"
  using assms by (auto simp: New_collection_def Let_def New_def split: option.splits)

text \<open>Commands that leave the replicas running: a configuration of a default vector, points that can be logged.\<close>

fun cmd_ok :: "('d, 's, 'x) lib \<Rightarrow> fsm_command \<Rightarrow> bool" where
  "cmd_ok L (CmdCreateCollection cfg) = (case cfg of None \<Rightarrow> False | Some c \<Rightarrow> \<not> HasNamedVectors c)"
| "cmd_ok L (CmdUpsertPoints name ps) \<longleftrightarrow> None \<notin> set ps \<and> (\<forall>p \<in> set (map the ps). sound_point L name p)"
| "cmd_ok L (CmdDeletePoints name ids) \<longleftrightarrow> (\<forall>i \<in> set ids. loggable name (str_bytes i))"
| "cmd_ok L _ = True"

fun cmd_size :: "fsm_command \<Rightarrow> nat" where
  "cmd_size (CmdUpsertPoints name ps) = length ps"
| "cmd_size _ = 0"

end
