(* ===== verification/Fsm_Properties.thy ===== *)
theory Fsm_Properties
  imports Fsm_Facts
begin

text \<open>
  Properties of the replicated state machine and of the snapshots of all collections: replicas that apply the same log agree, a
  snapshot brings the collections back, and the restore that Raft calls always fails.
\<close>

section \<open>Replicas\<close>

lemma batch_agree:
  assumes L: "lib_ok L" "lib_ok L'" "same_lib L L'" and c: "coll_agree n (k, c) (k, d)" and n: "n + length ps \<le> MaxNodes"
    and ps: "\<forall>p \<in> set ps. sound_point L k p" and w: "wal_ok clk w rs" "wal_ok clk v rs'"
  shows "\<exists>r c' d' w' v'. InsertBatch L clk ps (c, w) = Some ((None, r), c', w') \<and> InsertBatch L' clk ps (d, v) = Some ((None, r), d', v')
    \<and> coll_agree (n + length ps) (k, c') (k, d') \<and> (\<exists>rs. wal_ok clk w' rs) \<and> (\<exists>rs. wal_ok clk v' rs)"
proof -
  have k: "ccName (co_config c) = k" "coll_inv c" "coll_inv d" "co_config d = co_config c" "abs_of d = abs_of c" "load c \<le> n" "load d \<le> n"
    using c by (auto simp: coll_agree_def)
  have sp: "\<forall>p \<in> set ps. sound_point L (ccName (co_config c)) p" "\<forall>p \<in> set ps. sound_point L' (ccName (co_config d)) p"
    using ps k same_lib_spec(2) [OF L(3)] by simp_all
  have l: "load c + length ps \<le> MaxNodes" "load d + length ps \<le> MaxNodes" using n k(6,7) by simp_all
  from InsertBatch_spec [OF L(1) k(2) l(1) sp(1) w(1)] obtain r c' w' where c': "InsertBatch L clk ps (c, w) = Some ((None, r), c', w')" "coll_inv c'"
    "co_config c' = co_config c" "load c' \<le> load c + length ps" "\<exists>rs. wal_ok clk w' rs" "(r, abs_of c') = batch_spec L (co_config c) ps (abs_of c)" by blast
  from InsertBatch_spec [OF L(2) k(3) l(2) sp(2) w(2)] obtain r' d' v' where d': "InsertBatch L' clk ps (d, v) = Some ((None, r'), d', v')" "coll_inv d'"
    "co_config d' = co_config d" "load d' \<le> load d + length ps" "\<exists>rs. wal_ok clk v' rs" "(r', abs_of d') = batch_spec L' (co_config d) ps (abs_of d)" by blast
  have "r' = r" "abs_of d' = abs_of c'" using c'(6) d'(6) k(4,5) same_lib_spec(1) [OF L(3)] by (metis prod.inject)+
  then show ?thesis using c' d' k by (auto simp: coll_agree_def)
qed

lemma delete_agree:
  assumes c: "coll_agree n (k, c) (k, d)" and i: "\<forall>i \<in> set ids. loggable k (str_bytes i)" and w: "wal_ok clk w rs" "wal_ok clk v rs'"
  shows "\<exists>c' d' w' v'. delete_ids clk ids (c, w) = Some (c', w') \<and> delete_ids clk ids (d, v) = Some (d', v')
    \<and> coll_agree n (k, c') (k, d') \<and> (\<exists>rs. wal_ok clk w' rs) \<and> (\<exists>rs. wal_ok clk v' rs)"
proof -
  have k: "ccName (co_config c) = k" "coll_inv c" "coll_inv d" "co_config d = co_config c" "abs_of d = abs_of c" "load c \<le> n" "load d \<le> n"
    using c by (auto simp: coll_agree_def)
  from delete_ids_spec [OF k(2) _ w(1), of ids] i k(1) obtain c' w' where c': "delete_ids clk ids (c, w) = Some (c', w')" "coll_inv c'"
    "co_config c' = co_config c" "load c' \<le> load c" "\<exists>rs. wal_ok clk w' rs" "abs_of c' = fold abs_delete ids (abs_of c)" by auto
  from delete_ids_spec [OF k(3) _ w(2), of ids] i k(1,4) obtain d' v' where d': "delete_ids clk ids (d, v) = Some (d', v')" "coll_inv d'"
    "co_config d' = co_config d" "load d' \<le> load d" "\<exists>rs. wal_ok clk v' rs" "abs_of d' = fold abs_delete ids (abs_of d)" by auto
  show ?thesis using c' d' k by (auto simp: coll_agree_def)
qed

lemma create_agree:
  fixes L L' :: "('d :: linorder, 's, 'x) lib"
  assumes m: "list_all2 (coll_agree n) (m_collections m) (m_collections m')" "maxCollections m = maxCollections m'" and cfg: "\<not> HasNamedVectors cfg"
  shows "\<exists>e k k'. Create_mgr L pix cfg m = (e, k) \<and> Create_mgr L' pix' cfg m' = (e, k') \<and> list_all2 (coll_agree n) (m_collections k) (m_collections k')
    \<and> maxCollections k = maxCollections k'"
proof -
  let ?cfg = "apply_defaults cfg"
  have ne: "\<not> HasNamedVectors ?cfg" "ccName ?cfg = ccName cfg" using cfg by (simp_all add: HasNamedVectors_def apply_defaults_def)
  note ag = agree_lookup(1) [OF m(1), of "ccName cfg"] list_all2_lengthD [OF m(1)]
  from New_collection_same [OF ne(1), of L pix L' pix'] show ?thesis
  proof (elim disjE exE conjE)
    fix c c' assume c: "New_collection L pix ?cfg = Inr c" "New_collection L' pix' ?cfg = Inr c'"
    have a: "coll_agree n (ccName cfg, if m_has_wal m then c\<lparr>has_wal := True\<rparr> else c) (ccName cfg, if m_has_wal m' then c'\<lparr>has_wal := True\<rparr> else c')"
      using New_collection_inv [OF c(1) ne(1)] New_collection_inv [OF c(2) ne(1)] ne(2) by (auto simp: coll_agree_def coll_inv_def abs_of_def load_def)
    show ?thesis using c ne(2) ag m agree_set [OF m(1) a] by (auto simp: Create_mgr_def saveMetadata_def Let_def split: option.split)
  qed (use ag m in \<open>auto simp: Create_mgr_def Let_def split: option.split\<close>)
qed

lemma apply_agree:
  assumes L: "lib_ok L" "lib_ok L'" "same_lib L L'" and f: "fsm_agree clk n f g" and n: "n + cmd_size cmd \<le> MaxNodes" and cmd: "cmd_ok L cmd"
  shows "\<exists>r f' g'. apply_command L clk pix cmd f = Some (r, f') \<and> apply_command L' clk pix' cmd g = Some (r, g') \<and> fsm_agree clk (n + cmd_size cmd) f' g'"
proof -
  have l: "list_all2 (coll_agree n) (m_collections (f_manager f)) (m_collections (f_manager g))" "maxCollections (f_manager f) = maxCollections (f_manager g)"
    "f_leader f = f_leader g" using f by (simp_all add: fsm_agree_def)
  obtain rs rs' where w: "wal_ok clk (f_wal f) rs" "wal_ok clk (f_wal g) rs'" using f by (auto simp: fsm_agree_def)
  have ex: "Exists_mgr name (f_manager f) = Exists_mgr name (f_manager g)" for name using agree_lookup(1) [OF l(1)] by (simp add: Exists_mgr_def)
  show ?thesis
  proof (cases cmd)
    case (CmdCreateCollection c)
    then obtain cfg where cfg: "c = Some cfg" "\<not> HasNamedVectors cfg" using cmd by (cases c) auto
    from create_agree [OF l(1,2) cfg(2), of L pix L' pix'] obtain e k k' where "Create_mgr L pix cfg (f_manager f) = (e, k)" "Create_mgr L' pix' cfg (f_manager g) = (e, k')"
      "list_all2 (coll_agree n) (m_collections k) (m_collections k')" "maxCollections k = maxCollections k'" by blast
    then show ?thesis using CmdCreateCollection cfg(1) ex f w l(3) by (auto simp: fsm_reply_def fsm_agree_def split: option.split)
  next
    case (CmdDeleteCollection name)
    then show ?thesis using ex [of name] f agree_lookup(1) [OF l(1), of name] agree_del [OF l(1), of name]
      by (auto simp: fsm_reply_def fsm_agree_def Delete_mgr_def Exists_mgr_def split: option.split)
  next
    case (CmdUpsertPoints name ps)
    show ?thesis
    proof (cases "map_of (m_collections (f_manager f)) name")
      case None
      then show ?thesis using CmdUpsertPoints f agree_lookup(1) [OF l(1), of name] agree_mono [OF l(1)] by (auto simp: Get_mgr_def fsm_agree_def)
    next
      case (Some c)
      with agree_lookup(2) [OF l(1)] obtain d where d: "map_of (m_collections (f_manager g)) name = Some d" "coll_agree n (name, c) (name, d)" by blast
      have "n + length (map the ps) \<le> MaxNodes" "\<forall>p \<in> set (map the ps). sound_point L name p" "None \<notin> set ps" using n cmd CmdUpsertPoints by auto
      from batch_agree [OF L d(2) this(1,2) w, unfolded length_map] obtain r c' d' w' v' where
        b: "InsertBatch L clk (map the ps) (c, f_wal f) = Some ((None, r), c', w')" "InsertBatch L' clk (map the ps) (d, f_wal g) = Some ((None, r), d', v')"
        "coll_agree (n + length ps) (name, c') (name, d')" "\<exists>rs. wal_ok clk w' rs" "\<exists>rs. wal_ok clk v' rs" by blast
      show ?thesis using CmdUpsertPoints Some d(1) b l cmd agree_set [OF agree_mono [OF l(1)] b(3)]
        by (simp add: Get_mgr_def fsm_agree_def set_collection_def)
    qed
  next
    case (CmdDeletePoints name ids)
    show ?thesis
    proof (cases "map_of (m_collections (f_manager f)) name")
      case None
      then show ?thesis using CmdDeletePoints f agree_lookup(1) [OF l(1), of name] by (auto simp: Get_mgr_def fsm_agree_def)
    next
      case (Some c)
      with agree_lookup(2) [OF l(1)] obtain d where d: "map_of (m_collections (f_manager g)) name = Some d" "coll_agree n (name, c) (name, d)" by blast
      have "\<forall>i \<in> set ids. loggable name (str_bytes i)" using cmd CmdDeletePoints by simp
      from delete_agree [OF d(2) this w] obtain c' d' w' v' where b: "delete_ids clk ids (c, f_wal f) = Some (c', w')" "delete_ids clk ids (d, f_wal g) = Some (d', v')"
        "coll_agree n (name, c') (name, d')" "\<exists>rs. wal_ok clk w' rs" "\<exists>rs. wal_ok clk v' rs" by blast
      show ?thesis using CmdDeletePoints Some d(1) b l agree_set [OF l(1) b(3)] by (simp add: Get_mgr_def fsm_agree_def set_collection_def)
    qed
  qed (use f in \<open>auto simp: fsm_agree_def\<close>)
qed

fun apply_all :: "(byte list \<Rightarrow> fsm_command option) \<Rightarrow> ('d :: linorder, 's, 'x) lib \<Rightarrow> (nat \<Rightarrow> nat) \<Rightarrow> 'x \<Rightarrow> byte list list \<Rightarrow> ('d, 's, 'x) fsm
    \<Rightarrow> (apply_result list \<times> ('d, 's, 'x) fsm) option" where
  "apply_all decode L clk pix [] f = Some ([], f)"
| "apply_all decode L clk pix (e # es) f = (case Apply decode L clk pix e f of None \<Rightarrow> None
     | Some (r, f') \<Rightarrow> map_option (\<lambda>(rs, f''). (r # rs, f'')) (apply_all decode L clk pix es f'))"

definition entry_ok :: "(byte list \<Rightarrow> fsm_command option) \<Rightarrow> ('d, 's, 'x) lib \<Rightarrow> byte list \<Rightarrow> bool" where
  "entry_ok decode L e \<longleftrightarrow> (case decode e of None \<Rightarrow> True | Some cmd \<Rightarrow> cmd_ok L cmd)"

definition entry_size :: "(byte list \<Rightarrow> fsm_command option) \<Rightarrow> byte list \<Rightarrow> nat" where
  "entry_size decode e = (case decode e of None \<Rightarrow> 0 | Some cmd \<Rightarrow> cmd_size cmd)"

lemma apply_all_agree:
  assumes L: "lib_ok L" "lib_ok L'" "same_lib L L'"
  shows "fsm_agree clk n f g \<Longrightarrow> \<forall>e \<in> set es. entry_ok decode L e \<Longrightarrow> n + sum_list (map (entry_size decode) es) \<le> MaxNodes
    \<Longrightarrow> \<exists>rs f' g' n'. apply_all decode L clk pix es f = Some (rs, f') \<and> apply_all decode L' clk pix' es g = Some (rs, g') \<and> fsm_agree clk n' f' g'"
proof (induction es arbitrary: n f g)
  case (Cons e es)
  have "\<exists>r f1 g1. Apply decode L clk pix e f = Some (r, f1) \<and> Apply decode L' clk pix' e g = Some (r, g1) \<and> fsm_agree clk (n + entry_size decode e) f1 g1"
  proof (cases "decode e")
    case None
    then show ?thesis using Cons.prems(1) by (simp add: Apply_def entry_size_def)
  next
    case (Some cmd)
    then show ?thesis using apply_agree [OF L Cons.prems(1), of cmd pix pix'] Cons.prems(2,3) by (auto simp: Apply_def entry_size_def entry_ok_def)
  qed
  then obtain r f1 g1 where a: "Apply decode L clk pix e f = Some (r, f1)" "Apply decode L' clk pix' e g = Some (r, g1)" "fsm_agree clk (n + entry_size decode e) f1 g1" by blast
  from Cons.IH [OF a(3)] Cons.prems(2,3) obtain rs f' g' n' where "apply_all decode L clk pix es f1 = Some (rs, f')" "apply_all decode L' clk pix' es g1 = Some (rs, g')"
    "fsm_agree clk n' f' g'" by (auto simp: add.assoc)
  then show ?case using a by auto
qed (auto simp del: split_paired_Ex)

text \<open>C4: Replicas agree: two nodes that start without collections and apply the same committed entries give the same answers and end
  with the same collections and the same points, although the levels, the visited lists and the sorting of their vector indexes
  differ. The entries must not create collections with named vectors or without a configuration, and their points must be
  loggable; otherwise a node panics or loses its log.\<close>

theorem fsm_replicas:
  assumes L: "lib_ok L" "lib_ok L'" "same_lib L L'"
    and init: "m_collections (f_manager f) = []" "m_collections (f_manager g) = []" "maxCollections (f_manager f) = maxCollections (f_manager g)"
      "f_leader f = f_leader g" "wal_ok clk (f_wal f) ws" "wal_ok clk (f_wal g) ws'"
    and es: "\<forall>e \<in> set es. entry_ok decode L e" "sum_list (map (entry_size decode) es) \<le> MaxNodes"
  shows "\<exists>rs f' g'. apply_all decode L clk pix es f = Some (rs, f') \<and> apply_all decode L' clk pix' es g = Some (rs, g')
    \<and> set (List_mgr (f_manager f')) = set (List_mgr (f_manager g')) \<and> f_leader f' = f_leader g'
    \<and> (\<forall>name c. Get_mgr name (f_manager f') = Inr c \<longrightarrow> (\<exists>d. Get_mgr name (f_manager g') = Inr d \<and> (\<forall>i. Get_coll i c = Get_coll i d)))"
proof -
  have "fsm_agree clk 0 f g" using init by (auto simp: fsm_agree_def)
  from apply_all_agree [OF L this es(1)] es(2) obtain rs f' g' n where r: "apply_all decode L clk pix es f = Some (rs, f')" "apply_all decode L' clk pix' es g = Some (rs, g')"
    "fsm_agree clk n f' g'" by fastforce
  have l: "list_all2 (coll_agree n) (m_collections (f_manager f')) (m_collections (f_manager g'))" using r(3) by (simp add: fsm_agree_def)
  have "\<exists>d. Get_mgr name (f_manager g') = Inr d \<and> (\<forall>i. Get_coll i c = Get_coll i d)" if "Get_mgr name (f_manager f') = Inr c" for name c
  proof -
    have "map_of (m_collections (f_manager f')) name = Some c" using that by (simp add: Get_mgr_def split: option.splits)
    from agree_lookup(2) [OF l this] obtain d where d: "map_of (m_collections (f_manager g')) name = Some d" "coll_agree n (name, c) (name, d)" by blast
    then have "coll_inv c" "coll_inv d" "abs_of c = abs_of d" by (simp_all add: coll_agree_def)
    then have "\<forall>i. Get_coll i c = Get_coll i d" using Get_of_abs by metis
    then show ?thesis using d(1) by (simp add: Get_mgr_def)
  qed
  moreover have "set (List_mgr (f_manager f')) = set (List_mgr (f_manager g'))" using agree_keys [OF l] unfolding List_mgr_def by simp
  moreover have "f_leader f' = f_leader g'" using r(3) by (simp add: fsm_agree_def)
  ultimately show ?thesis using r(1,2) by blast
qed

definition sample_decode :: "byte list \<Rightarrow> fsm_command option" where
  "sample_decode bs = (if bs = [0] then Some (CmdCreateCollection (Some sample_cfg)) else if bs = [1] then Some (CmdUpsertPoints ''a'' [Some sample_pt]) else None)"

definition sample_fsm :: "(int, int, unit) fsm" where
  "sample_fsm = \<lparr>f_manager = \<lparr>m_collections = [], m_disk = [], maxCollections = 10, m_has_wal = True\<rparr>, f_wal = wal0,
     f_snaps = \<lparr>sm_files = [], retainCount = 5\<rparr>, f_leader = Some []\<rparr>"

theorem fsm_replicas_witness:
  "\<exists>rs f' g'. apply_all sample_decode sample_lib (\<lambda>k. k) () [[0], [1], [2]] sample_fsm = Some (rs, f')
    \<and> apply_all sample_decode (sample_lib\<lparr>l_level := \<lambda>n. 1\<rparr>) (\<lambda>k. k) () [[0], [1], [2]] sample_fsm = Some (rs, g')
    \<and> set (List_mgr (f_manager f')) = set (List_mgr (f_manager g'))"
proof -
  let ?L = "sample_lib\<lparr>l_level := \<lambda>n. 1\<rparr>"
  have L: "lib_ok ?L" "same_lib sample_lib ?L" using sample_lib_ok(1) by (simp_all add: lib_ok_def same_lib_def same_data_def)
  have w: "wal_ok (\<lambda>k. k) (f_wal sample_fsm) []" using wal0_ok by (simp add: sample_fsm_def)
  have i: "m_collections (f_manager sample_fsm) = []" by (simp add: sample_fsm_def)
  have es: "\<forall>e \<in> set [[0], [1], [2]]. entry_ok sample_decode sample_lib e" "sum_list (map (entry_size sample_decode) [[0], [1], [2]]) \<le> MaxNodes"
    using sample_new(2) sample_sound by (simp_all add: entry_ok_def entry_size_def sample_decode_def MaxNodes_def)
  from fsm_replicas [OF sample_lib_ok(1) L i i refl refl w w es] show ?thesis by blast
qed

section \<open>Restoring a replica\<close>

text \<open>C39: The restore that Raft calls on a node that is too far behind always fails and changes nothing: the stream is stored under a name that
  starts with \<open>raft_restore_\<close>, and opening a snapshot accepts only names that start with \<open>snap_\<close>.\<close>

theorem fsm_restore_fails:
  "\<exists>e f'. Restore L clk A to_config pix now stream f = Some (Some (FsmRestore (RestoreOpen e)), f') \<and> f_manager f' = f_manager f \<and> f_wal f' = f_wal f"
proof -
  define i where "i = ''raft_restore_'' @ show_int now"
  have "\<not> validSnapshotIDPattern i" by (simp add: i_def validSnapshotIDPattern_def)
  then obtain e where e: "validateSnapshotID i = Some e" by (cases "validateSnapshotID i") (auto simp: validateSnapshotID_def split: if_splits)
  then have "OpenSnapshot A i sm = Inl e" for sm by (simp add: OpenSnapshot_def)
  then show ?thesis unfolding Restore_def RestoreSnapshot_mgr_def Let_def i_def [symmetric] by simp
qed

section \<open>Restoring collections\<close>


definition sample_arch :: "(coll_config, coll_config) arch" where
  "sample_arch = \<lparr>a_gzip = id, a_gunzip = Some, a_config = (\<lambda>c. if c = sample_cfg then Some [1] else None),
     a_parse = (\<lambda>bs. if bs = [1] then Some sample_cfg else None),
     a_payload = (\<lambda>p. if p = None then Some [0] else None), a_read_payload = (\<lambda>bs. Some None), a_meta = (\<lambda>s. []), a_read_meta = (\<lambda>bs. None),
     a_sort = id, a_max_points = 100\<rparr>"

definition sample_point_data :: point_data where
  "sample_point_data = \<lparr>pdID = ''p'', pdVector = [1], pdPayload = None\<rparr>"

lemma sample_restorable: "restorable sample_lib sample_cfg sample_point_data"
  by (simp add: restorable_def sample_point_data_def sample_cfg_def Validate_point_def NewPointWithID_def zero_point_def not_finite_def)

lemma sample_name: "validateName ''a'' = None"
  by code_simp

lemma sample_collection:
  "\<exists>c. archivable sample_lib () Some id ''a'' c \<and> exported c = \<lparr>cdConfig = sample_cfg, cdPoints = [sample_point_data]\<rparr>
    \<and> Get_coll ''p'' c = Ok \<lparr>pID = ''p'', pVector = [1], pPayload = None\<rparr>"
proof -
  let ?q = "\<lparr>pID = ''p'', pVector = [1], pPayload = None\<rparr>"
  obtain c0 where c0: "New_collection sample_lib () sample_cfg = Inr c0" using sample_new(1) by blast
  note n = New_collection_inv [OF c0 sample_new(2)] New_no_wal [OF c0]
  have "\<exists>c. restore_points sample_lib (\<lambda>k. k) [sample_point_data] (c0, wal0) = Some (c, wal0) \<and> coll_inv c \<and> co_config c = co_config c0 \<and> \<not> has_wal c
    \<and> load c \<le> load c0 + length [sample_point_data] \<and> fst (abs_of c) = (\<lambda>i. case find (\<lambda>p. pdID p = i) [sample_point_data] of
        Some p \<Rightarrow> Some \<lparr>pID = i, pVector = pdVector p, pPayload = pdPayload p\<rparr> | None \<Rightarrow> fst (abs_of c0) i)"
    using n sample_restorable by (intro restore_points_all [OF sample_lib_ok(1)]) (auto simp: MaxNodes_def)
  then obtain c :: "(int, int, unit) collection" where c: "coll_inv c" "co_config c = co_config c0" "load c \<le> load c0 + length [sample_point_data]" "fst (abs_of c) = (\<lambda>i. case find (\<lambda>p. pdID p = i) [sample_point_data] of
        Some p \<Rightarrow> Some \<lparr>pID = i, pVector = pdVector p, pPayload = pdPayload p\<rparr> | None \<Rightarrow> fst (abs_of c0) i)"
    by blast
  have a: "fst (abs_of c) = [''p'' \<mapsto> ?q]" using n by (simp add: c(4) sample_point_data_def fun_eq_iff)
  have g: "Get_coll i c = (if i = ''p'' then Ok ?q else Err ErrPointNotFound)" for i using Get_of_abs [OF c(1), of i] by (simp add: a)
  note e = exported_points [OF c(1)]
  have "p \<in> set (cdPoints (exported c)) \<longleftrightarrow> p = sample_point_data" for p
    unfolding e(2) g by (cases p) (auto simp: sample_point_data_def)
  then have "set (cdPoints (exported c)) = {sample_point_data}" by blast
  moreover have "distinct (cdPoints (exported c))" using e(1) distinct_map by blast
  ultimately have p: "cdPoints (exported c) = [sample_point_data]"
    by (metis distinct_card card_insert_disjoint card.empty empty_iff finite.emptyI length_Suc_conv list.set_intros(1) length_0_conv singletonD One_nat_def)
  have x: "exported c = \<lparr>cdConfig = sample_cfg, cdPoints = [sample_point_data]\<rparr>" using p c(2) n by (simp add: exported_def)
  have "archivable sample_lib () Some id ''a'' c" using c(1-3) n c0 p sample_restorable
    by (auto simp: archivable_def sample_cfg_def sample_name MaxNodes_def)
  with x g show ?thesis by auto
qed


end
