(* ===== verification/Spec2Isabelle.thy ===== *)
theory Spec2Isabelle
  imports Prelude Bytes Casts Wal_Properties Payload_Properties Hnsw_Properties Hnsw_Query_Properties
    Point_Properties Cache_Properties Aliases_Properties Auth_Properties Sql_Properties Cluster_Coordination
    Sparse_Properties Collection_Scroll Snapshot_Properties Fsm_Properties
begin

text \<open>
  LimyeDB is a vector database written in Go. A server keeps collections of points (an id, a vector, a JSON
  payload); every change is first written to a write-ahead log, points are stored in a binary format and
  indexed by an HNSW graph for nearest-neighbour search, payload filters restrict searches either in memory or through
  SQL, results are cached, collections can be reached through aliases, and requests carry tokens with
  permissions; a SQL dialect is translated to filters, and nodes form a cluster. This library models that core and proves it correct, or proves what it does instead.

  \<^bold>\<open>Theories and sources.\<close> The model keeps the names of the code; a suffix is added where the name is
  taken in HOL.

  \<^item> \<open>Prelude\<close>, \<open>Bytes\<close>, \<open>Go_Strings\<close>, \<open>Go_Values\<close>: what the code uses of Go. Errors and panics as
    values, checked slicing, maps as association lists, the interface \<open>kv_store\<close>; little-endian integers and
    sequential readers with the interface \<open>seq_codec\<close>; package \<open>strings\<close> on ASCII; float64 comparison and the
    rounding of integers, dynamically typed values with the equality that may panic.
  \<^item> \<open>Casts\<close>: \<open>internal/safecasts/safecasts.go\<close>, all checked and clamping conversions on machine words.
  \<^item> \<open>Crc32\<close>, \<open>Wal_Codec\<close>, \<open>Wal_Log\<close>, \<open>Wal_Refine\<close>, \<open>Wal_Recovery\<close>, \<open>Wal_Async\<close>,
    \<open>Wal_Properties\<close>: \<open>pkg/storage/wal/wal.go\<close>. The record \<open>wal\<close> is the WAL struct with its segment files, each
    split into synced, flushed and buffered bytes; \<open>encodeRecord\<close>, \<open>decodeRecord\<close>, \<open>Write\<close>, \<open>WriteBatch\<close>,
    \<open>rotate\<close>, \<open>Sync\<close>, \<open>Replay\<close>, \<open>Truncate\<close> and \<open>Open\<close> follow the methods; the asynchronous writer is a
    step relation over callers, channel and writer. Shown: the round trip of records, that any single corrupted byte is
    detected, that the log refines a list of records, durability with sync on write, prefixes after a crash, atomic
    batches, the state that opening restores, what truncation keeps and loses, and first-in-first-out delivery in every
    interleaving.
  \<^item> \<open>Payload_Filter\<close>, \<open>Payload_Sql\<close>, \<open>Payload_Facts\<close>, \<open>Payload_Properties\<close>: \<open>pkg/index/payload/filter.go\<close>
    and \<open>index.go\<close>. The filter tree and its evaluator with panics, the builder, the Qdrant translation, the
    validator, and the compilation to parameterised SQL. Shown: the evaluator computes the Boolean formula, comparison on integers and
    where float64 rounding limits it, the translation of Qdrant filters, one argument per placeholder, that no input
    reaches the text of a query, and that LIKE patterns select what the evaluator selects.
  \<^item> \<open>Heap\<close>, \<open>Visited\<close>: the array heap of \<open>container/heap\<close> with the interfaces \<open>weak_order\<close> and
    \<open>priority_queue\<close>; the trackers of \<open>internal/pool/pool.go\<close> and \<open>pkg/index/hnsw/node.go\<close> with the
    interface \<open>visited_tracker\<close>.
  \<^item> \<open>Hnsw_Node\<close>, \<open>Hnsw_Graph\<close>, \<open>Hnsw_Search\<close>, \<open>Hnsw_Insert\<close>, \<open>Hnsw_Properties\<close>:
    \<open>pkg/index/hnsw/node.go\<close> and \<open>hnsw.go\<close>. Insertion, search, neighbour selection and deletion on the array of nodes, with
    the invariant \<open>hnsw_inv\<close> of the graph. Shown: every operation keeps the invariant and never indexes out of
    range, searches are sound, exact when the beam is wide enough, and the greedy walk ends in a local minimum.
  \<^item> \<open>Hnsw_Query\<close>, \<open>Hnsw_Range\<close>, \<open>Hnsw_Query_Facts\<close>, \<open>Hnsw_Query_Properties\<close>:
    \<open>pkg/index/hnsw/search.go\<close>. Filtered search with its adaptive beam, discovery, range search, batches and
    recommendation. Shown: filtered search returns live points that satisfy the filter and, with a wide
    beam, the nearest of them; range search is exact on what can be reached.
  \<^item> \<open>Point_Codec\<close>, \<open>Point_Properties\<close>: \<open>pkg/point/point.go\<close>. The binary format, its round trip and its legacy
    forms, and validation.
  \<^item> \<open>Cache\<close>, \<open>Cache_Facts\<close>, \<open>Cache_Properties\<close>: \<open>pkg/cache/cache.go\<close>. The linked list and the index of the cache as
    a store of cells; shown to refine a list of entries, most recently used first, cut off at the capacity.
  \<^item> \<open>Aliases\<close>, \<open>Aliases_Properties\<close>: \<open>pkg/collection/aliases.go\<close>. The alias table (an instance of
    \<open>kv_store\<close>) and its file; what every operation does to name resolution, and that a restart sees the same names.
  \<^item> \<open>Auth\<close>, \<open>Auth_Properties\<close>: \<open>pkg/auth/rbac.go\<close>, \<open>context.go\<close> and \<open>pkg/cdc/ssrf.go\<close>. Permission checks and the
    screening of webhook addresses.
  \<^item> \<open>Sql_Parser\<close>, \<open>Sql_Query\<close>, \<open>Sql_Facts\<close>, \<open>Sql_Executor\<close>, \<open>Sql_Properties\<close>: \<open>pkg/query/sql_parser.go\<close> and
    what \<open>executor.go\<close> computes around its calls of the collections. Shown: printed WHERE clauses are parsed back, the filter
    built from them selects what they say, the parser never panics; and clauses that are misread.
  \<^item> \<open>Sparse\<close>, \<open>Sparse_Facts\<close>, \<open>Sparse_Properties\<close>: \<open>pkg/index/sparse/sparse.go\<close>. Shown: the inverted index refines a list
    of documents, and its scores are the dot products, rounding included; the binary form is read back; rank fusion.
  \<^item> \<open>Collections\<close>, \<open>Collection_Query\<close>, \<open>Collection_Manager\<close>, \<open>Collection_Facts\<close>, \<open>Collection_Ops\<close>,
    \<open>Collection_Recovery\<close>, \<open>Collection_Properties\<close>, \<open>Collection_Scroll\<close>: \<open>pkg/collection/collection.go\<close>, \<open>manager.go\<close>,
    \<open>recovery.go\<close> and the collection part of \<open>pkg/config/config.go\<close>. A collection is the record of its indexes, its cache and its
    configuration, and the log is passed along beside it; the interface \<open>point_index\<close> says what a collection needs of a vector
    index, and the HNSW index is shown to satisfy it. Shown: the operations refine a map from ids to points with a set of used
    ids, and replaying the log after any sequence of operations leads to the same points; what updates, deleted and renamed
    collections lose; complete scrolling; stale cached searches; and the names that are accepted.
  \<^item> \<open>Snapshot\<close>, \<open>Snapshot_Facts\<close>, \<open>Snapshot_Properties\<close>: \<open>pkg/storage/snapshot/snapshot.go\<close>. The archive format, the writer with the
    file system calls that publish an archive, and the directory as a list of files. Shown: archives are read back, a stopped
    process never leaves a listed snapshot that is incomplete, and pruning keeps the newest ones.
  \<^item> \<open>Collection_Snapshot\<close>, \<open>Cluster_Fsm\<close>, \<open>Fsm_Facts\<close>, \<open>Fsm_Properties\<close>: the snapshots of \<open>pkg/collection/manager.go\<close> and
    the replicated state machine of \<open>pkg/cluster/fsm.go\<close>. Shown: nodes that apply the same entries answer alike and hold the same
    points although their indexes differ, a snapshot of the manager brings its points back, and the restore of a replica always fails.
  \<^item> \<open>Cluster_Ring\<close>, \<open>Cluster_Facts\<close>, \<open>Cluster_Shards\<close>, \<open>Cluster_Properties\<close>, \<open>Cluster_Coordinator\<close>,
    \<open>Cluster_Coordination\<close>: \<open>pkg/cluster/cluster.go\<close>. The ring with its virtual nodes, the distribution of shards and the
    coordinator over a store of nodes. Shown: keys move only to or from the node that comes or goes, replicas are
    distinct and healthy, shards are balanced, and members, rings and shards agree in every reachable state.
  \<^item> \<open>Gossip\<close>, \<open>Gossip_Facts\<close>, \<open>Gossip_Properties\<close>: \<open>pkg/cluster/gossip.go\<close>. The member states with the lock as part of
    the state. Shown: merging takes the maximum of a total order, so replicas converge; joining makes both sides
    agree; the calls that take the lock twice never return.

  \<^bold>\<open>Arguments.\<close> Code outside the repository is an argument of the definitions that call it, with what is
  assumed of it written in the theorems: JSON encoding (reads back what it wrote), \<open>sort.Slice\<close> (a sorted
  permutation), the level drawn by \<open>randomLevel\<close>, the distance function and the quantizer, the clock, the answers
  of the file system, the payload index of a collection, URL parsing and name resolution, SQLite's LIKE operator, gzip, the regular expression engine and \<open>strconv.ParseFloat\<close>, the hash of the ring, the
  transport and the random draws of the gossip rounds, the order in which maps are visited, and the float32 operations of the
  similarity, of the discovery penalty and of sparse scores. Distances are a linear order: NaN distances are outside the model.

  \<^bold>\<open>Loops and termination.\<close> No definition uses fuel. Loops over data are structural; the greedy walk ends because
  the nodes nearer than the current one get fewer, the searches because the unvisited nodes or the candidates do, each
  with its termination proof. The eviction loop of the cache, which does not end for a capacity of zero, is a
  partial function whose divergence is a theorem.

  \<^bold>\<open>Limits.\<close> Strings of the query components are ASCII. The HNSW index is the in-memory configuration: the
  memory-mapped graph and vector pagers, which replace the link lists and vectors of the nodes, are not modelled.
  Operations that run under one lock are one step. Files that fail to open, flush or sync in the log are not
  modelled.

  \<^bold>\<open>Not modelled.\<close> The servers and clients (\<open>api\<close>, \<open>clients\<close>, \<open>cmd\<close>), which translate requests; numeric
  code over floating point (\<open>pkg/distance\<close>, \<open>pkg/quantization\<close>, \<open>pkg/index/ivf\<close>, \<open>diskann\<close>, \<open>scann\<close>, \<open>geo\<close>,
  \<open>pkg/vectorizer\<close>, \<open>pkg/visualization\<close>, \<open>pkg/tuning\<close>, \<open>pkg/autotune\<close>); code that mostly calls the network or the file
  system (\<open>pkg/backup\<close>, \<open>pkg/embedder\<close>, \<open>pkg/reranker\<close>, \<open>pkg/ingestion\<close>, \<open>pkg/realtime\<close>, \<open>pkg/storage/mmap\<close>,
  \<open>s3\<close>, \<open>pkg/security\<close>, \<open>pkg/metrics\<close>). 
\<close>

end
